(* ===== verification/Go_Base.thy ===== *)
theory Go_Base
  imports Main "HOL-Library.Word" "HOL-Library.AList"
begin

unbundle bit_operations_syntax

text \<open>
  The prelude of the development: the machine types of Go, its byte strings, the part of
  the packages \<open>encoding/binary\<close>, \<open>io\<close> and \<open>fmt\<close> the broker uses, readers that
  keep the unread input on success and on failure, and the collections of rewrite rules
  the component theories share.

  Go's \<open>uintN\<close> and \<open>intN\<close> are both \<open>N word\<close>: \<open>unat\<close> or \<open>uint\<close> read the
  unsigned value and \<open>sint\<close> the signed one, and a conversion between the two is the
  identity, as in Go. A byte is an \<open>8 word\<close>, a Go string is a HOL \<open>string\<close>
  (a \<open>char\<close> is one byte, as an element of a Go string is). A byte slice that may be nil
  is an \<open>option\<close>.
\<close>

named_theorems wire_simps \<open>rewrite rules for readers and writers of the wire format\<close>
named_theorems framed_intros \<open>introduction rules for framed readers\<close>

type_synonym byte = "8 word"
type_synonym i8 = "8 word"
type_synonym i16 = "16 word"
type_synonym i32 = "32 word"
type_synonym i64 = "64 word"
type_synonym u16 = "16 word"
type_synonym u32 = "32 word"
type_synonym u64 = "64 word"
type_synonym bytes = "byte list"


lemma unat_bound: "unat (w :: 'a::len word) < 2 ^ LENGTH('a)"
  by (rule unsigned_less)


section \<open>Strings as bytes\<close>

definition bytes_of :: "string \<Rightarrow> bytes" where
  "bytes_of s = map (\<lambda>c. of_nat (of_char c)) s"

definition string_of :: "bytes \<Rightarrow> string" where
  "string_of bs = map (\<lambda>b. char_of (unat b)) bs"

lemma length_bytes_of [simp]: "length (bytes_of s) = length s"
  by (simp add: bytes_of_def)

lemma length_string_of [simp]: "length (string_of bs) = length bs"
  by (simp add: string_of_def)

lemma of_char_less_256: "(of_char c :: nat) < 256"
  by (metis nat_of_char_less_256)

lemma unat_of_char: "unat (of_nat (of_char c) :: byte) = of_char c"
  using of_char_less_256 [of c] by (simp add: unat_of_nat take_bit_eq_mod)

lemma string_of_bytes_of [simp]: "string_of (bytes_of s) = s"
  by (simp add: string_of_def bytes_of_def comp_def unat_of_char map_idI)

lemma bytes_of_eq_Nil [simp]: "bytes_of s = [] \<longleftrightarrow> s = []"
  by (simp add: bytes_of_def)

lemma bytes_of_char_of: "of_nat (of_char (char_of (unat b) :: char)) = (b :: byte)"
proof -
  have "unat b < 256"
    using unat_bound [of b] by simp
  then show ?thesis by simp
qed

lemma bytes_of_string_of [simp]: "bytes_of (string_of bs) = bs"
  using bytes_of_char_of by (simp add: string_of_def bytes_of_def comp_def map_idI)


section \<open>Big-endian integers (encoding/binary)\<close>

primrec be_digits :: "nat \<Rightarrow> nat \<Rightarrow> bytes" where
  "be_digits 0 x = []"
| "be_digits (Suc n) x = of_nat (x div 256 ^ n) # be_digits n x"

primrec be_value :: "bytes \<Rightarrow> nat" where
  "be_value [] = 0"
| "be_value (b # bs) = unat b * 256 ^ length bs + be_value bs"

lemma length_be_digits [simp]: "length (be_digits n x) = n"
  by (induction n) auto

lemma be_value_be_digits: "be_value (be_digits n x) = x mod 256 ^ n"
proof (induction n)
  case 0
  then show ?case by simp
next
  case (Suc n)
  have "unat (of_nat (x div 256 ^ n) :: byte) = x div 256 ^ n mod 256"
    by (simp add: unat_of_nat take_bit_eq_mod)
  then have "be_value (be_digits (Suc n) x) = x div 256 ^ n mod 256 * 256 ^ n + x mod 256 ^ n"
    using Suc by simp
  also have "\<dots> = x mod (256 ^ n * 256)"
    by (simp only: mod_mult2_eq) simp
  finally show ?case by (simp add: mult.commute)
qed

definition PutUint16 :: "u16 \<Rightarrow> bytes" where "PutUint16 v = be_digits 2 (unat v)"
definition PutUint32 :: "u32 \<Rightarrow> bytes" where "PutUint32 v = be_digits 4 (unat v)"
definition PutUint64 :: "u64 \<Rightarrow> bytes" where "PutUint64 v = be_digits 8 (unat v)"
definition Uint16 :: "bytes \<Rightarrow> u16" where "Uint16 bs = of_nat (be_value bs)"
definition Uint32 :: "bytes \<Rightarrow> u32" where "Uint32 bs = of_nat (be_value bs)"
definition Uint64 :: "bytes \<Rightarrow> u64" where "Uint64 bs = of_nat (be_value bs)"

lemma length_PutUint [simp]:
  "length (PutUint16 v16) = 2" "length (PutUint32 v32) = 4" "length (PutUint64 v64) = 8"
  by (simp_all add: PutUint16_def PutUint32_def PutUint64_def)

lemma Uint16_Put [simp]: "Uint16 (PutUint16 v) = v"
  using unat_bound [of v] by (simp add: Uint16_def PutUint16_def be_value_be_digits)

lemma Uint32_Put [simp]: "Uint32 (PutUint32 v) = v"
  using unat_bound [of v] by (simp add: Uint32_def PutUint32_def be_value_be_digits)

lemma Uint64_Put [simp]: "Uint64 (PutUint64 v) = v"
  using unat_bound [of v] by (simp add: Uint64_def PutUint64_def be_value_be_digits)


section \<open>Signed readings of small lengths\<close>

lemma sint_of_nat32:
  assumes "n < 2 ^ 31"
  shows "sint (of_nat n :: 32 word) = int n"
proof -
  have "signed_take_bit 31 (int n) = int n"
    using assms by (intro signed_take_bit_int_eq_self) simp_all
  then show ?thesis
    by (simp add: signed_of_nat)
qed

lemma sint_of_nat16:
  assumes "n < 2 ^ 15"
  shows "sint (of_nat n :: 16 word) = int n"
proof -
  have "signed_take_bit 15 (int n) = int n"
    using assms by (intro signed_take_bit_int_eq_self) simp_all
  then show ?thesis
    by (simp add: signed_of_nat)
qed

lemma sint_of_nat64:
  assumes "n < 2 ^ 63"
  shows "sint (of_nat n :: 64 word) = int n"
proof -
  have "signed_take_bit 63 (int n) = int n"
    using assms by (intro signed_take_bit_int_eq_self) simp_all
  then show ?thesis
    by (simp add: signed_of_nat)
qed

lemma unat_of_nat32: "n < 2 ^ 32 \<Longrightarrow> unat (of_nat n :: 32 word) = n"
  by (simp add: unat_of_nat take_bit_eq_mod)

lemma unat_of_nat64: "n < 2 ^ 64 \<Longrightarrow> unat (of_nat n :: 64 word) = n"
  by (simp add: unat_of_nat take_bit_eq_mod)


section \<open>Errors and readers (io)\<close>

text \<open>
  The errors a reader can report. \<open>Panic\<close> is a Go run-time panic (a slice expression out
  of bounds): it is not an \<open>error\<close> value of the program but ends the goroutine, and with
  it the process, so no caller below handles it.
\<close>

datatype go_error =
    EOF
  | ErrUnexpectedEOF
  | ErrArrayCount i32
  | ErrFieldLength i32
  | ErrText string
  | Panic

text \<open>
  A reader consumes a prefix of the unread bytes. It returns the rest on failure too:
  \<open>bytes.Reader.Len\<close> is inspected after a failed read.
\<close>

type_synonym 'a reader = "bytes \<Rightarrow> (go_error + 'a) \<times> bytes"

definition rd_return :: "'a \<Rightarrow> 'a reader" where
  "rd_return x bs = (Inr x, bs)"

definition rd_fail :: "go_error \<Rightarrow> 'a reader" where
  "rd_fail e bs = (Inl e, bs)"

definition rd_bind :: "'a reader \<Rightarrow> ('a \<Rightarrow> 'b reader) \<Rightarrow> 'b reader" where
  "rd_bind m f bs = (case m bs of (Inl e, bs') \<Rightarrow> (Inl e, bs') | (Inr x, bs') \<Rightarrow> f x bs')"

definition ReadFull :: "nat \<Rightarrow> bytes reader" where
  "ReadFull n bs =
     (if n = 0 then (Inr [], bs)
      else if bs = [] then (Inl EOF, [])
      else if length bs < n then (Inl ErrUnexpectedEOF, [])
      else (Inr (take n bs), drop n bs))"

lemma rd_bind_return [wire_simps]: "rd_bind m f bs = f x bs'" if "m bs = (Inr x, bs')"
  using that by (simp add: rd_bind_def)

lemma rd_bind_fail [wire_simps]: "rd_bind m f bs = (Inl e, bs')" if "m bs = (Inl e, bs')"
  using that by (simp add: rd_bind_def)

lemma rd_return_apply [wire_simps]: "rd_return x bs = (Inr x, bs)"
  by (simp add: rd_return_def)

lemma rd_fail_apply [wire_simps]: "rd_fail e bs = (Inl e, bs)"
  by (simp add: rd_fail_def)

lemma rd_bind_Inr_iff:
  "rd_bind m f bs = (Inr y, bs'') \<longleftrightarrow> (\<exists>x bs'. m bs = (Inr x, bs') \<and> f x bs' = (Inr y, bs''))"
  by (auto simp: rd_bind_def split: prod.splits sum.splits)

lemma ReadFull_append [wire_simps]: "length xs = n \<Longrightarrow> ReadFull n (xs @ rest) = (Inr xs, rest)"
  by (auto simp: ReadFull_def)

lemma ReadFull_rest_le: "ReadFull n bs = (r, bs') \<Longrightarrow> length bs' \<le> length bs"
  by (auto simp: ReadFull_def split: if_splits)

lemma ReadFull_ok: "ReadFull n bs = (Inr xs, bs') \<longleftrightarrow> n \<le> length bs \<and> xs = take n bs \<and> bs' = drop n bs"
  by (auto simp: ReadFull_def)

lemma ReadFull_short: "length bs < n \<Longrightarrow> ReadFull n bs = (Inl (if bs = [] then EOF else ErrUnexpectedEOF), [])"
  by (auto simp: ReadFull_def)

text \<open>A reader never un-reads: what is left is a suffix of the input.\<close>

definition consuming :: "'a reader \<Rightarrow> bool" where
  "consuming m \<longleftrightarrow> (\<forall>bs r bs'. m bs = (r, bs') \<longrightarrow> (\<exists>pre. bs = pre @ bs'))"

lemma consuming_ReadFull [intro]: "consuming (ReadFull n)"
  unfolding consuming_def ReadFull_def
  by (auto split: if_splits) (metis append_take_drop_id)

lemma consuming_return [intro]: "consuming (rd_return x)"
  by (simp add: consuming_def rd_return_def)

lemma consuming_fail [intro]: "consuming (rd_fail e)"
  by (simp add: consuming_def rd_fail_def)

lemma consuming_bind [intro]:
  assumes "consuming m" and "\<And>x. consuming (f x)"
  shows "consuming (rd_bind m f)"
  unfolding consuming_def
proof (intro allI impI)
  fix bs r bs'
  assume run: "rd_bind m f bs = (r, bs')"
  obtain r1 bs1 where m: "m bs = (r1, bs1)"
    by (cases "m bs") auto
  then obtain pre1 where pre1: "bs = pre1 @ bs1"
    using assms(1) unfolding consuming_def by blast
  show "\<exists>pre. bs = pre @ bs'"
  proof (cases r1)
    case (Inl e)
    with m run pre1 show ?thesis by (auto simp: rd_bind_def)
  next
    case (Inr x)
    with m run have "f x bs1 = (r, bs')" by (simp add: rd_bind_def)
    then obtain pre2 where "bs1 = pre2 @ bs'"
      using assms(2) unfolding consuming_def by blast
    with pre1 have "bs = (pre1 @ pre2) @ bs'" by simp
    then show ?thesis ..
  qed
qed


section \<open>Decimal numbers (fmt and strconv)\<close>

definition digit_char :: "nat \<Rightarrow> char" where
  "digit_char d = char_of (48 + d)"

text \<open>The decimal rendering of a natural number, as \<open>fmt\<close>'s \<open>%d\<close> prints it.\<close>

fun show_nat :: "nat \<Rightarrow> string" where
  "show_nat n = (if n < 10 then [digit_char n] else show_nat (n div 10) @ [digit_char (n mod 10)])"

declare show_nat.simps [simp del]

definition show_int :: "int \<Rightarrow> string" where
  "show_int i = (if i < 0 then CHR ''-'' # show_nat (nat (- i)) else show_nat (nat i))"

text \<open>\<open>fmt\<close>'s \<open>%020d\<close> on an unsigned value: zero padding to twenty digits.\<close>

definition pad20 :: "nat \<Rightarrow> string" where
  "pad20 n = replicate (20 - length (show_nat n)) (CHR ''0'') @ show_nat n"

definition is_digit :: "char \<Rightarrow> bool" where
  "is_digit c \<longleftrightarrow> 48 \<le> (of_char c :: nat) \<and> (of_char c :: nat) \<le> 57"

fun digits_value :: "nat \<Rightarrow> string \<Rightarrow> nat" where
  "digits_value acc [] = acc"
| "digits_value acc (c # cs) = digits_value (acc * 10 + (of_char c - 48)) cs"

text \<open>\<open>strconv.ParseUint(s, 10, 64)\<close>: digits only, at least one, no overflow.\<close>

definition ParseUint64 :: "string \<Rightarrow> u64 option" where
  "ParseUint64 s =
     (if s = [] \<or> \<not> list_all is_digit s \<or> 2 ^ 64 \<le> digits_value 0 s then None
      else Some (of_nat (digits_value 0 s)))"

lemma of_char_digit_char: "d < 10 \<Longrightarrow> of_char (digit_char d) = 48 + d"
  by (simp add: digit_char_def)

lemma is_digit_digit_char [simp]: "d < 10 \<Longrightarrow> is_digit (digit_char d)"
  by (simp add: is_digit_def of_char_digit_char)

lemma show_nat_not_Nil [simp]: "show_nat n \<noteq> []"
  by (subst show_nat.simps) simp

lemma show_nat_digits: "list_all is_digit (show_nat n)"
proof (induction n rule: show_nat.induct)
  case (1 n)
  then show ?case by (subst show_nat.simps) simp
qed

lemma digits_value_append:
  "digits_value acc (xs @ ys) = digits_value (digits_value acc xs) ys"
  by (induction xs arbitrary: acc) auto

lemma digits_value_show_nat: "digits_value 0 (show_nat n) = n"
proof (induction n rule: show_nat.induct)
  case (1 n)
  show ?case
  proof (cases "n < 10")
    case True
    then show ?thesis by (subst show_nat.simps) (simp add: of_char_digit_char)
  next
    case False
    with 1 have "digits_value 0 (show_nat (n div 10)) = n div 10" by simp
    with False show ?thesis
      by (subst show_nat.simps) (simp add: digits_value_append of_char_digit_char)
  qed
qed

lemma digits_value_zeros: "digits_value 0 (replicate k (CHR ''0'') @ s) = digits_value 0 s"
  by (induction k) auto

lemma show_nat_inj: "show_nat m = show_nat n \<Longrightarrow> m = n"
  by (metis digits_value_show_nat)

lemma is_digit_zero: "is_digit (CHR ''0'')"
  by (simp add: is_digit_def)

lemma pad20_digits: "list_all is_digit (pad20 n)"
  by (simp add: pad20_def show_nat_digits list_all_iff is_digit_zero)
     (use show_nat_digits [of n] in \<open>auto simp: list_all_iff is_digit_zero\<close>)

lemma digits_value_pad20: "digits_value 0 (pad20 n) = n"
  by (simp add: pad20_def digits_value_zeros digits_value_show_nat)

lemma ParseUint64_pad20: "ParseUint64 (pad20 (unat v)) = Some v"
proof -
  have "unat v < 2 ^ 64" using unat_bound [of v] by simp
  moreover have "pad20 (unat v) \<noteq> []" by (simp add: pad20_def)
  ultimately show ?thesis
    by (simp add: ParseUint64_def pad20_digits digits_value_pad20)
qed

lemma minus_not_digit: "\<not> is_digit (CHR ''-'')"
  by (simp add: is_digit_def)

lemma colon_not_digit: "\<not> is_digit (CHR '':'')"
  by (simp add: is_digit_def)

lemma show_int_inj: "show_int i = show_int j \<Longrightarrow> i = j"
proof -
  assume eq: "show_int i = show_int j"
  have nodash: "show_nat n \<noteq> CHR ''-'' # s" for n s
    using show_nat_digits [of n] minus_not_digit by (cases "show_nat n") auto
  show "i = j"
  proof (cases "i < 0")
    case True
    with eq nodash have "j < 0"
      by (cases "j < 0") (auto simp: show_int_def dest: sym)
    with eq True have "nat (- i) = nat (- j)"
      by (auto simp: show_int_def dest: show_nat_inj)
    with True \<open>j < 0\<close> show ?thesis by linarith
  next
    case False
    with eq nodash have "\<not> j < 0"
      by (cases "j < 0") (auto simp: show_int_def)
    with eq False have "nat i = nat j"
      by (auto simp: show_int_def dest: show_nat_inj)
    with False \<open>\<not> j < 0\<close> show ?thesis by linarith
  qed
qed

end
