(* ===== verification/Wire.thy ===== *)
theory Wire
  imports Go_Base "HOL-Library.Sublist"
begin

text \<open>
  \<open>src/internal/protocol/header.go\<close>: the primitive readers and writers of the wire
  format, the bounds on client-supplied lengths, and the request and response headers.
  A writer appends to a \<open>bytes.Buffer\<close>, which never fails, so it is the function that
  returns the bytes it appends. A nil byte slice and an empty one are both \<open>[]\<close>: no code
  of the package tells them apart.

  The theory states two interfaces the message codecs rely on. \<open>wire_codec\<close> is a pair of
  a writer and a reader with a round trip; it yields the round trip of counted arrays.
  \<open>framed\<close> says that a reader's success depends on the bytes it consumes and on nothing
  after them, and that any proper prefix of those bytes is reported as a truncation.
\<close>

section \<open>Length bounds and array counts\<close>

definition maxProtocolFieldBytes :: nat where
  "maxProtocolFieldBytes = 64 * 1024 * 1024"

definition maxProtocolArrayLen :: nat where
  "maxProtocolArrayLen = 1048576"

definition ReadInt8 :: "i8 reader" where
  "ReadInt8 = rd_bind (ReadFull 1) (\<lambda>buf. rd_return (hd buf))"

definition ReadInt16 :: "i16 reader" where
  "ReadInt16 = rd_bind (ReadFull 2) (\<lambda>buf. rd_return (Uint16 buf))"

definition ReadInt32 :: "i32 reader" where
  "ReadInt32 = rd_bind (ReadFull 4) (\<lambda>buf. rd_return (Uint32 buf))"

definition ReadInt64 :: "i64 reader" where
  "ReadInt64 = rd_bind (ReadFull 8) (\<lambda>buf. rd_return (Uint64 buf))"

definition ReadArrayCount :: "i32 reader" where
  "ReadArrayCount = rd_bind ReadInt32 (\<lambda>count.
     if sint count < 0 then rd_return 0
     else if int maxProtocolArrayLen < sint count then rd_fail (ErrArrayCount count)
     else rd_return count)"

text \<open>\<open>make([]T, n)\<close> panics if \<open>n\<close> is negative; \<open>ReadSlice\<close> fills a byte slice so made.\<close>

definition makeSlice :: "int \<Rightarrow> unit reader" where
  "makeSlice n = (if n < 0 then rd_fail Panic else rd_return ())"

definition ReadSlice :: "int \<Rightarrow> bytes reader" where
  "ReadSlice n = rd_bind (makeSlice n) (\<lambda>_. ReadFull (nat n))"

lemma ReadSlice_nat: "ReadSlice (int n) = ReadFull n"
  by (rule ext) (simp add: ReadSlice_def makeSlice_def rd_bind_def rd_return_def)

definition ReadString :: "string reader" where
  "ReadString = rd_bind ReadInt16 (\<lambda>len.
     if sint len \<le> 0 then rd_return ''''
     else rd_bind (ReadSlice (sint len)) (\<lambda>buf. rd_return (string_of buf)))"

definition ReadNullableString :: "string option reader" where
  "ReadNullableString = rd_bind ReadInt16 (\<lambda>len.
     if sint len < 0 then rd_return None
     else if len = 0 then rd_return (Some '''')
     else rd_bind (ReadSlice (sint len)) (\<lambda>buf. rd_return (Some (string_of buf))))"

definition ReadBytes :: "bytes reader" where
  "ReadBytes = rd_bind ReadInt32 (\<lambda>len.
     if sint len \<le> 0 then rd_return []
     else if int maxProtocolFieldBytes < sint len then rd_fail (ErrFieldLength len)
     else ReadSlice (sint len))"

text \<open>A loop that reads a fixed number of elements into a slice.\<close>

primrec rd_repeat :: "nat \<Rightarrow> 'a reader \<Rightarrow> 'a list reader" where
  "rd_repeat 0 m = rd_return []"
| "rd_repeat (Suc n) m = rd_bind m (\<lambda>x. rd_bind (rd_repeat n m) (\<lambda>xs. rd_return (x # xs)))"

text \<open>
  The two shapes of an array decoder, a bounded count and then that many elements:
  \<open>produce.go\<close>, \<open>fetch.go\<close> and \<open>metadata.go\<close> make the slice only for a positive count,
  \<open>group.go\<close>, \<open>offset.go\<close> and \<open>transaction.go\<close> for every count, so that only the bound in
  \<open>ReadArrayCount\<close> keeps them from a panic.
\<close>

definition ReadArray :: "'a reader \<Rightarrow> 'a list reader" where
  "ReadArray m = rd_bind ReadArrayCount (\<lambda>count.
     if 0 < sint count then rd_bind (makeSlice (sint count)) (\<lambda>_. rd_repeat (nat (sint count)) m)
     else rd_return [])"

definition ReadMadeArray :: "'a reader \<Rightarrow> 'a list reader" where
  "ReadMadeArray m = rd_bind ReadArrayCount (\<lambda>count.
     rd_bind (makeSlice (sint count)) (\<lambda>_. rd_repeat (nat (sint count)) m))"


section \<open>Writers\<close>

definition WriteInt8 :: "i8 \<Rightarrow> bytes" where
  "WriteInt8 v = [v]"

definition WriteInt16 :: "i16 \<Rightarrow> bytes" where
  "WriteInt16 v = PutUint16 v"

definition WriteInt32 :: "i32 \<Rightarrow> bytes" where
  "WriteInt32 v = PutUint32 v"

definition WriteInt64 :: "i64 \<Rightarrow> bytes" where
  "WriteInt64 v = PutUint64 v"

definition WriteString :: "string \<Rightarrow> bytes" where
  "WriteString val =
     (if length val = 0 then WriteInt16 0
      else WriteInt16 (of_nat (length val)) @ bytes_of val)"

definition WriteNullableString :: "string option \<Rightarrow> bytes" where
  "WriteNullableString val = (case val of None \<Rightarrow> WriteInt16 (-1) | Some s \<Rightarrow> WriteString s)"

definition WriteBytes :: "bytes \<Rightarrow> bytes" where
  "WriteBytes val =
     (if length val = 0 then WriteInt32 0
      else WriteInt32 (of_nat (length val)) @ val)"

definition WriteArray :: "('a \<Rightarrow> bytes) \<Rightarrow> 'a list \<Rightarrow> bytes" where
  "WriteArray w xs = WriteInt32 (of_nat (length xs)) @ concat (map w xs)"


section \<open>The interface of a codec\<close>

locale wire_codec =
  fixes enc :: "'a \<Rightarrow> bytes"
    and dec :: "'a reader"
    and ok :: "'a \<Rightarrow> bool"
  assumes dec_enc: "ok x \<Longrightarrow> dec (enc x @ rest) = (Inr x, rest)"
begin

lemma dec_enc_exact: "ok x \<Longrightarrow> dec (enc x) = (Inr x, [])"
  using dec_enc [of x "[]"] by simp

text \<open>Encodings are unambiguous in a stream: equal streams start with equal values.\<close>

lemma enc_stream_inj: "ok x \<Longrightarrow> ok y \<Longrightarrow> enc x @ r = enc y @ s \<Longrightarrow> x = y \<and> r = s"
  by (metis dec_enc Pair_inject sum.inject(2))

lemma repeat_enc:
  "list_all ok xs \<Longrightarrow> rd_repeat (length xs) dec (concat (map enc xs) @ rest) = (Inr xs, rest)"
proof (induction xs)
  case Nil
  then show ?case by (simp add: wire_simps)
next
  case (Cons x xs)
  then have "dec (enc x @ concat (map enc xs) @ rest) = (Inr x, concat (map enc xs) @ rest)"
    by (simp add: dec_enc)
  with Cons show ?case
    by (simp add: rd_bind_def rd_return_def)
qed

end

definition small_list :: "'a list \<Rightarrow> bool" where
  "small_list xs \<longleftrightarrow> length xs \<le> maxProtocolArrayLen"

definition small_string :: "string \<Rightarrow> bool" where
  "small_string s \<longleftrightarrow> length s < 2 ^ 15"

definition small_bytes :: "bytes \<Rightarrow> bool" where
  "small_bytes bs \<longleftrightarrow> length bs \<le> maxProtocolFieldBytes"

abbreviation any :: "'a \<Rightarrow> bool" where
  "any x \<equiv> True"

text \<open>Round trips of the primitives.\<close>

interpretation int8: wire_codec WriteInt8 ReadInt8 any
  by unfold_locales (simp add: ReadInt8_def WriteInt8_def wire_simps rd_bind_def ReadFull_def)

interpretation int16: wire_codec WriteInt16 ReadInt16 any
  by unfold_locales (simp add: ReadInt16_def WriteInt16_def rd_bind_def ReadFull_append rd_return_def)

interpretation int32: wire_codec WriteInt32 ReadInt32 any
  by unfold_locales (simp add: ReadInt32_def WriteInt32_def rd_bind_def ReadFull_append rd_return_def)

interpretation int64: wire_codec WriteInt64 ReadInt64 any
  by unfold_locales (simp add: ReadInt64_def WriteInt64_def rd_bind_def ReadFull_append rd_return_def)

lemmas prim_codecs [wire_simps] = int8.dec_enc int16.dec_enc int32.dec_enc int64.dec_enc

lemma ReadString_WriteString: "small_string s \<Longrightarrow> ReadString (WriteString s @ rest) = (Inr s, rest)"
  using sint_of_nat16 [of "length s"]
  by (auto simp: small_string_def ReadString_def WriteString_def rd_bind_def prim_codecs
      rd_return_def ReadSlice_nat ReadFull_append)

interpretation str: wire_codec WriteString ReadString small_string
  by unfold_locales (rule ReadString_WriteString)

lemma ReadBytes_WriteBytes: "small_bytes bs \<Longrightarrow> ReadBytes (WriteBytes bs @ rest) = (Inr bs, rest)"
  using sint_of_nat32 [of "length bs"]
  by (auto simp: small_bytes_def maxProtocolFieldBytes_def ReadBytes_def WriteBytes_def rd_bind_def
      prim_codecs rd_return_def ReadSlice_nat ReadFull_append)

interpretation byt: wire_codec WriteBytes ReadBytes small_bytes
  by unfold_locales (rule ReadBytes_WriteBytes)

definition small_string_opt :: "string option \<Rightarrow> bool" where
  "small_string_opt s = (case s of None \<Rightarrow> True | Some t \<Rightarrow> small_string t)"

lemma of_nat16_eq_0: "n < 2 ^ 15 \<Longrightarrow> (of_nat n :: 16 word) = 0 \<longleftrightarrow> n = 0"
  by (auto simp: word_of_nat_eq_0_iff dest: dvd_imp_le)

lemma ReadNullable_WriteNullable:
  assumes "small_string_opt v"
  shows "ReadNullableString (WriteNullableString v @ rest) = (Inr v, rest)"
proof (cases v)
  case None
  then show ?thesis
    by (simp add: ReadNullableString_def WriteNullableString_def rd_bind_def prim_codecs rd_return_def)
next
  case (Some s)
  with assms have "length s < 2 ^ 15" by (simp add: small_string_opt_def small_string_def)
  with Some show ?thesis
    using sint_of_nat16 [of "length s"] of_nat16_eq_0 [of "length s"]
    by (auto simp: ReadNullableString_def WriteNullableString_def WriteString_def rd_bind_def
        prim_codecs rd_return_def ReadSlice_nat ReadFull_append)
qed

interpretation nstr: wire_codec WriteNullableString ReadNullableString small_string_opt
  by unfold_locales (rule ReadNullable_WriteNullable)

lemmas value_codecs [wire_simps] = str.dec_enc byt.dec_enc nstr.dec_enc

lemmas codec_simps = rd_bind_def rd_return_def prim_codecs value_codecs

lemma ReadArrayCount_Write [wire_simps]:
  assumes "n \<le> maxProtocolArrayLen"
  shows "ReadArrayCount (WriteInt32 (of_nat n) @ rest) = (Inr (of_nat n), rest)"
  using assms sint_of_nat32 [of n]
  by (auto simp: maxProtocolArrayLen_def ReadArrayCount_def rd_bind_def prim_codecs rd_return_def)

text \<open>A codec for the elements gives one for arrays of them.\<close>

context wire_codec
begin

lemma array_enc:
  assumes "small_list xs" and "list_all ok xs"
  shows "ReadArray dec (WriteArray enc xs @ rest) = (Inr xs, rest)"
    and "ReadMadeArray dec (WriteArray enc xs @ rest) = (Inr xs, rest)"
proof -
  have "nat (sint (of_nat (length xs) :: i32)) = length xs"
    using assms(1) sint_of_nat32 [of "length xs"]
    by (simp add: small_list_def maxProtocolArrayLen_def)
  moreover have "0 \<le> sint (of_nat (length xs) :: i32)"
    using assms(1) sint_of_nat32 [of "length xs"]
    by (simp add: small_list_def maxProtocolArrayLen_def)
  ultimately show "ReadArray dec (WriteArray enc xs @ rest) = (Inr xs, rest)"
    and "ReadMadeArray dec (WriteArray enc xs @ rest) = (Inr xs, rest)"
    using assms repeat_enc [OF assms(2), of rest]
    by (auto simp: ReadArray_def ReadMadeArray_def WriteArray_def rd_bind_def ReadArrayCount_Write small_list_def
        makeSlice_def rd_return_def)
qed

end


section \<open>Framed readers\<close>

definition truncation :: "go_error \<Rightarrow> bool" where
  "truncation e \<longleftrightarrow> e = EOF \<or> e = ErrUnexpectedEOF"

text \<open>
  What a successful run consumed determines the result, whatever follows; a proper prefix
  of it is a truncated message, and the reader says so after reading it all. No run panics.
\<close>

definition framed :: "'a reader \<Rightarrow> bool" where
  "framed m \<longleftrightarrow>
     (\<forall>bs x rest. m bs = (Inr x, rest) \<longrightarrow>
        (\<exists>c. bs = c @ rest \<and> (\<forall>rest'. m (c @ rest') = (Inr x, rest')) \<and>
             (\<forall>p. strict_prefix p c \<longrightarrow> (\<exists>e. m p = (Inl e, []) \<and> truncation e)))) \<and>
     (\<forall>bs rest. m bs \<noteq> (Inl Panic, rest))"

lemma framedD:
  assumes "framed m" and "m bs = (Inr x, rest)"
  obtains c where "bs = c @ rest" and "\<And>rest'. m (c @ rest') = (Inr x, rest')"
    and "\<And>p. strict_prefix p c \<Longrightarrow> \<exists>e. m p = (Inl e, []) \<and> truncation e"
  using assms unfolding framed_def by metis

lemma framed_no_panic: "framed m \<Longrightarrow> m bs \<noteq> (Inl Panic, rest)"
  by (simp add: framed_def)

lemma framed_return [framed_intros]: "framed (rd_return x)"
  by (auto simp: framed_def rd_return_def)

lemma framed_fail: "e \<noteq> Panic \<Longrightarrow> framed (rd_fail e)"
  by (auto simp: framed_def rd_fail_def)

lemma framed_fail_length [framed_intros]:
  "framed (rd_fail (ErrArrayCount c))" "framed (rd_fail (ErrFieldLength c))"
  by (simp_all add: framed_fail)

lemma framed_ReadFull [framed_intros]: "framed (ReadFull n)"
  unfolding framed_def
proof (intro conjI allI impI)
  fix bs x rest
  assume "ReadFull n bs = (Inr x, rest)"
  then have ok: "n \<le> length bs" "x = take n bs" "rest = drop n bs"
    by (simp_all add: ReadFull_ok)
  have "\<exists>e. ReadFull n p = (Inl e, []) \<and> truncation e" if "strict_prefix p (take n bs)" for p
  proof -
    have "length p < n"
      using prefix_length_less [OF that] ok(1) by simp
    then show ?thesis
      by (simp add: ReadFull_short truncation_def)
  qed
  moreover have "ReadFull n (take n bs @ rest') = (Inr x, rest')" for rest'
    using ok by (simp add: ReadFull_append)
  ultimately show "\<exists>c. bs = c @ rest \<and> (\<forall>rest'. ReadFull n (c @ rest') = (Inr x, rest')) \<and>
      (\<forall>p. strict_prefix p c \<longrightarrow> (\<exists>e. ReadFull n p = (Inl e, []) \<and> truncation e))"
    using ok(3) by (intro exI [of _ "take n bs"]) simp
next
  show "ReadFull n bs \<noteq> (Inl Panic, rest)" for bs rest
    by (simp add: ReadFull_def)
qed

lemma strict_prefix_append_cases:
  assumes "strict_prefix p (c1 @ c2)"
  obtains "strict_prefix p c1" | q where "p = c1 @ q" and "strict_prefix q c2"
proof -
  have "prefix p (c1 @ c2)" using assms by (simp add: strict_prefix_def)
  then consider "prefix p c1" | q where "p = c1 @ q" "prefix q c2"
    by (auto simp: prefix_append)
  then show thesis
  proof cases
    case 1
    show thesis
    proof (cases "p = c1")
      case True
      with assms that(2) [of "[]"] show thesis by (simp add: strict_prefix_def)
    next
      case False
      with 1 that(1) show thesis by (simp add: strict_prefix_def)
    qed
  next
    case (2 q)
    with assms that(2) [of q] show thesis by (auto simp: strict_prefix_def)
  qed
qed

lemma framed_bind [framed_intros]:
  assumes m: "framed m" and f: "\<And>x. framed (f x)"
  shows "framed (rd_bind m f)"
  unfolding framed_def
proof (intro conjI allI impI)
  fix bs y rest
  assume "rd_bind m f bs = (Inr y, rest)"
  then obtain x mid where x: "m bs = (Inr x, mid)" and y: "f x mid = (Inr y, rest)"
    by (auto simp: rd_bind_Inr_iff)
  from framedD [OF m x] obtain c1 where c1: "bs = c1 @ mid"
    "\<And>r. m (c1 @ r) = (Inr x, r)"
    "\<And>p. strict_prefix p c1 \<Longrightarrow> \<exists>e. m p = (Inl e, []) \<and> truncation e" by metis
  from framedD [OF f y] obtain c2 where c2: "mid = c2 @ rest"
    "\<And>r. f x (c2 @ r) = (Inr y, r)"
    "\<And>p. strict_prefix p c2 \<Longrightarrow> \<exists>e. f x p = (Inl e, []) \<and> truncation e" by metis
  have "\<exists>e. rd_bind m f p = (Inl e, []) \<and> truncation e" if "strict_prefix p (c1 @ c2)" for p
    using that
  proof (cases rule: strict_prefix_append_cases)
    case 1
    with c1(3) show ?thesis by (metis rd_bind_fail)
  next
    case (2 q)
    with c1(2) [of q] c2(3) [of q] show ?thesis by (simp add: rd_bind_def)
  qed
  moreover have "rd_bind m f ((c1 @ c2) @ r) = (Inr y, r)" for r
    using c1(2) [of "c2 @ r"] c2(2) [of r] by (simp add: rd_bind_def)
  ultimately show "\<exists>c. bs = c @ rest \<and> (\<forall>rest'. rd_bind m f (c @ rest') = (Inr y, rest')) \<and>
      (\<forall>p. strict_prefix p c \<longrightarrow> (\<exists>e. rd_bind m f p = (Inl e, []) \<and> truncation e))"
    using c1(1) c2(1) by (intro exI [of _ "c1 @ c2"]) simp
next
  fix bs rest
  show "rd_bind m f bs \<noteq> (Inl Panic, rest)"
    using framed_no_panic [OF m] framed_no_panic [OF f]
    by (auto simp: rd_bind_def split: prod.splits sum.splits)
qed

lemma framed_if [framed_intros]: "(P \<Longrightarrow> framed a) \<Longrightarrow> (\<not> P \<Longrightarrow> framed b) \<Longrightarrow> framed (if P then a else b)"
  by simp

lemma framed_ReadSlice [framed_intros]: "0 \<le> n \<Longrightarrow> framed (ReadSlice n)"
  unfolding ReadSlice_def makeSlice_def by (simp add: framed_intros)

lemma framed_repeat [framed_intros]: "framed m \<Longrightarrow> framed (rd_repeat n m)"
  by (induction n) (simp_all add: framed_intros)

lemma framed_prims [framed_intros]:
  "framed ReadInt8" "framed ReadInt16" "framed ReadInt32" "framed ReadInt64"
  unfolding ReadInt8_def ReadInt16_def ReadInt32_def ReadInt64_def by (intro framed_intros)+

lemma framed_values [framed_intros]:
  "framed ReadArrayCount" "framed ReadString" "framed ReadNullableString" "framed ReadBytes"
  unfolding ReadArrayCount_def ReadString_def ReadNullableString_def ReadBytes_def
  by (intro framed_intros; simp)+

text \<open>A count that was accepted is not negative, so the slice can be made.\<close>

lemma ReadArrayCount_bounds:
  "ReadArrayCount bs = (Inr n, rest) \<Longrightarrow> 0 \<le> sint n \<and> sint n \<le> int maxProtocolArrayLen"
  by (auto simp: ReadArrayCount_def rd_bind_Inr_iff rd_return_def rd_fail_def split: if_splits)

definition unless_negative :: "i32 \<Rightarrow> 'a reader \<Rightarrow> 'a reader" where
  "unless_negative count m = (if sint count < 0 then rd_fail EOF else m)"

lemma counted_array:
  assumes "\<And>count. 0 \<le> sint count \<Longrightarrow> framed (f count)"
  shows "framed (rd_bind ReadArrayCount f)"
proof -
  have "rd_bind ReadArrayCount f = rd_bind ReadArrayCount (\<lambda>count. unless_negative count (f count))"
    by (rule ext) (auto simp: rd_bind_def unless_negative_def dest: ReadArrayCount_bounds split: prod.split sum.split)
  moreover have "framed (unless_negative count (f count))" for count
    using assms by (simp add: unless_negative_def framed_fail)
  ultimately show ?thesis by (simp add: framed_bind framed_values)
qed

lemma framed_ReadArray [framed_intros]: "framed m \<Longrightarrow> framed (ReadArray m)" "framed m \<Longrightarrow> framed (ReadMadeArray m)"
  unfolding ReadArray_def ReadMadeArray_def
  by (intro counted_array; simp add: makeSlice_def framed_intros)+

text \<open>
  A message codec: the round trip of \<open>wire_codec\<close> and a framed reader. Its clients learn
  that a cut-off message is never taken for a shorter one.
\<close>

locale framed_codec = wire_codec +
  assumes dec_framed: "framed dec"
begin

lemma truncated:
  assumes "ok x" and "strict_prefix p (enc x)"
  shows "\<exists>e. dec p = (Inl e, []) \<and> truncation e"
proof -
  from framedD [OF dec_framed dec_enc_exact [OF assms(1)]] obtain c where
    "enc x = c" and "\<And>q. strict_prefix q c \<Longrightarrow> \<exists>e. dec q = (Inl e, []) \<and> truncation e"
    by (metis append_Nil2)
  with assms(2) show ?thesis by blast
qed

lemma array_framed_codec:
  "framed_codec (WriteArray enc) (ReadArray dec) (\<lambda>xs. small_list xs \<and> list_all ok xs)"
  by unfold_locales (simp_all add: array_enc dec_framed framed_intros)

end


section \<open>Request and response headers\<close>

definition ApiKeyProduce :: i16 where "ApiKeyProduce = 0"
definition ApiKeyFetch :: i16 where "ApiKeyFetch = 1"
definition ApiKeyMetadata :: i16 where "ApiKeyMetadata = 3"
definition ApiKeyOffsetCommit :: i16 where "ApiKeyOffsetCommit = 8"
definition ApiKeyOffsetFetch :: i16 where "ApiKeyOffsetFetch = 9"
definition ApiKeyGroupCoordinator :: i16 where "ApiKeyGroupCoordinator = 10"
definition ApiKeyJoinGroup :: i16 where "ApiKeyJoinGroup = 11"
definition ApiKeyHeartbeat :: i16 where "ApiKeyHeartbeat = 12"
definition ApiKeyLeaveGroup :: i16 where "ApiKeyLeaveGroup = 13"
definition ApiKeySyncGroup :: i16 where "ApiKeySyncGroup = 14"
definition ApiKeySaslHandshake :: i16 where "ApiKeySaslHandshake = 17"
definition ApiKeyApiVersions :: i16 where "ApiKeyApiVersions = 18"
definition ApiKeyInitProducerId :: i16 where "ApiKeyInitProducerId = 22"
definition ApiKeyAddPartitionsToTxn :: i16 where "ApiKeyAddPartitionsToTxn = 24"
definition ApiKeyEndTxn :: i16 where "ApiKeyEndTxn = 26"
definition ApiKeySaslAuthenticate :: i16 where "ApiKeySaslAuthenticate = 36"

lemmas ApiKey_defs =
  ApiKeyProduce_def ApiKeyFetch_def ApiKeyMetadata_def ApiKeyOffsetCommit_def
  ApiKeyOffsetFetch_def ApiKeyGroupCoordinator_def ApiKeyJoinGroup_def ApiKeyHeartbeat_def
  ApiKeyLeaveGroup_def ApiKeySyncGroup_def ApiKeySaslHandshake_def ApiKeyApiVersions_def
  ApiKeyInitProducerId_def ApiKeyAddPartitionsToTxn_def ApiKeyEndTxn_def
  ApiKeySaslAuthenticate_def

record RequestHeader =
  ApiKey :: i16
  ApiVersion :: i16
  CorrelationId :: i32
  ClientId :: string

record ResponseHeader =
  rh_CorrelationId :: i32

definition DecodeRequestHeader :: "RequestHeader reader" where
  "DecodeRequestHeader =
     rd_bind ReadInt16 (\<lambda>apiKey.
     rd_bind ReadInt16 (\<lambda>apiVersion.
     rd_bind ReadInt32 (\<lambda>correlationId.
     rd_bind ReadString (\<lambda>clientId.
     rd_return \<lparr>ApiKey = apiKey, ApiVersion = apiVersion, CorrelationId = correlationId,
                ClientId = clientId\<rparr>))))"

definition EncodeResponseHeader :: "ResponseHeader \<Rightarrow> bytes" where
  "EncodeResponseHeader header = WriteInt32 (rh_CorrelationId header)"

definition EncodeRequestHeader :: "RequestHeader \<Rightarrow> bytes" where
  "EncodeRequestHeader header =
     WriteInt16 (ApiKey header) @ WriteInt16 (ApiVersion header) @
     WriteInt32 (CorrelationId header) @ WriteString (ClientId header)"

definition header_ok :: "RequestHeader \<Rightarrow> bool" where
  "header_ok h \<longleftrightarrow> small_string (ClientId h)"

lemma framed_DecodeRequestHeader [framed_intros]: "framed DecodeRequestHeader"
  unfolding DecodeRequestHeader_def by (intro framed_intros)

interpretation hdr: framed_codec EncodeRequestHeader DecodeRequestHeader header_ok
  by unfold_locales
    (simp_all add: header_ok_def EncodeRequestHeader_def DecodeRequestHeader_def codec_simps
      framed_intros)

end
