(* ===== verification/Log_Record.thy ===== *)
theory Log_Record
  imports Wire
begin

text \<open>
  \<open>src/internal/storage/record.go\<close> and \<open>transaction_marker.go\<close>: the record stored on
  disk, its binary form, the reader of one record and the loop that reads records until
  the input ends (the loop of \<open>ParseRecordStream\<close> in \<open>cleaner.go\<close>, of
  \<open>Segment.Read\<close> and of \<open>Segment.recoverState\<close>).

  A nil key or value is \<open>None\<close> and an empty one \<open>Some []\<close>: \<open>Marshal\<close> writes the
  lengths -1 and 0 for them. A slice expression out of range is a run-time panic.
\<close>

record Record =
  Offset :: u64
  Timestamp :: i64
  Key :: "bytes option"
  Value :: "bytes option"

section \<open>Marshal\<close>

definition fieldLen :: "bytes option \<Rightarrow> i32" where
  "fieldLen f = (case f of None \<Rightarrow> -1 | Some bs \<Rightarrow> of_nat (length bs))"

definition payload :: "bytes option \<Rightarrow> bytes" where
  "payload f =
     (let n = fieldLen f
      in if 0 < sint n then take (nat (sint n)) (case f of None \<Rightarrow> [] | Some bs \<Rightarrow> bs) else [])"

definition recordSize :: "Record \<Rightarrow> nat" where
  "recordSize r =
     (let keyLen = fieldLen (Key r); valueLen = fieldLen (Value r)
      in 8 + 8 + 4 + 4 + (if 0 < sint keyLen then nat (sint keyLen) else 0)
         + (if 0 < sint valueLen then nat (sint valueLen) else 0))"

definition Marshal :: "Record \<Rightarrow> bytes" where
  "Marshal r =
     PutUint32 (of_nat (recordSize r)) @
     PutUint64 (Offset r) @ PutUint64 (Timestamp r) @
     PutUint32 (fieldLen (Key r)) @ payload (Key r) @
     PutUint32 (fieldLen (Value r)) @ payload (Value r)"


section \<open>ReadRecord\<close>

definition go_slice :: "bytes \<Rightarrow> nat \<Rightarrow> nat \<Rightarrow> bytes option" where
  "go_slice b lo hi = (if lo \<le> hi \<and> hi \<le> length b then Some (take (hi - lo) (drop lo b)) else None)"

definition readValue :: "bytes \<Rightarrow> nat \<Rightarrow> go_error + bytes option" where
  "readValue recordBuf cur =
     (if length recordBuf < cur + 4
      then Inl (ErrText ''corrupted record: invalid buffer boundaries'')
      else let valueLen = Uint32 (take 4 (drop cur recordBuf))
           in if 0 \<le> sint valueLen
              then if length recordBuf < cur + 4 + nat (sint valueLen)
                   then Inl (ErrText ''corrupted record: value size exceeds buffer'')
                   else Inr (Some (take (nat (sint valueLen)) (drop (cur + 4) recordBuf)))
              else Inr None)"

definition parseRecord :: "u32 \<Rightarrow> bytes \<Rightarrow> go_error + (Record \<times> int)" where
  "parseRecord sz recordBuf =
     (case (go_slice recordBuf 0 8, go_slice recordBuf 8 16, go_slice recordBuf 16 20) of
        (Some offB, Some tsB, Some keyLenB) \<Rightarrow>
          (let keyLen = Uint32 keyLenB;
               finish = (\<lambda>key cur.
                 (case readValue recordBuf cur of
                    Inl e \<Rightarrow> Inl e
                  | Inr value \<Rightarrow>
                      Inr (\<lparr>Offset = Uint64 offB, Timestamp = Uint64 tsB, Key = key, Value = value\<rparr>,
                           uint (4 + sz))))
           in if 0 \<le> sint keyLen
              then (case go_slice recordBuf 20 (20 + nat (sint keyLen)) of
                      None \<Rightarrow> Inl Panic
                    | Some key \<Rightarrow> finish (Some key) (20 + nat (sint keyLen)))
              else finish None 20)
      | _ \<Rightarrow> Inl Panic)"

definition rd_lift :: "go_error + 'a \<Rightarrow> 'a reader" where
  "rd_lift r bs = (r, bs)"

definition ReadRecord :: "(Record \<times> int) reader" where
  "ReadRecord =
     rd_bind (ReadFull 4) (\<lambda>lenBuf.
     let sz = Uint32 lenBuf
     in rd_bind (ReadFull (unat sz)) (\<lambda>recordBuf. rd_lift (parseRecord sz recordBuf)))"

text \<open>Control records that end a transaction.\<close>

definition ControlMarkerCommit :: byte where "ControlMarkerCommit = 0x01"
definition ControlMarkerAbort :: byte where "ControlMarkerAbort = 0x02"

definition NewControlRecord :: "i64 \<Rightarrow> byte \<Rightarrow> Record" where
  "NewControlRecord now markerType =
     \<lparr>Offset = 0, Timestamp = now, Key = Some (bytes_of ''__control_marker__''),
      Value = Some [markerType]\<rparr>"

definition IsControlRecord :: "Record option \<Rightarrow> bool" where
  "IsControlRecord r =
     (case r of None \<Rightarrow> False
      | Some rec \<Rightarrow> (case Key rec of None \<Rightarrow> [] | Some k \<Rightarrow> k) = bytes_of ''__control_marker__'')"


section \<open>The reading loop\<close>

lemma ReadRecord_ok:
  assumes "ReadRecord bs = (Inr x, bs')"
  shows "4 + unat (Uint32 (take 4 bs)) \<le> length bs"
    and "bs' = drop (4 + unat (Uint32 (take 4 bs))) bs"
    and "parseRecord (Uint32 (take 4 bs)) (take (unat (Uint32 (take 4 bs))) (drop 4 bs)) = Inr x"
  using assms
  by (auto simp: ReadRecord_def rd_bind_Inr_iff Let_def ReadFull_ok rd_lift_def add.commute)

lemma ReadRecord_consumes: "ReadRecord bs = (Inr x, bs') \<Longrightarrow> length bs' < length bs"
  using ReadRecord_ok [of bs x bs'] by simp

function ReadAll :: "bytes \<Rightarrow> (go_error + (Record \<times> int) list) \<times> bytes" where
  "ReadAll bs =
     (case ReadRecord bs of
        (Inl e, bs') \<Rightarrow> (if e = EOF \<or> e = ErrUnexpectedEOF then (Inr [], bs') else (Inl e, bs'))
      | (Inr x, bs') \<Rightarrow>
          (case ReadAll bs' of
             (Inl e, bs'') \<Rightarrow> (Inl e, bs'')
           | (Inr xs, bs'') \<Rightarrow> (Inr (x # xs), bs'')))"
  by pat_completeness auto
termination
  by (relation "measure length") (auto dest: ReadRecord_consumes [OF sym])

declare ReadAll.simps [simp del]

definition ParseRecordStream :: "bytes \<Rightarrow> go_error + Record list" where
  "ParseRecordStream bs =
     (case fst (ReadAll bs) of Inl e \<Rightarrow> Inl e | Inr xs \<Rightarrow> Inr (map fst xs))"


section \<open>Round trip\<close>

definition optLen :: "bytes option \<Rightarrow> nat" where
  "optLen f = (case f of None \<Rightarrow> 0 | Some bs \<Rightarrow> length bs)"

text \<open>
  A record whose lengths fit their fields: key and value below \<open>2 ^ 31\<close> bytes and the
  whole form below \<open>2 ^ 32\<close>.
\<close>

definition record_ok :: "Record \<Rightarrow> bool" where
  "record_ok r \<longleftrightarrow> optLen (Key r) < 2 ^ 31 \<and> optLen (Value r) < 2 ^ 31 \<and>
     28 + optLen (Key r) + optLen (Value r) < 2 ^ 32"

lemma sint_fieldLen:
  assumes "optLen f < 2 ^ 31"
  shows "sint (fieldLen f) = (case f of None \<Rightarrow> -1 | Some bs \<Rightarrow> int (length bs))"
  using assms by (cases f) (simp_all add: fieldLen_def optLen_def sint_of_nat32)

lemma payload_small:
  assumes "optLen f < 2 ^ 31"
  shows "payload f = (case f of None \<Rightarrow> [] | Some bs \<Rightarrow> bs)"
  using sint_fieldLen [OF assms] by (cases f) (auto simp: payload_def Let_def)

lemma recordSize_small:
  assumes "record_ok r"
  shows "recordSize r = 24 + optLen (Key r) + optLen (Value r)"
  using assms sint_fieldLen [of "Key r"] sint_fieldLen [of "Value r"]
  by (auto simp: recordSize_def record_ok_def Let_def optLen_def split: option.splits)

lemma length_payload_small: "optLen f < 2 ^ 31 \<Longrightarrow> length (payload f) = optLen f"
  by (auto simp: payload_small optLen_def split: option.splits)

lemma length_Marshal: "record_ok r \<Longrightarrow> length (Marshal r) = 28 + optLen (Key r) + optLen (Value r)"
  by (simp add: Marshal_def length_payload_small record_ok_def)

lemma PutUint32_not_Nil [simp]: "PutUint32 v \<noteq> []"
  using length_PutUint(2) [of v] by (metis list.size(3) zero_neq_numeral)

lemma Marshal_not_Nil [simp]: "Marshal r \<noteq> []"
  by (simp add: Marshal_def)

text \<open>The part of the binary form after the length prefix.\<close>

definition body :: "Record \<Rightarrow> bytes" where
  "body r =
     PutUint64 (Offset r) @ PutUint64 (Timestamp r) @
     PutUint32 (fieldLen (Key r)) @ payload (Key r) @
     PutUint32 (fieldLen (Value r)) @ payload (Value r)"

lemma Marshal_body: "Marshal r = PutUint32 (of_nat (recordSize r)) @ body r"
  by (simp add: Marshal_def body_def)

lemma length_body: "record_ok r \<Longrightarrow> length (body r) = recordSize r"
  by (simp add: body_def length_payload_small record_ok_def recordSize_small)

lemma go_slice_body:
  "go_slice (body r) 0 8 = Some (PutUint64 (Offset r))"
  "go_slice (body r) 8 16 = Some (PutUint64 (Timestamp r))"
  "go_slice (body r) 16 20 = Some (PutUint32 (fieldLen (Key r)))"
  by (simp_all add: go_slice_def body_def)

lemma readValue_body:
  assumes "record_ok r"
  shows "readValue (body r) (20 + optLen (Key r)) = Inr (Value r)"
proof -
  have k: "length (payload (Key r)) = optLen (Key r)"
    using assms by (simp add: record_ok_def length_payload_small)
  have v: "optLen (Value r) < 2 ^ 31" using assms by (simp add: record_ok_def)
  have "drop (20 + optLen (Key r)) (body r) = PutUint32 (fieldLen (Value r)) @ payload (Value r)"
    using k by (simp add: body_def)
  moreover from this have "drop (20 + optLen (Key r) + 4) (body r) = payload (Value r)"
    by (metis append_eq_conv_conj drop_drop add.commute length_PutUint(2))
  moreover have "length (body r) = 24 + optLen (Key r) + optLen (Value r)"
    using assms by (simp add: length_body recordSize_small)
  ultimately show ?thesis
    using sint_fieldLen [OF v] payload_small [OF v]
    by (cases "Value r") (auto simp: readValue_def Let_def optLen_def add.assoc)
qed

lemma parseRecord_body:
  assumes "record_ok r"
  shows "parseRecord sz (body r) = Inr (r, uint (4 + sz))"
proof -
  have k: "optLen (Key r) < 2 ^ 31" using assms by (simp add: record_ok_def)
  have key: "go_slice (body r) 20 (20 + optLen (Key r)) = Some (payload (Key r))"
    using k length_payload_small [OF k] by (simp add: go_slice_def body_def)
  show ?thesis
    using go_slice_body [of r] key readValue_body [OF assms] sint_fieldLen [OF k] payload_small [OF k]
    by (cases "Key r") (simp_all add: parseRecord_def Let_def optLen_def)
qed

theorem ReadRecord_Marshal:
  assumes "record_ok r"
  shows "ReadRecord (Marshal r @ rest) = (Inr (r, int (length (Marshal r))), rest)"
proof -
  let ?n = "recordSize r"
  have n: "4 + ?n < 2 ^ 32" using assms by (simp add: record_ok_def recordSize_small)
  then have un: "unat (of_nat ?n :: u32) = ?n" by (simp add: unat_of_nat32)
  have "unat (4 + of_nat ?n :: u32) = 4 + ?n"
    using unat_of_nat32 [OF n] by simp
  then have "uint (4 + of_nat ?n :: u32) = int (4 + ?n)"
    by (metis of_nat_unat)
  moreover have "length (Marshal r) = 4 + ?n"
    using assms by (simp add: length_Marshal recordSize_small)
  ultimately show ?thesis
    using parseRecord_body [OF assms, of "of_nat ?n"]
    by (simp add: ReadRecord_def Marshal_body Let_def rd_bind_def ReadFull_append un
        length_body [OF assms] rd_lift_def)
qed

text \<open>A record cut off anywhere is reported as the end of the input, never as another record.\<close>

lemma ReadRecord_truncated:
  assumes "record_ok r" and "strict_prefix p (Marshal r)"
  shows "\<exists>e. ReadRecord p = (Inl e, []) \<and> truncation e"
proof -
  let ?n = "recordSize r"
  have n: "4 + ?n < 2 ^ 32" using assms by (simp add: record_ok_def recordSize_small)
  then have un: "unat (of_nat ?n :: u32) = ?n" by (simp add: unat_of_nat32)
  from assms(2) show ?thesis
    unfolding Marshal_body
  proof (cases rule: strict_prefix_append_cases)
    case 1
    then have "length p < 4" using prefix_length_less by fastforce
    then show ?thesis
      by (simp add: ReadRecord_def rd_bind_def ReadFull_short truncation_def)
  next
    case (2 q)
    then have "length q < ?n"
      using prefix_length_less [of q "body r"] length_body [OF assms(1)] by simp
    with 2 show ?thesis
      by (simp add: ReadRecord_def Let_def rd_bind_def ReadFull_append un ReadFull_short
          truncation_def)
  qed
qed


section \<open>Streams of records\<close>

definition marshal_all :: "Record list \<Rightarrow> bytes" where
  "marshal_all rs = concat (map Marshal rs)"

lemma marshal_all_simps [simp]:
  "marshal_all [] = []"
  "marshal_all (r # rs) = Marshal r @ marshal_all rs"
  "marshal_all (xs @ ys) = marshal_all xs @ marshal_all ys"
  by (simp_all add: marshal_all_def)

definition sized :: "Record \<Rightarrow> Record \<times> int" where
  "sized r = (r, int (length (Marshal r)))"

lemma ReadAll_Marshal:
  assumes "record_ok r"
  shows "ReadAll (Marshal r @ rest) =
    (case ReadAll rest of (Inl e, b) \<Rightarrow> (Inl e, b) | (Inr xs, b) \<Rightarrow> (Inr (sized r # xs), b))"
  by (subst ReadAll.simps) (simp add: ReadRecord_Marshal [OF assms] sized_def split: prod.splits sum.splits)

lemma ReadAll_truncated:
  assumes "\<exists>e. ReadRecord p = (Inl e, []) \<and> truncation e"
  shows "ReadAll p = (Inr [], [])"
  using assms by (subst ReadAll.simps) (auto simp: truncation_def)

lemma ReadRecord_Nil [simp]: "ReadRecord [] = (Inl EOF, [])"
  by (simp add: ReadRecord_def rd_bind_def ReadFull_def)

lemma ReadAll_Nil [simp]: "ReadAll [] = (Inr [], [])"
  by (subst ReadAll.simps) simp

lemma ReadAll_marshal_all:
  assumes "list_all record_ok rs" and "ReadAll tail = (Inr [], [])"
  shows "ReadAll (marshal_all rs @ tail) = (Inr (map sized rs), [])"
  using assms by (induction rs) (simp_all add: ReadAll_Marshal)

lemma ReadAll_stream: "list_all record_ok rs \<Longrightarrow> ReadAll (marshal_all rs) = (Inr (map sized rs), [])"
  using ReadAll_marshal_all [of rs "[]"] by simp

lemma map_fst_sized [simp]: "map fst (map sized rs) = rs"
  by (simp add: sized_def comp_def)

lemma ParseRecordStream_marshal_all:
  "list_all record_ok rs \<Longrightarrow> ParseRecordStream (marshal_all rs) = Inr rs"
  by (simp add: ParseRecordStream_def ReadAll_stream sized_def comp_def)

text \<open>
  Any prefix of a stream parses to a prefix of its records: the last record may be cut,
  the others are intact.
\<close>

lemma ReadAll_prefix:
  assumes "list_all record_ok rs" and "prefix p (marshal_all rs)"
  shows "\<exists>ps. prefix ps rs \<and> ReadAll p = (Inr (map sized ps), []) \<and>
    length (marshal_all ps) \<le> length p"
  using assms
proof (induction rs arbitrary: p)
  case Nil
  then show ?case by simp
next
  case (Cons r rs)
  show ?case
  proof (cases "strict_prefix p (Marshal r)")
    case True
    then have "ReadAll p = (Inr [], [])"
      using Cons.prems by (intro ReadAll_truncated ReadRecord_truncated) simp_all
    then show ?thesis by (intro exI [of _ "[]"]) simp
  next
    case False
    with Cons.prems(2) obtain q where q: "p = Marshal r @ q" "prefix q (marshal_all rs)"
      by (auto simp: prefix_append strict_prefix_def)
    then obtain ps where "prefix ps rs" "ReadAll q = (Inr (map sized ps), [])"
      "length (marshal_all ps) \<le> length q"
      using Cons.IH [of q] Cons.prems(1) by auto
    with q Cons.prems(1) show ?thesis
      by (intro exI [of _ "r # ps"]) (simp add: ReadAll_Marshal)
  qed
qed

lemma length_marshal_all_le: "rs \<noteq> [] \<Longrightarrow> list_all record_ok rs \<Longrightarrow> 28 \<le> length (marshal_all rs)"
  by (cases rs) (simp_all add: length_Marshal)

end
