(* ===== verification/Log_Index.thy ===== *)
theory Log_Index
  imports Log_Record
begin

text \<open>
  \<open>src/internal/storage/index.go\<close>: the sparse index of a segment, a file of 16-byte
  entries (offset, byte position), and the binary search over it.

  The files of a partition directory are a map from file names to their bytes. A handle
  keeps the name of its file. An index file is opened with \<open>O_APPEND\<close>, so a write goes to
  its end; the search reads with \<open>ReadAt\<close>. Failures of the operating system (a full disk,
  a revoked permission) are outside the model; sizes and positions (\<open>int64\<close> in the code)
  are \<open>int\<close>, and a position is written to disk as a 64-bit word.

  The binary search of the index and the one over the segments of a partition have the
  same shape. The locale \<open>rightmost_search\<close> states the shape and proves once what it
  finds.
\<close>

section \<open>Binary search for the last hit\<close>

locale rightmost_search =
  fixes loop :: "int \<Rightarrow> int \<Rightarrow> 'r \<Rightarrow> 'r"
    and hit :: "int \<Rightarrow> bool"
    and val :: "int \<Rightarrow> 'r"
    and n :: int
  assumes loop_unfold: "0 \<le> low \<Longrightarrow> high < n \<Longrightarrow>
    loop low high r =
      (if low \<le> high
       then let mid = low + (high - low) div 2
            in if hit mid then loop (mid + 1) high (val mid) else loop low (mid - 1) r
       else r)"
begin

lemma loop_between:
  assumes "0 \<le> low" "low \<le> high + 1" "high < n"
    and "\<And>i. 0 \<le> i \<Longrightarrow> i < low \<Longrightarrow> hit i"
    and "\<And>i. high < i \<Longrightarrow> i < n \<Longrightarrow> \<not> hit i"
    and mono: "\<And>i j. 0 \<le> i \<Longrightarrow> i \<le> j \<Longrightarrow> j < n \<Longrightarrow> hit j \<Longrightarrow> hit i"
    and "r = (if low = 0 then r0 else val (low - 1))"
  shows "\<exists>m. 0 \<le> m \<and> m \<le> n \<and> (\<forall>i. 0 \<le> i \<and> i < n \<longrightarrow> (hit i \<longleftrightarrow> i < m)) \<and>
    loop low high r = (if m = 0 then r0 else val (m - 1))"
  using assms(1-5,7)
proof (induction "nat (high - low + 1)" arbitrary: low high r rule: less_induct)
  case less
  let ?mid = "low + (high - low) div 2"
  show ?case
  proof (cases "low \<le> high")
    case False
    with less.prems have "low = high + 1" by linarith
    with less.prems(4,5) have "\<forall>i. 0 \<le> i \<and> i < n \<longrightarrow> (hit i \<longleftrightarrow> i < low)"
      by (metis not_less zle_add1_eq_le)
    moreover have "loop low high r = r"
      using False less.prems loop_unfold [of low high r] by simp
    ultimately show ?thesis
      using less.prems \<open>low = high + 1\<close> by (intro exI [of _ low]) auto
  next
    case True
    then have mid: "low \<le> ?mid" "?mid \<le> high" by auto
    have unfold: "loop low high r =
        (if hit ?mid then loop (?mid + 1) high (val ?mid) else loop low (?mid - 1) r)"
      using True less.prems loop_unfold [of low high r] by (simp add: Let_def)
    show ?thesis
    proof (cases "hit ?mid")
      case hit: True
      have "\<exists>m. 0 \<le> m \<and> m \<le> n \<and> (\<forall>i. 0 \<le> i \<and> i < n \<longrightarrow> (hit i \<longleftrightarrow> i < m)) \<and>
          loop (?mid + 1) high (val ?mid) = (if m = 0 then r0 else val (m - 1))"
      proof (rule less.hyps)
        show "hit i" if "0 \<le> i" "i < ?mid + 1" for i
          using mono [of i ?mid] that hit mid less.prems(3) by simp
      qed (use mid less.prems in auto)
      with hit unfold show ?thesis by simp
    next
      case miss: False
      have "\<exists>m. 0 \<le> m \<and> m \<le> n \<and> (\<forall>i. 0 \<le> i \<and> i < n \<longrightarrow> (hit i \<longleftrightarrow> i < m)) \<and>
          loop low (?mid - 1) r = (if m = 0 then r0 else val (m - 1))"
      proof (rule less.hyps)
        show "\<not> hit i" if "?mid - 1 < i" "i < n" for i
          using mono [of ?mid i] that miss mid less.prems(1) by auto
      qed (use mid less.prems in auto)
      with miss unfold show ?thesis by simp
    qed
  qed
qed

text \<open>
  On a monotone predicate the whole search returns the value at the last hit, or the
  initial result when nothing hits: \<open>m\<close> is the number of hits.
\<close>

theorem search_correct:
  assumes "0 \<le> n" and "\<And>i j. 0 \<le> i \<Longrightarrow> i \<le> j \<Longrightarrow> j < n \<Longrightarrow> hit j \<Longrightarrow> hit i"
  shows "\<exists>m. 0 \<le> m \<and> m \<le> n \<and> (\<forall>i. 0 \<le> i \<and> i < n \<longrightarrow> (hit i \<longleftrightarrow> i < m)) \<and>
    loop 0 (n - 1) r0 = (if m = 0 then r0 else val (m - 1))"
  using assms by (intro loop_between) auto

end


section \<open>The index file\<close>

type_synonym dir = "string \<rightharpoonup> bytes"

definition contents :: "dir \<Rightarrow> string \<Rightarrow> bytes" where
  "contents d f = (case d f of None \<Rightarrow> [] | Some c \<Rightarrow> c)"

lemma contents_upd [simp]: "contents (d(f \<mapsto> c)) g = (if g = f then c else contents d g)"
  by (simp add: contents_def)

definition IndexEntrySize :: int where
  "IndexEntrySize = 16"

record Index =
  idx_file :: string
  idx_size :: int

definition NewIndex :: "dir \<Rightarrow> string \<Rightarrow> dir \<times> Index" where
  "NewIndex d filePath =
     (d(filePath \<mapsto> contents d filePath),
      \<lparr>idx_file = filePath, idx_size = int (length (contents d filePath))\<rparr>)"

definition WriteEntry :: "dir \<Rightarrow> Index \<Rightarrow> u64 \<Rightarrow> int \<Rightarrow> dir \<times> Index" where
  "WriteEntry d idx offset position =
     (d(idx_file idx \<mapsto>
          contents d (idx_file idx) @ PutUint64 offset @ PutUint64 (of_int position)),
      idx\<lparr>idx_size := idx_size idx + IndexEntrySize\<rparr>)"

text \<open>\<open>ReadAt\<close> of one entry: \<open>None\<close> is \<open>io.EOF\<close>.\<close>

definition readEntry :: "bytes \<Rightarrow> int \<Rightarrow> (u64 \<times> int) option" where
  "readEntry file mid =
     (let at = nat (mid * IndexEntrySize)
      in if length file < at + 16 then None
         else Some (Uint64 (take 8 (drop at file)), sint (Uint64 (take 8 (drop (at + 8) file)))))"

function lookupLoop :: "bytes \<Rightarrow> u64 \<Rightarrow> int \<Rightarrow> int \<Rightarrow> int \<Rightarrow> int" where
  "lookupLoop file targetOffset low high resultPos =
     (if low \<le> high
      then let mid = low + (high - low) div 2
           in (case readEntry file mid of
                 None \<Rightarrow> resultPos
               | Some (midOffset, midPosition) \<Rightarrow>
                   if midOffset \<le> targetOffset
                   then lookupLoop file targetOffset (mid + 1) high midPosition
                   else lookupLoop file targetOffset low (mid - 1) resultPos)
      else resultPos)"
  by pat_completeness auto
termination
  by (relation "measure (\<lambda>(f, t, low, high, r). nat (high - low + 1))") auto

declare lookupLoop.simps [simp del]

definition Lookup :: "dir \<Rightarrow> Index \<Rightarrow> u64 \<Rightarrow> int" where
  "Lookup d idx targetOffset =
     (if idx_size idx = 0 then 0
      else let entriesCount = idx_size idx div IndexEntrySize
           in if entriesCount = 0 then 0
              else lookupLoop (contents d (idx_file idx)) targetOffset 0 (entriesCount - 1) 0)"


section \<open>What the search finds\<close>

type_synonym entry = "u64 \<times> nat"

definition entryBytes :: "entry \<Rightarrow> bytes" where
  "entryBytes e = PutUint64 (fst e) @ PutUint64 (of_nat (snd e))"

definition entriesBytes :: "entry list \<Rightarrow> bytes" where
  "entriesBytes es = concat (map entryBytes es)"

lemma length_entryBytes [simp]: "length (entryBytes e) = 16"
  by (simp add: entryBytes_def)

lemma length_entriesBytes [simp]: "length (entriesBytes es) = 16 * length es"
  by (induction es) (simp_all add: entriesBytes_def)

lemma entriesBytes_snoc: "entriesBytes (es @ [e]) = entriesBytes es @ entryBytes e"
  by (simp add: entriesBytes_def)

lemma drop_entriesBytes: "drop (16 * i) (entriesBytes es) = entriesBytes (drop i es)"
proof (induction es arbitrary: i)
  case Nil
  then show ?case by (simp add: entriesBytes_def)
next
  case (Cons e es)
  then show ?case
    by (cases i) (simp_all add: entriesBytes_def)
qed

lemma readEntry_entriesBytes:
  assumes "i < length es" and "snd (es ! i) < 2 ^ 63"
  shows "readEntry (entriesBytes es) (int i) = Some (fst (es ! i), int (snd (es ! i)))"
proof -
  have at: "nat (int i * 16) = 16 * i" by simp
  have "drop (16 * i) (entriesBytes es) = entryBytes (es ! i) @ entriesBytes (drop (Suc i) es)"
    using assms(1) by (simp only: drop_entriesBytes Cons_nth_drop_Suc [symmetric])
      (simp add: entriesBytes_def)
  moreover from this have "drop (16 * i + 8) (entriesBytes es) =
      PutUint64 (of_nat (snd (es ! i))) @ entriesBytes (drop (Suc i) es)"
    by (metis (no_types, lifting) add.commute append_assoc append_eq_conv_conj drop_drop
        entryBytes_def length_PutUint(3))
  ultimately show ?thesis
    using assms by (simp add: readEntry_def Let_def at IndexEntrySize_def entryBytes_def sint_of_nat64)
qed

text \<open>The reference: the position of the last entry not above the target.\<close>

definition lookup_spec :: "entry list \<Rightarrow> u64 \<Rightarrow> nat" where
  "lookup_spec es target =
     (let below = filter (\<lambda>e. fst e \<le> target) es in if below = [] then 0 else snd (last below))"

definition positions_ok :: "entry list \<Rightarrow> bool" where
  "positions_ok es \<longleftrightarrow> list_all (\<lambda>e. snd e < 2 ^ 63) es"

text \<open>The search over the index file has the shape of the locale, for every file and target.\<close>

interpretation idx: rightmost_search
  "lookupLoop fil target"
  "\<lambda>i. \<exists>o' p. readEntry fil i = Some (o', p) \<and> o' \<le> target"
  "\<lambda>i. snd (the (readEntry fil i))"
  "int (length fil) div 16"
  for fil target
proof unfold_locales
  fix low high r :: int
  assume bounds: "0 \<le> low" "high < int (length fil) div 16"
  let ?mid = "low + (high - low) div 2"
  show "lookupLoop fil target low high r =
    (if low \<le> high
     then let mid = ?mid
          in if \<exists>o' p. readEntry fil mid = Some (o', p) \<and> o' \<le> target
             then lookupLoop fil target (mid + 1) high (snd (the (readEntry fil mid)))
             else lookupLoop fil target low (mid - 1) r
     else r)"
  proof (cases "low \<le> high")
    case True
    then have "?mid * 16 + 16 \<le> int (length fil)"
      using bounds by auto
    moreover have "0 \<le> ?mid" using True bounds by simp
    ultimately have "nat (?mid * 16) + 16 \<le> length fil"
      by (simp add: nat_le_iff nat_mult_distrib)
    then obtain o' p where "readEntry fil ?mid = Some (o', p)"
      by (simp add: readEntry_def Let_def IndexEntrySize_def)
    with True show ?thesis
      by (subst lookupLoop.simps) (auto simp: Let_def)
  next
    case False
    then show ?thesis by (subst lookupLoop.simps) simp
  qed
qed

lemma filter_prefix_hits:
  assumes "m \<le> length xs" and "\<And>i. i < length xs \<Longrightarrow> P (xs ! i) \<longleftrightarrow> i < m"
  shows "filter P xs = take m xs"
proof -
  have "filter P (take m xs) = take m xs"
    using assms by (auto simp: filter_id_conv in_set_conv_nth)
  moreover have "filter P (drop m xs) = []"
    using assms by (auto simp: filter_empty_conv in_set_conv_nth)
  ultimately show ?thesis
    by (metis append_Nil2 append_take_drop_id filter_append)
qed

lemma lookupLoop_entries:
  assumes "sorted (map fst es)" and "positions_ok es"
  shows "lookupLoop (entriesBytes es) target 0 (int (length es) - 1) 0 = int (lookup_spec es target)"
proof -
  let ?hit = "\<lambda>i. \<exists>o' p. readEntry (entriesBytes es) i = Some (o', p) \<and> o' \<le> target"
  have rd: "readEntry (entriesBytes es) (int i) = Some (fst (es ! i), int (snd (es ! i)))"
    if "i < length es" for i
    using that assms(2) by (intro readEntry_entriesBytes) (auto simp: positions_ok_def list_all_length)
  have hit: "?hit (int i) \<longleftrightarrow> fst (es ! i) \<le> target" if "i < length es" for i
    using rd [OF that] by simp
  have mono: "?hit i" if "0 \<le> i" "i \<le> j" "j < int (length es)" "?hit j" for i j
  proof -
    have "map fst es ! nat i \<le> map fst es ! nat j"
      using that assms(1) by (intro sorted_nth_mono) auto
    moreover have "nat i < length es" "nat j < length es" using that by auto
    ultimately show ?thesis
      using that hit [of "nat i"] hit [of "nat j"] by auto
  qed
  have "int (length (entriesBytes es)) div 16 = int (length es)" by simp
  with idx.search_correct [of "entriesBytes es" target 0] mono obtain m where
    m: "0 \<le> m" "m \<le> int (length es)" "\<forall>i. 0 \<le> i \<and> i < int (length es) \<longrightarrow> (?hit i \<longleftrightarrow> i < m)"
    and res: "lookupLoop (entriesBytes es) target 0 (int (length es) - 1) 0 =
      (if m = 0 then 0 else snd (the (readEntry (entriesBytes es) (m - 1))))"
    by auto
  have below: "filter (\<lambda>e. fst e \<le> target) es = take (nat m) es"
    using m hit by (intro filter_prefix_hits) (auto simp: zless_nat_eq_int_zless)
  show ?thesis
  proof (cases "m = 0")
    case True
    with res below show ?thesis by (simp add: lookup_spec_def)
  next
    case False
    with m have "last (take (nat m) es) = es ! (nat m - 1)"
      by (subst last_conv_nth) (auto simp: min_absorb2 nat_le_iff)
    moreover have "int (nat m - 1) = m - 1" using False m by simp
    ultimately show ?thesis
      using False m res below rd [of "nat m - 1"] by (auto simp: lookup_spec_def Let_def)
  qed
qed

theorem Lookup_correct:
  assumes "contents d (idx_file idx) = entriesBytes es"
    and "idx_size idx = int (length (entriesBytes es))"
    and "sorted (map fst es)" and "positions_ok es"
  shows "Lookup d idx target = int (lookup_spec es target)"
  using assms lookupLoop_entries [OF assms(3,4), of target]
  by (auto simp: Lookup_def Let_def IndexEntrySize_def lookup_spec_def)

end
