(* ===== verification/Log_Segment.thy ===== *)
theory Log_Segment
  imports Log_Index
begin

text \<open>
  \<open>src/internal/storage/segment.go\<close> and \<open>zero_copy.go\<close>: a segment, the pair of a log
  file and an index file of a partition directory.

  The log file is opened without \<open>O_APPEND\<close>: a write goes to the position of the handle,
  which reads and seeks move. The model keeps that position (\<open>logPos\<close>). The zero-copy
  path reads through a \<open>SectionReader\<close>, which leaves the position alone.
  Reads may fail on a corrupted record; \<open>Panic\<close> stands for a run-time panic.
\<close>

section \<open>State and file names\<close>

record Segment =
  baseOffset :: u64
  nextOffset :: u64
  logFile :: string
  logPos :: nat
  seg_index :: Index
  currentSize :: int
  maxBytes :: int
  indexIntervalBytes :: int
  lastIndexBytes :: int

definition logName :: "u64 \<Rightarrow> string" where
  "logName base = pad20 (unat base) @ ''.log''"

definition indexName :: "u64 \<Rightarrow> string" where
  "indexName base = pad20 (unat base) @ ''.index''"

definition fileWrite :: "bytes \<Rightarrow> nat \<Rightarrow> bytes \<Rightarrow> bytes" where
  "fileWrite content pos dat =
     take pos content @ replicate (pos - length content) 0 @ dat @ drop (pos + length dat) content"


section \<open>Opening and recovery\<close>

definition recoverStep :: "u64 \<times> int \<times> int \<Rightarrow> Record \<times> int \<Rightarrow> u64 \<times> int \<times> int" where
  "recoverStep st x =
     (case st of (next, sz, lastOffset) \<Rightarrow> (next + 1, sz + snd x, sint next))"

definition recoverState :: "dir \<Rightarrow> Segment \<Rightarrow> go_error + Segment" where
  "recoverState d s =
     (let content = contents d (logFile s)
      in case ReadAll content of
           (Inl e, rest) \<Rightarrow> Inl e
         | (Inr xs, rest) \<Rightarrow>
             (case foldl recoverStep (nextOffset s, 0, -1) xs of
                (next, sz, lastOffset) \<Rightarrow>
                  Inr (s\<lparr>logPos := length content - length rest,
                         currentSize := sz,
                         nextOffset := (if lastOffset = -1 then baseOffset s else next)\<rparr>)))"

definition NewSegment :: "dir \<Rightarrow> u64 \<Rightarrow> int \<Rightarrow> int \<Rightarrow> dir \<times> (go_error + Segment)" where
  "NewSegment d base maxB interval =
     (let logPath = logName base;
          indexPath = indexName base;
          d1 = d(logPath \<mapsto> contents d logPath)
      in case NewIndex d1 indexPath of
           (d2, idx) \<Rightarrow>
             (d2, recoverState d2
                \<lparr>baseOffset = base, nextOffset = base, logFile = logPath, logPos = 0,
                 seg_index = idx, currentSize = 0, maxBytes = maxB,
                 indexIntervalBytes = interval, lastIndexBytes = 0\<rparr>))"


section \<open>Append, Read, ReadZeroCopy\<close>

text \<open>The sparse index gets an entry for the first record and then once per interval.\<close>

definition indexed :: "Segment \<Rightarrow> bool" where
  "indexed s \<longleftrightarrow> currentSize s = 0 \<or> indexIntervalBytes s \<le> currentSize s - lastIndexBytes s"

definition Segment_Append :: "dir \<Rightarrow> Segment \<Rightarrow> Record \<Rightarrow> dir \<times> Segment \<times> Record" where
  "Segment_Append d s rec0 =
     (let rec = rec0\<lparr>Offset := nextOffset s\<rparr>;
          dat = Marshal rec;
          (d1, s1) =
            (if indexed s
             then (case WriteEntry d (seg_index s) (Offset rec) (currentSize s) of
                     (d', idx') \<Rightarrow> (d', s\<lparr>seg_index := idx', lastIndexBytes := currentSize s\<rparr>))
             else (d, s));
          d2 = d1(logFile s1 \<mapsto> fileWrite (contents d1 (logFile s1)) (logPos s1) dat)
      in (d2,
          s1\<lparr>logPos := logPos s1 + length dat,
             currentSize := currentSize s1 + int (length dat),
             nextOffset := nextOffset s1 + 1\<rparr>,
          rec))"

definition Segment_Read :: "dir \<Rightarrow> Segment \<Rightarrow> u64 \<Rightarrow> (go_error + Record list) \<times> Segment" where
  "Segment_Read d s startOffset =
     (if nextOffset s \<le> startOffset then (Inr [], s)
      else let pos = Lookup d (seg_index s) startOffset
           in if pos < 0 then (Inl (ErrText ''seek: invalid argument''), s)
              else let input = drop (nat pos) (contents d (logFile s))
                   in case ReadAll input of
                        (r, rest) \<Rightarrow>
                          ((case r of
                              Inl e \<Rightarrow> Inl e
                            | Inr xs \<Rightarrow> Inr (filter (\<lambda>rec. startOffset \<le> Offset rec) (map fst xs))),
                           s\<lparr>logPos := nat pos + (length input - length rest)\<rparr>))"

text \<open>\<open>io.CopyN\<close> from a section of the file: the bytes written and \<open>io.EOF\<close> when short.\<close>

definition SendFileToSocket :: "bytes \<Rightarrow> int \<Rightarrow> int \<Rightarrow> bytes \<times> go_error option" where
  "SendFileToSocket content startPos len =
     (if len \<le> 0 then ([], None)
      else if startPos < 0 then ([], Some (ErrText ''negative offset''))
      else let dat = take (nat len) (drop (nat startPos) content)
           in (dat, if int (length dat) < len then Some EOF else None))"

definition Segment_ReadZeroCopy :: "dir \<Rightarrow> Segment \<Rightarrow> u64 \<Rightarrow> int \<Rightarrow> bytes \<times> go_error option" where
  "Segment_ReadZeroCopy d s startOffset maxB =
     (if nextOffset s \<le> startOffset \<or> maxB \<le> 0 then ([], None)
      else let startPos = Lookup d (seg_index s) startOffset;
               availableBytes = currentSize s - startPos
           in if availableBytes \<le> 0 then ([], None)
              else SendFileToSocket (contents d (logFile s)) startPos
                     (if 0 < maxB \<and> maxB < availableBytes then maxB else availableBytes))"

definition IsFull :: "Segment \<Rightarrow> bool" where
  "IsFull s \<longleftrightarrow> maxBytes s \<le> currentSize s"


section \<open>Removal and rewriting\<close>

definition trimSuffix :: "string \<Rightarrow> string \<Rightarrow> string" where
  "trimSuffix s suf = (if suffix suf s then take (length s - length suf) s else s)"

definition RemoveFiles :: "dir \<Rightarrow> Segment \<Rightarrow> dir" where
  "RemoveFiles d s =
     d(logFile s := None, trimSuffix (logFile s) ''.log'' @ ''.index'' := None)"

text \<open>
  The loop of \<open>replaceContents\<close>: the bytes written to the temporary log and index, the
  size so far and the position of the last index entry.
\<close>

fun replaceLoop :: "int \<Rightarrow> bool \<Rightarrow> Record list \<Rightarrow> bytes \<times> bytes \<times> int \<times> int \<Rightarrow> bytes \<times> bytes \<times> int \<times> int"
where
  "replaceLoop interval first [] st = st"
| "replaceLoop interval first (rec # recs) (log, idx, sz, lastIdx) =
     (let dat = Marshal rec;
          (idx1, lastIdx1) =
            (if first \<or> interval \<le> sz - lastIdx
             then (idx @ PutUint64 (Offset rec) @ PutUint64 (of_int sz), sz)
             else (idx, lastIdx))
      in replaceLoop interval False recs (log @ dat, idx1, sz + int (length dat), lastIdx1))"

definition replaceContents :: "dir \<Rightarrow> Segment \<Rightarrow> Record list \<Rightarrow> dir \<times> Segment" where
  "replaceContents d s records =
     (let logPath = logName (baseOffset s);
          indexPath = indexName (baseOffset s);
          tmpLogPath = logPath @ ''.compact.tmp'';
          tmpIndexPath = indexPath @ ''.compact.tmp''
      in case replaceLoop (indexIntervalBytes s) True records ([], [], 0, 0) of
           (log, idx, sz, lastIdx) \<Rightarrow>
             (let d1 = d(tmpLogPath \<mapsto> log, tmpIndexPath \<mapsto> idx);
                  d2 = d1(logPath \<mapsto> contents d1 tmpLogPath, tmpLogPath := None);
                  d3 = d2(indexPath \<mapsto> contents d2 tmpIndexPath, tmpIndexPath := None)
              in case NewIndex d3 indexPath of
                   (d4, newIndex) \<Rightarrow>
                     (d4, s\<lparr>logFile := logPath, logPos := 0, seg_index := newIndex,
                            currentSize := sz, lastIndexBytes := lastIdx\<rparr>)))"


section \<open>File names are distinct\<close>

lemma logName_inj [simp]: "logName a = logName b \<longleftrightarrow> a = b"
  by (metis ParseUint64_pad20 append_same_eq logName_def option.inject)

lemma indexName_inj [simp]: "indexName a = indexName b \<longleftrightarrow> a = b"
  by (metis ParseUint64_pad20 append_same_eq indexName_def option.inject)

lemma last_logName: "last (logName a) = CHR ''g''"
  by (simp add: logName_def)

lemma last_indexName: "last (indexName a) = CHR ''x''"
  by (simp add: indexName_def)

lemma last_neq: "last xs \<noteq> last ys \<Longrightarrow> xs \<noteq> ys"
  by auto

lemma names_disjoint [simp]:
  "logName a \<noteq> indexName b" "indexName b \<noteq> logName a"
  "logName a \<noteq> f @ ''.compact.tmp''" "indexName a \<noteq> f @ ''.compact.tmp''"
  "f @ ''.compact.tmp'' \<noteq> logName a" "f @ ''.compact.tmp'' \<noteq> indexName a"
  by (rule last_neq, simp add: last_logName last_indexName)+

lemma trimSuffix_logName [simp]: "trimSuffix (logName b) ''.log'' @ ''.index'' = indexName b"
  by (simp add: trimSuffix_def logName_def indexName_def suffix_def)


section \<open>What a segment represents\<close>

text \<open>
  Index entries point at record boundaries, and every record before the boundary is below
  the entry's offset: it may be skipped by a search for that offset or a later one.
\<close>

definition entry_ok :: "Record list \<Rightarrow> entry \<Rightarrow> bool" where
  "entry_ok rs e \<longleftrightarrow>
     (\<exists>xs ys. rs = xs @ ys \<and> snd e = length (marshal_all xs) \<and> (\<forall>x \<in> set xs. Offset x < fst e))"

definition segment_names :: "Segment \<Rightarrow> bool" where
  "segment_names s \<longleftrightarrow>
     logFile s = logName (baseOffset s) \<and> idx_file (seg_index s) = indexName (baseOffset s)"

definition segment_rep :: "dir \<Rightarrow> Segment \<Rightarrow> Record list \<Rightarrow> entry list \<Rightarrow> bool" where
  "segment_rep d s rs es \<longleftrightarrow>
     segment_names s \<and>
     d (logName (baseOffset s)) = Some (marshal_all rs) \<and>
     d (indexName (baseOffset s)) = Some (entriesBytes es) \<and>
     idx_size (seg_index s) = int (length (entriesBytes es)) \<and>
     currentSize s = int (length (marshal_all rs)) \<and>
     length (marshal_all rs) < 2 ^ 63 \<and>
     list_all record_ok rs \<and>
     sorted_wrt (<) (map Offset rs) \<and>
     (\<forall>r \<in> set rs. baseOffset s \<le> Offset r \<and> Offset r < nextOffset s) \<and>
     baseOffset s \<le> nextOffset s \<and>
     sorted (map fst es) \<and>
     (\<forall>e \<in> set es. fst e < nextOffset s \<and> entry_ok rs e)"

lemma segment_repD:
  assumes "segment_rep d s rs es"
  shows "segment_names s"
    and "contents d (logName (baseOffset s)) = marshal_all rs"
    and "contents d (indexName (baseOffset s)) = entriesBytes es"
    and "currentSize s = int (length (marshal_all rs))"
    and "list_all record_ok rs"
    and "\<forall>r \<in> set rs. baseOffset s \<le> Offset r \<and> Offset r < nextOffset s"
    and "baseOffset s \<le> nextOffset s"
    and "sorted_wrt (<) (map Offset rs)"
  using assms by (simp_all add: segment_rep_def contents_def)

lemma segment_rep_frame:
  assumes "segment_rep d s rs es"
    and "d' (logName (baseOffset s)) = d (logName (baseOffset s))"
    and "d' (indexName (baseOffset s)) = d (indexName (baseOffset s))"
  shows "segment_rep d' s rs es"
  using assms by (simp add: segment_rep_def)

lemma segment_rep_logPos [simp]: "segment_rep d (s\<lparr>logPos := p\<rparr>) rs es \<longleftrightarrow> segment_rep d s rs es"
  by (simp add: segment_rep_def segment_names_def)

lemma entry_ok_le: "entry_ok rs e \<Longrightarrow> snd e \<le> length (marshal_all rs)"
  by (auto simp: entry_ok_def)

lemma segment_rep_positions: "segment_rep d s rs es \<Longrightarrow> positions_ok es"
  unfolding segment_rep_def positions_ok_def list_all_iff
  by (meson entry_ok_le le_less_trans)

text \<open>The index sends a search to a boundary; what it skips is below the target.\<close>

lemma Lookup_rep:
  assumes "segment_rep d s rs es"
  shows "\<exists>xs ys. rs = xs @ ys \<and> Lookup d (seg_index s) start = int (length (marshal_all xs)) \<and>
    (\<forall>x \<in> set xs. Offset x < start)"
proof -
  have "Lookup d (seg_index s) start = int (lookup_spec es start)"
    using assms segment_repD(3) [OF assms] segment_rep_positions [OF assms]
    by (intro Lookup_correct) (simp_all add: segment_rep_def segment_names_def)
  moreover have "\<exists>xs ys. rs = xs @ ys \<and> lookup_spec es start = length (marshal_all xs) \<and>
      (\<forall>x \<in> set xs. Offset x < start)"
  proof (cases "filter (\<lambda>e. fst e \<le> start) es = []")
    case True
    then show ?thesis by (intro exI [of _ "[]"] exI [of _ rs]) (simp add: lookup_spec_def)
  next
    case False
    let ?e = "last (filter (\<lambda>e. fst e \<le> start) es)"
    have "?e \<in> set es" "fst ?e \<le> start"
      using last_in_set [OF False] by auto
    then obtain xs ys where "rs = xs @ ys" "snd ?e = length (marshal_all xs)"
      "\<forall>x \<in> set xs. Offset x < start"
      using assms unfolding segment_rep_def entry_ok_def by (meson less_le_trans)
    with False show ?thesis
      by (intro exI [of _ xs] exI [of _ ys]) (simp add: lookup_spec_def Let_def)
  qed
  ultimately show ?thesis by auto
qed


section \<open>Read returns the records from the offset on\<close>

lemma filter_skipped:
  "\<forall>x \<in> set xs. Offset x < start \<Longrightarrow>
   filter (\<lambda>r. start \<le> Offset r) (xs @ ys) = filter (\<lambda>r. start \<le> Offset r) ys"
  by (auto simp: filter_empty_conv not_le)

theorem Segment_Read_correct:
  assumes "segment_rep d s rs es"
  shows "Segment_Read d s start =
    (Inr (filter (\<lambda>r. start \<le> Offset r) rs),
     if nextOffset s \<le> start then s else s\<lparr>logPos := length (marshal_all rs)\<rparr>)"
proof (cases "nextOffset s \<le> start")
  case True
  then have "filter (\<lambda>r. start \<le> Offset r) rs = []"
    using segment_repD(6) [OF assms] by (auto simp: filter_empty_conv)
  with True show ?thesis by (simp add: Segment_Read_def)
next
  case False
  from Lookup_rep [OF assms] obtain xs ys where
    rs: "rs = xs @ ys" and pos: "Lookup d (seg_index s) start = int (length (marshal_all xs))"
    and skip: "\<forall>x \<in> set xs. Offset x < start" by blast
  have "contents d (logFile s) = marshal_all xs @ marshal_all ys"
    using assms rs segment_repD(1,2) [OF assms] by (simp add: segment_names_def)
  moreover have "ReadAll (marshal_all ys) = (Inr (map sized ys), [])"
    using segment_repD(5) [OF assms] rs by (intro ReadAll_stream) simp
  ultimately show ?thesis
    using False pos rs filter_skipped [OF skip, of ys]
    by (simp add: Segment_Read_def Let_def sized_def comp_def)
qed


section \<open>Append\<close>

definition appendable :: "dir \<Rightarrow> Segment \<Rightarrow> bool" where
  "appendable d s \<longleftrightarrow> logPos s = length (contents d (logFile s))"

lemma fileWrite_end: "fileWrite c (length c) dat = c @ dat"
  by (simp add: fileWrite_def)

lemma entry_ok_snoc: "entry_ok rs e \<Longrightarrow> entry_ok (rs @ [r]) e"
  unfolding entry_ok_def by fastforce

lemma entry_ok_new:
  "\<forall>r \<in> set rs. Offset r < o' \<Longrightarrow> entry_ok (rs @ ys) (o', length (marshal_all rs))"
  unfolding entry_ok_def by auto

lemma word_less_Suc:
  fixes x :: u64
  assumes "unat x + 1 < 2 ^ 64"
  shows "x < x + 1" and "unat (x + 1) = unat x + 1"
proof -
  show "unat (x + 1) = unat x + 1"
    using assms by (simp add: unat_word_ariths)
  then show "x < x + 1" by (simp add: word_less_nat_alt)
qed

text \<open>The effect of an append on the two files, with and without a new index entry.\<close>

definition entries_after :: "Segment \<Rightarrow> Record list \<Rightarrow> entry list \<Rightarrow> entry list" where
  "entries_after s rs es =
     (if indexed s then es @ [(nextOffset s, length (marshal_all rs))] else es)"

lemma Segment_Append_effect:
  assumes rep: "segment_rep d s rs es" and app: "appendable d s"
    and run: "Segment_Append d s rec = (d', s', rec')"
  shows "rec' = rec\<lparr>Offset := nextOffset s\<rparr>"
    and "d' = d(indexName (baseOffset s) \<mapsto> entriesBytes (entries_after s rs es),
                logName (baseOffset s) \<mapsto> marshal_all (rs @ [rec']))"
    and "s' = s\<lparr>seg_index := (seg_index s)\<lparr>idx_size := int (length (entriesBytes (entries_after s rs es)))\<rparr>,
                lastIndexBytes := (if indexed s then currentSize s else lastIndexBytes s),
                logPos := length (marshal_all (rs @ [rec'])),
                currentSize := int (length (marshal_all (rs @ [rec']))),
                nextOffset := nextOffset s + 1\<rparr>"
proof -
  have names: "logFile s = logName (baseOffset s)" "idx_file (seg_index s) = indexName (baseOffset s)"
    using segment_repD(1) [OF rep] by (simp_all add: segment_names_def)
  have old: "contents d (logName (baseOffset s)) = marshal_all rs"
    "contents d (indexName (baseOffset s)) = entriesBytes es"
    "d (indexName (baseOffset s)) = Some (entriesBytes es)"
    "idx_size (seg_index s) = int (length (entriesBytes es))"
    "currentSize s = int (length (marshal_all rs))"
    using rep segment_repD [OF rep] by (simp_all add: segment_rep_def)
  have pos: "logPos s = length (marshal_all rs)"
    using app names old by (simp add: appendable_def)
  note facts = names old pos fileWrite_end
  show r': "rec' = rec\<lparr>Offset := nextOffset s\<rparr>"
    using run by (auto simp: Segment_Append_def Let_def split: prod.splits)
  show "d' = d(indexName (baseOffset s) \<mapsto> entriesBytes (entries_after s rs es),
               logName (baseOffset s) \<mapsto> marshal_all (rs @ [rec']))"
  proof (cases "indexed s")
    case True
    with run r' show ?thesis
      by (auto simp: Segment_Append_def Let_def WriteEntry_def facts
          entries_after_def entriesBytes_snoc entryBytes_def)
  next
    case False
    with run r' map_upd_triv [of d, OF old(3)] show ?thesis
      by (auto simp: Segment_Append_def Let_def facts entries_after_def)
  qed
  show "s' = s\<lparr>seg_index := (seg_index s)\<lparr>idx_size := int (length (entriesBytes (entries_after s rs es)))\<rparr>,
               lastIndexBytes := (if indexed s then currentSize s else lastIndexBytes s),
               logPos := length (marshal_all (rs @ [rec'])),
               currentSize := int (length (marshal_all (rs @ [rec']))),
               nextOffset := nextOffset s + 1\<rparr>"
  proof (cases "indexed s")
    case True
    with run r' show ?thesis
      by (auto simp: Segment_Append_def Let_def WriteEntry_def facts
          entries_after_def IndexEntrySize_def)
  next
    case False
    with run r' show ?thesis
      by (auto simp: Segment_Append_def Let_def facts entries_after_def)
  qed
qed

text \<open>
  One append adds the record at the end under the next offset and touches no other file.
  The two bounds are the range of the offset counter and of a file position.
\<close>

theorem Segment_Append_correct:
  assumes rep: "segment_rep d s rs es" and app: "appendable d s" and ok: "record_ok rec"
    and off: "unat (nextOffset s) + 1 < 2 ^ 64"
    and room: "length (marshal_all rs) + length (Marshal rec) < 2 ^ 63"
    and run: "Segment_Append d s rec = (d', s', rec')"
  shows "segment_rep d' s' (rs @ [rec']) (entries_after s rs es)"
    and "appendable d' s'"
    and "nextOffset s' = nextOffset s + 1" and "baseOffset s' = baseOffset s"
    and "maxBytes s' = maxBytes s"
    and "\<forall>f. f \<noteq> logName (baseOffset s) \<longrightarrow> f \<noteq> indexName (baseOffset s) \<longrightarrow> d' f = d f"
proof -
  note eff = Segment_Append_effect [OF rep app run]
  let ?es = "entries_after s rs es"
  show fields: "nextOffset s' = nextOffset s + 1" "baseOffset s' = baseOffset s"
    "maxBytes s' = maxBytes s"
    using eff(3) by simp_all
  show "\<forall>f. f \<noteq> logName (baseOffset s) \<longrightarrow> f \<noteq> indexName (baseOffset s) \<longrightarrow> d' f = d f"
    using eff(2) by simp
  have names: "segment_names s'"
    using segment_repD(1) [OF rep] eff(3) by (simp add: segment_names_def)
  have files: "d' (logName (baseOffset s)) = Some (marshal_all (rs @ [rec']))"
    "d' (indexName (baseOffset s)) = Some (entriesBytes ?es)"
    using eff(2) by simp_all
  show "appendable d' s'"
    using eff(3) names files by (simp add: appendable_def segment_names_def contents_def)
  have okr: "record_ok rec'" using ok eff(1) by (simp add: record_ok_def)
  have "length (Marshal rec') = length (Marshal rec)"
    using ok okr eff(1) by (simp add: length_Marshal)
  then have room': "length (marshal_all (rs @ [rec'])) < 2 ^ 63" using room by simp
  have less: "nextOffset s < nextOffset s + 1" using off by (rule word_less_Suc)
  have off': "Offset rec' = nextOffset s" using eff(1) by simp
  have "fst e < nextOffset s + 1 \<and> entry_ok (rs @ [rec']) e" if "e \<in> set ?es" for e
    using that rep entry_ok_new [of rs "nextOffset s" "[rec']"] less
    unfolding segment_rep_def entries_after_def
    by (auto split: if_splits intro: less_trans entry_ok_snoc)
  moreover have "sorted (map fst ?es)"
    using rep unfolding segment_rep_def entries_after_def
    by (auto simp: sorted_append intro: less_imp_le)
  moreover have "sorted_wrt (<) (map Offset (rs @ [rec']))"
    using rep off' unfolding segment_rep_def by (simp add: sorted_wrt_append)
  moreover have "\<forall>r \<in> set (rs @ [rec']). baseOffset s \<le> Offset r \<and> Offset r < nextOffset s + 1"
    using rep less off' unfolding segment_rep_def by (auto intro: less_trans)
  moreover have "baseOffset s \<le> nextOffset s + 1"
    using segment_repD(7) [OF rep] less by simp
  moreover have "list_all record_ok (rs @ [rec'])"
    using segment_repD(5) [OF rep] okr by simp
  ultimately show "segment_rep d' s' (rs @ [rec']) ?es"
    using names files room' eff(3) fields unfolding segment_rep_def by simp
qed


section \<open>Recovery\<close>

text \<open>Records numbered from the base offset without gaps, as appends leave them.\<close>

definition contiguous :: "u64 \<Rightarrow> Record list \<Rightarrow> bool" where
  "contiguous base rs \<longleftrightarrow> (\<forall>i < length rs. Offset (rs ! i) = base + of_nat i)"

definition dense :: "Segment \<Rightarrow> Record list \<Rightarrow> bool" where
  "dense s rs \<longleftrightarrow> contiguous (baseOffset s) rs \<and> nextOffset s = baseOffset s + of_nat (length rs)
     \<and> unat (baseOffset s) + length rs < 2 ^ 64"

lemma contiguous_snoc:
  "contiguous base rs \<Longrightarrow> Offset r = base + of_nat (length rs) \<Longrightarrow> contiguous base (rs @ [r])"
  by (auto simp: contiguous_def nth_append less_Suc_eq)

lemma recoverStep_fold:
  "foldl recoverStep (n, sz, l) (map sized rs) =
     (n + of_nat (length rs), sz + int (length (marshal_all rs)),
      if rs = [] then l else sint (n + of_nat (length rs) - 1))"
proof (induction rs arbitrary: n sz l)
  case Nil
  then show ?case by simp
next
  case (Cons r rs)
  then show ?case by (simp add: recoverStep_def sized_def)
qed

lemma sint_not_minus1:
  fixes w :: u64
  assumes "unat w + 1 < 2 ^ 64"
  shows "sint w \<noteq> -1"
proof
  assume "sint w = -1"
  then have "w = -1" by (metis scast_id of_int_sint signed_minus_1)
  moreover have "unat (-1 :: u64) = 2 ^ 64 - 1" 
    by (simp add: unsigned_minus_1_eq_mask mask_eq_exp_minus_1)
  ultimately show False using assms by simp
qed

lemma unat_add_of_nat:
  fixes b :: u64
  assumes "unat b + n < 2 ^ 64"
  shows "unat (b + of_nat n) = unat b + n"
  using assms by (simp add: unat_word_ariths unat_of_nat64)

text \<open>
  Opening a log of whole records followed by a torn tail (possibly none): the segment
  counts the whole records, and the handle stands at the end of the file, behind the tail.
\<close>

lemma recoverState_stream:
  assumes "contents d (logFile s) = marshal_all rs @ tail" and "ReadAll tail = (Inr [], [])"
    and "list_all record_ok rs" and "nextOffset s = baseOffset s"
    and "unat (baseOffset s) + length rs < 2 ^ 64"
  shows "recoverState d s =
    Inr (s\<lparr>logPos := length (marshal_all rs) + length tail,
           currentSize := int (length (marshal_all rs)),
           nextOffset := baseOffset s + of_nat (length rs)\<rparr>)"
proof -
  have "sint (baseOffset s + of_nat (length rs) - 1) \<noteq> -1" if "rs \<noteq> []"
  proof (rule sint_not_minus1)
    have "baseOffset s + of_nat (length rs) - 1 = baseOffset s + of_nat (length rs - 1)"
      using that by (cases rs) simp_all
    then show "unat (baseOffset s + of_nat (length rs) - 1) + 1 < 2 ^ 64"
      using assms(5) that unat_add_of_nat [of "baseOffset s" "length rs - 1"] by (cases rs) simp_all
  qed
  moreover have "ReadAll (contents d (logFile s)) = (Inr (map sized rs), [])"
    using assms by (simp add: ReadAll_marshal_all)
  ultimately show ?thesis
    using assms(1,4) recoverStep_fold [of "baseOffset s" 0 "-1" rs]
    by (auto simp: recoverState_def Let_def)
qed

lemma NewSegment_stream:
  assumes "contents d (logName base) = marshal_all rs @ tail" and "ReadAll tail = (Inr [], [])"
    and "list_all record_ok rs" and "unat base + length rs < 2 ^ 64"
  shows "NewSegment d base maxB interval =
    (d(logName base \<mapsto> marshal_all rs @ tail, indexName base \<mapsto> contents d (indexName base)),
     Inr \<lparr>baseOffset = base, nextOffset = base + of_nat (length rs), logFile = logName base,
          logPos = length (marshal_all rs) + length tail,
          seg_index = \<lparr>idx_file = indexName base,
                       idx_size = int (length (contents d (indexName base)))\<rparr>,
          currentSize = int (length (marshal_all rs)), maxBytes = maxB,
          indexIntervalBytes = interval, lastIndexBytes = 0\<rparr>)"
  using assms by (simp add: NewSegment_def NewIndex_def Let_def recoverState_stream)

lemma NewSegment_fresh:
  assumes "d (logName base) = None" and "d (indexName base) = None"
    and "NewSegment d base maxB interval = (d', r)"
  shows "\<exists>s. r = Inr s \<and> segment_rep d' s [] [] \<and> dense s [] \<and> appendable d' s \<and>
    baseOffset s = base \<and> nextOffset s = base \<and> maxBytes s = maxB \<and>
    (\<forall>f. f \<noteq> logName base \<longrightarrow> f \<noteq> indexName base \<longrightarrow> d' f = d f)"
  using assms NewSegment_stream [of d base "[]" "[]" maxB interval] unat_bound [of base]
  by (auto simp: contents_def segment_rep_def segment_names_def dense_def contiguous_def
      appendable_def entriesBytes_def)

text \<open>
  Closing a segment and opening its files again restores it, provided its records are
  numbered without gaps: same records, same next offset, ready for the next append.
\<close>

theorem NewSegment_reopens:
  assumes "segment_rep d s rs es" and "dense s rs"
    and "NewSegment d (baseOffset s) maxB interval = (d', r)"
  shows "d' = d"
    and "\<exists>s'. r = Inr s' \<and> segment_rep d s' rs es \<and> dense s' rs \<and> appendable d s' \<and>
      baseOffset s' = baseOffset s \<and> nextOffset s' = nextOffset s"
proof -
  have len: "unat (baseOffset s) + length rs < 2 ^ 64" using assms(2) by (simp add: dense_def)
  have log: "d (logName (baseOffset s)) = Some (marshal_all rs)"
    "d (indexName (baseOffset s)) = Some (entriesBytes es)"
    using assms(1) by (simp_all add: segment_rep_def)
  then have c: "contents d (logName (baseOffset s)) = marshal_all rs @ []"
    "contents d (indexName (baseOffset s)) = entriesBytes es"
    by (simp_all add: contents_def)
  note new = NewSegment_stream [OF c(1) ReadAll_Nil segment_repD(5) [OF assms(1)] len, of maxB interval]
  show "d' = d"
    using new assms(3) log c by (auto simp: fun_eq_iff)
  show "\<exists>s'. r = Inr s' \<and> segment_rep d s' rs es \<and> dense s' rs \<and> appendable d s' \<and>
      baseOffset s' = baseOffset s \<and> nextOffset s' = nextOffset s"
    using new assms c
    by (auto simp: segment_rep_def segment_names_def dense_def appendable_def)
qed


section \<open>The zero-copy read\<close>

theorem Segment_ReadZeroCopy_correct:
  assumes rep: "segment_rep d s rs es" and "start < nextOffset s" and "0 < mb"
  shows "\<exists>xs ys. rs = xs @ ys \<and> (\<forall>x \<in> set xs. Offset x < start) \<and>
    Segment_ReadZeroCopy d s start mb = (take (nat mb) (marshal_all ys), None)"
proof -
  from Lookup_rep [OF rep] obtain xs ys where
    rs: "rs = xs @ ys" and pos: "Lookup d (seg_index s) start = int (length (marshal_all xs))"
    and skip: "\<forall>x \<in> set xs. Offset x < start" by blast
  have c: "contents d (logFile s) = marshal_all xs @ marshal_all ys"
    using rs segment_repD(1,2) [OF rep] by (simp add: segment_names_def)
  have avail: "currentSize s - Lookup d (seg_index s) start = int (length (marshal_all ys))"
    using segment_repD(4) [OF rep] rs pos by simp
  have "Segment_ReadZeroCopy d s start mb = (take (nat mb) (marshal_all ys), None)"
  proof (cases "marshal_all ys = []")
    case True
    with assms(2,3) avail show ?thesis
      by (simp add: Segment_ReadZeroCopy_def Let_def)
  next
    case False
    then have "0 < int (length (marshal_all ys))" by simp
    with avail pos have "int (length (marshal_all xs)) < currentSize s" by linarith
    with assms(2,3) avail pos c show ?thesis
      by (auto simp: Segment_ReadZeroCopy_def Let_def SendFileToSocket_def)
  qed
  with rs skip show ?thesis by blast
qed


section \<open>Rewriting a segment\<close>

lemma replaceLoop_correct:
  assumes "sorted_wrt (<) (map Offset (done @ recs))"
    and "sorted (map fst es)"
    and "\<forall>e \<in> set es. entry_ok done e \<and> fst e \<in> Offset ` set done"
  shows "\<exists>es' l'. replaceLoop interval first recs
        (marshal_all done, entriesBytes es, int (length (marshal_all done)), l) =
      (marshal_all (done @ recs), entriesBytes es', int (length (marshal_all (done @ recs))), l') \<and>
      sorted (map fst es') \<and>
      (\<forall>e \<in> set es'. entry_ok (done @ recs) e \<and> fst e \<in> Offset ` set (done @ recs))"
  using assms
proof (induction recs arbitrary: "done" es l first)
  case Nil
  then show ?case by auto
next
  case (Cons r recs)
  define add where "add \<longleftrightarrow> first \<or> interval \<le> int (length (marshal_all done)) - l"
  define es1 where "es1 = (if add then es @ [(Offset r, length (marshal_all done))] else es)"
  have below: "\<forall>x \<in> set done. Offset x < Offset r"
    using Cons.prems(1) by (auto simp: sorted_wrt_append)
  have "sorted (map fst es1)"
    using Cons.prems(2,3) below by (auto simp: es1_def sorted_append less_imp_le)
  moreover have "\<forall>e \<in> set es1. entry_ok (done @ [r]) e \<and> fst e \<in> Offset ` set (done @ [r])"
    using Cons.prems(3) below by (auto simp: es1_def intro: entry_ok_snoc entry_ok_new split: if_splits)
  ultimately have IH: "\<exists>es' l'. replaceLoop interval False recs
        (marshal_all (done @ [r]), entriesBytes es1, int (length (marshal_all (done @ [r]))), l1) =
      (marshal_all ((done @ [r]) @ recs), entriesBytes es', int (length (marshal_all ((done @ [r]) @ recs))), l') \<and>
      sorted (map fst es') \<and>
      (\<forall>e \<in> set es'. entry_ok ((done @ [r]) @ recs) e \<and> fst e \<in> Offset ` set ((done @ [r]) @ recs))"
    for l1
    using Cons.prems(1) by (intro Cons.IH) simp_all
  have "replaceLoop interval first (r # recs)
      (marshal_all done, entriesBytes es, int (length (marshal_all done)), l) =
    replaceLoop interval False recs
      (marshal_all (done @ [r]), entriesBytes es1, int (length (marshal_all (done @ [r]))),
       if add then int (length (marshal_all done)) else l)"
    by (simp add: add_def [symmetric] es1_def Let_def entriesBytes_snoc entryBytes_def)
  with IH show ?case by simp
qed

theorem replaceContents_correct:
  assumes rep: "segment_rep d s rs es"
    and sub: "set rs' \<subseteq> set rs" and sorted: "sorted_wrt (<) (map Offset rs')"
    and size: "length (marshal_all rs') < 2 ^ 63"
    and run: "replaceContents d s rs' = (d', s')"
  shows "\<exists>es'. segment_rep d' s' rs' es'"
    and "baseOffset s' = baseOffset s" and "nextOffset s' = nextOffset s" and "maxBytes s' = maxBytes s"
    and "\<forall>b. b \<noteq> baseOffset s \<longrightarrow> d' (logName b) = d (logName b) \<and> d' (indexName b) = d (indexName b)"
proof -
  from replaceLoop_correct [of "[]" rs' "[]" "indexIntervalBytes s" True 0] sorted
  obtain es' l' where loop: "replaceLoop (indexIntervalBytes s) True rs' ([], [], 0, 0) =
      (marshal_all rs', entriesBytes es', int (length (marshal_all rs')), l')"
    and es': "List.sorted (map fst es')"
      "\<forall>e \<in> set es'. entry_ok rs' e \<and> fst e \<in> Offset ` set rs'"
    by (auto simp: entriesBytes_def)
  have d': "d' (logName (baseOffset s)) = Some (marshal_all rs')"
      "d' (indexName (baseOffset s)) = Some (entriesBytes es')"
    and s': "s' = s\<lparr>logFile := logName (baseOffset s), logPos := 0,
      seg_index := \<lparr>idx_file = indexName (baseOffset s), idx_size = int (length (entriesBytes es'))\<rparr>,
      currentSize := int (length (marshal_all rs')), lastIndexBytes := l'\<rparr>"
    and frame: "\<forall>b. b \<noteq> baseOffset s \<longrightarrow> d' (logName b) = d (logName b) \<and> d' (indexName b) = d (indexName b)"
    using run by (auto simp: replaceContents_def loop NewIndex_def Let_def contents_def)
  have bounds: "\<forall>r \<in> set rs'. baseOffset s \<le> Offset r \<and> Offset r < nextOffset s"
    using segment_repD(6) [OF rep] sub by blast
  have "segment_rep d' s' rs' es'"
    using d' s' es' bounds sorted size segment_repD(5,7) [OF rep] sub
    unfolding segment_rep_def by (auto simp: segment_names_def list_all_iff)
  then show "\<exists>es'. segment_rep d' s' rs' es'" ..
  show "baseOffset s' = baseOffset s" "nextOffset s' = nextOffset s" "maxBytes s' = maxBytes s"
    using s' by simp_all
  show "\<forall>b. b \<noteq> baseOffset s \<longrightarrow> d' (logName b) = d (logName b) \<and> d' (indexName b) = d (indexName b)"
    by (rule frame)
qed

end
