(* ===== verification/Partition_Log.thy ===== *)
theory Partition_Log
  imports Log_Segment
begin

text \<open>
  \<open>src/internal/storage/partition_log.go\<close>: a partition as a list of segments ordered by
  base offset. The state holds the files of the partition's directory. The code keeps
  \<open>activeSegment\<close> as a second pointer to the last element of \<open>segments\<close>
  (\<open>loadSegments\<close> and \<open>roll\<close> set it, \<open>RemoveOldestSegment\<close> never removes the last
  one), so the model reads it off the list. An operation is one step: every method
  holds the partition's lock, \<open>Read\<close> the read lock only (several of them at once are the
  subject of \<open>Concurrent_Reads\<close>).
\<close>

record PartitionLog =
  pl_dir :: dir
  segments :: "Segment list"
  maxSegmentBytes :: int
  pl_indexIntervalBytes :: int

definition activeSegment :: "PartitionLog \<Rightarrow> Segment" where
  "activeSegment p = last (segments p)"

section \<open>Opening a partition\<close>

definition parseLogName :: "string \<Rightarrow> u64 option" where
  "parseLogName name = (if suffix ''.log'' name then ParseUint64 (trimSuffix name ''.log'') else None)"

fun openSegments :: "dir \<Rightarrow> u64 list \<Rightarrow> int \<Rightarrow> int \<Rightarrow> dir \<times> (go_error + Segment list)" where
  "openSegments d [] maxB interval = (d, Inr [])"
| "openSegments d (b # bs) maxB interval =
     (case NewSegment d b maxB interval of
        (d1, Inl e) \<Rightarrow> (d1, Inl e)
      | (d1, Inr seg) \<Rightarrow>
          (case openSegments d1 bs maxB interval of
             (d2, Inl e) \<Rightarrow> (d2, Inl e)
           | (d2, Inr segs) \<Rightarrow> (d2, Inr (seg # segs))))"

text \<open>\<open>entries\<close> are the names \<open>os.ReadDir\<close> lists.\<close>

definition loadSegments :: "dir \<Rightarrow> string list \<Rightarrow> int \<Rightarrow> int \<Rightarrow> dir \<times> (go_error + Segment list)" where
  "loadSegments d entries maxB interval =
     (let found = sort (List.map_filter parseLogName entries);
          baseOffsets = (if length found = 0 then [0] else found)
      in openSegments d baseOffsets maxB interval)"

definition NewPartitionLog :: "dir \<Rightarrow> string list \<Rightarrow> int \<Rightarrow> int \<Rightarrow> go_error + PartitionLog" where
  "NewPartitionLog d entries maxB interval =
     (case loadSegments d entries maxB interval of
        (d', Inl e) \<Rightarrow> Inl e
      | (d', Inr segs) \<Rightarrow>
          Inr \<lparr>pl_dir = d', segments = segs, maxSegmentBytes = maxB,
               pl_indexIntervalBytes = interval\<rparr>)"


section \<open>Append\<close>

definition roll :: "PartitionLog \<Rightarrow> PartitionLog \<times> go_error option" where
  "roll p =
     (let newBaseOffset = nextOffset (activeSegment p)
      in case NewSegment (pl_dir p) newBaseOffset (maxSegmentBytes p) (pl_indexIntervalBytes p) of
           (d', Inl e) \<Rightarrow> (p\<lparr>pl_dir := d'\<rparr>, Some e)
         | (d', Inr newSeg) \<Rightarrow> (p\<lparr>pl_dir := d', segments := segments p @ [newSeg]\<rparr>, None))"

definition appendActive :: "PartitionLog \<Rightarrow> Record \<Rightarrow> PartitionLog \<times> Record" where
  "appendActive p rec =
     (case Segment_Append (pl_dir p) (activeSegment p) rec of
        (d', seg', rec') \<Rightarrow>
          (p\<lparr>pl_dir := d', segments := butlast (segments p) @ [seg']\<rparr>, rec'))"

definition Append :: "PartitionLog \<Rightarrow> Record \<Rightarrow> PartitionLog \<times> (go_error + Record)" where
  "Append p rec =
     (let (p1, err) = (if IsFull (activeSegment p) then roll p else (p, None))
      in case err of
           Some e \<Rightarrow> (p1, Inl e)
         | None \<Rightarrow> (case appendActive p1 rec of (p2, rec') \<Rightarrow> (p2, Inr rec')))"


section \<open>Read\<close>

function findLoop :: "Segment list \<Rightarrow> u64 \<Rightarrow> int \<Rightarrow> int \<Rightarrow> int \<Rightarrow> int" where
  "findLoop segs startOffset low high result =
     (if low \<le> high
      then let mid = low + (high - low) div 2
           in if baseOffset (segs ! nat mid) \<le> startOffset
              then findLoop segs startOffset (mid + 1) high mid
              else findLoop segs startOffset low (mid - 1) result
      else result)"
  by pat_completeness auto
termination
  by (relation "measure (\<lambda>(segs, t, low, high, r). nat (high - low + 1))") auto

declare findLoop.simps [simp del]

definition findSegmentIndex :: "PartitionLog \<Rightarrow> u64 \<Rightarrow> int" where
  "findSegmentIndex p startOffset =
     (if length (segments p) = 0 then -1
      else findLoop (segments p) startOffset 0 (int (length (segments p)) - 1) (-1))"

fun readSegments :: "dir \<Rightarrow> u64 \<Rightarrow> Segment list \<Rightarrow> (go_error + Record list) \<times> Segment list" where
  "readSegments d start [] = (Inr [], [])"
| "readSegments d start (s # segs) =
     (case Segment_Read d s start of
        (Inl e, s') \<Rightarrow> (Inl e, s' # segs)
      | (Inr rs, s') \<Rightarrow>
          (case readSegments d start segs of
             (Inl e, segs') \<Rightarrow> (Inl e, s' # segs')
           | (Inr rs', segs') \<Rightarrow> (Inr (rs @ rs'), s' # segs')))"

definition Read :: "PartitionLog \<Rightarrow> u64 \<Rightarrow> (go_error + Record list) \<times> PartitionLog" where
  "Read p startOffset =
     (let startIdx = findSegmentIndex p startOffset
      in if startIdx = -1 then (Inr [], p)
         else case readSegments (pl_dir p) startOffset (drop (nat startIdx) (segments p)) of
                (r, segs') \<Rightarrow> (r, p\<lparr>segments := take (nat startIdx) (segments p) @ segs'\<rparr>))"

text \<open>The loop of \<open>ReadZeroCopy\<close>: the bytes written so far and an error, if one stops it.\<close>

fun zeroCopySegments :: "dir \<Rightarrow> u64 \<Rightarrow> int \<Rightarrow> int \<Rightarrow> Segment list \<Rightarrow> bytes \<times> go_error option" where
  "zeroCopySegments d start maxB remaining [] = ([], None)"
| "zeroCopySegments d start maxB remaining (s # segs) =
     (if 0 < maxB \<and> remaining \<le> 0 then ([], None)
      else case Segment_ReadZeroCopy d s start remaining of
             (out, Some e) \<Rightarrow> (out, Some e)
           | (out, None) \<Rightarrow>
               (case zeroCopySegments d start maxB
                       (if 0 < maxB then remaining - int (length out) else remaining) segs of
                  (out', err) \<Rightarrow> (out @ out', err)))"

definition ReadZeroCopy :: "PartitionLog \<Rightarrow> u64 \<Rightarrow> int \<Rightarrow> bytes \<times> go_error option" where
  "ReadZeroCopy p startOffset maxB =
     (let startIdx = findSegmentIndex p startOffset
      in if startIdx = -1 then ([], None)
         else zeroCopySegments (pl_dir p) startOffset maxB maxB (drop (nat startIdx) (segments p)))"


section \<open>Accessors and removal\<close>

definition LEO :: "PartitionLog \<Rightarrow> u64" where
  "LEO p = (if segments p = [] then 0 else nextOffset (activeSegment p))"

definition BaseOffset :: "PartitionLog \<Rightarrow> u64" where
  "BaseOffset p = (if length (segments p) = 0 then 0 else baseOffset (hd (segments p)))"

definition Stats :: "PartitionLog \<Rightarrow> nat \<times> int" where
  "Stats p = (length (segments p), sum_list (map currentSize (segments p)))"

definition GetNonActiveSegments :: "PartitionLog \<Rightarrow> Segment list" where
  "GetNonActiveSegments p = (if length (segments p) \<le> 1 then [] else butlast (segments p))"

definition RemoveOldestSegment :: "PartitionLog \<Rightarrow> PartitionLog \<times> bool" where
  "RemoveOldestSegment p =
     (if length (segments p) \<le> 1 then (p, False)
      else (p\<lparr>pl_dir := RemoveFiles (pl_dir p) (hd (segments p)), segments := tl (segments p)\<rparr>, True))"


section \<open>What a partition represents\<close>

definition segment_records :: "dir \<Rightarrow> Segment \<Rightarrow> Record list" where
  "segment_records d s =
     (case ParseRecordStream (contents d (logFile s)) of Inl e \<Rightarrow> [] | Inr rs \<Rightarrow> rs)"

text \<open>The abstract value of a partition: the records on disk, oldest first.\<close>

definition log_records :: "PartitionLog \<Rightarrow> Record list" where
  "log_records p = concat (map (segment_records (pl_dir p)) (segments p))"

definition segment_inv :: "dir \<Rightarrow> Segment \<Rightarrow> bool" where
  "segment_inv d s \<longleftrightarrow> (\<exists>es. segment_rep d s (segment_records d s) es)"

text \<open>
  The invariant: every segment represents its records, segments are ordered and disjoint,
  the active one is ready for an append, and no file exists for a later base offset.
\<close>

definition log_inv :: "PartitionLog \<Rightarrow> bool" where
  "log_inv p \<longleftrightarrow>
     segments p \<noteq> [] \<and>
     (\<forall>s \<in> set (segments p). segment_inv (pl_dir p) s) \<and>
     sorted_wrt (\<lambda>a b. baseOffset a < baseOffset b \<and> nextOffset a \<le> baseOffset b) (segments p) \<and>
     appendable (pl_dir p) (activeSegment p) \<and>
     maxBytes (activeSegment p) = maxSegmentBytes p \<and>
     0 < maxSegmentBytes p \<and> maxSegmentBytes p \<le> 2 ^ 62 \<and>
     (\<forall>b. baseOffset (activeSegment p) < b \<longrightarrow>
        pl_dir p (logName b) = None \<and> pl_dir p (indexName b) = None)"

lemma segment_rep_records: "segment_rep d s rs es \<Longrightarrow> segment_records d s = rs"
  by (simp add: segment_records_def segment_repD(2) segment_repD(5) ParseRecordStream_marshal_all
      segment_repD(1) [unfolded segment_names_def])

lemma segment_rep_inv: "segment_rep d s rs es \<Longrightarrow> segment_inv d s \<and> segment_records d s = rs"
  using segment_rep_records by (auto simp: segment_inv_def)

lemma segment_inv_logPos [simp]: "segment_inv d (s\<lparr>logPos := x\<rparr>) \<longleftrightarrow> segment_inv d s"
  by (simp add: segment_inv_def segment_records_def)

lemma segment_records_logPos [simp]: "segment_records d (s\<lparr>logPos := x\<rparr>) = segment_records d s"
  by (simp add: segment_records_def)

lemma segment_inv_frame:
  assumes "segment_inv d s"
    and "d' (logName (baseOffset s)) = d (logName (baseOffset s))"
    and "d' (indexName (baseOffset s)) = d (indexName (baseOffset s))"
  shows "segment_inv d' s \<and> segment_records d' s = segment_records d s"
  using assms segment_rep_frame [of d s "segment_records d s" _ d'] segment_rep_inv
  unfolding segment_inv_def by blast

lemma segment_inv_bounds:
  assumes "segment_inv d s" and "r \<in> set (segment_records d s)"
  shows "baseOffset s \<le> Offset r" and "Offset r < nextOffset s"
  using assms segment_repD(6) unfolding segment_inv_def by blast+

lemma segment_inv_names: "segment_inv d s \<Longrightarrow> logFile s = logName (baseOffset s)"
  unfolding segment_inv_def by (metis segment_names_def segment_repD(1))

lemma split_last: "xs \<noteq> [] \<Longrightarrow> butlast xs @ [last xs] = xs"
  by simp

lemma log_inv_active:
  assumes "log_inv p"
  shows "activeSegment p \<in> set (segments p)" and "segment_inv (pl_dir p) (activeSegment p)"
    and "LEO p = nextOffset (activeSegment p)"
  using assms by (auto simp: log_inv_def activeSegment_def LEO_def)

lemma log_inv_sorted:
  assumes "log_inv p"
  shows "sorted_wrt (\<lambda>a b. baseOffset a < baseOffset b \<and> nextOffset a \<le> baseOffset b)
      (butlast (segments p) @ [activeSegment p])"
proof -
  have "butlast (segments p) @ [activeSegment p] = segments p"
    using assms unfolding log_inv_def activeSegment_def by (simp add: split_last)
  then show ?thesis using assms by (simp only: log_inv_def)
qed

lemma log_inv_older:
  assumes "log_inv p" and "s \<in> set (butlast (segments p))"
  shows "segment_inv (pl_dir p) s" and "baseOffset s < baseOffset (activeSegment p)"
    and "nextOffset s \<le> baseOffset (activeSegment p)"
  using assms(2) log_inv_sorted [OF assms(1)] apply (simp_all add: sorted_wrt_append)
  using assms unfolding log_inv_def by (meson in_set_butlastD)

lemma log_records_active:
  "segments p \<noteq> [] \<Longrightarrow> log_records p =
     concat (map (segment_records (pl_dir p)) (butlast (segments p))) @
     segment_records (pl_dir p) (activeSegment p)"
  unfolding log_records_def activeSegment_def
  by (subst split_last [symmetric], assumption) (simp only: map_append concat_append, simp)


section \<open>Append adds one record at the log end offset\<close>

lemma frame_older:
  assumes "log_inv p"
    and "\<And>b. b < baseOffset (activeSegment p) \<Longrightarrow>
      d' (logName b) = pl_dir p (logName b) \<and> d' (indexName b) = pl_dir p (indexName b)"
  shows "\<forall>s \<in> set (butlast (segments p)). segment_inv d' s"
    and "map (segment_records d') (butlast (segments p)) =
      map (segment_records (pl_dir p)) (butlast (segments p))"
proof -
  have "segment_inv d' s \<and> segment_records d' s = segment_records (pl_dir p) s"
    if "s \<in> set (butlast (segments p))" for s
    using log_inv_older [OF assms(1) that] assms(2) [of "baseOffset s"]
    by (intro segment_inv_frame) simp_all
  then show "\<forall>s \<in> set (butlast (segments p)). segment_inv d' s"
    and "map (segment_records d') (butlast (segments p)) =
      map (segment_records (pl_dir p)) (butlast (segments p))"
    by auto
qed

lemma appendActive_correct:
  assumes inv: "log_inv p" and ok: "record_ok rec" and off: "unat (LEO p) + 1 < 2 ^ 64"
    and notfull: "\<not> IsFull (activeSegment p)"
    and run: "appendActive p rec = (p', rec')"
  shows "rec' = rec\<lparr>Offset := LEO p\<rparr>" and "log_inv p'"
    and "log_records p' = log_records p @ [rec']" and "LEO p' = LEO p + 1"
proof -
  let ?s = "activeSegment p" and ?d = "pl_dir p"
  obtain d' s' where app: "Segment_Append ?d ?s rec = (d', s', rec')"
    and p': "p' = p\<lparr>pl_dir := d', segments := butlast (segments p) @ [s']\<rparr>"
    using run by (auto simp: appendActive_def split: prod.splits)
  obtain es where rep: "segment_rep ?d ?s (segment_records ?d ?s) es"
    using log_inv_active(2) [OF inv] by (auto simp: segment_inv_def)
  have able: "appendable ?d ?s" using inv by (simp add: log_inv_def)
  have "length (Marshal rec) < 2 ^ 32" using ok by (simp add: length_Marshal record_ok_def)
  moreover have "int (length (marshal_all (segment_records ?d ?s))) < 2 ^ 62"
    using notfull inv segment_repD(4) [OF rep] by (simp add: IsFull_def log_inv_def)
  ultimately have room: "length (marshal_all (segment_records ?d ?s)) + length (Marshal rec) < 2 ^ 63"
    by simp
  have leo: "LEO p = nextOffset ?s" by (rule log_inv_active(3) [OF inv])
  note eff = Segment_Append_effect [OF rep able app]
  note cor = Segment_Append_correct [OF rep able ok off [unfolded leo] room app]
  have ne: "segments p \<noteq> []" using inv by (simp add: log_inv_def)
  have act: "activeSegment p' = s'" by (simp add: p' activeSegment_def)
  have old: "b < baseOffset ?s \<Longrightarrow> d' (logName b) = ?d (logName b) \<and> d' (indexName b) = ?d (indexName b)" for b
    using cor(6) by auto
  note older = frame_older [OF inv old]
  show "rec' = rec\<lparr>Offset := LEO p\<rparr>" using eff(1) leo by simp
  show "LEO p' = LEO p + 1" using act cor(3) leo by (simp add: LEO_def p' activeSegment_def)
  have new: "segment_inv d' s'" "segment_records d' s' = segment_records ?d ?s @ [rec']"
    using segment_rep_inv [OF cor(1)] by simp_all
  show "log_records p' = log_records p @ [rec']"
    unfolding log_records_active [OF ne]
    by (simp add: log_records_def p' new(2) older(2) del: map_eq_conv)
  have sorted: "sorted_wrt (\<lambda>a b. baseOffset a < baseOffset b \<and> nextOffset a \<le> baseOffset b)
      (butlast (segments p) @ [s'])"
    using log_inv_sorted [OF inv] log_inv_older [OF inv] cor(4)
    by (simp add: sorted_wrt_append)
  show "log_inv p'"
    using inv older(1) new(1) sorted cor act
    unfolding log_inv_def by (auto simp: p')
qed

lemma roll_correct:
  assumes inv: "log_inv p" and full: "IsFull (activeSegment p)"
    and run: "roll p = (p', err)"
  shows "err = None" and "log_inv p'" and "log_records p' = log_records p" and "LEO p' = LEO p"
    and "\<not> IsFull (activeSegment p')"
proof -
  let ?s = "activeSegment p" and ?d = "pl_dir p"
  obtain es where rep: "segment_rep ?d ?s (segment_records ?d ?s) es"
    using log_inv_active(2) [OF inv] by (auto simp: segment_inv_def)
  have "segment_records ?d ?s \<noteq> []"
    using full inv segment_repD(4) [OF rep] by (auto simp: IsFull_def log_inv_def)
  then obtain r where "r \<in> set (segment_records ?d ?s)" by (meson list.set_sel(1))
  then have grow: "baseOffset ?s < nextOffset ?s"
    using segment_repD(6) [OF rep] le_less_trans by blast
  then have none: "?d (logName (nextOffset ?s)) = None" "?d (indexName (nextOffset ?s)) = None"
    using inv by (simp_all add: log_inv_def)
  obtain d' r' where new: "NewSegment ?d (nextOffset ?s) (maxSegmentBytes p) (pl_indexIntervalBytes p) = (d', r')"
    by (cases "NewSegment ?d (nextOffset ?s) (maxSegmentBytes p) (pl_indexIntervalBytes p)") auto
  from NewSegment_fresh [OF none new] obtain n where
    r': "r' = Inr n" and nrep: "segment_rep d' n [] []" and napp: "appendable d' n"
    and nb: "baseOffset n = nextOffset ?s" "nextOffset n = nextOffset ?s" "maxBytes n = maxSegmentBytes p"
    and frame: "\<forall>f. f \<noteq> logName (nextOffset ?s) \<longrightarrow> f \<noteq> indexName (nextOffset ?s) \<longrightarrow> d' f = ?d f"
    by blast
  have p': "p' = p\<lparr>pl_dir := d', segments := segments p @ [n]\<rparr>" and "err = None"
    using run new r' by (auto simp: roll_def Let_def)
  show "err = None" by fact
  have act: "activeSegment p' = n" by (simp add: p' activeSegment_def)
  show "LEO p' = LEO p"
    using act nb log_inv_active(3) [OF inv] by (simp add: LEO_def p' activeSegment_def)
  show "\<not> IsFull (activeSegment p')"
    using act nb inv segment_repD(4) [OF nrep] by (simp add: IsFull_def log_inv_def)
  have lt: "baseOffset s < nextOffset ?s \<and> nextOffset s \<le> nextOffset ?s" if "s \<in> set (segments p)" for s
  proof (cases "s = ?s")
    case True
    with grow show ?thesis by simp
  next
    case False
    with that have "s \<in> set (butlast (segments p))"
      using split_last [of "segments p"] unfolding activeSegment_def
      by (metis Un_iff empty_iff empty_set insert_iff list.simps(15) set_append)
    with log_inv_older [OF inv] grow show ?thesis by (meson le_less_trans less_imp_le less_trans)
  qed
  have keep: "segment_inv d' s \<and> segment_records d' s = segment_records ?d s" if "s \<in> set (segments p)" for s
    using that lt [OF that] frame inv by (intro segment_inv_frame) (auto simp: log_inv_def)
  have nrec: "segment_inv d' n" "segment_records d' n = []"
    using segment_rep_inv [OF nrep] by simp_all
  show "log_records p' = log_records p"
    using keep nrec by (simp add: log_records_def p' cong: map_cong)
  show "log_inv p'"
    using inv keep nrec lt nb napp act frame grow
    unfolding log_inv_def by (auto simp: p' sorted_wrt_append)
qed

theorem Append_correct:
  assumes "log_inv p" and "record_ok rec" and "unat (LEO p) + 1 < 2 ^ 64"
  shows "\<exists>p'. Append p rec = (p', Inr (rec\<lparr>Offset := LEO p\<rparr>)) \<and> log_inv p' \<and>
    log_records p' = log_records p @ [rec\<lparr>Offset := LEO p\<rparr>] \<and> LEO p' = LEO p + 1"
proof (cases "IsFull (activeSegment p)")
  case True
  obtain p1 err where roll: "roll p = (p1, err)" by (cases "roll p")
  note r = roll_correct [OF assms(1) True roll]
  obtain p2 rec' where app: "appendActive p1 rec = (p2, rec')" by (cases "appendActive p1 rec")
  have "unat (LEO p1) + 1 < 2 ^ 64" using assms(3) r(4) by simp
  note a = appendActive_correct [OF r(2) assms(2) this r(5) app]
  have "Append p rec = (p2, Inr rec')"
    using True roll r(1) app by (simp add: Append_def)
  with a r show ?thesis by auto
next
  case False
  obtain p2 rec' where app: "appendActive p rec = (p2, rec')" by (cases "appendActive p rec")
  note a = appendActive_correct [OF assms False app]
  have "Append p rec = (p2, Inr rec')"
    using False app by (simp add: Append_def)
  with a show ?thesis by auto
qed

end
