(* ===== verification/Partition_Reads.thy ===== *)
theory Partition_Reads
  imports Partition_Log
begin

text \<open>
  Reading a partition: the binary search over the segments (an instance of
  \<open>rightmost_search\<close>), \<open>Read\<close> and \<open>ReadZeroCopy\<close>, and the retention step
  \<open>RemoveOldestSegment\<close>, all against the abstract value \<open>log_records\<close>.
\<close>

section \<open>The binary search over the segments\<close>

interpretation seg_search: rightmost_search
  "\<lambda>low high r. findLoop segs start low high r"
  "\<lambda>i. baseOffset (segs ! nat i) \<le> start" "\<lambda>i. i" "int (length segs)"
  for segs :: "Segment list" and start :: u64
  by unfold_locales (subst findLoop.simps, rule refl)

text \<open>
  The search finds the last segment that starts at or below the offset. All segments
  before it end at or below the offset, so nothing wanted is skipped.
\<close>

lemma findSegmentIndex_correct:
  assumes "log_inv p"
  shows "if start < BaseOffset p then findSegmentIndex p start = -1
    else \<exists>k < length (segments p). findSegmentIndex p start = int k \<and>
      (\<forall>s \<in> set (take k (segments p)). nextOffset s \<le> start)"
proof -
  let ?segs = "segments p"
  have ne: "?segs \<noteq> []" using assms by (simp add: log_inv_def)
  have srt: "i < j \<Longrightarrow> j < length ?segs \<Longrightarrow>
      baseOffset (?segs ! i) < baseOffset (?segs ! j) \<and> nextOffset (?segs ! i) \<le> baseOffset (?segs ! j)"
    for i j
    using assms unfolding log_inv_def by (auto simp: sorted_wrt_iff_nth_less)
  have mono: "baseOffset (?segs ! nat i) \<le> start"
    if "0 \<le> i" "i \<le> j" "j < int (length ?segs)" "baseOffset (?segs ! nat j) \<le> start" for i j
    using srt [of "nat i" "nat j"] that by (cases "i = j") (auto simp: nat_less_iff)
  from seg_search.search_correct [of ?segs start "-1"] mono obtain m where m:
    "0 \<le> m" "m \<le> int (length ?segs)"
    "\<forall>i. 0 \<le> i \<and> i < int (length ?segs) \<longrightarrow> (baseOffset (?segs ! nat i) \<le> start \<longleftrightarrow> i < m)"
    "findLoop ?segs start 0 (int (length ?segs) - 1) (-1) = (if m = 0 then -1 else m - 1)"
    by auto
  have idx: "findSegmentIndex p start = m - 1"
    using ne m(4) by (simp add: findSegmentIndex_def)
  have base: "BaseOffset p = baseOffset (?segs ! 0)"
    using ne by (simp add: BaseOffset_def hd_conv_nth)
  have hd: "BaseOffset p \<le> start \<longleftrightarrow> 0 < m"
    using m(3) [rule_format, of 0] ne base by simp
  show ?thesis
  proof (cases "start < BaseOffset p")
    case True
    with hd m(1) idx show ?thesis by auto
  next
    case False
    with hd have pos: "0 < m" by (simp add: not_less)
    have "nextOffset s \<le> start" if "s \<in> set (take (nat (m - 1)) ?segs)" for s
    proof -
      from that obtain i where i: "i < nat (m - 1)" "i < length ?segs" "s = ?segs ! i"
        by (auto simp: in_set_conv_nth)
      have "baseOffset (?segs ! nat (m - 1)) \<le> start" using m(2,3) pos by simp
      moreover have "nat (m - 1) < length ?segs" using m(2) pos by linarith
      ultimately show ?thesis using srt [of i "nat (m - 1)"] i by auto
    qed
    with False pos m(2) idx show ?thesis
      by (auto intro!: exI [of _ "nat (m - 1)"])
  qed
qed


section \<open>Offsets increase along the whole log\<close>

lemma sorted_offsets_concat:
  assumes "\<forall>s \<in> set segs. segment_inv d s"
    and "sorted_wrt (\<lambda>a b. baseOffset a < baseOffset b \<and> nextOffset a \<le> baseOffset b) segs"
  shows "sorted_wrt (<) (map Offset (concat (map (segment_records d) segs)))"
  using assms
proof (induction segs)
  case Nil
  then show ?case by simp
next
  case (Cons s segs)
  have "sorted_wrt (<) (map Offset (segment_records d s))"
    using Cons.prems segment_repD(8) by (auto simp: segment_inv_def)
  moreover have "Offset r < Offset r'"
    if "r \<in> set (segment_records d s)" "t \<in> set segs" "r' \<in> set (segment_records d t)" for r t r'
    using that Cons.prems segment_inv_bounds(2) [of d s r] segment_inv_bounds(1) [of d t r']
    by (fastforce intro: less_le_trans)
  ultimately show ?case using Cons by (auto simp: sorted_wrt_append)
qed

lemma log_inv_offsets: "log_inv p \<Longrightarrow> sorted_wrt (<) (map Offset (log_records p))"
  unfolding log_inv_def log_records_def by (rule sorted_offsets_concat) simp_all

section \<open>Reads only move file positions\<close>

definition repositioned :: "dir \<Rightarrow> Segment \<Rightarrow> Segment \<Rightarrow> bool" where
  "repositioned d s s' \<longleftrightarrow> s' = s \<or> s' = s\<lparr>logPos := length (contents d (logFile s))\<rparr>"

lemma repositioned_same:
  assumes "repositioned d s s'"
  shows "baseOffset s' = baseOffset s" "nextOffset s' = nextOffset s" "maxBytes s' = maxBytes s"
    "segment_inv d s' \<longleftrightarrow> segment_inv d s" "segment_records d s' = segment_records d s"
    "appendable d s \<Longrightarrow> appendable d s'"
  using assms by (auto simp: repositioned_def appendable_def)

lemma repositioned_refl: "list_all2 (repositioned d) segs segs"
  by (simp add: list_all2_same repositioned_def)

lemma log_inv_repositioned:
  assumes inv: "log_inv p" and pos: "list_all2 (repositioned (pl_dir p)) (segments p) segs'"
  shows "log_inv (p\<lparr>segments := segs'\<rparr>)"
    and "log_records (p\<lparr>segments := segs'\<rparr>) = log_records p"
    and "LEO (p\<lparr>segments := segs'\<rparr>) = LEO p"
proof -
  have len: "length segs' = length (segments p)" using pos by (simp add: list_all2_lengthD)
  have at: "repositioned (pl_dir p) (segments p ! i) (segs' ! i)" if "i < length (segments p)" for i
    using pos that by (rule list_all2_nthD)
  note same = repositioned_same [OF at]
  have ne: "segments p \<noteq> []" "segs' \<noteq> []" using inv len by (auto simp: log_inv_def)
  have rep: "repositioned (pl_dir p) (last (segments p)) (last segs')"
    using at [of "length (segments p) - 1"] ne len by (simp add: last_conv_nth)
  have "sorted_wrt (\<lambda>a b. baseOffset a < baseOffset b \<and> nextOffset a \<le> baseOffset b) segs'"
    using inv len same by (simp add: log_inv_def sorted_wrt_iff_nth_less)
  moreover have "\<forall>s \<in> set segs'. segment_inv (pl_dir p) s"
    using inv len same(4) by (auto simp: log_inv_def in_set_conv_nth [of _ segs'] nth_mem)
  ultimately show "log_inv (p\<lparr>segments := segs'\<rparr>)"
    using inv ne repositioned_same [OF rep] unfolding log_inv_def
    by (simp add: activeSegment_def)
  have "map (segment_records (pl_dir p)) segs' = map (segment_records (pl_dir p)) (segments p)"
    using len same(5) by (simp add: list_eq_iff_nth_eq)
  then show "log_records (p\<lparr>segments := segs'\<rparr>) = log_records p"
    by (simp add: log_records_def)
  show "LEO (p\<lparr>segments := segs'\<rparr>) = LEO p"
    using ne repositioned_same [OF rep] by (simp add: LEO_def activeSegment_def)
qed


section \<open>Read\<close>

lemma Segment_Read_inv:
  assumes "segment_inv d s"
  shows "\<exists>s'. Segment_Read d s start = (Inr (filter (\<lambda>r. start \<le> Offset r) (segment_records d s)), s')
    \<and> repositioned d s s'"
proof -
  obtain es where rep: "segment_rep d s (segment_records d s) es"
    using assms by (auto simp: segment_inv_def)
  have "contents d (logFile s) = marshal_all (segment_records d s)"
    using segment_repD(1,2) [OF rep] by (simp add: segment_names_def)
  with Segment_Read_correct [OF rep, of start] show ?thesis
    by (simp add: repositioned_def)
qed

lemma readSegments_correct:
  assumes "\<forall>s \<in> set segs. segment_inv d s"
  shows "\<exists>segs'. readSegments d start segs =
      (Inr (filter (\<lambda>r. start \<le> Offset r) (concat (map (segment_records d) segs))), segs')
    \<and> list_all2 (repositioned d) segs segs'"
  using assms
proof (induction segs)
  case Nil
  then show ?case by simp
next
  case (Cons s segs)
  from Cons obtain segs' where IH: "readSegments d start segs =
      (Inr (filter (\<lambda>r. start \<le> Offset r) (concat (map (segment_records d) segs))), segs')"
    "list_all2 (repositioned d) segs segs'"
    by auto
  from Cons.prems Segment_Read_inv [of d s start] obtain s' where
    "Segment_Read d s start = (Inr (filter (\<lambda>r. start \<le> Offset r) (segment_records d s)), s')"
    "repositioned d s s'"
    by auto
  with IH show ?case by simp
qed

lemma records_before:
  assumes "\<forall>s \<in> set segs. segment_inv d s \<and> nextOffset s \<le> start"
    and "r \<in> set (concat (map (segment_records d) segs))"
  shows "Offset r < start"
  using assms segment_inv_bounds(2) by (fastforce intro: less_le_trans)

lemma log_records_split:
  "log_records p = concat (map (segment_records (pl_dir p)) (take k (segments p))) @
     concat (map (segment_records (pl_dir p)) (drop k (segments p)))"
  unfolding log_records_def by (simp flip: concat_append map_append)

lemma Read_correct:
  assumes inv: "log_inv p"
  shows "\<exists>p'. Read p start =
      (Inr (if start < BaseOffset p then [] else filter (\<lambda>r. start \<le> Offset r) (log_records p)), p')
    \<and> log_inv p' \<and> log_records p' = log_records p \<and> LEO p' = LEO p"
proof (cases "start < BaseOffset p")
  case True
  then have "Read p start = (Inr [], p)"
    using findSegmentIndex_correct [OF inv, of start] by (simp add: Read_def)
  with True inv show ?thesis by simp
next
  case False
  then obtain k where k: "k < length (segments p)" "findSegmentIndex p start = int k"
    "\<forall>s \<in> set (take k (segments p)). nextOffset s \<le> start"
    using findSegmentIndex_correct [OF inv, of start] by auto
  have all: "\<forall>s \<in> set (segments p). segment_inv (pl_dir p) s" using inv by (simp add: log_inv_def)
  obtain segs' where rd: "readSegments (pl_dir p) start (drop k (segments p)) =
      (Inr (filter (\<lambda>r. start \<le> Offset r) (concat (map (segment_records (pl_dir p)) (drop k (segments p))))), segs')"
    and pos: "list_all2 (repositioned (pl_dir p)) (drop k (segments p)) segs'"
    using readSegments_correct [of "drop k (segments p)" "pl_dir p" start] all
    by (meson in_set_dropD)
  have "\<forall>r \<in> set (concat (map (segment_records (pl_dir p)) (take k (segments p)))). Offset r < start"
    using records_before k(3) all by (meson in_set_takeD)
  then have "filter (\<lambda>r. start \<le> Offset r) (log_records p) =
      filter (\<lambda>r. start \<le> Offset r) (concat (map (segment_records (pl_dir p)) (drop k (segments p))))"
    by (subst log_records_split [of p k]) (rule filter_skipped)
  moreover have "list_all2 (repositioned (pl_dir p)) (segments p) (take k (segments p) @ segs')"
    using list_all2_appendI [OF repositioned_refl pos, of "take k (segments p)"] by simp
  ultimately show ?thesis
    using False k(2) rd log_inv_repositioned [OF inv] by (simp add: Read_def)
qed



section \<open>The zero-copy read\<close>

text \<open>
  What goes to the socket is a prefix, cut at the byte limit, of the records from some
  record at or below the requested offset on; a client drops the records below it.
\<close>

lemma take_take_append: "take n (take m xs @ ys) = take n (take m xs) @ take (n - min m (length xs)) ys"
  by (simp add: min_def)

lemma Segment_ReadZeroCopy_inv:
  assumes "segment_inv d s" and "0 < mb"
  shows "\<exists>xs ys. segment_records d s = xs @ ys \<and> (\<forall>x \<in> set xs. Offset x < start) \<and>
    Segment_ReadZeroCopy d s start mb = (take (nat mb) (marshal_all ys), None)"
proof (cases "nextOffset s \<le> start")
  case True
  then have "\<forall>x \<in> set (segment_records d s). Offset x < start"
    using segment_inv_bounds(2) [OF assms(1)] by (meson less_le_trans)
  with True show ?thesis
    by (intro exI [of _ "segment_records d s"] exI [of _ "[]"]) (simp add: Segment_ReadZeroCopy_def)
next
  case False
  with assms show ?thesis
    using Segment_ReadZeroCopy_correct unfolding segment_inv_def by (meson not_le)
qed

lemma zeroCopySegments_correct:
  assumes "\<forall>s \<in> set segs. segment_inv d s" and "0 < maxB"
  shows "\<exists>ys. zeroCopySegments d start maxB mb segs = (take (nat mb) (marshal_all ys), None) \<and>
    filter (\<lambda>r. start \<le> Offset r) ys =
    filter (\<lambda>r. start \<le> Offset r) (concat (map (segment_records d) segs)) \<and>
    set ys \<subseteq> set (concat (map (segment_records d) segs)) \<and>
    length (marshal_all ys) \<le> length (marshal_all (concat (map (segment_records d) segs)))"
  using assms(1)
proof (induction segs arbitrary: mb)
  case Nil
  then show ?case by (intro exI [of _ "[]"]) simp
next
  case (Cons s segs)
  show ?case
  proof (cases "mb \<le> 0")
    case True
    with assms(2) show ?thesis
      by (intro exI [of _ "concat (map (segment_records d) (s # segs))"]) simp
  next
    case False
    with Cons.prems Segment_ReadZeroCopy_inv [of d s mb start] obtain xs ys where
      s: "segment_records d s = xs @ ys" "\<forall>x \<in> set xs. Offset x < start"
        "Segment_ReadZeroCopy d s start mb = (take (nat mb) (marshal_all ys), None)"
      by auto
    let ?mb = "mb - int (length (take (nat mb) (marshal_all ys)))"
    from Cons obtain zs where zs: "zeroCopySegments d start maxB ?mb segs = (take (nat ?mb) (marshal_all zs), None)"
        "filter (\<lambda>r. start \<le> Offset r) zs =
         filter (\<lambda>r. start \<le> Offset r) (concat (map (segment_records d) segs))"
        "set zs \<subseteq> set (concat (map (segment_records d) segs))"
        "length (marshal_all zs) \<le> length (marshal_all (concat (map (segment_records d) segs)))"
      by (meson list.set_intros(2))
    have "take (nat mb) (marshal_all ys) @ take (nat ?mb) (marshal_all zs) =
        take (nat mb) (marshal_all (ys @ zs))"
      using False by (simp add: min_def nat_diff_distrib)
    with False assms(2) s zs filter_skipped [OF s(2), of ys] show ?thesis
      by (intro exI [of _ "ys @ zs"]) auto
  qed
qed

lemma log_inv_records_ok: "log_inv p \<Longrightarrow> list_all record_ok (log_records p)"
  unfolding log_inv_def log_records_def segment_inv_def list_all_iff
  by (auto dest!: segment_repD(5) simp: list_all_iff)

lemma ReadZeroCopy_correct:
  assumes inv: "log_inv p" and "0 < maxB" and "BaseOffset p \<le> start"
  shows "\<exists>ys. ReadZeroCopy p start maxB = (take (nat maxB) (marshal_all ys), None) \<and>
    list_all record_ok ys \<and> length (marshal_all ys) \<le> length (marshal_all (log_records p)) \<and>
    filter (\<lambda>r. start \<le> Offset r) ys = filter (\<lambda>r. start \<le> Offset r) (log_records p)"
proof -
  obtain k where k: "k < length (segments p)" "findSegmentIndex p start = int k"
    "\<forall>s \<in> set (take k (segments p)). nextOffset s \<le> start"
    using findSegmentIndex_correct [OF inv, of start] leD [OF assms(3)] by auto
  have all: "\<forall>s \<in> set (segments p). segment_inv (pl_dir p) s" using inv by (simp add: log_inv_def)
  let ?tl = "concat (map (segment_records (pl_dir p)) (drop k (segments p)))"
  from all obtain ys where ys:
    "zeroCopySegments (pl_dir p) start maxB maxB (drop k (segments p)) = (take (nat maxB) (marshal_all ys), None)"
    "filter (\<lambda>r. start \<le> Offset r) ys = filter (\<lambda>r. start \<le> Offset r) ?tl" "set ys \<subseteq> set ?tl"
    "length (marshal_all ys) \<le> length (marshal_all ?tl)"
    using zeroCopySegments_correct [OF _ assms(2), of "drop k (segments p)" "pl_dir p" start maxB]
    by (meson in_set_dropD)
  have "\<forall>r \<in> set (concat (map (segment_records (pl_dir p)) (take k (segments p)))). Offset r < start"
    using records_before k(3) all by (meson in_set_takeD)
  then have "filter (\<lambda>r. start \<le> Offset r) (log_records p) = filter (\<lambda>r. start \<le> Offset r) ?tl"
    by (subst log_records_split [of p k]) (rule filter_skipped)
  moreover have len: "length (marshal_all ys) \<le> length (marshal_all (log_records p))"
    using ys(4) by (subst log_records_split [of p k]) simp
  moreover have "list_all record_ok ys"
    using log_inv_records_ok [OF inv] ys(3) log_records_split [of p k]
    unfolding list_all_iff by (metis UnCI set_append subsetD)
  ultimately show ?thesis
    using ys(1,2) len k(2) by (intro exI [of _ ys]) (simp add: ReadZeroCopy_def)
qed

text \<open>What the zero-copy read sends parses as records.\<close>

lemma ReadZeroCopy_records:
  assumes "log_inv p" and "0 < maxB" and "BaseOffset p \<le> start"
  shows "\<exists>out rs. ReadZeroCopy p start maxB = (out, None) \<and> int (length out) \<le> maxB \<and>
    ParseRecordStream out = Inr rs \<and>
    prefix (filter (\<lambda>r. start \<le> Offset r) rs) (filter (\<lambda>r. start \<le> Offset r) (log_records p)) \<and>
    (int (length (marshal_all (log_records p))) \<le> maxB \<longrightarrow>
       filter (\<lambda>r. start \<le> Offset r) rs = filter (\<lambda>r. start \<le> Offset r) (log_records p))"
proof -
  from ReadZeroCopy_correct [OF assms] obtain ys where
    ys: "ReadZeroCopy p start maxB = (take (nat maxB) (marshal_all ys), None)" "list_all record_ok ys"
    "length (marshal_all ys) \<le> length (marshal_all (log_records p))"
    "filter (\<lambda>r. start \<le> Offset r) ys = filter (\<lambda>r. start \<le> Offset r) (log_records p)"
    by blast
  from ReadAll_prefix [OF ys(2) take_is_prefix] obtain ps where
    ps: "prefix ps ys" "ReadAll (take (nat maxB) (marshal_all ys)) = (Inr (map sized ps), [])"
    by blast
  have "ParseRecordStream (take (nat maxB) (marshal_all ys)) = Inr ps"
    using ps(2) by (simp add: ParseRecordStream_def sized_def comp_def)
  moreover have "prefix (filter (\<lambda>r. start \<le> Offset r) ps) (filter (\<lambda>r. start \<le> Offset r) ys)"
    using ps(1) by (auto simp: prefix_def)
  moreover have "ps = ys" if "int (length (marshal_all (log_records p))) \<le> maxB"
  proof -
    have "take (nat maxB) (marshal_all ys) = marshal_all ys" using ys(3) that by simp
    then have "map sized ps = map sized ys" using ps(2) ReadAll_stream [OF ys(2)] by simp
    then show ?thesis by (metis map_fst_sized)
  qed
  ultimately show ?thesis
    using ys assms(2) by (intro exI [of _ "take (nat maxB) (marshal_all ys)"] exI [of _ ps]) auto
qed


section \<open>Retention: removing the oldest segment\<close>

lemma RemoveOldestSegment_correct:
  assumes inv: "log_inv p" and run: "RemoveOldestSegment p = (p', removed)"
  shows "log_inv p'" and "LEO p' = LEO p"
    and "\<exists>old. log_records p = old @ log_records p' \<and> (\<forall>r \<in> set old. Offset r < BaseOffset p')"
    and "removed \<longleftrightarrow> length (segments p') < length (segments p)"
proof -
  consider "length (segments p) \<le> 1" | s t ts where "segments p = s # t # ts"
    by (metis One_nat_def Suc_le_eq add_Suc_right length_Cons less_Suc0 linorder_not_less list.exhaust list.size(3) not_less_eq zero_less_Suc)
  then have "log_inv p' \<and> LEO p' = LEO p \<and>
    (\<exists>old. log_records p = old @ log_records p' \<and> (\<forall>r \<in> set old. Offset r < BaseOffset p')) \<and>
    (removed \<longleftrightarrow> length (segments p') < length (segments p))"
  proof cases
    case 1
    with run inv show ?thesis by (auto simp: RemoveOldestSegment_def intro!: exI [of _ "[]"])
  next
    case (2 s t ts)
    let ?d = "pl_dir p" and ?d' = "RemoveFiles (pl_dir p) s"
    have p': "p' = p\<lparr>pl_dir := ?d', segments := t # ts\<rparr>" "removed"
      using run 2 by (auto simp: RemoveOldestSegment_def)
    have all: "\<forall>x \<in> set (s # t # ts). segment_inv ?d x"
      and srt: "\<forall>x \<in> set (t # ts). baseOffset s < baseOffset x \<and> nextOffset s \<le> baseOffset x"
      using inv 2 by (auto simp: log_inv_def)
    have d': "?d' f = (if f = logName (baseOffset s) \<or> f = indexName (baseOffset s) then None else ?d f)" for f
      using all segment_inv_names [of ?d s] by (simp add: RemoveFiles_def)
    have keep: "segment_inv ?d' x \<and> segment_records ?d' x = segment_records ?d x" if "x \<in> set (t # ts)" for x
      using that all srt d' by (intro segment_inv_frame) auto
    have act: "activeSegment p' = activeSegment p" "activeSegment p \<in> set (t # ts)"
      using 2 p' by (simp_all add: activeSegment_def)
    have logf: "logFile (activeSegment p) = logName (baseOffset (activeSegment p))"
      using act(2) all by (intro segment_inv_names [of ?d]) auto
    have "appendable ?d' (activeSegment p)"
      using inv act(2) srt logf d' unfolding log_inv_def appendable_def contents_def by fastforce
    then have "log_inv p'"
      using inv keep act 2 p' d' unfolding log_inv_def by auto
    moreover have "log_records p = segment_records ?d s @ log_records p'"
      using keep 2 p' by (simp add: log_records_def cong: map_cong)
    moreover have "Offset r < BaseOffset p'" if "r \<in> set (segment_records ?d s)" for r
      using segment_inv_bounds(2) [of ?d s r] all srt that p' by (auto simp: BaseOffset_def intro: less_le_trans)
    ultimately show ?thesis
      using act 2 p' by (auto simp: LEO_def)
  qed
  then show "log_inv p'" and "LEO p' = LEO p"
    and "\<exists>old. log_records p = old @ log_records p' \<and> (\<forall>r \<in> set old. Offset r < BaseOffset p')"
    and "removed \<longleftrightarrow> length (segments p') < length (segments p)"
    by auto
qed

end
