(* ===== verification/Commit_Log.thy ===== *)
theory Commit_Log
  imports Partition_Reads
begin

text \<open>
  The contract of a partition log, as a locale: an append-only sequence of records with a
  log end offset. The clients of the contract (the produce handler, the replica fetcher and
  the transaction markers append in loops) get their lemmas inside the locale; the locale
  is interpreted on \<open>PartitionLog\<close>. The second part is about closing a partition and
  opening its directory again.
\<close>

section \<open>The contract\<close>

text \<open>An append loop that stops at the first error.\<close>

fun appendAll :: "('s \<Rightarrow> Record \<Rightarrow> 's \<times> (go_error + Record)) \<Rightarrow> 's \<Rightarrow> Record list \<Rightarrow>
    's \<times> (go_error + Record list)" where
  "appendAll app s [] = (s, Inr [])"
| "appendAll app s (r # rs) =
     (case app s r of
        (s1, Inl e) \<Rightarrow> (s1, Inl e)
      | (s1, Inr r') \<Rightarrow>
          (case appendAll app s1 rs of
             (s2, Inl e) \<Rightarrow> (s2, Inl e)
           | (s2, Inr rs') \<Rightarrow> (s2, Inr (r' # rs'))))"

fun numbered :: "u64 \<Rightarrow> Record list \<Rightarrow> Record list" where
  "numbered n [] = []"
| "numbered n (r # rs) = r\<lparr>Offset := n\<rparr> # numbered (n + 1) rs"

lemma length_numbered [simp]: "length (numbered n rs) = length rs"
  by (induction rs arbitrary: n) simp_all

lemma numbered_append: "numbered n (xs @ ys) = numbered n xs @ numbered (n + of_nat (length xs)) ys"
  by (induction xs arbitrary: n) (simp_all add: algebra_simps)

lemma numbered_nth: "i < length rs \<Longrightarrow> numbered n rs ! i = (rs ! i)\<lparr>Offset := n + of_nat i\<rparr>"
  by (induction rs arbitrary: n i) (auto simp: nth_Cons add_ac split: nat.splits)

lemma numbered_ge:
  assumes "unat n + length rs < 2 ^ 64" and "r \<in> set (numbered n rs)"
  shows "n \<le> Offset r"
proof -
  from assms(2) obtain i where i: "i < length rs" "r = numbered n rs ! i"
    by (auto simp: in_set_conv_nth)
  then have "Offset r = n + of_nat i" by (simp add: numbered_nth)
  moreover have "unat (n + of_nat i) = unat n + i"
    using assms(1) i(1) by (intro unat_add_of_nat) simp
  ultimately show ?thesis by (simp add: word_le_nat_alt)
qed

locale commit_log =
  fixes app :: "'s \<Rightarrow> Record \<Rightarrow> 's \<times> (go_error + Record)"
    and rd :: "'s \<Rightarrow> u64 \<Rightarrow> (go_error + Record list) \<times> 's"
    and leo :: "'s \<Rightarrow> u64"
    and base :: "'s \<Rightarrow> u64"
    and inv :: "'s \<Rightarrow> bool"
    and recs :: "'s \<Rightarrow> Record list"
  assumes app_law: "inv s \<Longrightarrow> record_ok r \<Longrightarrow> unat (leo s) + 1 < 2 ^ 64 \<Longrightarrow>
      \<exists>s'. app s r = (s', Inr (r\<lparr>Offset := leo s\<rparr>)) \<and> inv s' \<and>
        recs s' = recs s @ [r\<lparr>Offset := leo s\<rparr>] \<and> leo s' = leo s + 1 \<and> base s' = base s"
    and rd_law: "inv s \<Longrightarrow> \<exists>s'. rd s start =
        (Inr (if start < base s then [] else filter (\<lambda>r. start \<le> Offset r) (recs s)), s')
        \<and> inv s' \<and> recs s' = recs s \<and> leo s' = leo s"
    and below_leo: "inv s \<Longrightarrow> r \<in> set (recs s) \<Longrightarrow> Offset r < leo s"
    and base_le_leo: "inv s \<Longrightarrow> base s \<le> leo s"
begin

text \<open>A batch gets consecutive offsets from the log end offset on.\<close>

lemma append_batch:
  assumes "inv s" and "list_all record_ok rs" and "unat (leo s) + length rs < 2 ^ 64"
  shows "\<exists>s'. appendAll app s rs = (s', Inr (numbered (leo s) rs)) \<and> inv s' \<and>
    recs s' = recs s @ numbered (leo s) rs \<and> leo s' = leo s + of_nat (length rs) \<and> base s' = base s"
  using assms
proof (induction rs arbitrary: s)
  case Nil
  then show ?case by simp
next
  case (Cons r rs)
  from app_law [of s r] Cons.prems obtain s1 where s1: "app s r = (s1, Inr (r\<lparr>Offset := leo s\<rparr>))"
    "inv s1" "recs s1 = recs s @ [r\<lparr>Offset := leo s\<rparr>]" "leo s1 = leo s + 1" "base s1 = base s"
    by auto
  have "unat (leo s + 1) = unat (leo s) + 1"
    using Cons.prems(3) by (intro word_less_Suc) simp
  then have "unat (leo s1) + length rs < 2 ^ 64" using s1(4) Cons.prems(3) by simp
  with Cons.IH [of s1] s1(2) Cons.prems(2) obtain s2 where
    "appendAll app s1 rs = (s2, Inr (numbered (leo s1) rs))" "inv s2"
    "recs s2 = recs s1 @ numbered (leo s1) rs" "leo s2 = leo s1 + of_nat (length rs)" "base s2 = base s1"
    by auto
  with s1 show ?case by (intro exI [of _ s2]) (simp add: add_ac)
qed

text \<open>A reader that starts where the batch started gets the batch and nothing else.\<close>

lemma read_batch:
  assumes "inv s" and "list_all record_ok rs" and "unat (leo s) + length rs < 2 ^ 64"
    and "appendAll app s rs = (s', res)"
  shows "fst (rd s' (leo s)) = Inr (numbered (leo s) rs)"
proof -
  from append_batch [OF assms(1-3)] assms(4) have s': "inv s'" "base s' = base s"
    "recs s' = recs s @ numbered (leo s) rs"
    by auto
  have "filter (\<lambda>r. leo s \<le> Offset r) (recs s) = []"
    using below_leo [OF assms(1)] by (auto simp: filter_empty_conv not_le)
  moreover have "filter (\<lambda>r. leo s \<le> Offset r) (numbered (leo s) rs) = numbered (leo s) rs"
    using numbered_ge [OF assms(3)] by (simp add: filter_id_conv)
  moreover have "\<not> leo s < base s'" using s'(2) base_le_leo [OF assms(1)] by simp
  ultimately show ?thesis using rd_law [OF s'(1), of "leo s"] s'(3) by auto
qed

end


section \<open>A partition meets the contract\<close>

lemma Segment_Append_base: "Segment_Append d s r = (d', s', r') \<Longrightarrow> baseOffset s' = baseOffset s"
  by (auto simp: Segment_Append_def Let_def split: if_splits prod.splits)

lemma BaseOffset_append_last:
  assumes "segs \<noteq> []" and "baseOffset s' = baseOffset (last segs)"
  shows "baseOffset (hd (butlast segs @ [s'])) = baseOffset (hd segs)"
  using assms by (cases segs) auto

lemma Append_BaseOffset:
  assumes "segments p \<noteq> []" and "Append p r = (p', Inr r')"
  shows "BaseOffset p' = BaseOffset p"
proof -
  have act: "BaseOffset q' = BaseOffset q" if ne: "segments q \<noteq> []" and run: "appendActive q r = (q', r')" for q q'
  proof -
    obtain d' s' where q': "Segment_Append (pl_dir q) (activeSegment q) r = (d', s', r')"
      "q' = q\<lparr>pl_dir := d', segments := butlast (segments q) @ [s']\<rparr>"
      using run by (auto simp: appendActive_def split: prod.splits)
    have "baseOffset s' = baseOffset (last (segments q))"
      using Segment_Append_base [OF q'(1)] by (simp add: activeSegment_def)
    from BaseOffset_append_last [OF ne this] ne q'(2) show ?thesis by (simp add: BaseOffset_def)
  qed
  have "segments q \<noteq> [] \<and> BaseOffset q = BaseOffset p" if "roll p = (q, e)" for q e
    using that assms(1) by (auto simp: roll_def Let_def BaseOffset_def split: prod.splits sum.splits)
  with assms act show ?thesis
    by (auto simp: Append_def Let_def split: if_splits prod.splits option.splits)
qed

lemma BaseOffset_le_LEO:
  assumes "log_inv p"
  shows "BaseOffset p \<le> LEO p"
proof (cases "butlast (segments p)")
  case Nil
  have "segments p = [activeSegment p]"
    using Nil split_last [of "segments p"] assms by (simp add: log_inv_def activeSegment_def)
  moreover obtain es where "segment_rep (pl_dir p) (activeSegment p) (segment_records (pl_dir p) (activeSegment p)) es"
    using log_inv_active(2) [OF assms] by (auto simp: segment_inv_def)
  ultimately show ?thesis
    using segment_repD(7) log_inv_active(3) [OF assms] by (metis BaseOffset_def length_0_conv list.sel(1) not_Cons_self2)
next
  case (Cons s ss)
  then have hd: "hd (segments p) = s" by (cases "segments p") (auto split: if_splits)
  have "baseOffset s \<le> baseOffset (activeSegment p)"
    using log_inv_older(2) [OF assms, of s] Cons by simp
  moreover have "baseOffset (activeSegment p) \<le> nextOffset (activeSegment p)"
    using log_inv_active(2) [OF assms] segment_repD(7) by (auto simp: segment_inv_def)
  ultimately show ?thesis
    using hd log_inv_active(3) [OF assms] assms by (simp add: BaseOffset_def log_inv_def)
qed

lemma below_LEO:
  assumes "log_inv p" and "r \<in> set (log_records p)"
  shows "Offset r < LEO p"
proof -
  from assms(2) obtain s where s: "s \<in> set (segments p)" "r \<in> set (segment_records (pl_dir p) s)"
    by (auto simp: log_records_def)
  have "segment_inv (pl_dir p) s" using assms(1) s(1) by (simp add: log_inv_def)
  then have "Offset r < nextOffset s" using s(2) by (rule segment_inv_bounds)
  moreover have "nextOffset s \<le> LEO p"
  proof (cases "s \<in> set (butlast (segments p))")
    case True
    have "baseOffset (activeSegment p) \<le> nextOffset (activeSegment p)"
      using log_inv_active(2) [OF assms(1)] segment_repD(7) by (auto simp: segment_inv_def)
    with log_inv_older(3) [OF assms(1) True] log_inv_active(3) [OF assms(1)] show ?thesis by simp
  next
    case False
    then have "s = activeSegment p"
      using s(1) split_last [of "segments p"] unfolding activeSegment_def
      by (metis Un_iff empty_iff empty_set insert_iff list.simps(15) set_append)
    with log_inv_active(3) [OF assms(1)] show ?thesis by simp
  qed
  ultimately show ?thesis by simp
qed

interpretation plog: commit_log Append Read LEO BaseOffset log_inv log_records
proof unfold_locales
  fix p r
  assume inv: "log_inv p" and ok: "record_ok r" and off: "unat (LEO p) + 1 < 2 ^ 64"
  then have "segments p \<noteq> []" by (simp add: log_inv_def)
  with Append_correct [OF inv ok off] Append_BaseOffset [of p r]
  show "\<exists>p'. Append p r = (p', Inr (r\<lparr>Offset := LEO p\<rparr>)) \<and> log_inv p' \<and>
      log_records p' = log_records p @ [r\<lparr>Offset := LEO p\<rparr>] \<and> LEO p' = LEO p + 1 \<and>
      BaseOffset p' = BaseOffset p"
    by blast
qed (rule Read_correct below_LEO BaseOffset_le_LEO; assumption)+


section \<open>Closing and opening again\<close>

text \<open>
  What opening needs beyond the invariant: records are numbered without gaps (compaction
  breaks that, appends keep it), and the directory holds the files of the segments and no
  others.
\<close>

definition log_dense :: "PartitionLog \<Rightarrow> bool" where
  "log_dense p \<longleftrightarrow>
     (\<forall>s \<in> set (segments p). dense s (segment_records (pl_dir p) s)) \<and>
     dom (pl_dir p) = (\<Union>s \<in> set (segments p). {logName (baseOffset s), indexName (baseOffset s)})"

lemma parseLogName_logName [simp]: "parseLogName (logName b) = Some b"
  by (simp add: parseLogName_def logName_def trimSuffix_def suffix_def ParseUint64_pad20)

lemma parseLogName_indexName [simp]: "parseLogName (indexName b) = None"
proof -
  have "\<not> suffix ''.log'' (indexName b)"
    by (auto simp: suffix_def indexName_def dest!: arg_cong [where f = last])
  then show ?thesis by (simp add: parseLogName_def)
qed

lemma map_filter_set: "set (List.map_filter f xs) = {y. \<exists>x \<in> set xs. f x = Some y}"
  by (induction xs) (auto simp: List.map_filter_simps split: option.splits)

lemma map_filter_distinct:
  assumes "distinct xs" and "\<And>x y z. x \<in> set xs \<Longrightarrow> y \<in> set xs \<Longrightarrow> f x = Some z \<Longrightarrow> f y = Some z \<Longrightarrow> x = y"
  shows "distinct (List.map_filter f xs)"
  using assms
proof (induction xs)
  case Nil
  then show ?case by (simp add: List.map_filter_simps)
next
  case (Cons x xs)
  from Cons.prems have "distinct (List.map_filter f xs)" by (intro Cons.IH) auto
  moreover have "f x = Some z \<Longrightarrow> z \<notin> set (List.map_filter f xs)" for z
    using Cons.prems(1) Cons.prems(2) [of x] by (auto simp: map_filter_set)
  ultimately show ?case by (auto simp: List.map_filter_simps split: option.splits)
qed

lemma discovered_bases:
  assumes inv: "log_inv p" and den: "log_dense p"
    and "set entries = dom (pl_dir p)" and "distinct entries"
  shows "sort (List.map_filter parseLogName entries) = map baseOffset (segments p)"
proof (rule sorted_distinct_set_unique)
  have files: "(\<exists>s \<in> set (segments p). f = logName (baseOffset s) \<or> f = indexName (baseOffset s)) \<longleftrightarrow>
      f \<in> set entries" for f
    using den assms(3) by (auto simp: log_dense_def)
  have hits: "f \<in> set entries \<and> parseLogName f = Some b \<longleftrightarrow>
      f = logName b \<and> b \<in> baseOffset ` set (segments p)" for f b
    by (auto simp flip: files)
  then have "x = y" if "x \<in> set entries" "y \<in> set entries" "parseLogName x = Some z" "parseLogName y = Some z"
    for x y z
    using that by metis
  with map_filter_distinct [OF assms(4), of parseLogName]
  show "distinct (sort (List.map_filter parseLogName entries))" by simp
  have "{b. \<exists>f \<in> set entries. parseLogName f = Some b} = baseOffset ` set (segments p)"
    using hits by blast
  then show "set (sort (List.map_filter parseLogName entries)) = set (map baseOffset (segments p))"
    by (simp add: map_filter_set)
  show "sorted (map baseOffset (segments p))"
    using inv by (auto simp: log_inv_def sorted_wrt_map intro: sorted_wrt_mono_rel [rotated])
  show "distinct (map baseOffset (segments p))"
    using inv unfolding log_inv_def distinct_conv_nth sorted_wrt_iff_nth_less by (auto simp: neq_iff)
qed simp

definition reopened :: "dir \<Rightarrow> int \<Rightarrow> Segment \<Rightarrow> Segment \<Rightarrow> bool" where
  "reopened d maxB s s' \<longleftrightarrow>
     segment_inv d s' \<and> segment_records d s' = segment_records d s \<and>
     dense s' (segment_records d s) \<and> appendable d s' \<and> maxBytes s' = maxB \<and>
     baseOffset s' = baseOffset s \<and> nextOffset s' = nextOffset s"

lemma NewSegment_maxBytes: "NewSegment d b maxB iv = (d', Inr s) \<Longrightarrow> maxBytes s = maxB"
  by (auto simp: NewSegment_def recoverState_def Let_def split: prod.splits sum.splits)

lemma openSegments_reopens:
  assumes "\<forall>s \<in> set segs. segment_inv d s \<and> dense s (segment_records d s)"
  shows "\<exists>segs'. openSegments d (map baseOffset segs) maxB iv = (d, Inr segs') \<and>
    list_all2 (reopened d maxB) segs segs'"
  using assms
proof (induction segs)
  case Nil
  then show ?case by simp
next
  case (Cons s segs)
  then obtain segs' where IH: "openSegments d (map baseOffset segs) maxB iv = (d, Inr segs')"
    "list_all2 (reopened d maxB) segs segs'"
    by auto
  obtain d' r where new: "NewSegment d (baseOffset s) maxB iv = (d', r)"
    by (cases "NewSegment d (baseOffset s) maxB iv")
  obtain es where rep: "segment_rep d s (segment_records d s) es"
    using Cons.prems by (auto simp: segment_inv_def)
  have "dense s (segment_records d s)" using Cons.prems by simp
  from NewSegment_reopens [OF rep this new] obtain s' where s': "d' = d" "r = Inr s'"
    "segment_rep d s' (segment_records d s) es" "dense s' (segment_records d s)" "appendable d s'"
    "baseOffset s' = baseOffset s" "nextOffset s' = nextOffset s"
    by blast
  have "reopened d maxB s s'"
    using s' segment_rep_inv [OF s'(3)] NewSegment_maxBytes new by (simp add: reopened_def)
  with IH new s'(1,2) show ?case by simp
qed

lemma segment_files_image:
  fixes segs segs' :: "Segment list"
  assumes "map baseOffset segs = map baseOffset segs'"
  shows "(\<Union>s \<in> set segs. {logName (baseOffset s), indexName (baseOffset s)}) =
    (\<Union>s \<in> set segs'. {logName (baseOffset s), indexName (baseOffset s)})"
proof -
  have "(\<Union>s \<in> set xs. {logName (baseOffset s), indexName (baseOffset s)}) =
      (\<Union>b \<in> set (map baseOffset xs). {logName b, indexName b})" for xs :: "Segment list"
    by simp
  from this [of segs] this [of segs'] assms show ?thesis by (simp only:)
qed

lemma NewPartitionLog_reopens:
  assumes inv: "log_inv p" and den: "log_dense p"
    and ents: "set entries = dom (pl_dir p)" "distinct entries"
    and maxB: "0 < maxB" "maxB \<le> 2 ^ 62"
  shows "\<exists>p'. NewPartitionLog (pl_dir p) entries maxB iv = Inr p' \<and> log_inv p' \<and> log_dense p' \<and>
    log_records p' = log_records p \<and> LEO p' = LEO p \<and> BaseOffset p' = BaseOffset p"
proof -
  let ?d = "pl_dir p"
  have ne: "segments p \<noteq> []" using inv by (simp add: log_inv_def)
  have "\<forall>s \<in> set (segments p). segment_inv ?d s \<and> dense s (segment_records ?d s)"
    using inv den by (simp add: log_inv_def log_dense_def)
  from openSegments_reopens [OF this, of maxB iv] obtain segs' where
    op: "openSegments ?d (map baseOffset (segments p)) maxB iv = (?d, Inr segs')"
    and re: "list_all2 (reopened ?d maxB) (segments p) segs'"
    by blast
  let ?p = "\<lparr>pl_dir = ?d, segments = segs', maxSegmentBytes = maxB, pl_indexIntervalBytes = iv\<rparr>"
  have bases: "sort (List.map_filter parseLogName entries) = map baseOffset (segments p)"
    by (rule discovered_bases [OF inv den ents])
  then have new: "NewPartitionLog ?d entries maxB iv = Inr ?p"
    using ne op by (simp add: NewPartitionLog_def loadSegments_def Let_def)
  have len: "length segs' = length (segments p)" using re by (simp add: list_all2_lengthD)
  then have ne': "segs' \<noteq> []" using ne by auto
  have at: "reopened ?d maxB (segments p ! i) (segs' ! i)" if "i < length (segments p)" for i
    using re that by (rule list_all2_nthD)
  note same = at [unfolded reopened_def]
  have act: "reopened ?d maxB (activeSegment p) (activeSegment ?p)"
    using at [of "length (segments p) - 1"] ne ne' len by (simp add: activeSegment_def last_conv_nth)
  have hd: "baseOffset (hd segs') = baseOffset (hd (segments p))"
    using same [of 0] ne len by (metis hd_conv_nth length_0_conv length_greater_0_conv)
  have recs: "map (segment_records ?d) segs' = map (segment_records ?d) (segments p)"
    and bas: "map baseOffset segs' = map baseOffset (segments p)"
    and each: "\<forall>s \<in> set segs'. segment_inv ?d s \<and> dense s (segment_records ?d s)"
    using re by (induction rule: list_all2_induct) (auto simp: reopened_def)
  have "log_dense ?p"
    using den each segment_files_image [OF bas] by (simp add: log_dense_def)
  moreover have "sorted_wrt (\<lambda>a b. baseOffset a < baseOffset b \<and> nextOffset a \<le> baseOffset b) segs'"
    using inv len same by (simp add: log_inv_def sorted_wrt_iff_nth_less)
  then have "log_inv ?p"
    using inv act each ne' maxB by (simp add: log_inv_def reopened_def)
  moreover have "LEO ?p = LEO p"
    using act log_inv_active(3) [OF inv] ne' by (simp add: LEO_def reopened_def)
  moreover have "log_records ?p = log_records p" using recs by (simp add: log_records_def)
  ultimately show ?thesis
    using new hd ne ne' by (simp add: BaseOffset_def)
qed

text \<open>A new partition in an empty directory, and appends, meet the condition.\<close>

lemma NewPartitionLog_empty:
  assumes "0 < maxB" and "maxB \<le> 2 ^ 62"
  shows "\<exists>p. NewPartitionLog Map.empty [] maxB iv = Inr p \<and> log_inv p \<and> log_dense p \<and>
    log_records p = [] \<and> LEO p = 0 \<and> BaseOffset p = 0"
proof -
  obtain d r where new: "NewSegment Map.empty 0 maxB iv = (d, r)"
    by (cases "NewSegment Map.empty 0 maxB iv")
  from NewSegment_fresh [OF _ _ new] obtain s where s: "r = Inr s" "segment_rep d s [] []" "dense s []"
    "appendable d s" "baseOffset s = 0" "nextOffset s = 0" "maxBytes s = maxB"
    "\<forall>f. f \<noteq> logName 0 \<longrightarrow> f \<noteq> indexName 0 \<longrightarrow> d f = None"
    by auto
  let ?p = "\<lparr>pl_dir = d, segments = [s], maxSegmentBytes = maxB, pl_indexIntervalBytes = iv\<rparr>"
  have inv: "segment_inv d s" "segment_records d s = []" using segment_rep_inv [OF s(2)] by simp_all
  have "d (logName 0) \<noteq> None" "d (indexName 0) \<noteq> None" using s(2,5) by (auto simp: segment_rep_def)
  then have "dom d = {logName 0, indexName 0}" using s(8) by auto
  then have "log_dense ?p" using s inv by (simp add: log_dense_def)
  moreover have "log_inv ?p"
    using s inv assms by (auto simp: log_inv_def activeSegment_def)
  moreover have "NewPartitionLog Map.empty [] maxB iv = Inr ?p"
    using new s(1) by (simp add: NewPartitionLog_def loadSegments_def List.map_filter_simps)
  ultimately show ?thesis
    using s inv by (simp add: LEO_def BaseOffset_def activeSegment_def log_records_def)
qed

lemma dense_snoc:
  assumes "dense s rs" and "baseOffset s' = baseOffset s" and "nextOffset s' = nextOffset s + 1"
    and "Offset r = nextOffset s" and "unat (nextOffset s) + 1 < 2 ^ 64"
  shows "dense s' (rs @ [r])"
proof -
  have "unat (nextOffset s) = unat (baseOffset s) + length rs"
    using assms(1) by (auto simp: dense_def unat_add_of_nat)
  with assms show ?thesis by (auto simp: dense_def contiguous_snoc add_ac)
qed

lemma appendActive_dense:
  assumes inv: "log_inv p" and den: "log_dense p" and ok: "record_ok rec"
    and off: "unat (LEO p) + 1 < 2 ^ 64"
    and notfull: "\<not> IsFull (activeSegment p)" and run: "appendActive p rec = (p', rec')"
  shows "log_dense p'"
proof -
  let ?s = "activeSegment p" and ?d = "pl_dir p"
  obtain d' s' where app: "Segment_Append ?d ?s rec = (d', s', rec')"
    and p': "p' = p\<lparr>pl_dir := d', segments := butlast (segments p) @ [s']\<rparr>"
    using run by (auto simp: appendActive_def split: prod.splits)
  obtain es where rep: "segment_rep ?d ?s (segment_records ?d ?s) es"
    using log_inv_active(2) [OF inv] by (auto simp: segment_inv_def)
  have able: "appendable ?d ?s" using inv by (simp add: log_inv_def)
  have leo: "LEO p = nextOffset ?s" by (rule log_inv_active(3) [OF inv])
  note eff = Segment_Append_effect [OF rep able app]
  note cor = appendActive_correct [OF inv ok off notfull run]
  have old: "d' (logName b) = ?d (logName b) \<and> d' (indexName b) = ?d (indexName b)"
    if "b < baseOffset ?s" for b
    using that eff(2) by auto
  note older = frame_older [OF inv old]
  have ne: "segments p \<noteq> []" using inv by (simp add: log_inv_def)
  have split: "set (segments p) = insert ?s (set (butlast (segments p)))"
    using split_last [OF ne] unfolding activeSegment_def by (metis set_append Un_insert_right list.simps(15) empty_set sup_bot.right_neutral)
  have "log_records p' = concat (map (segment_records ?d) (butlast (segments p))) @ segment_records d' s'"
    using older(2) by (simp add: log_records_def p' del: map_eq_conv)
  then have new: "segment_records d' s' = segment_records ?d ?s @ [rec']"
    using cor(3) log_records_active [OF ne] by simp
  have "dense s' (segment_records d' s')"
    unfolding new using den split eff(1,3) off leo
    by (intro dense_snoc [of ?s]) (auto simp: log_dense_def)
  moreover have "dense t (segment_records d' t)" if "t \<in> set (butlast (segments p))" for t
    using that older(2) den split by (auto simp: log_dense_def map_eq_conv)
  moreover have "dom d' = dom ?d"
    using eff(2) den split by (auto simp: log_dense_def)
  ultimately show ?thesis
    using den split eff(3) by (auto simp: log_dense_def p')
qed

lemma roll_dense:
  assumes inv: "log_inv p" and den: "log_dense p" and full: "IsFull (activeSegment p)"
    and run: "roll p = (p', None)"
  shows "log_dense p'"
proof -
  let ?d = "pl_dir p" and ?b = "nextOffset (activeSegment p)"
  obtain d' n where new: "NewSegment ?d ?b (maxSegmentBytes p) (pl_indexIntervalBytes p) = (d', Inr n)"
    and p': "p' = p\<lparr>pl_dir := d', segments := segments p @ [n]\<rparr>"
    using run by (auto simp: roll_def Let_def split: prod.splits sum.splits)
  note cor = roll_correct [OF inv full run]
  have sorted: "sorted_wrt (\<lambda>a b. baseOffset a < baseOffset b \<and> nextOffset a \<le> baseOffset b) (segments p @ [n])"
    using cor(2) by (simp add: log_inv_def p')
  have nb: "baseOffset n = ?b"
    using new by (auto simp: NewSegment_def recoverState_def Let_def split: prod.splits sum.splits)
  then have lt: "baseOffset s < ?b" if "s \<in> set (segments p)" for s
    using sorted that by (simp add: sorted_wrt_append)
  have "logName ?b \<notin> dom ?d" "indexName ?b \<notin> dom ?d"
    using den lt by (auto simp: log_dense_def dom_def) (metis less_irrefl)+
  then have "?d (logName ?b) = None" "?d (indexName ?b) = None" by auto
  from NewSegment_fresh [OF this new] have n: "segment_rep d' n [] []" "dense n []"
    and frame: "\<forall>f. f \<noteq> logName ?b \<longrightarrow> f \<noteq> indexName ?b \<longrightarrow> d' f = ?d f"
    by auto
  have keep: "segment_records d' s = segment_records ?d s" if "s \<in> set (segments p)" for s
    using that lt [OF that] frame inv segment_inv_frame [of ?d s d'] by (auto simp: log_inv_def)
  have "d' (logName ?b) \<noteq> None" "d' (indexName ?b) \<noteq> None"
    using n(1) nb by (auto simp: segment_rep_def)
  then have "f \<in> dom d' \<longleftrightarrow> f \<in> dom ?d \<union> {logName ?b, indexName ?b}" for f
    using frame by (cases "f = logName ?b \<or> f = indexName ?b") (auto simp: domIff)
  then have "dom d' = dom ?d \<union> {logName ?b, indexName ?b}" by (rule set_eqI)
  then show ?thesis
    using den keep n segment_rep_inv [OF n(1)] nb by (auto simp: log_dense_def p')
qed

lemma Append_dense:
  assumes inv: "log_inv p" and den: "log_dense p" and ok: "record_ok rec"
    and off: "unat (LEO p) + 1 < 2 ^ 64"
  shows "log_dense (fst (Append p rec))"
proof (cases "IsFull (activeSegment p)")
  case True
  obtain p1 err where roll: "roll p = (p1, err)" by (cases "roll p")
  note r = roll_correct [OF inv True roll]
  obtain p2 rec' where app: "appendActive p1 rec = (p2, rec')" by (cases "appendActive p1 rec")
  have "log_dense p1" using roll_dense [OF inv den True] roll r(1) by simp
  with appendActive_dense [OF r(2) _ ok _ r(5) app] off r(4) have "log_dense p2" by simp
  with True roll r(1) app show ?thesis by (simp add: Append_def)
next
  case False
  obtain p2 rec' where app: "appendActive p rec = (p2, rec')" by (cases "appendActive p rec")
  with False appendActive_dense [OF inv den ok off False app] show ?thesis
    by (simp add: Append_def)
qed

end
