(* ===== verification/Cleaner.thy ===== *)
theory Cleaner
  imports Partition_Reads
begin

text \<open>
  \<open>src/internal/storage/cleaner.go\<close> and \<open>PartitionLog.CompactSegments\<close>: retention by
  time, retention by size, and key-based compaction. The clock and the modification times
  the operating system reports are parameters; durations are nanoseconds.

  Compaction is specified by the table a log stands for (the last value of every key):
  it never changes the table.
\<close>

record CleanerConfig =
  RetentionMs :: int
  RetentionBytes :: int
  CleanerInterval :: int
  CompactionEnabled :: bool

definition nsPerSecond :: int where
  "nsPerSecond = 1000000000"

definition DefaultCleanerConfig :: CleanerConfig where
  "DefaultCleanerConfig =
     \<lparr>RetentionMs = 168 * 3600 * nsPerSecond, RetentionBytes = -1,
      CleanerInterval = 60 * nsPerSecond, CompactionEnabled = False\<rparr>"

definition NewCleanerWorker :: "CleanerConfig \<Rightarrow> CleanerConfig" where
  "NewCleanerWorker cfg =
     (if CleanerInterval cfg \<le> 0 then cfg\<lparr>CleanerInterval := 60 * nsPerSecond\<rparr> else cfg)"


section \<open>Compaction\<close>

text \<open>A nil slice and an empty one both have length 0.\<close>

definition keyBytes :: "Record \<Rightarrow> bytes" where
  "keyBytes rec = (case Key rec of None \<Rightarrow> [] | Some k \<Rightarrow> k)"

definition valueBytes :: "Record \<Rightarrow> bytes" where
  "valueBytes rec = (case Value rec of None \<Rightarrow> [] | Some v \<Rightarrow> v)"

fun compactLoop :: "(bytes \<rightharpoonup> u64) \<Rightarrow> Record list \<Rightarrow> Record list" where
  "compactLoop latest [] = []"
| "compactLoop latest (rec # recs) =
     (if length (keyBytes rec) = 0 then rec # compactLoop latest recs
      else case latest (keyBytes rec) of
             Some latestOffset \<Rightarrow>
               (if latestOffset = Offset rec
                then if 0 < length (valueBytes rec) then rec # compactLoop latest recs
                     else compactLoop latest recs
                else compactLoop latest recs)
           | None \<Rightarrow> compactLoop latest recs)"

definition CompactLogSegments ::
  "dir \<Rightarrow> Segment \<Rightarrow> (bytes \<rightharpoonup> u64) \<Rightarrow> dir \<times> Segment \<times> (go_error + nat)" where
  "CompactLogSegments d seg latest =
     (case Segment_Read d seg (baseOffset seg) of
        (Inl e, seg1) \<Rightarrow> (d, seg1, Inl e)
      | (Inr records, seg1) \<Rightarrow>
          if length records = 0 then (d, seg1, Inr 0)
          else let compacted = compactLoop latest records
               in if length compacted = length records then (d, seg1, Inr (length compacted))
                  else case replaceContents d seg1 compacted of
                         (d', seg2) \<Rightarrow> (d', seg2, Inr (length compacted)))"

definition noteLatest :: "(bytes \<rightharpoonup> u64) \<Rightarrow> Record \<Rightarrow> (bytes \<rightharpoonup> u64)" where
  "noteLatest m rec = (if 0 < length (keyBytes rec) then m(keyBytes rec \<mapsto> Offset rec) else m)"

fun scanSegments ::
  "dir \<Rightarrow> Segment list \<Rightarrow> (bytes \<rightharpoonup> u64) \<Rightarrow> (go_error + (bytes \<rightharpoonup> u64)) \<times> Segment list" where
  "scanSegments d [] m = (Inr m, [])"
| "scanSegments d (s # segs) m =
     (case Segment_Read d s (baseOffset s) of
        (Inl e, s') \<Rightarrow> (Inl e, s' # segs)
      | (Inr rs, s') \<Rightarrow>
          (case scanSegments d segs (foldl noteLatest m rs) of (r, segs') \<Rightarrow> (r, s' # segs')))"

fun compactEach ::
  "dir \<Rightarrow> (bytes \<rightharpoonup> u64) \<Rightarrow> Segment list \<Rightarrow> nat \<Rightarrow> dir \<times> Segment list \<times> (go_error + nat)" where
  "compactEach d latest [] rewritten = (d, [], Inr rewritten)"
| "compactEach d latest (s # segs) rewritten =
     (case CompactLogSegments d s latest of
        (d1, s1, Inl e) \<Rightarrow> (d1, s1 # segs, Inl e)
      | (d1, s1, Inr n) \<Rightarrow>
          (case compactEach d1 latest segs
                  (if currentSize s1 \<noteq> currentSize s then rewritten + 1 else rewritten) of
             (d2, segs', r) \<Rightarrow> (d2, s1 # segs', r)))"

definition CompactSegments :: "PartitionLog \<Rightarrow> PartitionLog \<times> (go_error + nat)" where
  "CompactSegments p =
     (if length (segments p) \<le> 1 then (p, Inr 0)
      else case scanSegments (pl_dir p) (segments p) Map.empty of
             (Inl e, segs) \<Rightarrow> (p\<lparr>segments := segs\<rparr>, Inl e)
           | (Inr latest, segs) \<Rightarrow>
               (case compactEach (pl_dir p) latest (butlast segs) 0 of
                  (d', closed, r) \<Rightarrow> (p\<lparr>pl_dir := d', segments := closed @ [last segs]\<rparr>, r)))"


section \<open>Retention\<close>

text \<open>\<open>os.Stat\<close> fails for a file that is gone; otherwise the system reports a time.\<close>

definition statModTime :: "(string \<Rightarrow> int) \<Rightarrow> dir \<Rightarrow> string \<Rightarrow> int option" where
  "statModTime mtime d path = (if d path = None then None else Some (mtime path))"

fun timeLoop :: "(string \<Rightarrow> int) \<Rightarrow> int \<Rightarrow> int \<Rightarrow> Segment list \<Rightarrow> PartitionLog \<Rightarrow> PartitionLog" where
  "timeLoop mtime now retention [] p = p"
| "timeLoop mtime now retention (seg # segs) p =
     (if logFile seg = [] then timeLoop mtime now retention segs p
      else case statModTime mtime (pl_dir p) (logFile seg) of
             None \<Rightarrow> timeLoop mtime now retention segs p
           | Some modTime \<Rightarrow>
               timeLoop mtime now retention segs
                 (if retention < now - modTime then fst (RemoveOldestSegment p) else p))"

definition cleanTimeRetention :: "(string \<Rightarrow> int) \<Rightarrow> int \<Rightarrow> CleanerConfig \<Rightarrow> PartitionLog \<Rightarrow> PartitionLog" where
  "cleanTimeRetention mtime now cfg p =
     (if RetentionMs cfg \<le> 0 then p
      else let nonActive = GetNonActiveSegments p
           in if length nonActive = 0 then p else timeLoop mtime now (RetentionMs cfg) nonActive p)"

function sizeLoop :: "int \<Rightarrow> PartitionLog \<Rightarrow> PartitionLog" where
  "sizeLoop limit p =
     (if snd (Stats p) \<le> limit then p
      else case RemoveOldestSegment p of
             (p', removed) \<Rightarrow> if \<not> removed then p' else sizeLoop limit p')"
  by pat_completeness auto
termination
  by (relation "measure (\<lambda>(limit, p). length (segments p))")
    (auto simp: RemoveOldestSegment_def split: if_splits)

declare sizeLoop.simps [simp del]

definition cleanSizeRetention :: "CleanerConfig \<Rightarrow> PartitionLog \<Rightarrow> PartitionLog" where
  "cleanSizeRetention cfg p =
     (if RetentionBytes cfg \<le> 0 then p else sizeLoop (RetentionBytes cfg) p)"

definition compactPartition :: "PartitionLog \<Rightarrow> PartitionLog" where
  "compactPartition p = fst (CompactSegments p)"

text \<open>
  One cycle: the partitions are independent, so the order in which Go walks the map does
  not matter. \<open>mtime\<close> gives the times of the files of each partition.
\<close>

definition RunCleanCycle ::
  "(string \<Rightarrow> string \<Rightarrow> int) \<Rightarrow> int \<Rightarrow> CleanerConfig \<Rightarrow> (string \<times> PartitionLog) list \<Rightarrow> (string \<times> PartitionLog) list"
where
  "RunCleanCycle mtime now cfg partitions =
     map (\<lambda>(key, pl).
            (key,
             let pl1 = cleanTimeRetention (mtime key) now cfg pl;
                 pl2 = cleanSizeRetention cfg pl1
             in if CompactionEnabled cfg then compactPartition pl2 else pl2)) partitions"


section \<open>The table of a log\<close>

definition lastRecord :: "bytes \<Rightarrow> Record list \<Rightarrow> Record option" where
  "lastRecord k rs =
     (let xs = filter (\<lambda>r. keyBytes r = k) rs in if xs = [] then None else Some (last xs))"

text \<open>
  The value of a key: that of its last record, none if that record is a tombstone, which is a
  record with a null value. A value that is present and empty is a value.
\<close>

definition table :: "Record list \<Rightarrow> bytes \<Rightarrow> bytes option" where
  "table rs k =
     (case lastRecord k rs of
        None \<Rightarrow> None
      | Some r \<Rightarrow> Value r)"

text \<open>
  What compaction makes of the value of a key: the test \<open>len(rec.Value) > 0\<close> does not tell an
  empty value from a null one, so a latest value that is present and empty may be lost.
\<close>

definition kept_value :: "bytes option \<Rightarrow> bytes option \<Rightarrow> bool" where
  "kept_value after before \<longleftrightarrow> after = before \<or> before = Some [] \<and> after = None"

lemma kept_value_refl [simp]: "kept_value v v"
  by (simp add: kept_value_def)

lemma kept_value_trans: "kept_value a b \<Longrightarrow> kept_value b c \<Longrightarrow> kept_value a c"
  by (auto simp: kept_value_def)

definition kept :: "(bytes \<rightharpoonup> u64) \<Rightarrow> Record \<Rightarrow> bool" where
  "kept latest r \<longleftrightarrow>
     keyBytes r = [] \<or> (latest (keyBytes r) = Some (Offset r) \<and> valueBytes r \<noteq> [])"

definition latestOffsets :: "Record list \<Rightarrow> (bytes \<rightharpoonup> u64)" where
  "latestOffsets rs = foldl noteLatest Map.empty rs"

lemma compactLoop_filter: "compactLoop latest rs = filter (kept latest) rs"
  by (induction rs) (auto simp: kept_def split: option.splits)

lemma lastRecord_snoc:
  "lastRecord k (rs @ [r]) = (if keyBytes r = k then Some r else lastRecord k rs)"
  by (auto simp: lastRecord_def Let_def)

lemma lastRecord_append:
  "lastRecord k (xs @ ys) = (case lastRecord k ys of None \<Rightarrow> lastRecord k xs | Some r \<Rightarrow> Some r)"
  by (auto simp: lastRecord_def Let_def)

lemma lastRecord_Some:
  assumes "lastRecord k rs = Some r"
  shows "r \<in> set rs" and "keyBytes r = k"
proof -
  from assms have "filter (\<lambda>r. keyBytes r = k) rs \<noteq> []" "r = last (filter (\<lambda>r. keyBytes r = k) rs)"
    by (auto simp: lastRecord_def Let_def split: if_splits)
  then have "r \<in> set (filter (\<lambda>r. keyBytes r = k) rs)" using last_in_set by metis
  then show "r \<in> set rs" and "keyBytes r = k" by auto
qed

lemma lastRecord_None: "lastRecord k rs = None \<longleftrightarrow> (\<forall>r \<in> set rs. keyBytes r \<noteq> k)"
  by (auto simp: lastRecord_def Let_def filter_empty_conv)

lemma lastRecord_unique:
  assumes "r \<in> set rs" and "keyBytes r = k" and "\<forall>x \<in> set rs. keyBytes x = k \<longrightarrow> x = r"
  shows "lastRecord k rs = Some r"
proof (cases "lastRecord k rs")
  case None
  with assms(1,2) show ?thesis by (simp add: lastRecord_None)
next
  case (Some x)
  with lastRecord_Some [OF Some] assms(3) show ?thesis by blast
qed

lemma latestOffsets_lastRecord:
  "k \<noteq> [] \<Longrightarrow> latestOffsets rs k = map_option Offset (lastRecord k rs)"
  by (induction rs rule: rev_induct)
    (auto simp: latestOffsets_def noteLatest_def lastRecord_snoc lastRecord_def)

lemma offsets_unique:
  assumes "sorted_wrt (<) (map Offset rs)" and "x \<in> set rs" "y \<in> set rs" "Offset x = Offset y"
  shows "x = y"
proof -
  have "distinct (map Offset rs)"
    using assms(1) strict_sorted_iff by blast
  with assms(2-4) show ?thesis by (simp add: distinct_map inj_on_def)
qed

text \<open>
  Compacting any initial part \<open>xs\<close> of a log with the map of the whole log leaves the
  table unchanged, except for the keys whose latest record is in \<open>xs\<close> and has an empty value:
  those lose it.
\<close>

definition empty_latest :: "Record list \<Rightarrow> Record list \<Rightarrow> bytes \<Rightarrow> bool" where
  "empty_latest xs ys k \<longleftrightarrow> lastRecord k ys = None \<and> (\<exists>r. lastRecord k xs = Some r \<and> Value r = Some [])"

lemma empty_latest_table: "empty_latest xs ys k \<Longrightarrow> table (xs @ ys) k = Some []"
  by (auto simp: empty_latest_def table_def lastRecord_append)

lemma table_compacted:
  assumes srt: "sorted_wrt (<) (map Offset (xs @ ys))" and k: "k \<noteq> []"
  shows "table (filter (kept (latestOffsets (xs @ ys))) xs @ ys) k =
    (if empty_latest xs ys k then None else table (xs @ ys) k)"
proof (cases "lastRecord k ys")
  case (Some r)
  then show ?thesis by (simp add: table_def empty_latest_def lastRecord_append)
next
  case None
  let ?keep = "kept (latestOffsets (xs @ ys))"
  show ?thesis
  proof (cases "lastRecord k xs")
    case xs: None
    then have "lastRecord k (filter ?keep xs) = None" by (simp add: lastRecord_None)
    with None xs show ?thesis by (simp add: table_def empty_latest_def lastRecord_append)
  next
    case (Some r)
    note r = lastRecord_Some [OF Some]
    have latest: "latestOffsets (xs @ ys) k = Some (Offset r)"
      using None Some k by (simp add: latestOffsets_lastRecord lastRecord_append)
    have only: "x = r" if "x \<in> set (filter ?keep xs)" "keyBytes x = k" for x
      using that latest k r(1) offsets_unique [OF srt, of x r] by (auto simp: kept_def)
    show ?thesis
    proof (cases "valueBytes r = []")
      case True
      have "keyBytes x \<noteq> k" if x: "x \<in> set (filter ?keep xs)" for x
      proof
        assume key: "keyBytes x = k"
        from only [OF x key] x True key k show False by (simp add: kept_def)
      qed
      then have "lastRecord k (filter ?keep xs) = None" by (simp only: lastRecord_None) blast
      moreover have "Value r = None \<or> Value r = Some []" using True by (auto simp: valueBytes_def split: option.splits)
      ultimately show ?thesis using None Some by (auto simp: table_def empty_latest_def lastRecord_append)
    next
      case False
      then have "r \<in> set (filter ?keep xs)" using r latest by (simp add: kept_def)
      then have "lastRecord k (filter ?keep xs) = Some r"
        using r(2) only by (rule lastRecord_unique [OF _ _ ballI, OF _ _ impI])
      moreover have "\<not> empty_latest xs ys k" using False None Some
        by (auto simp: empty_latest_def lastRecord_append valueBytes_def)
      ultimately show ?thesis using None Some by (simp add: table_def lastRecord_append)
    qed
  qed
qed


section \<open>Compaction of a partition\<close>

lemma filter_all_from_base:
  "segment_inv d s \<Longrightarrow> filter (\<lambda>r. baseOffset s \<le> Offset r) (segment_records d s) = segment_records d s"
  using segment_inv_bounds(1) by (auto simp: filter_id_conv)

lemma Segment_Read_all:
  assumes "segment_inv d s"
  shows "\<exists>s'. Segment_Read d s (baseOffset s) = (Inr (segment_records d s), s') \<and> repositioned d s s'"
  using Segment_Read_inv [OF assms, of "baseOffset s"] filter_all_from_base [OF assms] by simp

lemma scanSegments_correct:
  assumes "\<forall>s \<in> set segs. segment_inv d s"
  shows "\<exists>segs'. scanSegments d segs m =
      (Inr (foldl noteLatest m (concat (map (segment_records d) segs))), segs')
    \<and> list_all2 (repositioned d) segs segs'"
  using assms
proof (induction segs arbitrary: m)
  case Nil
  then show ?case by simp
next
  case (Cons s segs)
  then obtain s' where s': "Segment_Read d s (baseOffset s) = (Inr (segment_records d s), s')"
    "repositioned d s s'"
    using Segment_Read_all by (meson list.set_intros(1))
  from Cons obtain segs' where "scanSegments d segs (foldl noteLatest m (segment_records d s)) =
      (Inr (foldl noteLatest m (segment_records d s @ concat (map (segment_records d) segs))), segs')"
    "list_all2 (repositioned d) segs segs'"
    by auto
  with s' show ?case by simp
qed

text \<open>What compaction keeps of a segment besides its records.\<close>

definition same_place :: "Segment \<Rightarrow> Segment \<Rightarrow> bool" where
  "same_place s s' \<longleftrightarrow>
     baseOffset s' = baseOffset s \<and> nextOffset s' = nextOffset s \<and> maxBytes s' = maxBytes s"

definition other_files_kept :: "u64 set \<Rightarrow> dir \<Rightarrow> dir \<Rightarrow> bool" where
  "other_files_kept B d d' \<longleftrightarrow>
     (\<forall>b. b \<notin> B \<longrightarrow> d' (logName b) = d (logName b) \<and> d' (indexName b) = d (indexName b))"

lemma length_marshal_filter: "length (marshal_all (filter P rs)) \<le> length (marshal_all rs)"
  by (induction rs) auto

lemma CompactLogSegments_correct:
  assumes inv: "segment_inv d s" and run: "CompactLogSegments d s latest = (d', s', r)"
  shows "\<exists>n. r = Inr n" and "segment_inv d' s'"
    and "segment_records d' s' = filter (kept latest) (segment_records d s)"
    and "same_place s s'" and "other_files_kept {baseOffset s} d d'"
proof -
  let ?rs = "segment_records d s"
  obtain s1 where rd: "Segment_Read d s (baseOffset s) = (Inr ?rs, s1)" and rep: "repositioned d s s1"
    using Segment_Read_all [OF inv] by blast
  note same = repositioned_same [OF rep]
  have "(\<exists>n. r = Inr n) \<and> segment_inv d' s' \<and> segment_records d' s' = filter (kept latest) ?rs \<and>
      same_place s s' \<and> other_files_kept {baseOffset s} d d'"
  proof (cases "length (filter (kept latest) ?rs) = length ?rs")
    case True
    then have "filter (kept latest) ?rs = ?rs" by (metis length_filter_less less_irrefl filter_id_conv)
    with True rd run same inv show ?thesis
      by (auto simp: CompactLogSegments_def Let_def compactLoop_filter same_place_def
          other_files_kept_def split: if_splits)
  next
    case False
    then have "?rs \<noteq> []" by auto
    with False rd run obtain n where rep2: "replaceContents d s1 (filter (kept latest) ?rs) = (d', s')"
      and n: "r = Inr n"
      by (auto simp: CompactLogSegments_def Let_def compactLoop_filter split: prod.splits)
    from inv same(4) same(5) obtain es where s1: "segment_rep d s1 ?rs es"
      unfolding segment_inv_def by metis
    have srt: "sorted_wrt (<) (map Offset (filter (kept latest) ?rs))"
      using segment_repD(8) [OF s1] by (simp add: sorted_wrt_map sorted_wrt_filter)
    have "length (marshal_all (filter (kept latest) ?rs)) < 2 ^ 63"
      using s1 length_marshal_filter [of "kept latest" ?rs] by (simp add: segment_rep_def)
    note rc = replaceContents_correct [OF s1 filter_is_subset srt this rep2]
    from rc(1) obtain es' where "segment_rep d' s' (filter (kept latest) ?rs) es'" by blast
    from segment_rep_inv [OF this] rc(2-5) n same show ?thesis
      by (auto simp: same_place_def other_files_kept_def)
  qed
  then show "\<exists>n. r = Inr n" and "segment_inv d' s'"
    and "segment_records d' s' = filter (kept latest) ?rs"
    and "same_place s s'" and "other_files_kept {baseOffset s} d d'"
    by auto
qed

lemma same_place_sorted:
  assumes "list_all2 same_place segs segs'"
  shows "sorted_wrt (\<lambda>a b. baseOffset a < baseOffset b \<and> nextOffset a \<le> baseOffset b) segs' \<longleftrightarrow>
    sorted_wrt (\<lambda>a b. baseOffset a < baseOffset b \<and> nextOffset a \<le> baseOffset b) segs"
  using assms list_all2_lengthD [OF assms] list_all2_nthD [OF assms]
  by (simp add: sorted_wrt_iff_nth_less same_place_def)

lemma other_files_keptD:
  assumes "other_files_kept B d d'" and "segment_inv d s" and "baseOffset s \<notin> B"
  shows "segment_inv d' s" and "segment_records d' s = segment_records d s"
  using assms segment_inv_frame [of d s d'] by (auto simp: other_files_kept_def)

lemma compactEach_correct:
  assumes "\<forall>s \<in> set segs. segment_inv d s" and "distinct (map baseOffset segs)"
  shows "\<exists>d' segs' n. compactEach d latest segs k = (d', segs', Inr n) \<and>
    (\<forall>s \<in> set segs'. segment_inv d' s) \<and>
    map (segment_records d') segs' = map (\<lambda>s. filter (kept latest) (segment_records d s)) segs \<and>
    list_all2 same_place segs segs' \<and> other_files_kept (baseOffset ` set segs) d d'"
  using assms
proof (induction segs arbitrary: d k)
  case Nil
  then show ?case by (simp add: other_files_kept_def)
next
  case (Cons s segs)
  obtain d1 s1 r where run: "CompactLogSegments d s latest = (d1, s1, r)"
    by (cases "CompactLogSegments d s latest")
  note c = CompactLogSegments_correct [OF _ run]
  have inv: "segment_inv d s" using Cons.prems by simp
  obtain n where n: "r = Inr n" using c(1) [OF inv] by blast
  have frame: "segment_inv d1 t \<and> segment_records d1 t = segment_records d t" if "t \<in> set segs" for t
  proof -
    have "segment_inv d t" "baseOffset t \<notin> {baseOffset s}"
      using Cons.prems that by (auto simp: image_iff eq_commute)
    with other_files_keptD [OF c(5) [OF inv], of t] show ?thesis by simp
  qed
  let ?k = "if currentSize s1 \<noteq> currentSize s then k + 1 else k"
  from Cons.IH [of d1 ?k] Cons.prems frame obtain d2 segs' m where
    rest: "compactEach d1 latest segs ?k = (d2, segs', Inr m)"
      "\<forall>s \<in> set segs'. segment_inv d2 s"
      "map (segment_records d2) segs' = map (\<lambda>s. filter (kept latest) (segment_records d1 s)) segs"
      "list_all2 same_place segs segs'" "other_files_kept (baseOffset ` set segs) d1 d2"
    by auto
  have "baseOffset s1 \<notin> baseOffset ` set segs"
    using c(4) [OF inv] Cons.prems(2) by (simp add: same_place_def)
  note first = other_files_keptD [OF rest(5) c(2) [OF inv] this]
  have "map (segment_records d2) segs' = map (\<lambda>s. filter (kept latest) (segment_records d s)) segs"
    using rest(3) frame by simp
  moreover have "other_files_kept (baseOffset ` set (s # segs)) d d2"
    using c(5) [OF inv] rest(5) by (auto simp: other_files_kept_def)
  ultimately show ?case
    using run n rest(1,2,4) first c(3,4) [OF inv]
    by (intro exI [of _ d2] exI [of _ "s1 # segs'"] exI [of _ m]) simp
qed

text \<open>Rewriting the closed segments in place keeps the invariant of the partition.\<close>

lemma log_inv_rewritten:
  assumes inv: "log_inv p" and closed: "\<forall>s \<in> set closed. segment_inv d' s"
    and place: "list_all2 same_place (butlast (segments p)) closed"
    and frame: "other_files_kept (baseOffset ` set (butlast (segments p))) (pl_dir p) d'"
    and p': "p' = p\<lparr>pl_dir := d', segments := closed @ [activeSegment p]\<rparr>"
  shows "log_inv p'" and "LEO p' = LEO p"
    and "log_records p' = concat (map (segment_records d') closed) @
      segment_records (pl_dir p) (activeSegment p)"
proof -
  let ?a = "activeSegment p"
  have act: "activeSegment p' = ?a" by (simp add: activeSegment_def p')
  have new: "b \<notin> baseOffset ` set (butlast (segments p))" if "baseOffset ?a \<le> b" for b
    using that log_inv_older(2) [OF inv] leD by blast
  note a = other_files_keptD [OF frame log_inv_active(2) [OF inv] new [OF order_refl]]
  have later: "d' (logName b) = pl_dir p (logName b) \<and> d' (indexName b) = pl_dir p (indexName b)"
    if "baseOffset ?a \<le> b" for b
    using frame new [OF that] by (simp add: other_files_kept_def)
  have "logFile ?a = logName (baseOffset ?a)"
    using log_inv_active(2) [OF inv] by (rule segment_inv_names)
  then have able: "appendable d' ?a"
    using inv later [OF order_refl] by (simp add: log_inv_def appendable_def contents_def)
  have "list_all2 same_place (butlast (segments p) @ [?a]) (closed @ [?a])"
    using place by (simp add: list_all2_appendI same_place_def)
  then have "sorted_wrt (\<lambda>a b. baseOffset a < baseOffset b \<and> nextOffset a \<le> baseOffset b) (closed @ [?a])"
    using log_inv_sorted [OF inv] same_place_sorted by blast
  moreover have "\<forall>b > baseOffset ?a. d' (logName b) = None \<and> d' (indexName b) = None"
    using inv later by (simp add: log_inv_def less_imp_le)
  ultimately show "log_inv p'"
    using inv closed a(1) able act by (auto simp: log_inv_def p')
  show "LEO p' = LEO p"
    using act inv by (simp add: LEO_def p' log_inv_def)
  show "log_records p' = concat (map (segment_records d') closed) @ segment_records (pl_dir p) ?a"
    using a(2) by (simp add: log_records_def p')
qed

lemma list_all2_map_eq:
  assumes "list_all2 P xs ys" and "\<And>x y. P x y \<Longrightarrow> f y = f x"
  shows "map f ys = map f xs"
  using assms by (induction rule: list_all2_induct) auto

lemma distinct_bases: "log_inv p \<Longrightarrow> distinct (map baseOffset (segments p))"
  unfolding log_inv_def distinct_conv_nth sorted_wrt_iff_nth_less
  by (auto simp: neq_iff)

lemma CompactSegments_correct:
  assumes inv: "log_inv p"
  shows "\<exists>p' n. CompactSegments p = (p', Inr n) \<and> log_inv p' \<and> LEO p' = LEO p \<and>
    log_records p' =
      (if length (segments p) \<le> 1 then log_records p
       else filter (kept (latestOffsets (log_records p)))
              (concat (map (segment_records (pl_dir p)) (butlast (segments p)))) @
            segment_records (pl_dir p) (activeSegment p))"
proof (cases "length (segments p) \<le> 1")
  case True
  with inv show ?thesis by (simp add: CompactSegments_def)
next
  case False
  let ?d = "pl_dir p" and ?latest = "latestOffsets (log_records p)"
  have all: "\<forall>s \<in> set (segments p). segment_inv ?d s" using inv by (simp add: log_inv_def)
  from scanSegments_correct [OF all, of Map.empty] obtain segs where
    scan: "scanSegments ?d (segments p) Map.empty = (Inr ?latest, segs)"
    and pos: "list_all2 (repositioned ?d) (segments p) segs"
    by (auto simp: latestOffsets_def log_records_def)
  define p1 where "p1 = p\<lparr>segments := segs\<rparr>"
  have p1: "log_inv p1" "log_records p1 = log_records p" "LEO p1 = LEO p"
    and p1d: "pl_dir p1 = ?d" "segments p1 = segs"
    using log_inv_repositioned [OF inv pos] by (simp_all add: p1_def)
  have same: "map (segment_records ?d) segs = map (segment_records ?d) (segments p)"
    by (rule list_all2_map_eq [OF pos]) (rule repositioned_same(5))
  then have same': "map (segment_records ?d) (butlast segs) = map (segment_records ?d) (butlast (segments p))"
    and last: "segment_records ?d (last segs) = segment_records ?d (activeSegment p)"
    using False by (metis map_butlast, metis activeSegment_def last_map length_0_conv list.map_disc_iff not_less zero_le)
  have "distinct (map baseOffset (butlast segs))"
    using distinct_bases [OF p1(1)] p1d(2) by (simp add: map_butlast distinct_butlast)
  with compactEach_correct [of "butlast segs" ?d ?latest 0] log_inv_older(1) [OF p1(1)] p1d
  obtain d' closed n where each: "compactEach ?d ?latest (butlast segs) 0 = (d', closed, Inr n)"
      "\<forall>s \<in> set closed. segment_inv d' s"
      "map (segment_records d') closed = map (\<lambda>s. filter (kept ?latest) (segment_records ?d s)) (butlast segs)"
      "list_all2 same_place (butlast segs) closed"
      "other_files_kept (baseOffset ` set (butlast segs)) ?d d'"
    by metis
  define p' where "p' = p1\<lparr>pl_dir := d', segments := closed @ [activeSegment p1]\<rparr>"
  have run: "CompactSegments p = (p', Inr n)"
    using False scan each(1) by (simp add: CompactSegments_def p'_def p1_def activeSegment_def)
  have "map (segment_records d') closed = map (filter (kept ?latest)) (map (segment_records ?d) (butlast (segments p)))"
    using each(3) same' [symmetric] by simp
  then have recs: "concat (map (segment_records d') closed) =
      filter (kept ?latest) (concat (map (segment_records ?d) (butlast (segments p))))"
    by (simp add: filter_concat)
  note w = log_inv_rewritten [OF p1(1) each(2) _ _ p'_def, unfolded p1d, OF each(4,5)]
  show ?thesis
    using run w p1(3) recs last False by (simp add: activeSegment_def p1d)
qed


section \<open>Retention removes old records only\<close>

text \<open>\<open>p'\<close> is \<open>p\<close> without some oldest records: all that is gone lies below its base offset.\<close>

definition purged :: "PartitionLog \<Rightarrow> PartitionLog \<Rightarrow> bool" where
  "purged p p' \<longleftrightarrow>
     log_inv p' \<and> LEO p' = LEO p \<and> BaseOffset p \<le> BaseOffset p' \<and>
     (\<exists>old. log_records p = old @ log_records p' \<and> (\<forall>r \<in> set old. Offset r < BaseOffset p'))"

lemma purged_refl: "log_inv p \<Longrightarrow> purged p p"
  by (simp add: purged_def)

lemma purged_trans: "purged p q \<Longrightarrow> purged q r \<Longrightarrow> purged p r"
  unfolding purged_def by (fastforce intro: less_le_trans)

lemma RemoveOldestSegment_purged:
  assumes inv: "log_inv p"
  shows "purged p (fst (RemoveOldestSegment p))"
proof -
  obtain p' rem where run: "RemoveOldestSegment p = (p', rem)" by (cases "RemoveOldestSegment p")
  have "BaseOffset p \<le> BaseOffset p'"
    using run inv
    by (cases "segments p"; cases "tl (segments p)")
      (auto simp: RemoveOldestSegment_def BaseOffset_def log_inv_def less_imp_le split: if_splits)
  with RemoveOldestSegment_correct [OF inv run] run show ?thesis by (simp add: purged_def)
qed

lemma timeLoop_purged: "log_inv p \<Longrightarrow> purged p (timeLoop mtime now retention segs p)"
proof (induction segs arbitrary: p)
  case Nil
  then show ?case by (simp add: purged_refl)
next
  case (Cons s segs)
  let ?q = "fst (RemoveOldestSegment p)"
  have "purged p ?q" using Cons.prems by (rule RemoveOldestSegment_purged)
  moreover from this have "purged ?q (timeLoop mtime now retention segs ?q)"
    by (intro Cons.IH) (simp add: purged_def)
  ultimately show ?case
    using Cons by (auto split: option.splits intro: purged_trans)
qed

lemma cleanTimeRetention_purged: "log_inv p \<Longrightarrow> purged p (cleanTimeRetention mtime now cfg p)"
  by (simp add: cleanTimeRetention_def Let_def timeLoop_purged purged_refl)

lemma sizeLoop_purged: "log_inv p \<Longrightarrow> purged p (sizeLoop limit p)"
proof (induction limit p rule: sizeLoop.induct)
  case (1 limit p)
  obtain p' rem where run: "RemoveOldestSegment p = (p', rem)" by (cases "RemoveOldestSegment p")
  with RemoveOldestSegment_purged [OF 1(2)] have step: "purged p p'" by simp
  show ?case
  proof (cases "snd (Stats p) \<le> limit \<or> \<not> rem")
    case True
    with 1(2) step run show ?thesis by (subst sizeLoop.simps) (auto simp: purged_refl)
  next
    case False
    with 1(1) [OF _ run [symmetric]] run step have "purged p' (sizeLoop limit p')"
      by (simp add: purged_def)
    with False run step purged_trans show ?thesis by (subst sizeLoop.simps) auto
  qed
qed

lemma cleanSizeRetention_purged: "log_inv p \<Longrightarrow> purged p (cleanSizeRetention cfg p)"
  by (simp add: cleanSizeRetention_def sizeLoop_purged purged_refl)


section \<open>Retention removes exactly what its limit asks for\<close>

text \<open>
  By size: the oldest segments go until the rest fits or one segment is left, and not one
  more than needed.
\<close>

lemma sizeLoop_minimal:
  assumes "segments p \<noteq> []"
  shows "\<exists>k < length (segments p). segments (sizeLoop limit p) = drop k (segments p) \<and>
    (snd (Stats (sizeLoop limit p)) \<le> limit \<or> k + 1 = length (segments p)) \<and>
    (\<forall>j < k. limit < sum_list (map currentSize (drop j (segments p))))"
  using assms
proof (induction limit p rule: sizeLoop.induct)
  case (1 limit p)
  show ?case
  proof (cases "snd (Stats p) \<le> limit \<or> length (segments p) \<le> 1")
    case True
    then have "sizeLoop limit p = p" by (subst sizeLoop.simps) (auto simp: RemoveOldestSegment_def)
    with True 1(2) show ?thesis by (intro exI [of _ 0]) (auto simp: Suc_le_eq le_Suc_eq)
  next
    case False
    let ?p = "fst (RemoveOldestSegment p)"
    have run: "RemoveOldestSegment p = (?p, True)" and tl: "segments ?p = tl (segments p)"
      using False by (simp_all add: RemoveOldestSegment_def)
    have loop: "sizeLoop limit p = sizeLoop limit ?p"
      using False by (subst sizeLoop.simps, subst run) simp
    have ne: "segments ?p \<noteq> []" using False tl by (cases "segments p") auto
    from 1(1) [OF _ run [symmetric] _ ne] False obtain k where k: "k < length (segments ?p)"
      "segments (sizeLoop limit ?p) = drop k (segments ?p)"
      "snd (Stats (sizeLoop limit ?p)) \<le> limit \<or> k + 1 = length (segments ?p)"
      "\<forall>j < k. limit < sum_list (map currentSize (drop j (segments ?p)))"
      by auto
    have "limit < sum_list (map currentSize (drop j (segments p)))" if "j < Suc k" for j
      using that k(4) False tl by (cases j) (auto simp: Stats_def drop_Suc)
    with k tl loop False show ?thesis
      by (intro exI [of _ "Suc k"]) (auto simp: drop_Suc)
  qed
qed

text \<open>
  By age: when modification times increase along the segments, as appends leave them, the
  expired closed segments go and the others stay.
\<close>

lemma timeLoop_none:
  "\<forall>s \<in> set segs. now - mtime (logFile s) \<le> retention \<Longrightarrow> timeLoop mtime now retention segs p = p"
  by (induction segs) (auto simp: statModTime_def)

lemma timeLoop_expired:
  assumes "log_inv p" and "segments p = segs @ rest" and "rest \<noteq> []"
    and "sorted (map (\<lambda>s. mtime (logFile s)) segs)"
  shows "segments (timeLoop mtime now retention segs p) =
    dropWhile (\<lambda>s. retention < now - mtime (logFile s)) segs @ rest"
  using assms
proof (induction segs arbitrary: p)
  case Nil
  then show ?case by simp
next
  case (Cons s segs)
  show ?case
  proof (cases "retention < now - mtime (logFile s)")
    case False
    with Cons.prems(4) have "\<forall>x \<in> set (s # segs). now - mtime (logFile x) \<le> retention" by auto
    with False Cons.prems(2) show ?thesis by (simp add: timeLoop_none del: timeLoop.simps)
  next
    case True
    let ?q = "fst (RemoveOldestSegment p)"
    have inv: "segment_inv (pl_dir p) s" using Cons.prems(1,2) by (simp add: log_inv_def)
    then have "pl_dir p (logFile s) \<noteq> None" "logFile s \<noteq> []"
      using segment_inv_names [OF inv] by (auto simp: segment_inv_def segment_rep_def logName_def)
    then have "timeLoop mtime now retention (s # segs) p = timeLoop mtime now retention segs ?q"
      using True by (auto simp: statModTime_def)
    moreover have "segments ?q = segs @ rest"
      using Cons.prems(2,3) by (simp add: RemoveOldestSegment_def)
    moreover have "log_inv ?q"
      using RemoveOldestSegment_purged [OF Cons.prems(1)] by (simp add: purged_def)
    ultimately show ?thesis
      using Cons.IH [of ?q] Cons.prems(3,4) True by simp
  qed
qed

lemma cleanTimeRetention_expired:
  assumes "log_inv p" and "0 < RetentionMs cfg"
    and "sorted (map (\<lambda>s. mtime (logFile s)) (butlast (segments p)))"
  shows "segments (cleanTimeRetention mtime now cfg p) =
    dropWhile (\<lambda>s. RetentionMs cfg < now - mtime (logFile s)) (butlast (segments p)) @ [activeSegment p]"
proof -
  have p: "segments p = butlast (segments p) @ [activeSegment p]"
    using assms(1) by (simp add: log_inv_def activeSegment_def)
  show ?thesis
  proof (cases "butlast (segments p) = []")
    case True
    then have "cleanTimeRetention mtime now cfg p = p"
      by (simp add: cleanTimeRetention_def GetNonActiveSegments_def)
    with True p show ?thesis by (metis append_Nil dropWhile.simps(1))
  next
    case False
    then have "GetNonActiveSegments p = butlast (segments p)"
      by (cases "segments p") (auto simp: GetNonActiveSegments_def split: if_splits)
    with False timeLoop_expired [OF assms(1) p _ assms(3)] assms(2) show ?thesis
      by (simp add: cleanTimeRetention_def Let_def)
  qed
qed


section \<open>A whole cycle\<close>

lemma RunCleanCycle_safe:
  assumes "\<forall>(key, p) \<in> set parts. log_inv p"
  shows "list_all2 (\<lambda>(key, p) (key', p'). key' = key \<and> log_inv p' \<and> LEO p' = LEO p)
    parts (RunCleanCycle mtime now cfg parts)"
proof -
  have "log_inv p' \<and> LEO p' = LEO p"
    if "log_inv p"
      and p': "p' = (let pl1 = cleanTimeRetention (mtime key) now cfg p; pl2 = cleanSizeRetention cfg pl1
        in if CompactionEnabled cfg then compactPartition pl2 else pl2)" for key p p'
  proof -
    have 1: "purged p (cleanTimeRetention (mtime key) now cfg p)"
      using \<open>log_inv p\<close> by (rule cleanTimeRetention_purged)
    then have 2: "purged p (cleanSizeRetention cfg (cleanTimeRetention (mtime key) now cfg p))"
      using cleanSizeRetention_purged purged_trans by (meson purged_def)
    then show ?thesis
      using p' CompactSegments_correct [of "cleanSizeRetention cfg (cleanTimeRetention (mtime key) now cfg p)"]
      by (auto simp: purged_def Let_def compactPartition_def)
  qed
  with assms show ?thesis
    by (auto simp: RunCleanCycle_def list_all2_conv_all_nth all_set_conv_all_nth split: prod.splits)
qed

end
