(* ===== verification/Storage_Properties.thy ===== *)
theory Storage_Properties
  imports Commit_Log Cleaner
begin

text \<open>
  The properties of the storage engine (\<open>src/internal/storage\<close>): append and read, the
  zero-copy read, restart, recovery from a torn write, compaction, retention, the record
  format and the two binary searches. Each is stated over the definitions of the component
  theories and followed by an application at a concrete input.
\<close>

section \<open>A sample\<close>

definition sample :: Record where
  "sample = \<lparr>Offset = 9, Timestamp = 7, Key = Some [107], Value = Some [1, 2]\<rparr>"

definition sample' :: Record where
  "sample' = \<lparr>Offset = 9, Timestamp = 8, Key = Some [107], Value = Some [3]\<rparr>"

lemma sample_ok: "list_all record_ok [sample, sample']"
  by (simp add: sample_def sample'_def record_ok_def optLen_def)

text \<open>A partition in an empty directory, whose segments hold one record each.\<close>

lemma sample_log:
  obtains p where "NewPartitionLog Map.empty [] 1 0 = Inr p" and "log_inv p" and "log_dense p"
    and "log_records p = []" and "LEO p = 0" and "BaseOffset p = 0"
  using NewPartitionLog_empty [of 1 0] by auto

lemma sample_log2:
  obtains p p' where "NewPartitionLog Map.empty [] 1 0 = Inr p"
    and "appendAll Append p [sample, sample'] = (p', Inr (numbered 0 [sample, sample']))"
    and "log_inv p'" and "log_records p' = numbered 0 [sample, sample']"
    and "LEO p' = 2" and "BaseOffset p' = 0"
proof -
  obtain p where p: "NewPartitionLog Map.empty [] 1 0 = Inr p" "log_inv p" "log_records p = []"
    "LEO p = 0" "BaseOffset p = 0"
    by (rule sample_log)
  from plog.append_batch [OF p(2) sample_ok] p obtain p' where
    "appendAll Append p [sample, sample'] = (p', Inr (numbered 0 [sample, sample']))" "log_inv p'"
    "log_records p' = numbered 0 [sample, sample']" "LEO p' = 2" "BaseOffset p' = 0"
    by (auto simp del: numbered.simps appendAll.simps)
  with that p(1) show thesis by blast
qed


section \<open>Append and read\<close>

text \<open>
  C13: Appending a batch of records to a partition, rolling segments as they fill up,
  succeeds, gives the records consecutive offsets from the log end offset on, adds exactly
  them to the log, advances the log end offset by their number and keeps the invariant; a
  reader that starts at the old log end offset then gets exactly this batch.
\<close>

theorem append_then_read:
  assumes "log_inv p" and "list_all record_ok rs" and "unat (LEO p) + length rs < 2 ^ 64"
  shows "\<exists>p'. appendAll Append p rs = (p', Inr (numbered (LEO p) rs)) \<and> log_inv p' \<and>
    log_records p' = log_records p @ numbered (LEO p) rs \<and>
    LEO p' = LEO p + of_nat (length rs) \<and>
    fst (Read p' (LEO p)) = Inr (numbered (LEO p) rs)"
proof -
  from plog.append_batch [OF assms] obtain p' where
    "appendAll Append p rs = (p', Inr (numbered (LEO p) rs))" "log_inv p'"
    "log_records p' = log_records p @ numbered (LEO p) rs" "LEO p' = LEO p + of_nat (length rs)"
    by blast
  with plog.read_batch [OF assms] show ?thesis by blast
qed

theorem append_then_read_witness:
  "\<exists>p p'. NewPartitionLog Map.empty [] 1 0 = Inr p \<and>
     appendAll Append p [sample, sample'] =
       (p', Inr [sample\<lparr>Offset := 0\<rparr>, sample'\<lparr>Offset := 1\<rparr>]) \<and>
     fst (Read p' 0) = Inr [sample\<lparr>Offset := 0\<rparr>, sample'\<lparr>Offset := 1\<rparr>]"
proof -
  obtain p where p: "NewPartitionLog Map.empty [] 1 0 = Inr p" "log_inv p" "LEO p = 0"
    by (rule sample_log)
  from append_then_read [OF p(2) sample_ok] p show ?thesis
    by (auto simp del: appendAll.simps)
qed

text \<open>
  \<open>Read\<close> never fails on a well-formed partition. From an offset at or above the base
  offset of the oldest segment it returns exactly the records with that offset or a higher
  one, in log order; below it, nothing. It leaves the log unchanged and ready for appends.
\<close>

theorem read_exact:
  assumes "log_inv p"
  shows "\<exists>p'. Read p start =
      (Inr (if start < BaseOffset p then []
            else filter (\<lambda>r. start \<le> Offset r) (log_records p)), p') \<and>
    log_inv p' \<and> log_records p' = log_records p \<and> LEO p' = LEO p"
  by (rule Read_correct [OF assms])

theorem read_exact_witness:
  "\<exists>p. log_records p = numbered 0 [sample, sample'] \<and>
     fst (Read p 1) = Inr [sample'\<lparr>Offset := 1\<rparr>]"
proof -
  obtain p where p: "log_inv p" "log_records p = numbered 0 [sample, sample']" "BaseOffset p = 0"
    by (rule sample_log2)
  from read_exact [OF p(1), of 1] p show ?thesis by (intro exI [of _ p]) auto
qed

text \<open>
  C16: The zero-copy read sends at most the requested number of bytes. What it sends parses
  as records; those at or above the requested offset are an initial part of what \<open>Read\<close>
  returns, and all of it when the limit is at least the size of the log.
\<close>

theorem zero_copy_sound:
  assumes "log_inv p" and "0 < maxB" and "BaseOffset p \<le> start"
  shows "\<exists>out rs. ReadZeroCopy p start maxB = (out, None) \<and> int (length out) \<le> maxB \<and>
    ParseRecordStream out = Inr rs \<and>
    prefix (filter (\<lambda>r. start \<le> Offset r) rs) (filter (\<lambda>r. start \<le> Offset r) (log_records p)) \<and>
    (int (length (marshal_all (log_records p))) \<le> maxB \<longrightarrow>
       filter (\<lambda>r. start \<le> Offset r) rs = filter (\<lambda>r. start \<le> Offset r) (log_records p))"
  by (rule ReadZeroCopy_records [OF assms])

theorem zero_copy_sound_witness:
  "\<exists>p out rs. log_records p = numbered 0 [sample, sample'] \<and>
     ReadZeroCopy p 1 1000 = (out, None) \<and> ParseRecordStream out = Inr rs \<and>
     filter (\<lambda>r. 1 \<le> Offset r) rs = [sample'\<lparr>Offset := 1\<rparr>]"
proof -
  obtain p where p: "log_inv p" "log_records p = numbered 0 [sample, sample']" "BaseOffset p = 0"
    by (rule sample_log2)
  have "list_all record_ok (log_records p)" using p(1) by (rule log_inv_records_ok)
  then have "length (marshal_all (log_records p)) = 61"
    using p(2) by (simp add: length_Marshal sample_def sample'_def optLen_def)
  with zero_copy_sound [OF p(1), of 1000 1] p show ?thesis by force
qed


section \<open>Restart and recovery\<close>

lemma appendAll_dense:
  assumes "log_inv p" "log_dense p" "list_all record_ok rs" "unat (LEO p) + length rs < 2 ^ 64"
  shows "log_dense (fst (appendAll Append p rs))"
  using assms
proof (induction rs arbitrary: p)
  case Nil
  then show ?case by simp
next
  case (Cons r rs)
  from Append_correct [OF Cons.prems(1), of r] Cons.prems(3,4) obtain p1 where
    p1: "Append p r = (p1, Inr (r\<lparr>Offset := LEO p\<rparr>))" "log_inv p1" "LEO p1 = LEO p + 1"
    by auto
  have d1: "log_dense p1"
    using Append_dense [OF Cons.prems(1,2), of r] Cons.prems(3,4) p1(1) by simp
  have "unat (LEO p + 1) = unat (LEO p) + 1"
    using Cons.prems(4) by (intro word_less_Suc) simp
  then have "log_dense (fst (appendAll Append p1 rs))"
    using Cons.IH [OF p1(2) d1] Cons.prems(3,4) p1(3) by simp
  then show ?case using p1(1) by (auto split: prod.splits sum.splits)
qed

text \<open>
  C14: A restart loses nothing. A partition created in an empty directory and filled with
  any batch of records can be opened again from its directory (in whatever order the
  directory is listed): the new partition satisfies the invariant, returns all records
  from offset 0 on and continues at the same log end offset.
\<close>

theorem restart_durable:
  assumes "0 < maxB" and "maxB \<le> 2 ^ 62" and "list_all record_ok rs" and "length rs < 2 ^ 64"
  shows "\<exists>p p1. NewPartitionLog Map.empty [] maxB iv = Inr p \<and>
    appendAll Append p rs = (p1, Inr (numbered 0 rs)) \<and>
    (\<forall>entries. set entries = dom (pl_dir p1) \<and> distinct entries \<longrightarrow>
       (\<exists>p2. NewPartitionLog (pl_dir p1) entries maxB iv = Inr p2 \<and> log_inv p2 \<and>
          LEO p2 = of_nat (length rs) \<and> fst (Read p2 0) = Inr (numbered 0 rs)))"
proof -
  from NewPartitionLog_empty [OF assms(1,2)] obtain p where
    p: "NewPartitionLog Map.empty [] maxB iv = Inr p" "log_inv p" "log_dense p" "log_records p = []"
      "LEO p = 0" "BaseOffset p = 0"
    by blast
  have room: "unat (LEO p) + length rs < 2 ^ 64" using p(5) assms(4) by simp
  from plog.append_batch [OF p(2) assms(3) room] p obtain p1 where
    p1: "appendAll Append p rs = (p1, Inr (numbered 0 rs))" "log_inv p1"
      "log_records p1 = numbered 0 rs" "LEO p1 = of_nat (length rs)" "BaseOffset p1 = 0"
    by auto
  have d1: "log_dense p1" using appendAll_dense [OF p(2,3) assms(3) room] p1(1) by simp
  have "\<exists>p2. NewPartitionLog (pl_dir p1) entries maxB iv = Inr p2 \<and> log_inv p2 \<and>
      LEO p2 = of_nat (length rs) \<and> fst (Read p2 0) = Inr (numbered 0 rs)"
    if "set entries = dom (pl_dir p1)" "distinct entries" for entries
  proof -
    from NewPartitionLog_reopens [OF p1(2) d1 that assms(1,2), of iv] p1 obtain p2 where
      p2: "NewPartitionLog (pl_dir p1) entries maxB iv = Inr p2" "log_inv p2"
        "log_records p2 = numbered 0 rs" "LEO p2 = of_nat (length rs)" "BaseOffset p2 = 0"
      by auto
    from Read_correct [OF p2(2), of 0] p2(3,5) have "fst (Read p2 0) = Inr (numbered 0 rs)" by auto
    with p2 show ?thesis by blast
  qed
  with p(1) p1(1) show ?thesis by blast
qed

theorem restart_durable_witness:
  "\<exists>p p1. NewPartitionLog Map.empty [] 1 0 = Inr p \<and>
     appendAll Append p [sample, sample'] = (p1, Inr (numbered 0 [sample, sample']))"
  using restart_durable [OF _ _ sample_ok, of 1 0] by auto

text \<open>
  Recovery of a segment whose last write was cut off. The log holds whole records
  followed by a proper prefix of one more record: opening the segment succeeds, counts
  exactly the whole records and restores the next offset behind them.
\<close>

theorem recovery_ignores_torn_tail:
  assumes "contents d (logName base) = marshal_all rs @ torn" and "strict_prefix torn (Marshal r)"
    and "list_all record_ok rs" and "record_ok r" and "unat base + length rs < 2 ^ 64"
  shows "\<exists>d' s. NewSegment d base maxB interval = (d', Inr s) \<and>
    baseOffset s = base \<and> nextOffset s = base + of_nat (length rs) \<and>
    currentSize s = int (length (marshal_all rs)) \<and>
    logPos s = length (marshal_all rs) + length torn"
proof -
  have "ReadAll torn = (Inr [], [])"
    using assms(2,4) by (intro ReadAll_truncated ReadRecord_truncated)
  from NewSegment_stream [OF assms(1) this assms(3,5), of maxB interval] show ?thesis by simp
qed

theorem recovery_ignores_torn_tail_witness:
  "\<exists>d' s. NewSegment [logName 5 \<mapsto> Marshal sample @ take 2 (Marshal sample)] 5 1024 64 = (d', Inr s) \<and>
     nextOffset s = 6"
proof -
  have "length (take 2 (Marshal sample)) < length (Marshal sample)"
    using sample_ok length_Marshal [of sample] by simp
  then have "strict_prefix (take 2 (Marshal sample)) (Marshal sample)"
    using take_is_prefix [of 2 "Marshal sample"] by (auto simp: strict_prefix_def)
  then show ?thesis
    using sample_ok recovery_ignores_torn_tail
      [of "[logName 5 \<mapsto> Marshal sample @ take 2 (Marshal sample)]" 5 "[sample]"
          "take 2 (Marshal sample)" sample 1024 64]
    by (auto simp: contents_def)
qed


section \<open>Compaction\<close>

text \<open>
  C15: Compaction of a partition never fails on a well-formed partition. The value of a key
  is that of its latest record, none if the value is null (a tombstone): every key has the
  same value before and after, except that a key whose latest record lies in a closed segment
  and has a value that is present and empty loses it, since the code takes an empty value for
  a tombstone. Compaction keeps the invariant, the log end offset and
  every record without a key, and adds nothing; in the closed part of the log only the
  latest record of each key is left.
\<close>

theorem compaction_keeps_table:
  assumes inv: "log_inv p"
  shows "\<exists>p' n closed. CompactSegments p = (p', Inr n) \<and> log_inv p' \<and> LEO p' = LEO p \<and>
    (\<forall>k. k \<noteq> [] \<longrightarrow> table (log_records p') k =
       (if empty_latest (concat (map (segment_records (pl_dir p)) (butlast (segments p))))
             (segment_records (pl_dir p) (activeSegment p)) k
        then None else table (log_records p) k)) \<and>
    set (log_records p') \<subseteq> set (log_records p) \<and>
    (\<forall>r \<in> set (log_records p). keyBytes r = [] \<longrightarrow> r \<in> set (log_records p')) \<and>
    (1 < length (segments p) \<longrightarrow>
       log_records p' = closed @ segment_records (pl_dir p) (activeSegment p) \<and>
       (\<forall>r \<in> set closed. keyBytes r \<noteq> [] \<longrightarrow> lastRecord (keyBytes r) (log_records p) = Some r))"
proof -
  let ?xs = "concat (map (segment_records (pl_dir p)) (butlast (segments p)))"
  let ?ys = "segment_records (pl_dir p) (activeSegment p)"
  let ?keep = "kept (latestOffsets (log_records p))"
  have all: "log_records p = ?xs @ ?ys"
    using inv by (intro log_records_active) (simp add: log_inv_def)
  have srt: "sorted_wrt (<) (map Offset (?xs @ ?ys))"
    using log_inv_offsets [OF inv] all by simp
  from CompactSegments_correct [OF inv] obtain p' n where
    p': "CompactSegments p = (p', Inr n)" "log_inv p'" "LEO p' = LEO p"
      "log_records p' = (if length (segments p) \<le> 1 then log_records p else filter ?keep ?xs @ ?ys)"
    by blast
  have tab: "table (filter ?keep ?xs @ ?ys) k = (if empty_latest ?xs ?ys k then None else table (log_records p) k)"
    if "k \<noteq> []" for k using table_compacted [OF srt that] all by simp
  have latest: "lastRecord (keyBytes r) (log_records p) = Some r"
    if r: "r \<in> set (filter ?keep ?xs)" "keyBytes r \<noteq> []" for r
  proof -
    have "map_option Offset (lastRecord (keyBytes r) (log_records p)) = Some (Offset r)"
      using r latestOffsets_lastRecord [of "keyBytes r" "log_records p"] by (auto simp: kept_def)
    then obtain r' where r': "lastRecord (keyBytes r) (log_records p) = Some r'" "Offset r' = Offset r"
      by auto
    have "r' = r"
      using lastRecord_Some(1) [OF r'(1)] r(1) r'(2) all offsets_unique [OF srt, of r' r] by simp
    with r' show ?thesis by simp
  qed
  show ?thesis
  proof (cases "length (segments p) \<le> 1")
    case True
    then have "?xs = []" by (cases "segments p") auto
    then have "\<not> empty_latest ?xs ?ys k" for k by (simp add: empty_latest_def lastRecord_def)
    with True p' show ?thesis by (intro exI [of _ p'] exI [of _ n] exI [of _ "[]"]) auto
  next
    case False
    with p' tab latest all show ?thesis
      by (intro exI [of _ p'] exI [of _ n] exI [of _ "filter ?keep ?xs"]) (auto simp: kept_def)
  qed
qed

theorem compaction_keeps_table_witness:
  "\<exists>p p' n. log_records p = numbered 0 [sample, sample'] \<and> CompactSegments p = (p', Inr n) \<and>
     table (log_records p') [107] = Some [3]"
proof -
  obtain p where p: "log_inv p" "log_records p = numbered 0 [sample, sample']" by (rule sample_log2)
  let ?xs = "concat (map (segment_records (pl_dir p)) (butlast (segments p)))"
  let ?ys = "segment_records (pl_dir p) (activeSegment p)"
  have tab: "table (log_records p) [107] = Some [3]"
    by (simp add: p(2) table_def lastRecord_def sample_def sample'_def keyBytes_def)
  have "log_records p = ?xs @ ?ys" using p(1) by (intro log_records_active) (simp add: log_inv_def)
  then have "\<not> empty_latest ?xs ?ys [107]" using empty_latest_table [of ?xs ?ys "[107]"] tab by auto
  with compaction_keeps_table [OF p(1)] tab obtain p' n where
    "CompactSegments p = (p', Inr n)" "table (log_records p') [107] = Some [3]"
    by (metis list.discI)
  with p(2) show ?thesis by blast
qed


section \<open>Retention\<close>

text \<open>
  C23: Retention by size terminates with the total at or below the limit or with a single
  segment, removes oldest segments first and not one more than needed, keeps the invariant
  and the log end offset, and every removed record lies below the new base offset.
\<close>

theorem size_retention_minimal:
  assumes "log_inv p" and "0 < RetentionBytes cfg"
  shows "\<exists>k < length (segments p).
    segments (cleanSizeRetention cfg p) = drop k (segments p) \<and>
    (snd (Stats (cleanSizeRetention cfg p)) \<le> RetentionBytes cfg \<or> k + 1 = length (segments p)) \<and>
    (\<forall>j < k. RetentionBytes cfg < sum_list (map currentSize (drop j (segments p)))) \<and>
    purged p (cleanSizeRetention cfg p)"
proof -
  have "segments p \<noteq> []" using assms(1) by (simp add: log_inv_def)
  from sizeLoop_minimal [OF this, of "RetentionBytes cfg"] sizeLoop_purged [OF assms(1)] assms(2)
  show ?thesis by (simp add: cleanSizeRetention_def)
qed

theorem size_retention_minimal_witness:
  "\<exists>p. log_records p = numbered 0 [sample, sample'] \<and>
     purged p (cleanSizeRetention (DefaultCleanerConfig\<lparr>RetentionBytes := 40\<rparr>) p)"
proof -
  obtain p where p: "log_inv p" "log_records p = numbered 0 [sample, sample']" by (rule sample_log2)
  with size_retention_minimal [OF p(1), of "DefaultCleanerConfig\<lparr>RetentionBytes := 40\<rparr>"]
  show ?thesis by auto
qed

text \<open>
  Retention by age, when the modification times of the closed segments increase with
  their offsets: exactly the expired closed segments are removed, the active segment
  always stays, and the invariant and the log end offset are kept.
\<close>

theorem time_retention_expired:
  assumes "log_inv p" and "0 < RetentionMs cfg"
    and "sorted (map (\<lambda>s. mtime (logFile s)) (butlast (segments p)))"
  shows "segments (cleanTimeRetention mtime now cfg p) =
      dropWhile (\<lambda>s. RetentionMs cfg < now - mtime (logFile s)) (butlast (segments p)) @ [activeSegment p] \<and>
    purged p (cleanTimeRetention mtime now cfg p)"
  using cleanTimeRetention_expired [OF assms] cleanTimeRetention_purged [OF assms(1)] by blast

theorem time_retention_expired_witness:
  "\<exists>p. log_records p = numbered 0 [sample, sample'] \<and>
     segments (cleanTimeRetention (\<lambda>f. 0) (2 * 168 * 3600 * nsPerSecond) DefaultCleanerConfig p) = [activeSegment p]"
proof -
  obtain p where p: "log_inv p" "log_records p = numbered 0 [sample, sample']" by (rule sample_log2)
  have "dropWhile (\<lambda>s. True) xs = []" and "sorted (map (\<lambda>s. 0 :: int) xs)" for xs :: "Segment list"
    by (induction xs) auto
  with time_retention_expired [OF p(1), of DefaultCleanerConfig "\<lambda>f. 0" "2 * 168 * 3600 * nsPerSecond"] p(2)
  show ?thesis by (intro exI [of _ p]) (simp add: DefaultCleanerConfig_def nsPerSecond_def)
qed

text \<open>
  A cleaner cycle, with any configuration, clock and modification times, keeps every
  partition well-formed under its name, with the same log end offset.
\<close>

theorem clean_cycle_safe:
  assumes "\<forall>(key, p) \<in> set parts. log_inv p"
  shows "list_all2 (\<lambda>(key, p) (key', p'). key' = key \<and> log_inv p' \<and> LEO p' = LEO p)
    parts (RunCleanCycle mtime now cfg parts)"
  by (rule RunCleanCycle_safe [OF assms])

theorem clean_cycle_safe_witness:
  "\<exists>p p'. log_records p = numbered 0 [sample, sample'] \<and>
     RunCleanCycle (\<lambda>k f. 0) 0 (DefaultCleanerConfig\<lparr>CompactionEnabled := True\<rparr>) [(''t-0'', p)] = [(''t-0'', p')] \<and>
     LEO p' = 2"
proof -
  obtain p where p: "log_inv p" "log_records p = numbered 0 [sample, sample']" "LEO p = 2" by (rule sample_log2)
  with clean_cycle_safe [of "[(''t-0'', p)]" "\<lambda>k f. 0" 0 "DefaultCleanerConfig\<lparr>CompactionEnabled := True\<rparr>"]
  show ?thesis by (auto simp: list_all2_Cons1)
qed


section \<open>The record format\<close>

text \<open>
  Reading back a marshalled record gives the record and its size, and leaves exactly
  what follows it; a record cut off anywhere is reported as the end of the input, never
  as another record.
\<close>

theorem record_round_trip:
  assumes "record_ok r"
  shows "ReadRecord (Marshal r @ rest) = (Inr (r, int (length (Marshal r))), rest) \<and>
    (\<forall>torn. strict_prefix torn (Marshal r) \<longrightarrow>
      (\<exists>e. ReadRecord torn = (Inl e, []) \<and> (e = EOF \<or> e = ErrUnexpectedEOF)))"
  using ReadRecord_Marshal [OF assms] ReadRecord_truncated [OF assms]
  by (auto simp: truncation_def)

theorem record_round_trip_witness:
  "ReadRecord (Marshal sample @ [1, 2, 3]) = (Inr (sample, 31), [1, 2, 3]) \<and>
   (\<exists>e. ReadRecord [] = (Inl e, []))"
proof -
  have ok: "record_ok sample" using sample_ok by simp
  have "strict_prefix [] (Marshal sample)" using Marshal_not_Nil [of sample] by (cases "Marshal sample") auto
  with record_round_trip [OF ok] show ?thesis
    using length_Marshal [OF ok] by (auto simp: sample_def optLen_def)
qed


section \<open>The two binary searches\<close>

text \<open>
  The binary search of the sparse index returns the position of the last entry whose
  offset is at or below the target, 0 if there is none.
\<close>

theorem index_lookup_correct:
  assumes "contents d (idx_file idx) = entriesBytes es"
    and "idx_size idx = int (length (entriesBytes es))"
    and "sorted (map fst es)" and "positions_ok es"
  shows "Lookup d idx target =
    int (let below = filter (\<lambda>e. fst e \<le> target) es in if below = [] then 0 else snd (last below))"
  using Lookup_correct [OF assms] by (simp add: lookup_spec_def)

theorem index_lookup_correct_witness:
  "Lookup [''i'' \<mapsto> entriesBytes [(0, 0), (4, 100), (9, 250)]] \<lparr>idx_file = ''i'', idx_size = 48\<rparr> 8 = 100"
  by (subst index_lookup_correct [where es = "[(0, 0), (4, 100), (9, 250)]"])
    (simp_all add: contents_def positions_ok_def)

text \<open>
  The binary search over the segments finds the segment to start reading at: it
  fails only below the base offset, and every segment before the one it finds ends at or
  below the wanted offset.
\<close>

theorem segment_search_correct:
  assumes "log_inv p"
  shows "(findSegmentIndex p start = -1 \<longleftrightarrow> start < BaseOffset p) \<and>
    (BaseOffset p \<le> start \<longrightarrow> (\<exists>k < length (segments p). findSegmentIndex p start = int k \<and>
      (\<forall>s \<in> set (take k (segments p)). nextOffset s \<le> start)))"
  using findSegmentIndex_correct [OF assms, of start] by (auto simp: not_less split: if_splits)

theorem segment_search_correct_witness:
  "\<exists>p. log_records p = numbered 0 [sample, sample'] \<and> findSegmentIndex p 0 \<noteq> -1"
proof -
  obtain p where p: "log_inv p" "log_records p = numbered 0 [sample, sample']" "BaseOffset p = 0"
    by (rule sample_log2)
  with segment_search_correct [OF p(1), of 0] show ?thesis by auto
qed

end
