(* ===== verification/Messages_Data.thy ===== *)
theory Messages_Data
  imports Wire
begin

text \<open>
  \<open>src/internal/protocol/produce.go\<close>, \<open>fetch.go\<close>, \<open>metadata.go\<close> and
  \<open>api_version.go\<close>: the messages of the data path, with the decoder and the encoder the
  broker has for each, and the decoder of Produce responses of the command line client
  (\<open>src/cmd/producer/main.go\<close>, repeated in \<open>src/cmd/stress_test/main.go\<close>).

  A message the broker only reads has a reference writer here, and one it only writes a
  reference reader, named \<open>client_\<dots>\<close>: they state the layout a client of the protocol
  uses and are the other half of the round trips.
\<close>

section \<open>Produce (ApiKey 0)\<close>

record PartitionProduceData =
  ppd_PartitionId :: i32
  ppd_RecordsData :: bytes

record TopicProduceData =
  tpd_TopicName :: string
  tpd_Partitions :: "PartitionProduceData list"

record ProduceRequest =
  preq_Acks :: i16
  preq_Timeout :: i32
  preq_Topics :: "TopicProduceData list"

record PartitionProduceResponse =
  ppr_PartitionId :: i32
  ppr_ErrorCode :: i16
  ppr_BaseOffset :: i64
  ppr_LogAppendTime :: i64

record TopicProduceResponse =
  tpr_TopicName :: string
  tpr_Partitions :: "PartitionProduceResponse list"

record ProduceResponse =
  pres_Topics :: "TopicProduceResponse list"

definition DecodePartitionProduceData :: "PartitionProduceData reader" where
  "DecodePartitionProduceData =
     rd_bind ReadInt32 (\<lambda>partId.
     rd_bind ReadBytes (\<lambda>recordsData.
     rd_return \<lparr>ppd_PartitionId = partId, ppd_RecordsData = recordsData\<rparr>))"

definition DecodeTopicProduceData :: "TopicProduceData reader" where
  "DecodeTopicProduceData =
     rd_bind ReadString (\<lambda>topicName.
     rd_bind (ReadArray DecodePartitionProduceData) (\<lambda>partitions.
     rd_return \<lparr>tpd_TopicName = topicName, tpd_Partitions = partitions\<rparr>))"

definition DecodeProduceRequest :: "ProduceRequest reader" where
  "DecodeProduceRequest =
     rd_bind ReadInt16 (\<lambda>acks.
     rd_bind ReadInt32 (\<lambda>timeout.
     rd_bind (ReadArray DecodeTopicProduceData) (\<lambda>topics.
     rd_return \<lparr>preq_Acks = acks, preq_Timeout = timeout, preq_Topics = topics\<rparr>)))"

definition EncodePartitionProduceData :: "PartitionProduceData \<Rightarrow> bytes" where
  "EncodePartitionProduceData p =
     WriteInt32 (ppd_PartitionId p) @
     WriteInt32 (of_nat (length (ppd_RecordsData p))) @
     (if 0 < length (ppd_RecordsData p) then ppd_RecordsData p else [])"

definition EncodeTopicProduceData :: "TopicProduceData \<Rightarrow> bytes" where
  "EncodeTopicProduceData t =
     WriteString (tpd_TopicName t) @ WriteArray EncodePartitionProduceData (tpd_Partitions t)"

definition EncodeProduceRequest :: "ProduceRequest \<Rightarrow> bytes" where
  "EncodeProduceRequest req =
     WriteInt16 (preq_Acks req) @ WriteInt32 (preq_Timeout req) @
     WriteArray EncodeTopicProduceData (preq_Topics req)"

definition EncodePartitionProduceResponse :: "PartitionProduceResponse \<Rightarrow> bytes" where
  "EncodePartitionProduceResponse p =
     WriteInt32 (ppr_PartitionId p) @ WriteInt16 (ppr_ErrorCode p) @
     WriteInt64 (ppr_BaseOffset p) @ WriteInt64 (ppr_LogAppendTime p)"

definition EncodeTopicProduceResponse :: "TopicProduceResponse \<Rightarrow> bytes" where
  "EncodeTopicProduceResponse t =
     WriteString (tpr_TopicName t) @ WriteArray EncodePartitionProduceResponse (tpr_Partitions t)"

definition EncodeProduceResponse :: "ProduceResponse \<Rightarrow> bytes" where
  "EncodeProduceResponse resp = WriteArray EncodeTopicProduceResponse (pres_Topics resp)"

text \<open>
  The client's decoder of Produce responses. Its counts come from \<open>ReadInt32\<close> without
  the bound of \<open>ReadArrayCount\<close>; a loop up to a negative count does not run.
\<close>

definition ReadUnboundedArray :: "'a reader \<Rightarrow> 'a list reader" where
  "ReadUnboundedArray m = rd_bind ReadInt32 (\<lambda>count. rd_repeat (nat (sint count)) m)"

definition decodePartitionProduceResponse :: "PartitionProduceResponse reader" where
  "decodePartitionProduceResponse =
     rd_bind ReadInt32 (\<lambda>pId.
     rd_bind ReadInt16 (\<lambda>errCode.
     rd_bind ReadInt64 (\<lambda>baseOff.
     rd_bind ReadInt64 (\<lambda>logTime.
     rd_return \<lparr>ppr_PartitionId = pId, ppr_ErrorCode = errCode, ppr_BaseOffset = baseOff,
                ppr_LogAppendTime = logTime\<rparr>))))"

definition decodeTopicProduceResponse :: "TopicProduceResponse reader" where
  "decodeTopicProduceResponse =
     rd_bind ReadString (\<lambda>tName.
     rd_bind (ReadUnboundedArray decodePartitionProduceResponse) (\<lambda>parts.
     rd_return \<lparr>tpr_TopicName = tName, tpr_Partitions = parts\<rparr>))"

definition decodeProduceResponse :: "ProduceResponse reader" where
  "decodeProduceResponse =
     rd_bind (ReadUnboundedArray decodeTopicProduceResponse) (\<lambda>topics.
     rd_return \<lparr>pres_Topics = topics\<rparr>)"


section \<open>Fetch (ApiKey 1)\<close>

record PartitionFetchData =
  pfd_PartitionId :: i32
  pfd_FetchOffset :: i64
  pfd_MaxBytes :: i32

record TopicFetchData =
  tfd_TopicName :: string
  tfd_Partitions :: "PartitionFetchData list"

record FetchRequest =
  freq_ReplicaId :: i32
  freq_MaxWaitTime :: i32
  freq_MinBytes :: i32
  freq_Topics :: "TopicFetchData list"

record PartitionFetchResponse =
  pfr_PartitionId :: i32
  pfr_ErrorCode :: i16
  pfr_HighWatermark :: i64
  pfr_RecordsData :: bytes

record TopicFetchResponse =
  tfr_TopicName :: string
  tfr_Partitions :: "PartitionFetchResponse list"

record FetchResponse =
  fres_Topics :: "TopicFetchResponse list"

definition DecodePartitionFetchData :: "PartitionFetchData reader" where
  "DecodePartitionFetchData =
     rd_bind ReadInt32 (\<lambda>partId.
     rd_bind ReadInt64 (\<lambda>fetchOffset.
     rd_bind ReadInt32 (\<lambda>maxBytes.
     rd_return \<lparr>pfd_PartitionId = partId, pfd_FetchOffset = fetchOffset,
                pfd_MaxBytes = maxBytes\<rparr>)))"

definition DecodeTopicFetchData :: "TopicFetchData reader" where
  "DecodeTopicFetchData =
     rd_bind ReadString (\<lambda>topicName.
     rd_bind (ReadArray DecodePartitionFetchData) (\<lambda>partitions.
     rd_return \<lparr>tfd_TopicName = topicName, tfd_Partitions = partitions\<rparr>))"

definition DecodeFetchRequest :: "FetchRequest reader" where
  "DecodeFetchRequest =
     rd_bind ReadInt32 (\<lambda>replicaId.
     rd_bind ReadInt32 (\<lambda>maxWaitTime.
     rd_bind ReadInt32 (\<lambda>minBytes.
     rd_bind (ReadArray DecodeTopicFetchData) (\<lambda>topics.
     rd_return \<lparr>freq_ReplicaId = replicaId, freq_MaxWaitTime = maxWaitTime,
                freq_MinBytes = minBytes, freq_Topics = topics\<rparr>))))"

definition EncodePartitionFetchResponse :: "PartitionFetchResponse \<Rightarrow> bytes" where
  "EncodePartitionFetchResponse p =
     WriteInt32 (pfr_PartitionId p) @ WriteInt16 (pfr_ErrorCode p) @
     WriteInt64 (pfr_HighWatermark p) @
     (let recordsLen = of_nat (length (pfr_RecordsData p)) :: i32
      in WriteInt32 recordsLen @ (if 0 < sint recordsLen then pfr_RecordsData p else []))"

definition EncodeTopicFetchResponse :: "TopicFetchResponse \<Rightarrow> bytes" where
  "EncodeTopicFetchResponse t =
     WriteString (tfr_TopicName t) @ WriteArray EncodePartitionFetchResponse (tfr_Partitions t)"

definition EncodeFetchResponse :: "FetchResponse \<Rightarrow> bytes" where
  "EncodeFetchResponse resp = WriteArray EncodeTopicFetchResponse (fres_Topics resp)"


section \<open>Metadata (ApiKey 3)\<close>

record MetadataRequest =
  mreq_Topics :: "string list"

record BrokerMetadata =
  bm_NodeId :: i32
  bm_Host :: string
  bm_Port :: i32

record PartitionMetadata =
  pm_ErrorCode :: i16
  pm_PartitionId :: i32
  pm_LeaderId :: i32
  pm_Replicas :: "i32 list"
  pm_InSyncReplicas :: "i32 list"

record TopicMetadata =
  tm_ErrorCode :: i16
  tm_TopicName :: string
  tm_Partitions :: "PartitionMetadata list"

record MetadataResponse =
  mres_Brokers :: "BrokerMetadata list"
  mres_Topics :: "TopicMetadata list"

definition DecodeMetadataRequest :: "MetadataRequest reader" where
  "DecodeMetadataRequest =
     rd_bind (ReadArray ReadString) (\<lambda>topics. rd_return \<lparr>mreq_Topics = topics\<rparr>)"

definition EncodeBrokerMetadata :: "BrokerMetadata \<Rightarrow> bytes" where
  "EncodeBrokerMetadata b =
     WriteInt32 (bm_NodeId b) @ WriteString (bm_Host b) @ WriteInt32 (bm_Port b)"

definition EncodePartitionMetadata :: "PartitionMetadata \<Rightarrow> bytes" where
  "EncodePartitionMetadata p =
     WriteInt16 (pm_ErrorCode p) @ WriteInt32 (pm_PartitionId p) @ WriteInt32 (pm_LeaderId p) @
     WriteArray WriteInt32 (pm_Replicas p) @ WriteArray WriteInt32 (pm_InSyncReplicas p)"

definition EncodeTopicMetadata :: "TopicMetadata \<Rightarrow> bytes" where
  "EncodeTopicMetadata t =
     WriteInt16 (tm_ErrorCode t) @ WriteString (tm_TopicName t) @
     WriteArray EncodePartitionMetadata (tm_Partitions t)"

definition EncodeMetadataResponse :: "MetadataResponse \<Rightarrow> bytes" where
  "EncodeMetadataResponse resp =
     WriteArray EncodeBrokerMetadata (mres_Brokers resp) @
     WriteArray EncodeTopicMetadata (mres_Topics resp)"


section \<open>ApiVersions (ApiKey 18)\<close>

record ApiVersionKey =
  avk_ApiKey :: i16
  avk_MinVersion :: i16
  avk_MaxVersion :: i16

record ApiVersionResponse =
  avr_ErrorCode :: i16
  avr_ApiKeys :: "ApiVersionKey list"

definition apiVersion :: "i16 \<Rightarrow> i16 \<Rightarrow> i16 \<Rightarrow> ApiVersionKey" where
  "apiVersion k lo hi = \<lparr>avk_ApiKey = k, avk_MinVersion = lo, avk_MaxVersion = hi\<rparr>"

definition DefaultApiVersionResponse :: ApiVersionResponse where
  "DefaultApiVersionResponse =
     \<lparr>avr_ErrorCode = 0,
      avr_ApiKeys =
        [apiVersion ApiKeyProduce 0 8,
         apiVersion ApiKeyFetch 0 8,
         apiVersion ApiKeyMetadata 0 5,
         apiVersion ApiKeySaslHandshake 0 1,
         apiVersion ApiKeyApiVersions 0 3,
         apiVersion ApiKeyInitProducerId 0 3,
         apiVersion ApiKeyAddPartitionsToTxn 0 3,
         apiVersion ApiKeyEndTxn 0 3,
         apiVersion ApiKeySaslAuthenticate 0 1,
         apiVersion ApiKeyGroupCoordinator 0 0,
         apiVersion ApiKeyLeaveGroup 0 0]\<rparr>"

definition EncodeApiVersionKey :: "ApiVersionKey \<Rightarrow> bytes" where
  "EncodeApiVersionKey key =
     WriteInt16 (avk_ApiKey key) @ WriteInt16 (avk_MinVersion key) @
     WriteInt16 (avk_MaxVersion key)"

definition EncodeApiVersionResponse :: "ApiVersionResponse \<Rightarrow> bytes" where
  "EncodeApiVersionResponse resp =
     WriteInt16 (avr_ErrorCode resp) @ WriteArray EncodeApiVersionKey (avr_ApiKeys resp)"


section \<open>Round trips and framing\<close>

text \<open>Sizes a message must respect for its length fields to hold.\<close>

definition ppd_ok :: "PartitionProduceData \<Rightarrow> bool" where
  "ppd_ok p \<longleftrightarrow> small_bytes (ppd_RecordsData p)"

definition tpd_ok :: "TopicProduceData \<Rightarrow> bool" where
  "tpd_ok t \<longleftrightarrow> small_string (tpd_TopicName t) \<and> small_list (tpd_Partitions t) \<and>
     list_all ppd_ok (tpd_Partitions t)"

definition preq_ok :: "ProduceRequest \<Rightarrow> bool" where
  "preq_ok r \<longleftrightarrow> small_list (preq_Topics r) \<and> list_all tpd_ok (preq_Topics r)"

lemma framed_produce [framed_intros]:
  "framed DecodePartitionProduceData" "framed DecodeTopicProduceData" "framed DecodeProduceRequest"
  unfolding DecodePartitionProduceData_def DecodeTopicProduceData_def DecodeProduceRequest_def
  by (intro framed_intros)+

lemma EncodePartitionProduceData_WriteBytes:
  "EncodePartitionProduceData p = WriteInt32 (ppd_PartitionId p) @ WriteBytes (ppd_RecordsData p)"
  by (simp add: EncodePartitionProduceData_def WriteBytes_def)

interpretation ppd: framed_codec EncodePartitionProduceData DecodePartitionProduceData ppd_ok
  by unfold_locales
    (simp_all add: ppd_ok_def EncodePartitionProduceData_WriteBytes DecodePartitionProduceData_def
      codec_simps framed_intros)

interpretation tpd: framed_codec EncodeTopicProduceData DecodeTopicProduceData tpd_ok
  by unfold_locales
    (simp_all add: tpd_ok_def EncodeTopicProduceData_def DecodeTopicProduceData_def codec_simps
      ppd.array_enc framed_intros)

interpretation preq: framed_codec EncodeProduceRequest DecodeProduceRequest preq_ok
  by unfold_locales
    (simp_all add: preq_ok_def EncodeProduceRequest_def DecodeProduceRequest_def codec_simps
      tpd.array_enc framed_intros)

text \<open>The response as the command line client reads it: counts below \<open>2 ^ 31\<close> suffice.\<close>

context wire_codec
begin

lemma unbounded_array_enc:
  assumes "length xs < 2 ^ 31" and "list_all ok xs"
  shows "ReadUnboundedArray dec (WriteArray enc xs @ rest) = (Inr xs, rest)"
  using assms sint_of_nat32 [OF assms(1)]
  by (simp add: ReadUnboundedArray_def WriteArray_def codec_simps repeat_enc)

end

definition tpr_ok :: "TopicProduceResponse \<Rightarrow> bool" where
  "tpr_ok t \<longleftrightarrow> small_string (tpr_TopicName t) \<and> length (tpr_Partitions t) < 2 ^ 31"

definition pres_ok :: "ProduceResponse \<Rightarrow> bool" where
  "pres_ok r \<longleftrightarrow> length (pres_Topics r) < 2 ^ 31 \<and> list_all tpr_ok (pres_Topics r)"

lemma framed_ReadUnboundedArray [framed_intros]: "framed m \<Longrightarrow> framed (ReadUnboundedArray m)"
  unfolding ReadUnboundedArray_def by (intro framed_intros)

lemma framed_decodeProduceResponse [framed_intros]:
  "framed decodePartitionProduceResponse" "framed decodeTopicProduceResponse"
  "framed decodeProduceResponse"
  unfolding decodePartitionProduceResponse_def decodeTopicProduceResponse_def
    decodeProduceResponse_def
  by (intro framed_intros)+

interpretation ppr: framed_codec EncodePartitionProduceResponse decodePartitionProduceResponse any
  by unfold_locales
    (simp_all add: EncodePartitionProduceResponse_def decodePartitionProduceResponse_def codec_simps
      framed_intros)

interpretation tpr: framed_codec EncodeTopicProduceResponse decodeTopicProduceResponse tpr_ok
  by unfold_locales
    (simp_all add: tpr_ok_def EncodeTopicProduceResponse_def decodeTopicProduceResponse_def
      codec_simps ppr.unbounded_array_enc list_all_iff framed_intros)

interpretation pres: framed_codec EncodeProduceResponse decodeProduceResponse pres_ok
  by unfold_locales
    (simp_all add: pres_ok_def EncodeProduceResponse_def decodeProduceResponse_def codec_simps
      tpr.unbounded_array_enc framed_intros)

text \<open>Fetch: a reference writer of requests and a reference reader of responses.\<close>

definition client_PartitionFetchData :: "PartitionFetchData \<Rightarrow> bytes" where
  "client_PartitionFetchData p =
     WriteInt32 (pfd_PartitionId p) @ WriteInt64 (pfd_FetchOffset p) @ WriteInt32 (pfd_MaxBytes p)"

definition client_TopicFetchData :: "TopicFetchData \<Rightarrow> bytes" where
  "client_TopicFetchData t =
     WriteString (tfd_TopicName t) @ WriteArray client_PartitionFetchData (tfd_Partitions t)"

definition client_FetchRequest :: "FetchRequest \<Rightarrow> bytes" where
  "client_FetchRequest r =
     WriteInt32 (freq_ReplicaId r) @ WriteInt32 (freq_MaxWaitTime r) @
     WriteInt32 (freq_MinBytes r) @ WriteArray client_TopicFetchData (freq_Topics r)"

definition tfd_ok :: "TopicFetchData \<Rightarrow> bool" where
  "tfd_ok t \<longleftrightarrow> small_string (tfd_TopicName t) \<and> small_list (tfd_Partitions t)"

definition freq_ok :: "FetchRequest \<Rightarrow> bool" where
  "freq_ok r \<longleftrightarrow> small_list (freq_Topics r) \<and> list_all tfd_ok (freq_Topics r)"

lemma framed_fetch [framed_intros]:
  "framed DecodePartitionFetchData" "framed DecodeTopicFetchData" "framed DecodeFetchRequest"
  unfolding DecodePartitionFetchData_def DecodeTopicFetchData_def DecodeFetchRequest_def
  by (intro framed_intros)+

interpretation pfd: framed_codec client_PartitionFetchData DecodePartitionFetchData any
  by unfold_locales
    (simp_all add: client_PartitionFetchData_def DecodePartitionFetchData_def codec_simps
      framed_intros)

interpretation tfd: framed_codec client_TopicFetchData DecodeTopicFetchData tfd_ok
  by unfold_locales
    (simp_all add: tfd_ok_def client_TopicFetchData_def DecodeTopicFetchData_def codec_simps
      pfd.array_enc list_all_iff framed_intros)

interpretation freq: framed_codec client_FetchRequest DecodeFetchRequest freq_ok
  by unfold_locales
    (simp_all add: freq_ok_def client_FetchRequest_def DecodeFetchRequest_def codec_simps
      tfd.array_enc framed_intros)

definition client_PartitionFetchResponse :: "PartitionFetchResponse reader" where
  "client_PartitionFetchResponse =
     rd_bind ReadInt32 (\<lambda>p. rd_bind ReadInt16 (\<lambda>e. rd_bind ReadInt64 (\<lambda>hw. rd_bind ReadBytes (\<lambda>d.
     rd_return \<lparr>pfr_PartitionId = p, pfr_ErrorCode = e, pfr_HighWatermark = hw,
                pfr_RecordsData = d\<rparr>))))"

definition client_TopicFetchResponse :: "TopicFetchResponse reader" where
  "client_TopicFetchResponse =
     rd_bind ReadString (\<lambda>t. rd_bind (ReadArray client_PartitionFetchResponse) (\<lambda>ps.
     rd_return \<lparr>tfr_TopicName = t, tfr_Partitions = ps\<rparr>))"

definition client_FetchResponse :: "FetchResponse reader" where
  "client_FetchResponse =
     rd_bind (ReadArray client_TopicFetchResponse) (\<lambda>ts. rd_return \<lparr>fres_Topics = ts\<rparr>)"

definition pfr_ok :: "PartitionFetchResponse \<Rightarrow> bool" where
  "pfr_ok p \<longleftrightarrow> small_bytes (pfr_RecordsData p)"

definition tfr_ok :: "TopicFetchResponse \<Rightarrow> bool" where
  "tfr_ok t \<longleftrightarrow> small_string (tfr_TopicName t) \<and> small_list (tfr_Partitions t) \<and>
     list_all pfr_ok (tfr_Partitions t)"

definition fres_ok :: "FetchResponse \<Rightarrow> bool" where
  "fres_ok r \<longleftrightarrow> small_list (fres_Topics r) \<and> list_all tfr_ok (fres_Topics r)"

lemma EncodePartitionFetchResponse_WriteBytes:
  assumes "pfr_ok p"
  shows "EncodePartitionFetchResponse p =
    WriteInt32 (pfr_PartitionId p) @ WriteInt16 (pfr_ErrorCode p) @
    WriteInt64 (pfr_HighWatermark p) @ WriteBytes (pfr_RecordsData p)"
  using assms sint_of_nat32 [of "length (pfr_RecordsData p)"]
  by (auto simp: pfr_ok_def small_bytes_def maxProtocolFieldBytes_def Let_def
      EncodePartitionFetchResponse_def WriteBytes_def)

lemma framed_client_fetch [framed_intros]:
  "framed client_PartitionFetchResponse" "framed client_TopicFetchResponse"
  "framed client_FetchResponse"
  unfolding client_PartitionFetchResponse_def client_TopicFetchResponse_def client_FetchResponse_def
  by (intro framed_intros)+

interpretation pfr: framed_codec EncodePartitionFetchResponse client_PartitionFetchResponse pfr_ok
proof unfold_locales
  show "client_PartitionFetchResponse (EncodePartitionFetchResponse x @ rest) = (Inr x, rest)"
    if "pfr_ok x" for x rest
    using that by (simp add: EncodePartitionFetchResponse_WriteBytes)
      (simp add: client_PartitionFetchResponse_def codec_simps pfr_ok_def)
qed (rule framed_intros)

interpretation tfr: framed_codec EncodeTopicFetchResponse client_TopicFetchResponse tfr_ok
  by unfold_locales
    (simp_all add: tfr_ok_def EncodeTopicFetchResponse_def client_TopicFetchResponse_def codec_simps
      pfr.array_enc framed_intros)

interpretation fres: framed_codec EncodeFetchResponse client_FetchResponse fres_ok
  by unfold_locales
    (simp_all add: fres_ok_def EncodeFetchResponse_def client_FetchResponse_def codec_simps
      tfr.array_enc framed_intros)

text \<open>Metadata.\<close>

definition client_MetadataRequest :: "MetadataRequest \<Rightarrow> bytes" where
  "client_MetadataRequest r = WriteArray WriteString (mreq_Topics r)"

definition mreq_ok :: "MetadataRequest \<Rightarrow> bool" where
  "mreq_ok r \<longleftrightarrow> small_list (mreq_Topics r) \<and> list_all small_string (mreq_Topics r)"

lemma framed_metadata [framed_intros]: "framed DecodeMetadataRequest"
  unfolding DecodeMetadataRequest_def by (intro framed_intros)

interpretation mreq: framed_codec client_MetadataRequest DecodeMetadataRequest mreq_ok
  by unfold_locales
    (simp_all add: mreq_ok_def client_MetadataRequest_def DecodeMetadataRequest_def codec_simps
      str.array_enc framed_intros)

definition client_BrokerMetadata :: "BrokerMetadata reader" where
  "client_BrokerMetadata =
     rd_bind ReadInt32 (\<lambda>n. rd_bind ReadString (\<lambda>h. rd_bind ReadInt32 (\<lambda>p.
     rd_return \<lparr>bm_NodeId = n, bm_Host = h, bm_Port = p\<rparr>)))"

definition client_PartitionMetadata :: "PartitionMetadata reader" where
  "client_PartitionMetadata =
     rd_bind ReadInt16 (\<lambda>e. rd_bind ReadInt32 (\<lambda>p. rd_bind ReadInt32 (\<lambda>l.
     rd_bind (ReadArray ReadInt32) (\<lambda>rs. rd_bind (ReadArray ReadInt32) (\<lambda>isr.
     rd_return \<lparr>pm_ErrorCode = e, pm_PartitionId = p, pm_LeaderId = l, pm_Replicas = rs,
                pm_InSyncReplicas = isr\<rparr>)))))"

definition client_TopicMetadata :: "TopicMetadata reader" where
  "client_TopicMetadata =
     rd_bind ReadInt16 (\<lambda>e. rd_bind ReadString (\<lambda>t.
     rd_bind (ReadArray client_PartitionMetadata) (\<lambda>ps.
     rd_return \<lparr>tm_ErrorCode = e, tm_TopicName = t, tm_Partitions = ps\<rparr>)))"

definition client_MetadataResponse :: "MetadataResponse reader" where
  "client_MetadataResponse =
     rd_bind (ReadArray client_BrokerMetadata) (\<lambda>bs.
     rd_bind (ReadArray client_TopicMetadata) (\<lambda>ts.
     rd_return \<lparr>mres_Brokers = bs, mres_Topics = ts\<rparr>))"

definition bm_ok :: "BrokerMetadata \<Rightarrow> bool" where
  "bm_ok b \<longleftrightarrow> small_string (bm_Host b)"

definition pm_ok :: "PartitionMetadata \<Rightarrow> bool" where
  "pm_ok p \<longleftrightarrow> small_list (pm_Replicas p) \<and> small_list (pm_InSyncReplicas p)"

definition tm_ok :: "TopicMetadata \<Rightarrow> bool" where
  "tm_ok t \<longleftrightarrow> small_string (tm_TopicName t) \<and> small_list (tm_Partitions t) \<and>
     list_all pm_ok (tm_Partitions t)"

definition mres_ok :: "MetadataResponse \<Rightarrow> bool" where
  "mres_ok r \<longleftrightarrow> small_list (mres_Brokers r) \<and> list_all bm_ok (mres_Brokers r) \<and>
     small_list (mres_Topics r) \<and> list_all tm_ok (mres_Topics r)"

lemma framed_client_metadata [framed_intros]:
  "framed client_BrokerMetadata" "framed client_PartitionMetadata" "framed client_TopicMetadata"
  "framed client_MetadataResponse"
  unfolding client_BrokerMetadata_def client_PartitionMetadata_def client_TopicMetadata_def
    client_MetadataResponse_def
  by (intro framed_intros)+

interpretation bm: framed_codec EncodeBrokerMetadata client_BrokerMetadata bm_ok
  by unfold_locales
    (simp_all add: bm_ok_def EncodeBrokerMetadata_def client_BrokerMetadata_def codec_simps
      framed_intros)

interpretation pm: framed_codec EncodePartitionMetadata client_PartitionMetadata pm_ok
  by unfold_locales
    (simp_all add: pm_ok_def EncodePartitionMetadata_def client_PartitionMetadata_def codec_simps
      int32.array_enc list_all_iff framed_intros)

interpretation tm: framed_codec EncodeTopicMetadata client_TopicMetadata tm_ok
  by unfold_locales
    (simp_all add: tm_ok_def EncodeTopicMetadata_def client_TopicMetadata_def codec_simps
      pm.array_enc framed_intros)

interpretation mres: framed_codec EncodeMetadataResponse client_MetadataResponse mres_ok
  by unfold_locales
    (simp_all add: mres_ok_def EncodeMetadataResponse_def client_MetadataResponse_def codec_simps
      bm.array_enc tm.array_enc framed_intros)

text \<open>ApiVersions.\<close>

definition client_ApiVersionKey :: "ApiVersionKey reader" where
  "client_ApiVersionKey =
     rd_bind ReadInt16 (\<lambda>k. rd_bind ReadInt16 (\<lambda>lo. rd_bind ReadInt16 (\<lambda>hi.
     rd_return (apiVersion k lo hi))))"

definition client_ApiVersionResponse :: "ApiVersionResponse reader" where
  "client_ApiVersionResponse =
     rd_bind ReadInt16 (\<lambda>e. rd_bind (ReadArray client_ApiVersionKey) (\<lambda>ks.
     rd_return \<lparr>avr_ErrorCode = e, avr_ApiKeys = ks\<rparr>))"

definition avr_ok :: "ApiVersionResponse \<Rightarrow> bool" where
  "avr_ok r \<longleftrightarrow> small_list (avr_ApiKeys r)"

lemma framed_client_api_versions [framed_intros]:
  "framed client_ApiVersionKey" "framed client_ApiVersionResponse"
  unfolding client_ApiVersionKey_def client_ApiVersionResponse_def
  by (intro framed_intros)+

interpretation avk: framed_codec EncodeApiVersionKey client_ApiVersionKey any
  by unfold_locales
    (simp_all add: EncodeApiVersionKey_def client_ApiVersionKey_def codec_simps apiVersion_def
      framed_intros)

interpretation avr: framed_codec EncodeApiVersionResponse client_ApiVersionResponse avr_ok
  by unfold_locales
    (simp_all add: avr_ok_def EncodeApiVersionResponse_def client_ApiVersionResponse_def codec_simps
      avk.array_enc list_all_iff framed_intros)

end
