(* ===== verification/Messages_Group.thy ===== *)
theory Messages_Group
  imports Wire
begin

text \<open>
  \<open>src/internal/protocol/group.go\<close>, \<open>offset.go\<close>, \<open>transaction.go\<close> and
  \<open>sasl.go\<close>: the messages of consumer groups, committed offsets, transactions and SASL,
  with the decoder of each request and the encoder of each response. As in the theory of
  the data messages, \<open>client_\<dots>\<close> names the reference half a client of the protocol has.
\<close>

section \<open>JoinGroup (ApiKey 11)\<close>

record GroupProtocol =
  gp_Name :: string
  gp_Metadata :: bytes

record JoinGroupRequest =
  jreq_GroupId :: string
  jreq_SessionTimeoutMs :: i32
  jreq_RebalanceTimeoutMs :: i32
  jreq_MemberId :: string
  jreq_ProtocolType :: string
  jreq_Protocols :: "GroupProtocol list"

record JoinGroupResponseMember =
  jm_MemberId :: string
  jm_Metadata :: bytes

record JoinGroupResponse =
  jres_ErrorCode :: i16
  jres_GenerationId :: i32
  jres_ProtocolName :: string
  jres_LeaderId :: string
  jres_MemberId :: string
  jres_Members :: "JoinGroupResponseMember list"

definition DecodeGroupProtocol :: "GroupProtocol reader" where
  "DecodeGroupProtocol =
     rd_bind ReadString (\<lambda>name.
     rd_bind ReadBytes (\<lambda>meta.
     rd_return \<lparr>gp_Name = name, gp_Metadata = meta\<rparr>))"

definition DecodeJoinGroupRequest :: "JoinGroupRequest reader" where
  "DecodeJoinGroupRequest =
     rd_bind ReadString (\<lambda>groupId.
     rd_bind ReadInt32 (\<lambda>sessionTimeoutMs.
     rd_bind ReadInt32 (\<lambda>rebalanceTimeoutMs.
     rd_bind ReadString (\<lambda>memberId.
     rd_bind ReadString (\<lambda>protocolType.
     rd_bind (ReadMadeArray DecodeGroupProtocol) (\<lambda>protocols.
     rd_return \<lparr>jreq_GroupId = groupId, jreq_SessionTimeoutMs = sessionTimeoutMs,
                jreq_RebalanceTimeoutMs = rebalanceTimeoutMs, jreq_MemberId = memberId,
                jreq_ProtocolType = protocolType, jreq_Protocols = protocols\<rparr>))))))"

definition EncodeJoinGroupResponseMember :: "JoinGroupResponseMember \<Rightarrow> bytes" where
  "EncodeJoinGroupResponseMember m = WriteString (jm_MemberId m) @ WriteBytes (jm_Metadata m)"

definition EncodeJoinGroupResponse :: "JoinGroupResponse \<Rightarrow> bytes" where
  "EncodeJoinGroupResponse res =
     WriteInt16 (jres_ErrorCode res) @ WriteInt32 (jres_GenerationId res) @
     WriteString (jres_ProtocolName res) @ WriteString (jres_LeaderId res) @
     WriteString (jres_MemberId res) @ WriteArray EncodeJoinGroupResponseMember (jres_Members res)"


section \<open>SyncGroup (ApiKey 14)\<close>

record GroupAssignment =
  ga_MemberId :: string
  ga_Assignment :: bytes

record SyncGroupRequest =
  sreq_GroupId :: string
  sreq_GenerationId :: i32
  sreq_MemberId :: string
  sreq_GroupAssignments :: "GroupAssignment list"

record SyncGroupResponse =
  sres_ErrorCode :: i16
  sres_Assignment :: bytes

definition DecodeGroupAssignment :: "GroupAssignment reader" where
  "DecodeGroupAssignment =
     rd_bind ReadString (\<lambda>mId.
     rd_bind ReadBytes (\<lambda>assignBytes.
     rd_return \<lparr>ga_MemberId = mId, ga_Assignment = assignBytes\<rparr>))"

definition DecodeSyncGroupRequest :: "SyncGroupRequest reader" where
  "DecodeSyncGroupRequest =
     rd_bind ReadString (\<lambda>groupId.
     rd_bind ReadInt32 (\<lambda>generationId.
     rd_bind ReadString (\<lambda>memberId.
     rd_bind (ReadMadeArray DecodeGroupAssignment) (\<lambda>assignments.
     rd_return \<lparr>sreq_GroupId = groupId, sreq_GenerationId = generationId,
                sreq_MemberId = memberId, sreq_GroupAssignments = assignments\<rparr>))))"

definition EncodeSyncGroupResponse :: "SyncGroupResponse \<Rightarrow> bytes" where
  "EncodeSyncGroupResponse res =
     WriteInt16 (sres_ErrorCode res) @ WriteBytes (sres_Assignment res)"


section \<open>Heartbeat (ApiKey 12), FindCoordinator (ApiKey 10), LeaveGroup (ApiKey 13)\<close>

record HeartbeatRequest =
  hreq_GroupId :: string
  hreq_GenerationId :: i32
  hreq_MemberId :: string

record HeartbeatResponse =
  hres_ErrorCode :: i16

definition DecodeHeartbeatRequest :: "HeartbeatRequest reader" where
  "DecodeHeartbeatRequest =
     rd_bind ReadString (\<lambda>groupId.
     rd_bind ReadInt32 (\<lambda>generationId.
     rd_bind ReadString (\<lambda>memberId.
     rd_return \<lparr>hreq_GroupId = groupId, hreq_GenerationId = generationId,
                hreq_MemberId = memberId\<rparr>)))"

definition EncodeHeartbeatResponse :: "HeartbeatResponse \<Rightarrow> bytes" where
  "EncodeHeartbeatResponse res = WriteInt16 (hres_ErrorCode res)"

record FindCoordinatorRequest =
  fcreq_Key :: string

record FindCoordinatorResponse =
  fcres_ErrorCode :: i16
  fcres_NodeId :: i32
  fcres_Host :: string
  fcres_Port :: i32

definition DecodeFindCoordinatorRequest :: "FindCoordinatorRequest reader" where
  "DecodeFindCoordinatorRequest = rd_bind ReadString (\<lambda>key. rd_return \<lparr>fcreq_Key = key\<rparr>)"

definition EncodeFindCoordinatorResponse :: "FindCoordinatorResponse \<Rightarrow> bytes" where
  "EncodeFindCoordinatorResponse res =
     WriteInt16 (fcres_ErrorCode res) @ WriteInt32 (fcres_NodeId res) @
     WriteString (fcres_Host res) @ WriteInt32 (fcres_Port res)"

record LeaveGroupRequest =
  lreq_GroupId :: string
  lreq_MemberId :: string

record LeaveGroupResponse =
  lres_ErrorCode :: i16

definition DecodeLeaveGroupRequest :: "LeaveGroupRequest reader" where
  "DecodeLeaveGroupRequest =
     rd_bind ReadString (\<lambda>groupId.
     rd_bind ReadString (\<lambda>memberId.
     rd_return \<lparr>lreq_GroupId = groupId, lreq_MemberId = memberId\<rparr>))"

definition EncodeLeaveGroupResponse :: "LeaveGroupResponse \<Rightarrow> bytes" where
  "EncodeLeaveGroupResponse res = WriteInt16 (lres_ErrorCode res)"


section \<open>OffsetCommit (ApiKey 8) and OffsetFetch (ApiKey 9)\<close>

record OffsetCommitPartition =
  ocp_PartitionIndex :: i32
  ocp_CommittedOffset :: i64
  ocp_Metadata :: string

record OffsetCommitTopic =
  oct_TopicName :: string
  oct_Partitions :: "OffsetCommitPartition list"

record OffsetCommitRequest =
  ocreq_GroupId :: string
  ocreq_GenerationId :: i32
  ocreq_MemberId :: string
  ocreq_RetentionTime :: i64
  ocreq_Topics :: "OffsetCommitTopic list"

record OffsetCommitResponsePartition =
  ocrp_PartitionIndex :: i32
  ocrp_ErrorCode :: i16

record OffsetCommitResponseTopic =
  ocrt_TopicName :: string
  ocrt_Partitions :: "OffsetCommitResponsePartition list"

record OffsetCommitResponse =
  ocres_Topics :: "OffsetCommitResponseTopic list"

definition DecodeOffsetCommitPartition :: "OffsetCommitPartition reader" where
  "DecodeOffsetCommitPartition =
     rd_bind ReadInt32 (\<lambda>pIdx.
     rd_bind ReadInt64 (\<lambda>offset.
     rd_bind ReadString (\<lambda>meta.
     rd_return \<lparr>ocp_PartitionIndex = pIdx, ocp_CommittedOffset = offset, ocp_Metadata = meta\<rparr>)))"

definition DecodeOffsetCommitTopic :: "OffsetCommitTopic reader" where
  "DecodeOffsetCommitTopic =
     rd_bind ReadString (\<lambda>topicName.
     rd_bind (ReadMadeArray DecodeOffsetCommitPartition) (\<lambda>partitions.
     rd_return \<lparr>oct_TopicName = topicName, oct_Partitions = partitions\<rparr>))"

definition DecodeOffsetCommitRequest :: "OffsetCommitRequest reader" where
  "DecodeOffsetCommitRequest =
     rd_bind ReadString (\<lambda>groupId.
     rd_bind ReadInt32 (\<lambda>generationId.
     rd_bind ReadString (\<lambda>memberId.
     rd_bind ReadInt64 (\<lambda>retentionTime.
     rd_bind (ReadMadeArray DecodeOffsetCommitTopic) (\<lambda>topics.
     rd_return \<lparr>ocreq_GroupId = groupId, ocreq_GenerationId = generationId,
                ocreq_MemberId = memberId, ocreq_RetentionTime = retentionTime,
                ocreq_Topics = topics\<rparr>)))))"

definition EncodeOffsetCommitResponsePartition :: "OffsetCommitResponsePartition \<Rightarrow> bytes" where
  "EncodeOffsetCommitResponsePartition p =
     WriteInt32 (ocrp_PartitionIndex p) @ WriteInt16 (ocrp_ErrorCode p)"

definition EncodeOffsetCommitResponseTopic :: "OffsetCommitResponseTopic \<Rightarrow> bytes" where
  "EncodeOffsetCommitResponseTopic t =
     WriteString (ocrt_TopicName t) @
     WriteArray EncodeOffsetCommitResponsePartition (ocrt_Partitions t)"

definition EncodeOffsetCommitResponse :: "OffsetCommitResponse \<Rightarrow> bytes" where
  "EncodeOffsetCommitResponse res = WriteArray EncodeOffsetCommitResponseTopic (ocres_Topics res)"

record OffsetFetchTopic =
  oft_TopicName :: string
  oft_PartitionIndexes :: "i32 list"

record OffsetFetchRequest =
  ofreq_GroupId :: string
  ofreq_Topics :: "OffsetFetchTopic list"

record OffsetFetchResponsePartition =
  ofrp_PartitionIndex :: i32
  ofrp_CommittedOffset :: i64
  ofrp_Metadata :: string
  ofrp_ErrorCode :: i16

record OffsetFetchResponseTopic =
  ofrt_TopicName :: string
  ofrt_Partitions :: "OffsetFetchResponsePartition list"

record OffsetFetchResponse =
  ofres_ErrorCode :: i16
  ofres_Topics :: "OffsetFetchResponseTopic list"

definition DecodeOffsetFetchTopic :: "OffsetFetchTopic reader" where
  "DecodeOffsetFetchTopic =
     rd_bind ReadString (\<lambda>topicName.
     rd_bind (ReadMadeArray ReadInt32) (\<lambda>partitions.
     rd_return \<lparr>oft_TopicName = topicName, oft_PartitionIndexes = partitions\<rparr>))"

definition DecodeOffsetFetchRequest :: "OffsetFetchRequest reader" where
  "DecodeOffsetFetchRequest =
     rd_bind ReadString (\<lambda>groupId.
     rd_bind (ReadMadeArray DecodeOffsetFetchTopic) (\<lambda>topics.
     rd_return \<lparr>ofreq_GroupId = groupId, ofreq_Topics = topics\<rparr>))"

definition EncodeOffsetFetchResponsePartition :: "OffsetFetchResponsePartition \<Rightarrow> bytes" where
  "EncodeOffsetFetchResponsePartition p =
     WriteInt32 (ofrp_PartitionIndex p) @ WriteInt64 (ofrp_CommittedOffset p) @
     WriteString (ofrp_Metadata p) @ WriteInt16 (ofrp_ErrorCode p)"

definition EncodeOffsetFetchResponseTopic :: "OffsetFetchResponseTopic \<Rightarrow> bytes" where
  "EncodeOffsetFetchResponseTopic t =
     WriteString (ofrt_TopicName t) @
     WriteArray EncodeOffsetFetchResponsePartition (ofrt_Partitions t)"

definition EncodeOffsetFetchResponse :: "OffsetFetchResponse \<Rightarrow> bytes" where
  "EncodeOffsetFetchResponse res =
     WriteInt16 (ofres_ErrorCode res) @ WriteArray EncodeOffsetFetchResponseTopic (ofres_Topics res)"


section \<open>Transactions (ApiKeys 22, 24, 26)\<close>

record InitProducerIdRequest =
  ireq_TransactionalId :: "string option"
  ireq_TransactionTimeoutMs :: i32

record InitProducerIdResponse =
  ires_ErrorCode :: i16
  ires_ProducerId :: i64
  ires_ProducerEpoch :: i16

definition DecodeInitProducerIdRequest :: "InitProducerIdRequest reader" where
  "DecodeInitProducerIdRequest =
     rd_bind ReadNullableString (\<lambda>txId.
     rd_bind ReadInt32 (\<lambda>timeout.
     rd_return \<lparr>ireq_TransactionalId = txId, ireq_TransactionTimeoutMs = timeout\<rparr>))"

definition EncodeInitProducerIdResponse :: "InitProducerIdResponse \<Rightarrow> bytes" where
  "EncodeInitProducerIdResponse resp =
     WriteInt16 (ires_ErrorCode resp) @ WriteInt64 (ires_ProducerId resp) @
     WriteInt16 (ires_ProducerEpoch resp)"

record AddPartitionsToTxnTopic =
  apt_TopicName :: string
  apt_Partitions :: "i32 list"

record AddPartitionsToTxnRequest =
  apreq_TransactionalId :: string
  apreq_ProducerId :: i64
  apreq_ProducerEpoch :: i16
  apreq_Topics :: "AddPartitionsToTxnTopic list"

record AddPartitionsToTxnResult =
  apr_PartitionId :: i32
  apr_ErrorCode :: i16

record AddPartitionsToTxnTopicResult =
  aptr_TopicName :: string
  aptr_Partitions :: "AddPartitionsToTxnResult list"

record AddPartitionsToTxnResponse =
  apres_Results :: "AddPartitionsToTxnTopicResult list"

definition DecodeAddPartitionsToTxnTopic :: "AddPartitionsToTxnTopic reader" where
  "DecodeAddPartitionsToTxnTopic =
     rd_bind ReadString (\<lambda>tName.
     rd_bind (ReadMadeArray ReadInt32) (\<lambda>parts.
     rd_return \<lparr>apt_TopicName = tName, apt_Partitions = parts\<rparr>))"

definition DecodeAddPartitionsToTxnRequest :: "AddPartitionsToTxnRequest reader" where
  "DecodeAddPartitionsToTxnRequest =
     rd_bind ReadString (\<lambda>txId.
     rd_bind ReadInt64 (\<lambda>pid.
     rd_bind ReadInt16 (\<lambda>epoch.
     rd_bind (ReadMadeArray DecodeAddPartitionsToTxnTopic) (\<lambda>topics.
     rd_return \<lparr>apreq_TransactionalId = txId, apreq_ProducerId = pid, apreq_ProducerEpoch = epoch,
                apreq_Topics = topics\<rparr>))))"

definition EncodeAddPartitionsToTxnResult :: "AddPartitionsToTxnResult \<Rightarrow> bytes" where
  "EncodeAddPartitionsToTxnResult p = WriteInt32 (apr_PartitionId p) @ WriteInt16 (apr_ErrorCode p)"

definition EncodeAddPartitionsToTxnTopicResult :: "AddPartitionsToTxnTopicResult \<Rightarrow> bytes" where
  "EncodeAddPartitionsToTxnTopicResult t =
     WriteString (aptr_TopicName t) @ WriteArray EncodeAddPartitionsToTxnResult (aptr_Partitions t)"

definition EncodeAddPartitionsToTxnResponse :: "AddPartitionsToTxnResponse \<Rightarrow> bytes" where
  "EncodeAddPartitionsToTxnResponse resp =
     WriteArray EncodeAddPartitionsToTxnTopicResult (apres_Results resp)"

record EndTxnRequest =
  ereq_TransactionalId :: string
  ereq_ProducerId :: i64
  ereq_ProducerEpoch :: i16
  ereq_Committed :: bool

record EndTxnResponse =
  eres_ErrorCode :: i16

definition DecodeEndTxnRequest :: "EndTxnRequest reader" where
  "DecodeEndTxnRequest =
     rd_bind ReadString (\<lambda>txId.
     rd_bind ReadInt64 (\<lambda>pid.
     rd_bind ReadInt16 (\<lambda>epoch.
     rd_bind ReadInt8 (\<lambda>committedByte.
     rd_return \<lparr>ereq_TransactionalId = txId, ereq_ProducerId = pid, ereq_ProducerEpoch = epoch,
                ereq_Committed = (committedByte \<noteq> 0)\<rparr>))))"

definition EncodeEndTxnResponse :: "EndTxnResponse \<Rightarrow> bytes" where
  "EncodeEndTxnResponse resp = WriteInt16 (eres_ErrorCode resp)"


section \<open>SASL (ApiKeys 17, 36)\<close>

record SaslHandshakeRequest =
  shreq_Mechanism :: string

record SaslHandshakeResponse =
  shres_ErrorCode :: i16
  shres_EnabledMechanisms :: "string list"

definition DecodeSaslHandshakeRequest :: "SaslHandshakeRequest reader" where
  "DecodeSaslHandshakeRequest = rd_bind ReadString (\<lambda>mech. rd_return \<lparr>shreq_Mechanism = mech\<rparr>)"

definition EncodeSaslHandshakeResponse :: "SaslHandshakeResponse \<Rightarrow> bytes" where
  "EncodeSaslHandshakeResponse resp =
     WriteInt16 (shres_ErrorCode resp) @ WriteArray WriteString (shres_EnabledMechanisms resp)"

record SaslAuthenticateRequest =
  sareq_AuthData :: bytes

record SaslAuthenticateResponse =
  sares_ErrorCode :: i16
  sares_ErrorMessage :: "string option"
  sares_AuthData :: bytes

definition DecodeSaslAuthenticateRequest :: "SaslAuthenticateRequest reader" where
  "DecodeSaslAuthenticateRequest = rd_bind ReadBytes (\<lambda>data. rd_return \<lparr>sareq_AuthData = data\<rparr>)"

definition EncodeSaslAuthenticateResponse :: "SaslAuthenticateResponse \<Rightarrow> bytes" where
  "EncodeSaslAuthenticateResponse resp =
     WriteInt16 (sares_ErrorCode resp) @ WriteNullableString (sares_ErrorMessage resp) @
     WriteBytes (sares_AuthData resp)"


section \<open>Framing of the request decoders\<close>

lemma framed_group_elements [framed_intros]:
  "framed DecodeGroupProtocol" "framed DecodeGroupAssignment" "framed DecodeOffsetCommitPartition"
  "framed DecodeOffsetCommitTopic" "framed DecodeOffsetFetchTopic"
  "framed DecodeAddPartitionsToTxnTopic"
  unfolding DecodeGroupProtocol_def DecodeGroupAssignment_def DecodeOffsetCommitPartition_def
    DecodeOffsetCommitTopic_def DecodeOffsetFetchTopic_def DecodeAddPartitionsToTxnTopic_def
  by (intro framed_intros)+

lemma framed_group_requests [framed_intros]:
  "framed DecodeJoinGroupRequest" "framed DecodeSyncGroupRequest" "framed DecodeHeartbeatRequest"
  "framed DecodeFindCoordinatorRequest" "framed DecodeLeaveGroupRequest"
  "framed DecodeOffsetCommitRequest" "framed DecodeOffsetFetchRequest"
  unfolding DecodeJoinGroupRequest_def DecodeSyncGroupRequest_def DecodeHeartbeatRequest_def
    DecodeFindCoordinatorRequest_def DecodeLeaveGroupRequest_def DecodeOffsetCommitRequest_def
    DecodeOffsetFetchRequest_def
  by (intro framed_intros)+

lemma framed_txn_sasl_requests [framed_intros]:
  "framed DecodeInitProducerIdRequest" "framed DecodeAddPartitionsToTxnRequest"
  "framed DecodeEndTxnRequest" "framed DecodeSaslHandshakeRequest"
  "framed DecodeSaslAuthenticateRequest"
  unfolding DecodeInitProducerIdRequest_def DecodeAddPartitionsToTxnRequest_def
    DecodeEndTxnRequest_def DecodeSaslHandshakeRequest_def DecodeSaslAuthenticateRequest_def
  by (intro framed_intros)+


section \<open>Round trips of the requests\<close>

definition client_GroupProtocol :: "GroupProtocol \<Rightarrow> bytes" where
  "client_GroupProtocol r =
     WriteString (gp_Name r) @ WriteBytes (gp_Metadata r)"

definition gp_ok :: "GroupProtocol \<Rightarrow> bool" where
  "gp_ok r \<longleftrightarrow>
     small_string (gp_Name r) \<and> small_bytes (gp_Metadata r)"

interpretation gp: framed_codec client_GroupProtocol DecodeGroupProtocol gp_ok
  by unfold_locales
    (simp_all add: gp_ok_def client_GroupProtocol_def DecodeGroupProtocol_def codec_simps
      framed_intros)

definition client_JoinGroupRequest :: "JoinGroupRequest \<Rightarrow> bytes" where
  "client_JoinGroupRequest r =
     WriteString (jreq_GroupId r) @ WriteInt32 (jreq_SessionTimeoutMs r) @
     WriteInt32 (jreq_RebalanceTimeoutMs r) @ WriteString (jreq_MemberId r) @
     WriteString (jreq_ProtocolType r) @ WriteArray client_GroupProtocol (jreq_Protocols r)"

definition jreq_ok :: "JoinGroupRequest \<Rightarrow> bool" where
  "jreq_ok r \<longleftrightarrow>
     small_string (jreq_GroupId r) \<and> small_string (jreq_MemberId r) \<and>
     small_string (jreq_ProtocolType r) \<and> small_list (jreq_Protocols r) \<and>
     list_all gp_ok (jreq_Protocols r)"

interpretation jreq: framed_codec client_JoinGroupRequest DecodeJoinGroupRequest jreq_ok
  by unfold_locales
    (simp_all add: jreq_ok_def client_JoinGroupRequest_def DecodeJoinGroupRequest_def codec_simps
      gp.array_enc
      framed_intros)

definition client_GroupAssignment :: "GroupAssignment \<Rightarrow> bytes" where
  "client_GroupAssignment r =
     WriteString (ga_MemberId r) @ WriteBytes (ga_Assignment r)"

definition ga_ok :: "GroupAssignment \<Rightarrow> bool" where
  "ga_ok r \<longleftrightarrow>
     small_string (ga_MemberId r) \<and> small_bytes (ga_Assignment r)"

interpretation ga: framed_codec client_GroupAssignment DecodeGroupAssignment ga_ok
  by unfold_locales
    (simp_all add: ga_ok_def client_GroupAssignment_def DecodeGroupAssignment_def codec_simps
      framed_intros)

definition client_SyncGroupRequest :: "SyncGroupRequest \<Rightarrow> bytes" where
  "client_SyncGroupRequest r =
     WriteString (sreq_GroupId r) @ WriteInt32 (sreq_GenerationId r) @
     WriteString (sreq_MemberId r) @ WriteArray client_GroupAssignment (sreq_GroupAssignments r)"

definition sreq_ok :: "SyncGroupRequest \<Rightarrow> bool" where
  "sreq_ok r \<longleftrightarrow>
     small_string (sreq_GroupId r) \<and> small_string (sreq_MemberId r) \<and>
     small_list (sreq_GroupAssignments r) \<and> list_all ga_ok (sreq_GroupAssignments r)"

interpretation sreq: framed_codec client_SyncGroupRequest DecodeSyncGroupRequest sreq_ok
  by unfold_locales
    (simp_all add: sreq_ok_def client_SyncGroupRequest_def DecodeSyncGroupRequest_def codec_simps
      ga.array_enc
      framed_intros)

definition client_HeartbeatRequest :: "HeartbeatRequest \<Rightarrow> bytes" where
  "client_HeartbeatRequest r =
     WriteString (hreq_GroupId r) @ WriteInt32 (hreq_GenerationId r) @
     WriteString (hreq_MemberId r)"

definition hreq_ok :: "HeartbeatRequest \<Rightarrow> bool" where
  "hreq_ok r \<longleftrightarrow>
     small_string (hreq_GroupId r) \<and> small_string (hreq_MemberId r)"

interpretation hreq: framed_codec client_HeartbeatRequest DecodeHeartbeatRequest hreq_ok
  by unfold_locales
    (simp_all add: hreq_ok_def client_HeartbeatRequest_def DecodeHeartbeatRequest_def codec_simps
      framed_intros)

definition client_FindCoordinatorRequest :: "FindCoordinatorRequest \<Rightarrow> bytes" where
  "client_FindCoordinatorRequest r =
     WriteString (fcreq_Key r)"

definition fcreq_ok :: "FindCoordinatorRequest \<Rightarrow> bool" where
  "fcreq_ok r \<longleftrightarrow>
     small_string (fcreq_Key r)"

interpretation fcreq: framed_codec client_FindCoordinatorRequest DecodeFindCoordinatorRequest fcreq_ok
  by unfold_locales
    (simp_all add: fcreq_ok_def client_FindCoordinatorRequest_def DecodeFindCoordinatorRequest_def codec_simps
      framed_intros)

definition client_LeaveGroupRequest :: "LeaveGroupRequest \<Rightarrow> bytes" where
  "client_LeaveGroupRequest r =
     WriteString (lreq_GroupId r) @ WriteString (lreq_MemberId r)"

definition lreq_ok :: "LeaveGroupRequest \<Rightarrow> bool" where
  "lreq_ok r \<longleftrightarrow>
     small_string (lreq_GroupId r) \<and> small_string (lreq_MemberId r)"

interpretation lreq: framed_codec client_LeaveGroupRequest DecodeLeaveGroupRequest lreq_ok
  by unfold_locales
    (simp_all add: lreq_ok_def client_LeaveGroupRequest_def DecodeLeaveGroupRequest_def codec_simps
      framed_intros)

definition client_OffsetCommitPartition :: "OffsetCommitPartition \<Rightarrow> bytes" where
  "client_OffsetCommitPartition r =
     WriteInt32 (ocp_PartitionIndex r) @ WriteInt64 (ocp_CommittedOffset r) @
     WriteString (ocp_Metadata r)"

definition ocp_ok :: "OffsetCommitPartition \<Rightarrow> bool" where
  "ocp_ok r \<longleftrightarrow>
     small_string (ocp_Metadata r)"

interpretation ocp: framed_codec client_OffsetCommitPartition DecodeOffsetCommitPartition ocp_ok
  by unfold_locales
    (simp_all add: ocp_ok_def client_OffsetCommitPartition_def DecodeOffsetCommitPartition_def codec_simps
      framed_intros)

definition client_OffsetCommitTopic :: "OffsetCommitTopic \<Rightarrow> bytes" where
  "client_OffsetCommitTopic r =
     WriteString (oct_TopicName r) @ WriteArray client_OffsetCommitPartition (oct_Partitions r)"

definition oct_ok :: "OffsetCommitTopic \<Rightarrow> bool" where
  "oct_ok r \<longleftrightarrow>
     small_string (oct_TopicName r) \<and> small_list (oct_Partitions r) \<and>
     list_all ocp_ok (oct_Partitions r)"

interpretation oct: framed_codec client_OffsetCommitTopic DecodeOffsetCommitTopic oct_ok
  by unfold_locales
    (simp_all add: oct_ok_def client_OffsetCommitTopic_def DecodeOffsetCommitTopic_def codec_simps
      ocp.array_enc
      framed_intros)

definition client_OffsetCommitRequest :: "OffsetCommitRequest \<Rightarrow> bytes" where
  "client_OffsetCommitRequest r =
     WriteString (ocreq_GroupId r) @ WriteInt32 (ocreq_GenerationId r) @
     WriteString (ocreq_MemberId r) @ WriteInt64 (ocreq_RetentionTime r) @
     WriteArray client_OffsetCommitTopic (ocreq_Topics r)"

definition ocreq_ok :: "OffsetCommitRequest \<Rightarrow> bool" where
  "ocreq_ok r \<longleftrightarrow>
     small_string (ocreq_GroupId r) \<and> small_string (ocreq_MemberId r) \<and>
     small_list (ocreq_Topics r) \<and> list_all oct_ok (ocreq_Topics r)"

interpretation ocreq: framed_codec client_OffsetCommitRequest DecodeOffsetCommitRequest ocreq_ok
  by unfold_locales
    (simp_all add: ocreq_ok_def client_OffsetCommitRequest_def DecodeOffsetCommitRequest_def codec_simps
      oct.array_enc
      framed_intros)

definition client_OffsetFetchTopic :: "OffsetFetchTopic \<Rightarrow> bytes" where
  "client_OffsetFetchTopic r =
     WriteString (oft_TopicName r) @ WriteArray WriteInt32 (oft_PartitionIndexes r)"

definition oft_ok :: "OffsetFetchTopic \<Rightarrow> bool" where
  "oft_ok r \<longleftrightarrow>
     small_string (oft_TopicName r) \<and> small_list (oft_PartitionIndexes r)"

interpretation oft: framed_codec client_OffsetFetchTopic DecodeOffsetFetchTopic oft_ok
  by unfold_locales
    (simp_all add: oft_ok_def client_OffsetFetchTopic_def DecodeOffsetFetchTopic_def codec_simps
      int32.array_enc list_all_iff
      framed_intros)

definition client_OffsetFetchRequest :: "OffsetFetchRequest \<Rightarrow> bytes" where
  "client_OffsetFetchRequest r =
     WriteString (ofreq_GroupId r) @ WriteArray client_OffsetFetchTopic (ofreq_Topics r)"

definition ofreq_ok :: "OffsetFetchRequest \<Rightarrow> bool" where
  "ofreq_ok r \<longleftrightarrow>
     small_string (ofreq_GroupId r) \<and> small_list (ofreq_Topics r) \<and>
     list_all oft_ok (ofreq_Topics r)"

interpretation ofreq: framed_codec client_OffsetFetchRequest DecodeOffsetFetchRequest ofreq_ok
  by unfold_locales
    (simp_all add: ofreq_ok_def client_OffsetFetchRequest_def DecodeOffsetFetchRequest_def codec_simps
      oft.array_enc
      framed_intros)

definition client_InitProducerIdRequest :: "InitProducerIdRequest \<Rightarrow> bytes" where
  "client_InitProducerIdRequest r =
     WriteNullableString (ireq_TransactionalId r) @ WriteInt32 (ireq_TransactionTimeoutMs r)"

definition ireq_ok :: "InitProducerIdRequest \<Rightarrow> bool" where
  "ireq_ok r \<longleftrightarrow>
     small_string_opt (ireq_TransactionalId r)"

interpretation ireq: framed_codec client_InitProducerIdRequest DecodeInitProducerIdRequest ireq_ok
  by unfold_locales
    (simp_all add: ireq_ok_def client_InitProducerIdRequest_def DecodeInitProducerIdRequest_def codec_simps
      framed_intros)

definition client_AddPartitionsToTxnTopic :: "AddPartitionsToTxnTopic \<Rightarrow> bytes" where
  "client_AddPartitionsToTxnTopic r =
     WriteString (apt_TopicName r) @ WriteArray WriteInt32 (apt_Partitions r)"

definition apt_ok :: "AddPartitionsToTxnTopic \<Rightarrow> bool" where
  "apt_ok r \<longleftrightarrow>
     small_string (apt_TopicName r) \<and> small_list (apt_Partitions r)"

interpretation apt: framed_codec client_AddPartitionsToTxnTopic DecodeAddPartitionsToTxnTopic apt_ok
  by unfold_locales
    (simp_all add: apt_ok_def client_AddPartitionsToTxnTopic_def DecodeAddPartitionsToTxnTopic_def codec_simps
      int32.array_enc list_all_iff
      framed_intros)

definition client_AddPartitionsToTxnRequest :: "AddPartitionsToTxnRequest \<Rightarrow> bytes" where
  "client_AddPartitionsToTxnRequest r =
     WriteString (apreq_TransactionalId r) @ WriteInt64 (apreq_ProducerId r) @
     WriteInt16 (apreq_ProducerEpoch r) @
     WriteArray client_AddPartitionsToTxnTopic (apreq_Topics r)"

definition apreq_ok :: "AddPartitionsToTxnRequest \<Rightarrow> bool" where
  "apreq_ok r \<longleftrightarrow>
     small_string (apreq_TransactionalId r) \<and> small_list (apreq_Topics r) \<and>
     list_all apt_ok (apreq_Topics r)"

interpretation apreq: framed_codec client_AddPartitionsToTxnRequest DecodeAddPartitionsToTxnRequest apreq_ok
  by unfold_locales
    (simp_all add: apreq_ok_def client_AddPartitionsToTxnRequest_def DecodeAddPartitionsToTxnRequest_def codec_simps
      apt.array_enc
      framed_intros)

definition client_EndTxnRequest :: "EndTxnRequest \<Rightarrow> bytes" where
  "client_EndTxnRequest r =
     WriteString (ereq_TransactionalId r) @ WriteInt64 (ereq_ProducerId r) @
     WriteInt16 (ereq_ProducerEpoch r) @ WriteInt8 (if ereq_Committed r then 1 else 0)"

definition ereq_ok :: "EndTxnRequest \<Rightarrow> bool" where
  "ereq_ok r \<longleftrightarrow>
     small_string (ereq_TransactionalId r)"

interpretation ereq: framed_codec client_EndTxnRequest DecodeEndTxnRequest ereq_ok
  by unfold_locales
    (simp_all add: ereq_ok_def client_EndTxnRequest_def DecodeEndTxnRequest_def codec_simps
      framed_intros)

definition client_SaslHandshakeRequest :: "SaslHandshakeRequest \<Rightarrow> bytes" where
  "client_SaslHandshakeRequest r =
     WriteString (shreq_Mechanism r)"

definition shreq_ok :: "SaslHandshakeRequest \<Rightarrow> bool" where
  "shreq_ok r \<longleftrightarrow>
     small_string (shreq_Mechanism r)"

interpretation shreq: framed_codec client_SaslHandshakeRequest DecodeSaslHandshakeRequest shreq_ok
  by unfold_locales
    (simp_all add: shreq_ok_def client_SaslHandshakeRequest_def DecodeSaslHandshakeRequest_def codec_simps
      framed_intros)

definition client_SaslAuthenticateRequest :: "SaslAuthenticateRequest \<Rightarrow> bytes" where
  "client_SaslAuthenticateRequest r =
     WriteBytes (sareq_AuthData r)"

definition sareq_ok :: "SaslAuthenticateRequest \<Rightarrow> bool" where
  "sareq_ok r \<longleftrightarrow>
     small_bytes (sareq_AuthData r)"

interpretation sareq: framed_codec client_SaslAuthenticateRequest DecodeSaslAuthenticateRequest sareq_ok
  by unfold_locales
    (simp_all add: sareq_ok_def client_SaslAuthenticateRequest_def DecodeSaslAuthenticateRequest_def codec_simps
      framed_intros)

end
