(* ===== verification/Protocol_Properties.thy ===== *)
theory Protocol_Properties
  imports Messages_Data Messages_Group
begin

text \<open>
  The properties of the wire protocol (\<open>src/internal/protocol\<close>): round trips of the
  messages of the data path and of the group and offset requests, rejection of truncated
  messages, bounds on client-supplied lengths, and absence of run-time panics.
\<close>

text \<open>
  C22: Produce requests: what \<open>EncodeProduceRequest\<close> writes, \<open>DecodeProduceRequest\<close> reads
  back, leaving what follows; any proper prefix is rejected as truncated.
\<close>

theorem produce_request_round_trip:
  assumes "preq_ok r"
  shows "DecodeProduceRequest (EncodeProduceRequest r @ rest) = (Inr r, rest) \<and>
    (\<forall>cut. strict_prefix cut (EncodeProduceRequest r) \<longrightarrow>
       (\<exists>e. DecodeProduceRequest cut = (Inl e, []) \<and> (e = EOF \<or> e = ErrUnexpectedEOF)))"
  using preq.dec_enc [OF assms] preq.truncated [OF assms] by (auto simp: truncation_def)

theorem produce_request_round_trip_witness:
  "DecodeProduceRequest (EncodeProduceRequest
     \<lparr>preq_Acks = 1, preq_Timeout = 500,
      preq_Topics = [\<lparr>tpd_TopicName = ''logs'', tpd_Partitions = [\<lparr>ppd_PartitionId = 0, ppd_RecordsData = [1, 2, 3]\<rparr>]\<rparr>]\<rparr> @ [9]) =
   (Inr \<lparr>preq_Acks = 1, preq_Timeout = 500,
      preq_Topics = [\<lparr>tpd_TopicName = ''logs'', tpd_Partitions = [\<lparr>ppd_PartitionId = 0, ppd_RecordsData = [1, 2, 3]\<rparr>]\<rparr>]\<rparr>, [9])"
  by (rule produce_request_round_trip [THEN conjunct1])
    (simp add: preq_ok_def tpd_ok_def ppd_ok_def small_list_def small_string_def small_bytes_def
      maxProtocolArrayLen_def maxProtocolFieldBytes_def)

text \<open>
  The Produce response the broker writes is read back by the decoder of the command
  line client: same topics, partitions, error codes, base offsets and times.
\<close>

theorem produce_response_round_trip:
  assumes "pres_ok r"
  shows "decodeProduceResponse (EncodeProduceResponse r @ rest) = (Inr r, rest)"
  by (rule pres.dec_enc [OF assms])

theorem produce_response_round_trip_witness:
  "decodeProduceResponse (EncodeProduceResponse
     \<lparr>pres_Topics = [\<lparr>tpr_TopicName = ''t'', tpr_Partitions =
        [\<lparr>ppr_PartitionId = 0, ppr_ErrorCode = 0, ppr_BaseOffset = 7, ppr_LogAppendTime = 1\<rparr>]\<rparr>]\<rparr> @ []) =
   (Inr \<lparr>pres_Topics = [\<lparr>tpr_TopicName = ''t'', tpr_Partitions =
        [\<lparr>ppr_PartitionId = 0, ppr_ErrorCode = 0, ppr_BaseOffset = 7, ppr_LogAppendTime = 1\<rparr>]\<rparr>]\<rparr>, [])"
  by (rule produce_response_round_trip) (simp add: pres_ok_def tpr_ok_def small_string_def)

text \<open>
  Fetch: requests in the protocol's layout are read back, and a response with record
  data below the field limit survives the trip to a reader of that layout; truncated
  requests are rejected.
\<close>

theorem fetch_round_trip:
  assumes "freq_ok q" and "fres_ok r"
  shows "DecodeFetchRequest (client_FetchRequest q @ rest) = (Inr q, rest) \<and>
    client_FetchResponse (EncodeFetchResponse r @ rest) = (Inr r, rest) \<and>
    (\<forall>cut. strict_prefix cut (client_FetchRequest q) \<longrightarrow>
       (\<exists>e. DecodeFetchRequest cut = (Inl e, []) \<and> (e = EOF \<or> e = ErrUnexpectedEOF)))"
  using freq.dec_enc [OF assms(1)] fres.dec_enc [OF assms(2)] freq.truncated [OF assms(1)]
  by (auto simp: truncation_def)

theorem fetch_round_trip_witness:
  "DecodeFetchRequest (client_FetchRequest
     \<lparr>freq_ReplicaId = -1, freq_MaxWaitTime = 100, freq_MinBytes = 1,
      freq_Topics = [\<lparr>tfd_TopicName = ''t'', tfd_Partitions =
        [\<lparr>pfd_PartitionId = 0, pfd_FetchOffset = 3, pfd_MaxBytes = 1024\<rparr>]\<rparr>]\<rparr> @ []) =
   (Inr \<lparr>freq_ReplicaId = -1, freq_MaxWaitTime = 100, freq_MinBytes = 1,
      freq_Topics = [\<lparr>tfd_TopicName = ''t'', tfd_Partitions =
        [\<lparr>pfd_PartitionId = 0, pfd_FetchOffset = 3, pfd_MaxBytes = 1024\<rparr>]\<rparr>]\<rparr>, [])"
  by (rule fetch_round_trip [THEN conjunct1, of _ "\<lparr>fres_Topics = []\<rparr>"])
    (simp_all add: freq_ok_def tfd_ok_def fres_ok_def small_list_def small_string_def maxProtocolArrayLen_def)

text \<open>
  Group and offset requests (JoinGroup, SyncGroup, OffsetCommit, OffsetFetch) in the
  protocol's layout are read back exactly.
\<close>

theorem group_request_round_trip:
  assumes "jreq_ok j" and "sreq_ok s" and "ocreq_ok c" and "ofreq_ok f"
  shows "DecodeJoinGroupRequest (client_JoinGroupRequest j @ rest) = (Inr j, rest) \<and>
    DecodeSyncGroupRequest (client_SyncGroupRequest s @ rest) = (Inr s, rest) \<and>
    DecodeOffsetCommitRequest (client_OffsetCommitRequest c @ rest) = (Inr c, rest) \<and>
    DecodeOffsetFetchRequest (client_OffsetFetchRequest f @ rest) = (Inr f, rest)"
  using jreq.dec_enc [OF assms(1)] sreq.dec_enc [OF assms(2)] ocreq.dec_enc [OF assms(3)]
    ofreq.dec_enc [OF assms(4)] by blast

theorem group_request_round_trip_witness:
  "\<exists>j. jreq_GroupId j = ''g'' \<and> DecodeJoinGroupRequest (client_JoinGroupRequest j @ [5]) = (Inr j, [5])"
proof -
  let ?j = "\<lparr>jreq_GroupId = ''g'', jreq_SessionTimeoutMs = 10, jreq_RebalanceTimeoutMs = 10,
    jreq_MemberId = ''m'', jreq_ProtocolType = ''consumer'',
    jreq_Protocols = [\<lparr>gp_Name = ''range'', gp_Metadata = [1]\<rparr>]\<rparr>"
  let ?s = "\<lparr>sreq_GroupId = ''g'', sreq_GenerationId = 1, sreq_MemberId = ''m'', sreq_GroupAssignments = []\<rparr>"
  let ?c = "\<lparr>ocreq_GroupId = ''g'', ocreq_GenerationId = 1, ocreq_MemberId = ''m'', ocreq_RetentionTime = 0, ocreq_Topics = []\<rparr>"
  let ?f = "\<lparr>ofreq_GroupId = ''g'', ofreq_Topics = []\<rparr>"
  have "jreq_ok ?j" "sreq_ok ?s" "ocreq_ok ?c" "ofreq_ok ?f"
    by (simp_all add: jreq_ok_def gp_ok_def sreq_ok_def ocreq_ok_def ofreq_ok_def small_list_def
        small_string_def small_bytes_def maxProtocolArrayLen_def maxProtocolFieldBytes_def)
  from group_request_round_trip [OF this, of "[5]"] show ?thesis by (intro exI [of _ ?j]) simp
qed

text \<open>
  C25: No request body, however malformed, makes a request decoder panic: every decoder
  returns a request or an error. What can panic in a decoder is \<open>make([]T, n)\<close> with a negative
  \<open>n\<close> (\<open>makeSlice\<close>); the guards on the lengths and counts in the input keep it from being
  called so.
\<close>

theorem decoders_never_panic:
  "fst (DecodeRequestHeader bs) \<noteq> Inl Panic \<and>
   fst (DecodeProduceRequest bs) \<noteq> Inl Panic \<and> fst (DecodeFetchRequest bs) \<noteq> Inl Panic \<and>
   fst (DecodeMetadataRequest bs) \<noteq> Inl Panic \<and> fst (DecodeOffsetCommitRequest bs) \<noteq> Inl Panic \<and>
   fst (DecodeOffsetFetchRequest bs) \<noteq> Inl Panic \<and> fst (DecodeFindCoordinatorRequest bs) \<noteq> Inl Panic \<and>
   fst (DecodeJoinGroupRequest bs) \<noteq> Inl Panic \<and> fst (DecodeSyncGroupRequest bs) \<noteq> Inl Panic \<and>
   fst (DecodeHeartbeatRequest bs) \<noteq> Inl Panic \<and> fst (DecodeLeaveGroupRequest bs) \<noteq> Inl Panic \<and>
   fst (DecodeInitProducerIdRequest bs) \<noteq> Inl Panic \<and>
   fst (DecodeAddPartitionsToTxnRequest bs) \<noteq> Inl Panic \<and> fst (DecodeEndTxnRequest bs) \<noteq> Inl Panic \<and>
   fst (DecodeSaslHandshakeRequest bs) \<noteq> Inl Panic \<and> fst (DecodeSaslAuthenticateRequest bs) \<noteq> Inl Panic"
proof -
  have no: "fst (m bs) \<noteq> Inl Panic" if "framed m" for m :: "'b reader"
    using framed_no_panic [OF that, of bs "snd (m bs)"] by (metis prod.collapse)
  show ?thesis by (intro conjI no framed_intros)
qed

text \<open>
  C26: Client-supplied lengths are bounded: an array count that is accepted is between 0 and
  1048576, and a byte field that is accepted has at most 64 MiB.
\<close>

theorem lengths_bounded:
  "(ReadArrayCount bs = (Inr n, rest) \<longrightarrow> 0 \<le> sint n \<and> sint n \<le> 1048576) \<and>
   (ReadBytes bs = (Inr b, rest) \<longrightarrow> length b \<le> 67108864)"
  by (auto simp: ReadArrayCount_def ReadBytes_def rd_bind_Inr_iff rd_return_def rd_fail_def
      maxProtocolArrayLen_def maxProtocolFieldBytes_def ReadSlice_def makeSlice_def ReadFull_ok split: if_splits)

theorem lengths_bounded_witness:
  "ReadArrayCount (WriteInt32 (of_nat 3) @ []) = (Inr 3, []) \<and> sint (3 :: i32) \<le> 1048576"
proof -
  have "ReadArrayCount (WriteInt32 (of_nat 3) @ []) = (Inr 3, [])"
    using ReadArrayCount_Write [of 3 "[]"] by (simp add: maxProtocolArrayLen_def)
  with lengths_bounded [of "WriteInt32 (of_nat 3) @ []" 3 "[]"] show ?thesis by simp
qed

end
