(* ===== verification/Go_Map.thy ===== *)
theory Go_Map
  imports Go_Base "HOL-Library.AList"
begin

text \<open>
  Go's built-in maps as association lists with distinct keys: lookup, assignment and
  \<open>delete\<close>. The order in which \<open>range\<close> walks a map is unspecified in Go; a definition whose
  result depends on it takes the order as an argument, and \<open>visits\<close> says what Go
  guarantees about it (every entry once).
\<close>

type_synonym ('k, 'v) gomap = "('k \<times> 'v) list"

abbreviation mget :: "('k, 'v) gomap \<Rightarrow> 'k \<Rightarrow> 'v option" where
  "mget m k \<equiv> map_of m k"

abbreviation mput :: "'k \<Rightarrow> 'v \<Rightarrow> ('k, 'v) gomap \<Rightarrow> ('k, 'v) gomap" where
  "mput k v m \<equiv> AList.update k v m"

abbreviation mdel :: "'k \<Rightarrow> ('k, 'v) gomap \<Rightarrow> ('k, 'v) gomap" where
  "mdel k m \<equiv> AList.delete k m"

abbreviation mkeys :: "('k, 'v) gomap \<Rightarrow> 'k list" where
  "mkeys m \<equiv> map fst m"

definition gomap_ok :: "('k, 'v) gomap \<Rightarrow> bool" where
  "gomap_ok m \<longleftrightarrow> distinct (mkeys m)"

named_theorems gomap_simps

lemma mget_mput [simp, gomap_simps]: "mget (mput k v m) k' = (if k' = k then Some v else mget m k')"
  by (simp add: update_conv')

lemma mget_mdel [simp, gomap_simps]: "mget (mdel k m) k' = (if k' = k then None else mget m k')"
  by (simp add: delete_conv')

lemma gomap_ok_Nil [simp]: "gomap_ok []"
  by (simp add: gomap_ok_def)

lemma gomap_ok_mput [simp]: "gomap_ok m \<Longrightarrow> gomap_ok (mput k v m)"
  by (simp add: gomap_ok_def distinct_update)

lemma gomap_ok_mdel [simp]: "gomap_ok m \<Longrightarrow> gomap_ok (mdel k m)"
  by (simp add: gomap_ok_def distinct_delete)

lemma mget_in_keys: "mget m k = Some v \<Longrightarrow> k \<in> fst ` set m"
  by (metis map_of_SomeD fst_conv image_eqI)

lemma mget_iff_keys: "(\<exists>v. mget m k = Some v) \<longleftrightarrow> k \<in> fst ` set m"
  by (metis mget_in_keys map_of_eq_None_iff not_None_eq)

lemma mget_set: "gomap_ok m \<Longrightarrow> mget m k = Some v \<longleftrightarrow> (k, v) \<in> set m"
  by (simp add: gomap_ok_def)

lemma mkeys_mput: "set (mkeys (mput k v m)) = insert k (set (mkeys m))"
  by (auto simp: dom_update)

lemma mkeys_mdel: "set (mkeys (mdel k m)) = set (mkeys m) - {k}"
  by (auto simp: delete_keys)

lemma fst_set_mput [simp]: "fst ` set (mput k v m) = insert k (fst ` set m)"
  using mkeys_mput [of k v m] by simp

lemma fst_set_mdel [simp]: "fst ` set (mdel k m) = fst ` set m - {k}"
  using mkeys_mdel [of k m] by simp

lemma length_mput_new: "mget m k = None \<Longrightarrow> length (mput k v m) = Suc (length m)"
  by (induction m) (auto split: if_splits)

lemma length_mput_old: "mget m k \<noteq> None \<Longrightarrow> length (mput k v m) = length m"
  by (induction m) (auto split: if_splits)

lemma mput_nonempty [simp]: "mput k v m \<noteq> []"
  by (cases m) auto

definition visits :: "('k list \<Rightarrow> 'k list) \<Rightarrow> bool" where
  "visits order \<longleftrightarrow> (\<forall>ks. distinct ks \<longrightarrow> distinct (order ks) \<and> set (order ks) = set ks)"

lemma visits_id: "visits (\<lambda>ks. ks)"
  by (simp add: visits_def)

lemma visits_rev: "visits rev"
  by (simp add: visits_def)

lemma visits_hd:
  assumes "visits order" and "gomap_ok m" and "m \<noteq> []"
  shows "hd (order (mkeys m)) \<in> fst ` set m"
proof -
  have "set (order (mkeys m)) = set (mkeys m)"
    using assms(1,2) by (simp add: visits_def gomap_ok_def)
  with assms(3) show ?thesis
    by (metis hd_in_set list.map_disc_iff list.set_map set_empty)
qed


section \<open>Keys built with fmt.Sprintf\<close>

text \<open>
  \<open>"%s-%d"\<close> names a partition in the broker, the replica manager and the fetcher;
  \<open>"%d:%s:%d"\<close> names the sequence counter of a producer. A topic may contain the
  separators, so it matters that the number is last (or first and last).
\<close>

definition partitionKey :: "string \<Rightarrow> i32 \<Rightarrow> string" where
  "partitionKey topic part = topic @ ''-'' @ show_int (sint part)"

definition sequenceKey :: "i64 \<Rightarrow> string \<Rightarrow> i32 \<Rightarrow> string" where
  "sequenceKey pid topic part = show_int (sint pid) @ '':'' @ topic @ '':'' @ show_int (sint part)"

lemma split_first: "c \<notin> set a \<Longrightarrow> c \<notin> set b \<Longrightarrow> a @ c # xs = b @ c # ys \<Longrightarrow> a = b \<and> xs = ys"
proof (induction a arbitrary: b)
  case Nil
  then show ?case by (cases b) auto
next
  case (Cons z a)
  then show ?case by (cases b) auto
qed

lemma split_at_last:
  assumes "c \<notin> set a" "c \<notin> set b" "xs @ c # a = ys @ c # b"
  shows "xs = ys \<and> a = b"
proof -
  have "rev a @ c # rev xs = rev b @ c # rev ys"
    using arg_cong [OF assms(3), of rev] by simp
  with assms(1,2) split_first [of c "rev a" "rev b" "rev xs" "rev ys"] show ?thesis by simp
qed

lemma not_digit_not_in_show_nat: "\<not> is_digit c \<Longrightarrow> c \<notin> set (show_nat n)"
  using show_nat_digits [of n] by (auto simp: list_all_iff)

lemma colon_not_in_show_int: "CHR '':'' \<notin> set (show_int i)"
  using colon_not_digit by (simp add: show_int_def not_digit_not_in_show_nat)

lemma dash_not_in_show_int: "0 \<le> i \<Longrightarrow> CHR ''-'' \<notin> set (show_int i)"
  using minus_not_digit by (simp add: show_int_def not_digit_not_in_show_nat)

lemma sint_inj: "sint (a :: 'a::len word) = sint b \<Longrightarrow> a = b"
  by (rule signed_word_eqI)

lemma partitionKey_inj:
  assumes "partitionKey t p = partitionKey t' p'" and "0 \<le> sint p" and "0 \<le> sint p'"
  shows "t = t' \<and> p = p'"
proof -
  have "t = t' \<and> show_int (sint p) = show_int (sint p')"
    using assms dash_not_in_show_int by (intro split_at_last) (simp_all add: partitionKey_def)
  then show ?thesis using show_int_inj sint_inj by blast
qed

lemma sequenceKey_inj:
  assumes "sequenceKey i t p = sequenceKey i' t' p'"
  shows "i = i' \<and> t = t' \<and> p = p'"
proof -
  have 1: "show_int (sint i) = show_int (sint i') \<and>
      t @ CHR '':'' # show_int (sint p) = t' @ CHR '':'' # show_int (sint p')"
    using assms colon_not_in_show_int by (intro split_first) (simp_all add: sequenceKey_def)
  have 2: "t = t' \<and> show_int (sint p) = show_int (sint p')"
    by (rule split_at_last [OF colon_not_in_show_int colon_not_in_show_int conjunct2 [OF 1]])
  show ?thesis
    using 1 2 show_int_inj [of "sint i" "sint i'"] show_int_inj [of "sint p" "sint p'"]
      sint_inj [of i i'] sint_inj [of p p'] by simp
qed

text \<open>A negative partition number makes two partitions share a key.\<close>

lemma partitionKey_negative:
  assumes "0 < sint j"
  shows "partitionKey (t @ ''-'') j = partitionKey t (- j)"
proof -
  have "sint (- j) = - sint j"
    using assms sint_less [of j] by (simp add: sint_word_minus signed_take_bit_int_eq_self)
  with assms show ?thesis by (simp add: partitionKey_def show_int_def)
qed

lemma partitionKey_collision: "partitionKey ''a-'' 1 = partitionKey ''a'' (-1)"
  using partitionKey_negative [of 1 "''a''"] by simp

end
