(* ===== verification/Offset_Manager.thy ===== *)
theory Offset_Manager
  imports Go_Map
begin

text \<open>
  \<open>src/internal/coordinator/offset_manager.go\<close>: the committed offsets of consumer groups.
  Each method holds the manager's mutex, so it is one step. The clock is an argument.

  The locale \<open>offset_store\<close> is the contract the offset handlers rely on; it yields that
  the last commit of a partition is the one a later fetch sees.
\<close>

definition ErrOffsetNotFound :: go_error where
  "ErrOffsetNotFound = ErrText ''offset not found for group topic partition''"

record TopicPartition =
  tp_Topic :: string
  tp_Partition :: i32

record GroupTopicPartition =
  gtp_GroupID :: string
  gtp_Topic :: string
  gtp_Partition :: i32

record OffsetCommitMetadata =
  ocm_Offset :: i64
  ocm_Metadata :: string
  ocm_CommitTime :: int

record OffsetManager =
  offsets :: "(GroupTopicPartition, OffsetCommitMetadata) gomap"

definition NewOffsetManager :: OffsetManager where
  "NewOffsetManager = \<lparr>offsets = []\<rparr>"

definition gtpKey :: "string \<Rightarrow> string \<Rightarrow> i32 \<Rightarrow> GroupTopicPartition" where
  "gtpKey groupID topic part =
     \<lparr>gtp_GroupID = groupID, gtp_Topic = topic, gtp_Partition = part\<rparr>"

definition CommitOffset ::
  "int \<Rightarrow> OffsetManager \<Rightarrow> string \<Rightarrow> string \<Rightarrow> i32 \<Rightarrow> i64 \<Rightarrow> string \<Rightarrow> OffsetManager \<times> go_error option" where
  "CommitOffset now om groupID topic part offset metadata =
     (if groupID = '''' \<or> topic = ''''
      then (om, Some (ErrText ''group_id and topic cannot be empty''))
      else (om\<lparr>offsets := mput (gtpKey groupID topic part)
                 \<lparr>ocm_Offset = offset, ocm_Metadata = metadata, ocm_CommitTime = now\<rparr> (offsets om)\<rparr>,
            None))"

definition FetchOffset :: "OffsetManager \<Rightarrow> string \<Rightarrow> string \<Rightarrow> i32 \<Rightarrow> i64 \<times> string \<times> go_error option" where
  "FetchOffset om groupID topic part =
     (case mget (offsets om) (gtpKey groupID topic part) of
        None \<Rightarrow> (-1, '''', Some ErrOffsetNotFound)
      | Some meta \<Rightarrow> (ocm_Offset meta, ocm_Metadata meta, None))"

definition collectGroup ::
  "string \<Rightarrow> GroupTopicPartition \<times> OffsetCommitMetadata \<Rightarrow>
   (TopicPartition, OffsetCommitMetadata) gomap \<Rightarrow> (TopicPartition, OffsetCommitMetadata) gomap" where
  "collectGroup groupID e result =
     (case e of (key, meta) \<Rightarrow>
        if gtp_GroupID key = groupID
        then mput \<lparr>tp_Topic = gtp_Topic key, tp_Partition = gtp_Partition key\<rparr> meta result
        else result)"

definition FetchGroupOffsets ::
  "OffsetManager \<Rightarrow> string \<Rightarrow> (TopicPartition, OffsetCommitMetadata) gomap" where
  "FetchGroupOffsets om groupID = fold (collectGroup groupID) (offsets om) []"

definition deleteStep ::
  "string \<Rightarrow> GroupTopicPartition \<Rightarrow> OffsetManager \<times> nat \<Rightarrow> OffsetManager \<times> nat" where
  "deleteStep groupID key st =
     (case st of (om, deletedCount) \<Rightarrow>
        if gtp_GroupID key = groupID then (om\<lparr>offsets := mdel key (offsets om)\<rparr>, deletedCount + 1)
        else (om, deletedCount))"

text \<open>The loop deletes only the entry it is at, so every key is visited.\<close>

definition DeleteGroupOffsets :: "OffsetManager \<Rightarrow> string \<Rightarrow> OffsetManager \<times> nat" where
  "DeleteGroupOffsets om groupID = fold (deleteStep groupID) (mkeys (offsets om)) (om, 0)"


section \<open>The contract of the store\<close>

locale offset_store =
  fixes commit :: "'s \<Rightarrow> 'k \<Rightarrow> 'v \<Rightarrow> 's"
    and fetch :: "'s \<Rightarrow> 'k \<Rightarrow> 'v option"
    and ok :: "'k \<Rightarrow> bool"
  assumes fetch_same: "ok k \<Longrightarrow> fetch (commit s k v) k = Some v"
    and fetch_other: "k' \<noteq> k \<or> \<not> ok k \<Longrightarrow> fetch (commit s k v) k' = fetch s k'"
begin

lemma fetch_commits:
  "fetch (foldl (\<lambda>s (k, v). commit s k v) s cs) k =
     (case map_of (rev (filter (\<lambda>(k, v). ok k) cs)) k of Some v \<Rightarrow> Some v | None \<Rightarrow> fetch s k)"
proof (induction cs rule: rev_induct)
  case Nil
  then show ?case by simp
next
  case (snoc c cs)
  obtain k' v' where c: "c = (k', v')" by fastforce
  show ?case
  proof (cases "ok k' \<and> k = k'")
    case True
    with c show ?thesis by (simp add: fetch_same)
  next
    case False
    then have "fetch (commit (foldl (\<lambda>s (k, v). commit s k v) s cs) k' v') k =
        fetch (foldl (\<lambda>s (k, v). commit s k v) s cs) k"
      by (intro fetch_other) blast
    with False c snoc show ?thesis by auto
  qed
qed

end

definition commitKey :: "OffsetManager \<Rightarrow> string \<times> string \<times> i32 \<Rightarrow> i64 \<times> string \<Rightarrow> OffsetManager" where
  "commitKey om k v =
     (case k of (g, t, p) \<Rightarrow> case v of (offset, md) \<Rightarrow> fst (CommitOffset 0 om g t p offset md))"

definition fetchKey :: "OffsetManager \<Rightarrow> string \<times> string \<times> i32 \<Rightarrow> (i64 \<times> string) option" where
  "fetchKey om k =
     (case k of (g, t, p) \<Rightarrow>
        case FetchOffset om g t p of (offset, md, None) \<Rightarrow> Some (offset, md) | (offset, md, Some e) \<Rightarrow> None)"

definition named_key :: "string \<times> string \<times> i32 \<Rightarrow> bool" where
  "named_key k \<longleftrightarrow> fst k \<noteq> [] \<and> fst (snd k) \<noteq> []"

lemma gtpKey_inj [simp]: "gtpKey g t p = gtpKey g' t' p' \<longleftrightarrow> g = g' \<and> t = t' \<and> p = p'"
  by (simp add: gtpKey_def)

lemma gtpKey_fields [simp]:
  "gtp_GroupID (gtpKey g t p) = g" "gtp_Topic (gtpKey g t p) = t" "gtp_Partition (gtpKey g t p) = p"
  by (simp_all add: gtpKey_def)

lemma gtpKey_surj: "gtpKey (gtp_GroupID k) (gtp_Topic k) (gtp_Partition k) = k"
  by (simp add: gtpKey_def)

interpretation om: offset_store commitKey fetchKey named_key
  by unfold_locales
    (auto simp: commitKey_def fetchKey_def named_key_def CommitOffset_def FetchOffset_def
      split: if_splits option.splits)


section \<open>Group-wide operations\<close>

definition om_inv :: "OffsetManager \<Rightarrow> bool" where
  "om_inv om \<longleftrightarrow> gomap_ok (offsets om) \<and>
     (\<forall>k v. mget (offsets om) k = Some v \<longrightarrow> gtp_GroupID k \<noteq> [] \<and> gtp_Topic k \<noteq> [])"

lemma NewOffsetManager_inv: "om_inv NewOffsetManager"
  by (simp add: om_inv_def NewOffsetManager_def)

lemma CommitOffset_inv: "om_inv om \<Longrightarrow> om_inv (fst (CommitOffset now om g t p offset md))"
  by (auto simp: om_inv_def CommitOffset_def split: if_splits)

lemma collectGroup_pair:
  "collectGroup g (k, v) m =
     (if gtp_GroupID k = g then mput \<lparr>tp_Topic = gtp_Topic k, tp_Partition = gtp_Partition k\<rparr> v m else m)"
  by (simp add: collectGroup_def)

lemma collect_other:
  "\<forall>e \<in> set es. fst e \<noteq> gtpKey g t p \<Longrightarrow>
   mget (fold (collectGroup g) es m) \<lparr>tp_Topic = t, tp_Partition = p\<rparr> = mget m \<lparr>tp_Topic = t, tp_Partition = p\<rparr>"
proof (induction es arbitrary: m)
  case Nil
  then show ?case by simp
next
  case (Cons e es)
  obtain k v where e: "e = (k, v)" by (cases e)
  have "k \<noteq> gtpKey g t p" using Cons.prems e by auto
  then have "gtp_GroupID k = g \<Longrightarrow> gtp_Topic k = t \<Longrightarrow> gtp_Partition k \<noteq> p"
    using gtpKey_surj [of k] by auto
  with Cons e show ?case by (auto simp: collectGroup_pair)
qed

lemma collect_lookup:
  assumes "distinct (map fst es)"
  shows "mget (fold (collectGroup g) es m) \<lparr>tp_Topic = t, tp_Partition = p\<rparr> =
    (case map_of es (gtpKey g t p) of
       Some v \<Rightarrow> Some v | None \<Rightarrow> mget m \<lparr>tp_Topic = t, tp_Partition = p\<rparr>)"
  using assms
proof (induction es arbitrary: m)
  case Nil
  then show ?case by simp
next
  case (Cons e es)
  obtain k v where e: "e = (k, v)" by (cases e)
  show ?case
  proof (cases "k = gtpKey g t p")
    case True
    with Cons.prems e have "\<forall>e \<in> set es. fst e \<noteq> gtpKey g t p" by (auto simp: image_iff)
    with True e collect_other [of es g t p] show ?thesis by (simp add: collectGroup_pair)
  next
    case False
    have "gtp_GroupID k = g \<Longrightarrow> gtp_Topic k = t \<Longrightarrow> gtp_Partition k \<noteq> p"
      using False gtpKey_surj [of k] by auto
    with False Cons e show ?thesis by (auto simp: collectGroup_pair split: option.splits)
  qed
qed

lemma FetchGroupOffsets_lookup:
  "om_inv om \<Longrightarrow>
   mget (FetchGroupOffsets om g) \<lparr>tp_Topic = t, tp_Partition = p\<rparr> = mget (offsets om) (gtpKey g t p)"
  by (simp add: FetchGroupOffsets_def om_inv_def gomap_ok_def collect_lookup split: option.splits)

lemma delete_fold:
  "distinct ks \<Longrightarrow> fold (deleteStep g) ks (om, n) = (om', n') \<Longrightarrow>
   mget (offsets om') k = (if k \<in> set ks \<and> gtp_GroupID k = g then None else mget (offsets om) k) \<and>
   n' = n + length (filter (\<lambda>k. gtp_GroupID k = g) ks) \<and>
   (gomap_ok (offsets om) \<longrightarrow> gomap_ok (offsets om'))"
proof (induction ks arbitrary: om n)
  case Nil
  then show ?case by simp
next
  case (Cons x ks)
  obtain om1 n1 where st: "deleteStep g x (om, n) = (om1, n1)" by fastforce
  with Cons.prems have run: "fold (deleteStep g) ks (om1, n1) = (om', n')" by simp
  note IH = Cons.IH [OF _ run]
  show ?case
  proof (cases "gtp_GroupID x = g")
    case True
    with st have "om1 = om\<lparr>offsets := mdel x (offsets om)\<rparr>" "n1 = n + 1"
      by (simp_all add: deleteStep_def)
    with IH Cons.prems(1) True show ?thesis by (auto simp: delete_keys)
  next
    case False
    with st have "om1 = om" "n1 = n" by (simp_all add: deleteStep_def)
    with IH Cons.prems(1) False show ?thesis by auto
  qed
qed

lemma DeleteGroupOffsets_correct:
  assumes "om_inv om" and run: "DeleteGroupOffsets om g = (om', n)"
  shows "om_inv om'"
    and "mget (offsets om') k = (if gtp_GroupID k = g then None else mget (offsets om) k)"
    and "n = length (filter (\<lambda>k. gtp_GroupID k = g) (mkeys (offsets om)))"
proof -
  have dist: "distinct (mkeys (offsets om))" using assms(1) by (simp add: om_inv_def gomap_ok_def)
  note f = delete_fold [OF dist run [unfolded DeleteGroupOffsets_def]]
  show "n = length (filter (\<lambda>k. gtp_GroupID k = g) (mkeys (offsets om)))" using f by simp
  show "om_inv om'" using f assms(1) by (auto simp: om_inv_def split: if_splits)
  show "mget (offsets om') k = (if gtp_GroupID k = g then None else mget (offsets om) k)"
    using f [of k] by (auto simp: map_of_eq_None_iff)
qed

end
