(* ===== verification/Group_Coordinator.thy ===== *)
theory Group_Coordinator
  imports Go_Map
begin

text \<open>
  \<open>src/internal/coordinator/group.go\<close>: consumer groups, their members, leaders and
  generations. Every method holds the locks of what it changes, so one call is one step;
  \<open>gc_reach\<close> is the set of coordinators some sequence of calls leads to.

  The clock is an argument. \<open>visit\<close> and \<open>pick\<close> are the orders in which Go walks the
  members of a group, once to look for expired members and once to find a new leader.
\<close>

datatype GroupState =
    GroupStateEmpty | GroupStatePreparingRebalance | GroupStateCompletingRebalance
  | GroupStateStable | GroupStateDead

definition ErrGroupNotFound :: go_error where
  "ErrGroupNotFound = ErrText ''consumer group not found''"

definition ErrMemberNotFound :: go_error where
  "ErrMemberNotFound = ErrText ''group member not found''"

definition ErrUnknownMemberID :: go_error where
  "ErrUnknownMemberID = ErrText ''unknown member id''"

definition ErrRebalanceInProgress :: go_error where
  "ErrRebalanceInProgress = ErrText ''rebalance in progress''"

record GroupMember =
  MemberID :: string
  ClientID :: string
  ClientHost :: string
  SessionTimeout :: int
  RebalanceTimeout :: int
  gm_ProtocolType :: string
  SupportedProtocols :: "(string, bytes) gomap"
  gm_Assignment :: "bytes option"
  LastHeartbeat :: int

record ConsumerGroup =
  GroupID :: string
  State :: GroupState
  cg_ProtocolType :: string
  cg_Protocol :: string
  LeaderID :: string
  GenerationID :: i32
  Members :: "(string, GroupMember) gomap"

record GroupCoordinator =
  groups :: "(string, ConsumerGroup) gomap"
  maxGroups :: int

definition NewGroupCoordinator :: GroupCoordinator where
  "NewGroupCoordinator = \<lparr>groups = [], maxGroups = 0\<rparr>"

definition SetMaxGroups :: "GroupCoordinator \<Rightarrow> int \<Rightarrow> GroupCoordinator" where
  "SetMaxGroups gc mx = gc\<lparr>maxGroups := mx\<rparr>"

definition GetOrCreateGroup ::
  "GroupCoordinator \<Rightarrow> string \<Rightarrow> string \<Rightarrow> GroupCoordinator \<times> (go_error + ConsumerGroup)" where
  "GetOrCreateGroup gc groupID protocolType =
     (case mget (groups gc) groupID of
        Some grp \<Rightarrow> (gc, Inr grp)
      | None \<Rightarrow>
          if 0 < maxGroups gc \<and> maxGroups gc \<le> int (length (groups gc))
          then (gc, Inl (ErrText (''maximum number of consumer groups ('' @ show_int (maxGroups gc) @ '') reached'')))
          else let grp = \<lparr>GroupID = groupID, State = GroupStateEmpty, cg_ProtocolType = protocolType,
                            cg_Protocol = '''', LeaderID = '''', GenerationID = 0, Members = []\<rparr>
               in (gc\<lparr>groups := mput groupID grp (groups gc)\<rparr>, Inr grp))"

definition hex_char :: "nat \<Rightarrow> char" where
  "hex_char d = (if d < 10 then char_of (48 + d) else char_of (87 + d))"

fun show_hex :: "nat \<Rightarrow> string" where
  "show_hex n = (if n < 16 then [hex_char n] else show_hex (n div 16) @ [hex_char (n mod 16)])"

declare show_hex.simps [simp del]

definition generateUUIDShort :: "nat \<Rightarrow> string" where
  "generateUUIDShort unixNano = show_hex (unixNano mod 1000000)"

definition durationMs :: "i32 \<Rightarrow> int" where
  "durationMs ms = sint ms * 1000000"

definition AddMember ::
  "nat \<Rightarrow> GroupCoordinator \<Rightarrow> string \<Rightarrow> string \<Rightarrow> string \<Rightarrow> i32 \<Rightarrow> i32 \<Rightarrow> string \<Rightarrow> (string, bytes) gomap \<Rightarrow>
   GroupCoordinator \<times> (go_error + ConsumerGroup \<times> GroupMember)" where
  "AddMember now gc groupID clientID clientHost sessionTimeoutMs rebalanceTimeoutMs protocolType protocols =
     (if groupID = '''' then (gc, Inl (ErrText ''group_id cannot be empty''))
      else case GetOrCreateGroup gc groupID protocolType of
             (gc1, Inl e) \<Rightarrow> (gc1, Inl e)
           | (gc1, Inr grp) \<Rightarrow>
               let memberID = clientID @ ''-'' @ generateUUIDShort now;
                   member = \<lparr>MemberID = memberID, ClientID = clientID, ClientHost = clientHost,
                             SessionTimeout = durationMs sessionTimeoutMs,
                             RebalanceTimeout = durationMs rebalanceTimeoutMs,
                             gm_ProtocolType = protocolType, SupportedProtocols = protocols,
                             gm_Assignment = None, LastHeartbeat = int now\<rparr>;
                   members = mput memberID member (Members grp);
                   grp' = grp\<lparr>Members := members,
                                  LeaderID := (if LeaderID grp = '''' \<or> length members = 1
                                               then memberID else LeaderID grp),
                                  State := GroupStatePreparingRebalance,
                                  GenerationID := GenerationID grp + 1\<rparr>
               in (gc1\<lparr>groups := mput groupID grp' (groups gc1)\<rparr>, Inr (grp', member)))"

text \<open>A new leader is the first member an iteration over the remaining members yields.\<close>

definition electLeader :: "(string \<Rightarrow> string list \<Rightarrow> string list) \<Rightarrow> string \<Rightarrow> (string, GroupMember) gomap \<Rightarrow> string \<Rightarrow> string" where
  "electLeader pick groupID members dflt =
     (if members = [] then dflt else hd (pick groupID (mkeys members)))"

definition RemoveMember ::
  "(string \<Rightarrow> string list \<Rightarrow> string list) \<Rightarrow> GroupCoordinator \<Rightarrow> string \<Rightarrow> string \<Rightarrow>
   GroupCoordinator \<times> go_error option" where
  "RemoveMember pick gc groupID memberID =
     (case mget (groups gc) groupID of
        None \<Rightarrow> (gc, Some ErrGroupNotFound)
      | Some grp \<Rightarrow>
          if mget (Members grp) memberID = None then (gc, Some ErrMemberNotFound)
          else let members = mdel memberID (Members grp);
                   grp' =
                     (if length members = 0
                      then grp\<lparr>Members := members, State := GroupStateEmpty, LeaderID := ''''\<rparr>
                      else grp\<lparr>Members := members,
                                 LeaderID := (if LeaderID grp = memberID
                                              then electLeader pick groupID members (LeaderID grp)
                                              else LeaderID grp),
                                 State := GroupStatePreparingRebalance,
                                 GenerationID := GenerationID grp + 1\<rparr>)
               in (gc\<lparr>groups := mput groupID grp' (groups gc)\<rparr>, None))"

definition Heartbeat :: "int \<Rightarrow> GroupCoordinator \<Rightarrow> string \<Rightarrow> string \<Rightarrow> GroupCoordinator \<times> go_error option" where
  "Heartbeat now gc groupID memberID =
     (case mget (groups gc) groupID of
        None \<Rightarrow> (gc, Some ErrGroupNotFound)
      | Some grp \<Rightarrow>
          (case mget (Members grp) memberID of
             None \<Rightarrow> (gc, Some ErrUnknownMemberID)
           | Some member \<Rightarrow>
               if State grp = GroupStatePreparingRebalance then (gc, Some ErrRebalanceInProgress)
               else (gc\<lparr>groups := mput groupID
                          (grp\<lparr>Members := mput memberID (member\<lparr>LastHeartbeat := now\<rparr>) (Members grp)\<rparr>)
                          (groups gc)\<rparr>, None)))"

definition expired :: "int \<Rightarrow> GroupMember \<Rightarrow> bool" where
  "expired now member \<longleftrightarrow> SessionTimeout member < now - LastHeartbeat member"

definition evict :: "(string \<Rightarrow> string list \<Rightarrow> string list) \<Rightarrow> ConsumerGroup \<Rightarrow> string \<Rightarrow> ConsumerGroup" where
  "evict pick grp memberID =
     (let members = mdel memberID (Members grp);
          leader = (if LeaderID grp = memberID then electLeader pick (GroupID grp) members ''''
                    else LeaderID grp)
      in if length members = 0
         then grp\<lparr>Members := members, LeaderID := leader, State := GroupStateEmpty\<rparr>
         else grp\<lparr>Members := members, LeaderID := leader,
                    State := GroupStatePreparingRebalance, GenerationID := GenerationID grp + 1\<rparr>)"

fun expireMembers ::
  "(string \<Rightarrow> string list \<Rightarrow> string list) \<Rightarrow> int \<Rightarrow> string list \<Rightarrow> ConsumerGroup \<Rightarrow> ConsumerGroup \<times> string list" where
  "expireMembers pick now [] grp = (grp, [])"
| "expireMembers pick now (memberID # ids) grp =
     (case mget (Members grp) memberID of
        None \<Rightarrow> expireMembers pick now ids grp
      | Some member \<Rightarrow>
          if expired now member
          then (case expireMembers pick now ids (evict pick grp memberID) of
                  (grp', evicted) \<Rightarrow> (grp', (GroupID grp @ ''/'' @ memberID) # evicted))
          else expireMembers pick now ids grp)"

fun expireGroups ::
  "(string \<Rightarrow> string list \<Rightarrow> string list) \<Rightarrow> (string \<Rightarrow> string list \<Rightarrow> string list) \<Rightarrow> int \<Rightarrow>
   string list \<Rightarrow> (string, ConsumerGroup) gomap \<Rightarrow> (string, ConsumerGroup) gomap \<times> string list" where
  "expireGroups visit pick now [] gs = (gs, [])"
| "expireGroups visit pick now (gid # gids) gs =
     (case mget gs gid of
        None \<Rightarrow> expireGroups visit pick now gids gs
      | Some grp \<Rightarrow>
          (case expireMembers pick now (visit gid (mkeys (Members grp))) grp of
             (grp', evicted) \<Rightarrow>
               (case expireGroups visit pick now gids (mput gid grp' gs) of
                  (gs', evicted') \<Rightarrow> (gs', evicted @ evicted'))))"

definition CheckHeartbeatTimeouts ::
  "(string list \<Rightarrow> string list) \<Rightarrow> (string \<Rightarrow> string list \<Rightarrow> string list) \<Rightarrow>
   (string \<Rightarrow> string list \<Rightarrow> string list) \<Rightarrow> int \<Rightarrow> GroupCoordinator \<Rightarrow> GroupCoordinator \<times> string list" where
  "CheckHeartbeatTimeouts gorder visit pick now gc =
     (case expireGroups visit pick now (gorder (mkeys (groups gc))) (groups gc) of
        (gs, evicted) \<Rightarrow> (gc\<lparr>groups := gs\<rparr>, evicted))"

definition GetAllGroups :: "(string list \<Rightarrow> string list) \<Rightarrow> GroupCoordinator \<Rightarrow> ConsumerGroup list" where
  "GetAllGroups gorder gc = List.map_filter (mget (groups gc)) (gorder (mkeys (groups gc)))"


section \<open>The invariant of a group\<close>

text \<open>
  The leader is a member, no members means no leader. No operation of the repository
  assigns \<open>GroupStateStable\<close>, so a group with members is always preparing a rebalance.
\<close>

definition group_inv :: "ConsumerGroup \<Rightarrow> bool" where
  "group_inv g \<longleftrightarrow>
     gomap_ok (Members g) \<and>
     (\<forall>i m. mget (Members g) i = Some m \<longrightarrow> MemberID m = i \<and> i \<noteq> []) \<and>
     (if Members g = [] then LeaderID g = [] else LeaderID g \<in> fst ` set (Members g)) \<and>
     State g = (if Members g = [] then GroupStateEmpty else GroupStatePreparingRebalance)"

definition gc_inv :: "GroupCoordinator \<Rightarrow> bool" where
  "gc_inv gc \<longleftrightarrow>
     gomap_ok (groups gc) \<and>
     (\<forall>i g. mget (groups gc) i = Some g \<longrightarrow> GroupID g = i \<and> i \<noteq> [] \<and> group_inv g)"

inductive gc_reach :: "GroupCoordinator \<Rightarrow> bool" where
  init: "gc_reach NewGroupCoordinator"
| limit: "gc_reach gc \<Longrightarrow> gc_reach (SetMaxGroups gc mx)"
| add: "gc_reach gc \<Longrightarrow> gc_reach (fst (AddMember now gc gid cid host st rt pt ps))"
| remove: "gc_reach gc \<Longrightarrow> (\<And>g. visits (pick g)) \<Longrightarrow> gc_reach (fst (RemoveMember pick gc gid mid))"
| heartbeat: "gc_reach gc \<Longrightarrow> gc_reach (fst (Heartbeat t gc gid mid))"
| expire: "gc_reach gc \<Longrightarrow> (\<And>g. visits (pick g)) \<Longrightarrow> (\<And>g. visits (visit g)) \<Longrightarrow> visits gorder \<Longrightarrow>
    gc_reach (fst (CheckHeartbeatTimeouts gorder visit pick t gc))"

lemma gc_inv_update:
  assumes "gc_inv gc" and "group_inv g" and "GroupID g = gid" and "gid \<noteq> []"
  shows "gc_inv (gc\<lparr>groups := mput gid g (groups gc)\<rparr>)"
  using assms by (auto simp: gc_inv_def)

lemma leader_after_delete:
  assumes "group_inv g" and "\<And>x. visits (pick x)" and "mdel i (Members g) \<noteq> []"
  shows "(if LeaderID g = i then electLeader pick gid (mdel i (Members g)) dflt else LeaderID g)
    \<in> fst ` set (mdel i (Members g))"
proof (cases "LeaderID g = i")
  case True
  have "gomap_ok (mdel i (Members g))" using assms(1) by (simp add: group_inv_def)
  from visits_hd [OF assms(2) this assms(3), of gid] True assms(3) show ?thesis
    by (simp add: electLeader_def)
next
  case False
  have "Members g \<noteq> []" using assms(3) by auto
  with assms(1) have "LeaderID g \<in> set (mkeys (Members g))" by (auto simp: group_inv_def)
  with False have "LeaderID g \<in> set (mkeys (mdel i (Members g)))" unfolding mkeys_mdel by simp
  with False show ?thesis by simp
qed

lemma evict_fields [simp]:
  "GroupID (evict pick g i) = GroupID g" "Members (evict pick g i) = mdel i (Members g)"
  by (simp_all add: evict_def Let_def)

lemma evict_inv:
  assumes "group_inv g" and "\<And>x. visits (pick x)" and "mget (Members g) i \<noteq> None"
  shows "group_inv (evict pick g i)"
proof -
  have ok: "gomap_ok (mdel i (Members g))"
    "\<forall>j m. mget (mdel i (Members g)) j = Some m \<longrightarrow> MemberID m = j \<and> j \<noteq> []"
    using assms(1) by (auto simp: group_inv_def)
  show ?thesis
  proof (cases "mdel i (Members g) = []")
    case True
    have "Members g \<noteq> []" using assms(3) by auto
    with assms(1) have "LeaderID g \<in> set (mkeys (Members g))" by (auto simp: group_inv_def)
    moreover have "set (mkeys (Members g)) \<subseteq> {i}" using mkeys_mdel [of i "Members g"] True by auto
    ultimately have "LeaderID g = i" by blast
    with True show ?thesis by (simp add: group_inv_def evict_def electLeader_def)
  next
    case False
    from leader_after_delete [OF assms(1,2) False, where gid = "GroupID g" and dflt = "[]"] ok False show ?thesis
      by (simp add: group_inv_def evict_def Let_def)
  qed
qed

text \<open>Walking over distinct ids removes exactly the expired members among them.\<close>

lemma expireMembers_correct:
  assumes "group_inv g" and "\<And>x. visits (pick x)" and "distinct ids"
    and "expireMembers pick now ids g = (g', evicted)"
  shows "group_inv g' \<and> GroupID g' = GroupID g \<and>
    (\<forall>i. mget (Members g') i =
       (case mget (Members g) i of
          None \<Rightarrow> None | Some m \<Rightarrow> if i \<in> set ids \<and> expired now m then None else Some m)) \<and>
    set evicted = {GroupID g @ ''/'' @ i | i m. i \<in> set ids \<and> mget (Members g) i = Some m \<and> expired now m}"
  using assms(1,3,4)
proof (induction ids arbitrary: g evicted)
  case Nil
  then show ?case by (auto split: option.splits)
next
  case (Cons i ids)
  show ?case
  proof (cases "\<exists>m. mget (Members g) i = Some m \<and> expired now m")
    case True
    then obtain m where m: "mget (Members g) i = Some m" "expired now m" by blast
    obtain evicted' where rest: "expireMembers pick now ids (evict pick g i) = (g', evicted')"
      and ev: "evicted = (GroupID g @ ''/'' @ i) # evicted'"
      using Cons.prems(3) m by (auto split: prod.splits)
    have inv: "group_inv (evict pick g i)" using evict_inv [OF Cons.prems(1) assms(2)] m by auto
    from Cons.IH [OF inv _ rest] Cons.prems(2) m ev show ?thesis
      by (fastforce split: option.splits if_splits)
  next
    case False
    then have "expireMembers pick now ids g = (g', evicted)"
      using Cons.prems(3) by (auto split: option.splits)
    from Cons.IH [OF Cons.prems(1) _ this] Cons.prems(2) False show ?thesis
      by (auto split: option.splits if_splits)
  qed
qed

text \<open>The member a group keeps after a check, and the names of the evicted ones.\<close>

definition survives :: "int \<Rightarrow> GroupMember option \<Rightarrow> GroupMember option" where
  "survives now mo = (case mo of None \<Rightarrow> None | Some m \<Rightarrow> if expired now m then None else Some m)"

lemma expire_all_members:
  assumes inv: "group_inv g" and "\<And>x. visits (pick x)" and "visits order"
    and run: "expireMembers pick now (order (mkeys (Members g))) g = (g', evicted)"
  shows "group_inv g'" and "GroupID g' = GroupID g"
    and "mget (Members g') i = survives now (mget (Members g) i)"
    and "set evicted = {GroupID g @ ''/'' @ i | i m. mget (Members g) i = Some m \<and> expired now m}"
proof -
  have ids: "distinct (order (mkeys (Members g)))" "set (order (mkeys (Members g))) = fst ` set (Members g)"
    using inv assms(3) by (simp_all add: group_inv_def gomap_ok_def visits_def)
  note e = expireMembers_correct [OF inv assms(2) ids(1) run, unfolded ids(2)]
  show "group_inv g'" "GroupID g' = GroupID g" using e by simp_all
  show "mget (Members g') i = survives now (mget (Members g) i)"
    using e mget_in_keys [of "Members g" i] by (auto simp: survives_def split: option.splits)
  show "set evicted = {GroupID g @ ''/'' @ i | i m. mget (Members g) i = Some m \<and> expired now m}"
  proof -
    have "i \<in> fst ` set (Members g) \<and> mget (Members g) i = Some m \<and> expired now m \<longleftrightarrow>
        mget (Members g) i = Some m \<and> expired now m" for i m
      using mget_in_keys [of "Members g" i m] by auto
    with e show ?thesis by simp
  qed
qed

definition checked :: "int \<Rightarrow> ConsumerGroup \<Rightarrow> ConsumerGroup \<Rightarrow> bool" where
  "checked now g g' \<longleftrightarrow>
     GroupID g' = GroupID g \<and> group_inv g' \<and> (\<forall>i. mget (Members g') i = survives now (mget (Members g) i))"

lemma expireGroups_correct:
  assumes "\<And>x. visits (pick x)" and "\<And>x. visits (visit x)"
    and "distinct gids" and "\<forall>i g. mget gs i = Some g \<longrightarrow> group_inv g" and "gomap_ok gs"
    and "expireGroups visit pick now gids gs = (gs', evicted)"
  shows "gomap_ok gs'"
    and "rel_option (if gid \<in> set gids then checked now else (=)) (mget gs gid) (mget gs' gid)"
proof -
  have "gomap_ok gs' \<and>
    (\<forall>gid. rel_option (if gid \<in> set gids then checked now else (=)) (mget gs gid) (mget gs' gid))"
    using assms(3-6)
  proof (induction gids arbitrary: gs evicted)
    case Nil
    then show ?case by (simp add: option.rel_eq)
  next
    case (Cons i gids)
    show ?case
    proof (cases "mget gs i")
      case None
      with Cons have "gomap_ok gs' \<and>
        (\<forall>gid. rel_option (if gid \<in> set gids then checked now else (=)) (mget gs gid) (mget gs' gid))"
        by auto
      with None show ?thesis by (auto simp: option.rel_eq dest: spec [of _ i] split: if_splits)
    next
      case (Some g)
      obtain g' ev1 ev2 where mem: "expireMembers pick now (visit i (mkeys (Members g))) g = (g', ev1)"
        and rest: "expireGroups visit pick now gids (mput i g' gs) = (gs', ev2)"
        using Cons.prems(4) Some by (auto split: prod.splits)
      have "group_inv g" using Cons.prems(2) Some by blast
      note e = expire_all_members [OF this assms(1) assms(2) mem]
      have "checked now g g'" using e by (simp add: checked_def)
      moreover have IH: "gomap_ok gs' \<and> (\<forall>gid. rel_option (if gid \<in> set gids then checked now else (=))
          (mget (mput i g' gs) gid) (mget gs' gid))"
        using Cons.prems e(1) by (intro Cons.IH [OF _ _ _ rest]) auto
      moreover have "mget gs' i = Some g'"
        using IH Cons.prems(1) by (auto simp: option.rel_eq dest!: spec [of _ i] split: if_splits)
      ultimately show ?thesis
        using Some Cons.prems(1) by (auto simp: option.rel_eq dest: spec [of _ i] split: if_splits)
    qed
  qed
  then show "gomap_ok gs'"
    and "rel_option (if gid \<in> set gids then checked now else (=)) (mget gs gid) (mget gs' gid)"
    by blast+
qed

lemma CheckHeartbeatTimeouts_correct:
  assumes inv: "gc_inv gc" and "\<And>x. visits (pick x)" and "\<And>x. visits (visit x)" and "visits gorder"
    and run: "CheckHeartbeatTimeouts gorder visit pick now gc = (gc', evicted)"
  shows "gc_inv gc'" and "rel_option (checked now) (mget (groups gc) gid) (mget (groups gc') gid)"
proof -
  obtain gs where ex: "expireGroups visit pick now (gorder (mkeys (groups gc))) (groups gc) = (gs, evicted)"
    and gc': "gc' = gc\<lparr>groups := gs\<rparr>"
    using run by (auto simp: CheckHeartbeatTimeouts_def split: prod.splits)
  have ids: "distinct (gorder (mkeys (groups gc)))" "set (gorder (mkeys (groups gc))) = fst ` set (groups gc)"
    using inv assms(4) by (simp_all add: gc_inv_def gomap_ok_def visits_def)
  have gs: "gomap_ok (groups gc)" "\<forall>i g. mget (groups gc) i = Some g \<longrightarrow> group_inv g"
    using inv by (simp_all add: gc_inv_def)
  note e = expireGroups_correct [OF assms(2,3) ids(1) gs(2,1) ex, unfolded ids(2)]
  show rel: "rel_option (checked now) (mget (groups gc) gid) (mget (groups gc') gid)" for gid
    using e(2) [of gid] mget_in_keys [of "groups gc" gid] gc'
    by (cases "mget (groups gc) gid") (auto split: if_splits)
  have "GroupID h = i \<and> i \<noteq> [] \<and> group_inv h" if "mget (groups gc') i = Some h" for i h
    using rel [of i] that inv by (auto simp: option_rel_Some2 checked_def gc_inv_def)
  then show "gc_inv gc'" using e(1) gc' by (auto simp: gc_inv_def)
qed


section \<open>The operations keep the invariant\<close>

lemma GetOrCreateGroup_inv:
  assumes "gc_inv gc" and "gid \<noteq> []" and "GetOrCreateGroup gc gid pt = (gc1, r)"
  shows "gc_inv gc1" and "r = Inr g \<Longrightarrow> group_inv g \<and> GroupID g = gid"
proof -
  let ?new = "\<lparr>GroupID = gid, State = GroupStateEmpty, cg_ProtocolType = pt, cg_Protocol = [],
    LeaderID = [], GenerationID = 0, Members = []\<rparr>"
  have new: "group_inv ?new" by (simp add: group_inv_def)
  have "gc_inv gc1 \<and> (r = Inr g \<longrightarrow> group_inv g \<and> GroupID g = gid)"
  proof (cases "mget (groups gc) gid")
    case None
    with assms(2,3) new gc_inv_update [OF assms(1) new _ assms(2)] assms(1) show ?thesis
      by (auto simp: GetOrCreateGroup_def Let_def split: if_splits)
  next
    case (Some h)
    then have "group_inv h \<and> GroupID h = gid" using assms(1) by (simp add: gc_inv_def)
    with Some assms(1,3) show ?thesis by (auto simp: GetOrCreateGroup_def)
  qed
  then show "gc_inv gc1" and "r = Inr g \<Longrightarrow> group_inv g \<and> GroupID g = gid" by simp_all
qed

lemma AddMember_inv:
  assumes "gc_inv gc"
  shows "gc_inv (fst (AddMember now gc gid cid host st rt pt ps))"
proof (cases "gid = []")
  case True
  with assms show ?thesis by (simp add: AddMember_def)
next
  case False
  obtain gc1 r where run: "GetOrCreateGroup gc gid pt = (gc1, r)" by (cases "GetOrCreateGroup gc gid pt")
  show ?thesis
  proof (cases r)
    case (Inl e)
    with False run GetOrCreateGroup_inv [OF assms False run] show ?thesis by (simp add: AddMember_def)
  next
    case (Inr g)
    note i = GetOrCreateGroup_inv(1) [OF assms False run] GetOrCreateGroup_inv(2) [OF assms False run Inr]
    have "LeaderID g \<noteq> [] \<Longrightarrow> LeaderID g \<in> fst ` set (Members g)"
      using i(2) by (auto simp: group_inv_def split: if_splits)
    with i False run Inr show ?thesis
      by (auto simp: AddMember_def Let_def group_inv_def intro!: gc_inv_update)
  qed
qed

lemma RemoveMember_inv:
  assumes inv: "gc_inv gc" and pick: "\<And>x. visits (pick x)"
  shows "gc_inv (fst (RemoveMember pick gc gid mid))"
proof (cases "\<exists>g. mget (groups gc) gid = Some g \<and> mget (Members g) mid \<noteq> None")
  case True
  then obtain g where g: "mget (groups gc) gid = Some g" "mget (Members g) mid \<noteq> None" by blast
  with inv have gi: "group_inv g" "GroupID g = gid" "gid \<noteq> []" by (auto simp: gc_inv_def)
  have ok: "gomap_ok (mdel mid (Members g))"
    "\<forall>j m. mget (mdel mid (Members g)) j = Some m \<longrightarrow> MemberID m = j \<and> j \<noteq> []"
    using gi(1) by (auto simp: group_inv_def)
  show ?thesis
  proof (cases "mdel mid (Members g) = []")
    case True
    with g gi inv show ?thesis
      by (auto simp: RemoveMember_def Let_def group_inv_def intro!: gc_inv_update)
  next
    case False
    note l = leader_after_delete [OF gi(1) pick False, where gid = gid and dflt = "LeaderID g"]
    from g gi inv False ok l show ?thesis
      by (auto simp: RemoveMember_def Let_def group_inv_def intro!: gc_inv_update)
  qed
next
  case False
  with inv show ?thesis by (auto simp: RemoveMember_def split: option.splits)
qed

text \<open>
  In a coordinator that satisfies the invariant a heartbeat cannot succeed: the group of a
  known member is preparing a rebalance.
\<close>

lemma Heartbeat_rejected:
  assumes "gc_inv gc"
  shows "fst (Heartbeat t gc gid mid) = gc" and "snd (Heartbeat t gc gid mid) \<noteq> None"
proof -
  have "State g = GroupStatePreparingRebalance"
    if "mget (groups gc) gid = Some g" "mget (Members g) mid = Some m" for g m
    using that assms by (auto simp: gc_inv_def group_inv_def split: if_splits)
  then show "fst (Heartbeat t gc gid mid) = gc" and "snd (Heartbeat t gc gid mid) \<noteq> None"
    by (auto simp: Heartbeat_def split: option.splits)
qed

lemma gc_reach_inv: "gc_reach gc \<Longrightarrow> gc_inv gc"
proof (induction rule: gc_reach.induct)
  case init
  then show ?case by (simp add: gc_inv_def NewGroupCoordinator_def)
next
  case (limit gc mx)
  then show ?case by (simp add: SetMaxGroups_def gc_inv_def)
next
  case (expire gc pick visit gorder t)
  obtain gc' ev where run: "CheckHeartbeatTimeouts gorder visit pick t gc = (gc', ev)" by fastforce
  from CheckHeartbeatTimeouts_correct(1) [OF expire.IH expire.hyps(2,3,4) run] run show ?case by simp
qed (simp_all add: AddMember_inv RemoveMember_inv Heartbeat_rejected)

end
