(* ===== verification/Txn_Coordinator.thy ===== *)
theory Txn_Coordinator
  imports Go_Map "HOL-Library.Multiset"
begin

text \<open>
  \<open>src/internal/coordinator/transaction.go\<close>: producer identifiers, producer epochs, the
  partitions of a transaction and the per-partition sequence numbers of idempotent
  producers. Each method holds the coordinator's mutex: one call is one step, and a
  history is a list of calls (\<open>txn_call\<close>).

  Epochs are 16-bit and producer identifiers 64-bit integers that wrap.
\<close>

record TxnPartitionTarget =
  tt_Topic :: string
  tt_Partition :: i32

record TxnMetaData =
  TransactionalId :: string
  ProducerId :: i64
  ProducerEpoch :: i16
  txn_State :: string
  Partitions :: "(string, i32 list) gomap"

record TransactionCoordinator =
  producerIdCounter :: i64
  txns :: "(string, TxnMetaData) gomap"
  producerTxns :: "(i64, string) gomap"
  sequences :: "(string, i32) gomap"

definition NewTransactionCoordinator :: TransactionCoordinator where
  "NewTransactionCoordinator =
     \<lparr>producerIdCounter = 1000, txns = [], producerTxns = [], sequences = []\<rparr>"

definition InitProducerId ::
  "TransactionCoordinator \<Rightarrow> string option \<Rightarrow> i32 \<Rightarrow> TransactionCoordinator \<times> i64 \<times> i16" where
  "InitProducerId tc transactionalId timeoutMs =
     (let pid = producerIdCounter tc + 1
      in case transactionalId of
           None \<Rightarrow> (tc\<lparr>producerIdCounter := pid\<rparr>, pid, 0)
         | Some txId \<Rightarrow>
             if txId = '''' then (tc\<lparr>producerIdCounter := pid\<rparr>, pid, 0)
             else case mget (txns tc) txId of
                    None \<Rightarrow>
                      (tc\<lparr>producerIdCounter := pid,
                          txns := mput txId
                            \<lparr>TransactionalId = txId, ProducerId = pid, ProducerEpoch = 0,
                             txn_State = ''Empty'', Partitions = []\<rparr> (txns tc),
                          producerTxns := mput pid txId (producerTxns tc)\<rparr>, pid, 0)
                  | Some txn \<Rightarrow>
                      let txn' = txn\<lparr>ProducerEpoch := ProducerEpoch txn + 1,
                                     txn_State := ''Empty'', Partitions := []\<rparr>
                      in (tc\<lparr>txns := mput txId txn' (txns tc)\<rparr>, ProducerId txn', ProducerEpoch txn'))"

text \<open>The transaction a request may act on: known, with the producer's id and epoch.\<close>

definition liveTxn :: "TransactionCoordinator \<Rightarrow> string \<Rightarrow> i64 \<Rightarrow> i16 \<Rightarrow> TxnMetaData option" where
  "liveTxn tc txId pid epoch =
     (case mget (txns tc) txId of
        None \<Rightarrow> None
      | Some txn \<Rightarrow>
          if ProducerId txn \<noteq> pid \<or> ProducerEpoch txn \<noteq> epoch then None else Some txn)"

definition txnError :: "string \<Rightarrow> go_error" where
  "txnError txId = ErrText (''invalid producer epoch or transactional ID '' @ txId)"

definition AddPartitionsToTxn ::
  "TransactionCoordinator \<Rightarrow> string \<Rightarrow> i64 \<Rightarrow> i16 \<Rightarrow> string \<Rightarrow> i32 list \<Rightarrow>
   TransactionCoordinator \<times> go_error option" where
  "AddPartitionsToTxn tc txId pid epoch topic parts =
     (case liveTxn tc txId pid epoch of
        None \<Rightarrow> (tc, Some (txnError txId))
      | Some txn \<Rightarrow>
          let old = (case mget (Partitions txn) topic of None \<Rightarrow> [] | Some ps \<Rightarrow> ps);
              txn' = txn\<lparr>txn_State := ''Ongoing'', Partitions := mput topic (old @ parts) (Partitions txn)\<rparr>
          in (tc\<lparr>txns := mput txId txn' (txns tc)\<rparr>, None))"

text \<open>\<open>order\<close> is the order in which \<open>range\<close> walks the topics of the transaction.\<close>

definition topicTargets :: "(string, i32 list) gomap \<Rightarrow> string \<Rightarrow> TxnPartitionTarget list" where
  "topicTargets m topic =
     (case mget m topic of
        None \<Rightarrow> []
      | Some parts \<Rightarrow> map (\<lambda>part. \<lparr>tt_Topic = topic, tt_Partition = part\<rparr>) parts)"

definition EndTxn ::
  "(string list \<Rightarrow> string list) \<Rightarrow> TransactionCoordinator \<Rightarrow> string \<Rightarrow> i64 \<Rightarrow> i16 \<Rightarrow> bool \<Rightarrow>
   TransactionCoordinator \<times> (go_error + TxnPartitionTarget list)" where
  "EndTxn order tc txId pid epoch committed =
     (case liveTxn tc txId pid epoch of
        None \<Rightarrow> (tc, Inl (txnError txId))
      | Some txn \<Rightarrow>
          let targets = concat (map (topicTargets (Partitions txn)) (order (mkeys (Partitions txn))));
              txn' = txn\<lparr>txn_State := (if committed then ''CompleteCommit'' else ''CompleteAbort''),
                         Partitions := []\<rparr>
          in (tc\<lparr>txns := mput txId txn' (txns tc)\<rparr>, Inr targets))"

definition CheckAndSetSequence ::
  "TransactionCoordinator \<Rightarrow> i64 \<Rightarrow> string \<Rightarrow> i32 \<Rightarrow> i32 \<Rightarrow> TransactionCoordinator \<times> bool" where
  "CheckAndSetSequence tc pid topic part seq =
     (let key = sequenceKey pid topic part
      in case mget (sequences tc) key of
           None \<Rightarrow> (tc\<lparr>sequences := mput key seq (sequences tc)\<rparr>, False)
         | Some lastSeq \<Rightarrow>
             if sint seq \<le> sint lastSeq then (tc, True)
             else (tc\<lparr>sequences := mput key seq (sequences tc)\<rparr>, False))"


section \<open>Histories\<close>

datatype txn_call =
    CallInit "string option" i32
  | CallAdd string i64 i16 string "i32 list"
  | CallEnd string i64 i16 bool
  | CallSeq i64 string i32 i32

fun tc_exec :: "(string list \<Rightarrow> string list) \<Rightarrow> TransactionCoordinator \<Rightarrow> txn_call \<Rightarrow> TransactionCoordinator" where
  "tc_exec order tc (CallInit t ms) = fst (InitProducerId tc t ms)"
| "tc_exec order tc (CallAdd t pid ep topic ps) = fst (AddPartitionsToTxn tc t pid ep topic ps)"
| "tc_exec order tc (CallEnd t pid ep c) = fst (EndTxn order tc t pid ep c)"
| "tc_exec order tc (CallSeq pid topic p s) = fst (CheckAndSetSequence tc pid topic p s)"

definition tc_run :: "(string list \<Rightarrow> string list) \<Rightarrow> TransactionCoordinator \<Rightarrow> txn_call list \<Rightarrow> TransactionCoordinator" where
  "tc_run order = foldl (tc_exec order)"

lemma tc_run_simps [simp]:
  "tc_run order tc [] = tc" "tc_run order tc (c # cs) = tc_run order (tc_exec order tc c) cs"
  "tc_run order tc (cs @ [c]) = tc_exec order (tc_run order tc cs) c"
  by (simp_all add: tc_run_def)

fun_cases tc_execE: "tc_exec order tc c = tc'"


section \<open>Producer identifiers\<close>

text \<open>Every transaction owns its producer id, and all ids in use were handed out.\<close>

definition tc_inv :: "TransactionCoordinator \<Rightarrow> bool" where
  "tc_inv tc \<longleftrightarrow>
     1000 \<le> sint (producerIdCounter tc) \<and>
     (\<forall>t txn. mget (txns tc) t = Some txn \<longrightarrow>
        t \<noteq> [] \<and> TransactionalId txn = t \<and> mget (producerTxns tc) (ProducerId txn) = Some t) \<and>
     (\<forall>pid t. mget (producerTxns tc) pid = Some t \<longrightarrow> sint pid \<le> sint (producerIdCounter tc))"

lemma sint_Suc64:
  fixes x :: i64
  assumes "sint x < 2 ^ 63 - 1"
  shows "sint (x + 1) = sint x + 1"
proof -
  have "- (2 ^ 63) \<le> sint x" using sint_greater_eq [of x] by simp
  with assms have "signed_take_bit 63 (sint x + 1) = sint x + 1"
    by (intro signed_take_bit_int_eq_self) auto
  then show ?thesis by (simp add: sint_word_ariths)
qed

lemma liveTxn_Some:
  "liveTxn tc t pid ep = Some txn \<longleftrightarrow>
     mget (txns tc) t = Some txn \<and> ProducerId txn = pid \<and> ProducerEpoch txn = ep"
  by (auto simp: liveTxn_def split: option.splits)

lemma tc_inv_exec:
  assumes inv: "tc_inv tc" and bound: "sint (producerIdCounter tc) < 2 ^ 63 - 1"
  shows "tc_inv (tc_exec order tc c)"
proof (cases c)
  case (CallInit t ms)
  show ?thesis
    using inv sint_Suc64 [OF bound] unfolding CallInit tc_inv_def
    by (auto simp: InitProducerId_def Let_def split: option.splits if_splits) force+
next
  case (CallAdd t pid ep topic ps)
  then show ?thesis
    using inv by (auto simp: AddPartitionsToTxn_def Let_def tc_inv_def liveTxn_Some split: option.splits)
next
  case (CallEnd t pid ep b)
  then show ?thesis
    using inv by (auto simp: EndTxn_def Let_def tc_inv_def liveTxn_Some split: option.splits)
next
  case (CallSeq pid topic p s)
  then show ?thesis
    using inv by (auto simp: CheckAndSetSequence_def Let_def tc_inv_def split: option.splits)
qed

lemma counter_exec:
  assumes "sint (producerIdCounter tc) < 2 ^ 63 - 1"
  shows "sint (producerIdCounter tc) \<le> sint (producerIdCounter (tc_exec order tc c))"
    and "sint (producerIdCounter (tc_exec order tc c)) \<le> sint (producerIdCounter tc) + 1"
  using sint_Suc64 [OF assms]
  by (cases c; auto simp: InitProducerId_def AddPartitionsToTxn_def EndTxn_def
      CheckAndSetSequence_def Let_def split: option.splits)+

lemma tc_run_inv:
  assumes "tc_inv tc" and "sint (producerIdCounter tc) + int (length cs) < 2 ^ 63"
  shows "tc_inv (tc_run order tc cs)" and
    "sint (producerIdCounter tc) \<le> sint (producerIdCounter (tc_run order tc cs))" and
    "sint (producerIdCounter (tc_run order tc cs)) \<le> sint (producerIdCounter tc) + int (length cs)"
proof -
  have "tc_inv (tc_run order tc cs) \<and>
    sint (producerIdCounter tc) \<le> sint (producerIdCounter (tc_run order tc cs)) \<and>
    sint (producerIdCounter (tc_run order tc cs)) \<le> sint (producerIdCounter tc) + int (length cs)"
    using assms(2)
  proof (induction cs rule: rev_induct)
    case Nil
    with assms(1) show ?case by simp
  next
    case (snoc c cs)
    then have b: "sint (producerIdCounter (tc_run order tc cs)) < 2 ^ 63 - 1" by simp
    from snoc counter_exec [OF b, of order c] tc_inv_exec [OF _ b, of order c]
    show ?case by simp
  qed
  then show "tc_inv (tc_run order tc cs)" and
    "sint (producerIdCounter tc) \<le> sint (producerIdCounter (tc_run order tc cs))" and
    "sint (producerIdCounter (tc_run order tc cs)) \<le> sint (producerIdCounter tc) + int (length cs)"
    by auto
qed

lemma NewTransactionCoordinator_inv: "tc_inv NewTransactionCoordinator"
  by (simp add: tc_inv_def NewTransactionCoordinator_def)

text \<open>Two transactional ids never share a producer id.\<close>

lemma tc_inv_pid_unique:
  assumes "tc_inv tc" and "mget (txns tc) t = Some txn" and "mget (txns tc) t' = Some txn'"
    and "ProducerId txn = ProducerId txn'"
  shows "t = t'"
proof -
  have "mget (producerTxns tc) (ProducerId txn) = Some t" "mget (producerTxns tc) (ProducerId txn') = Some t'"
    using assms(1-3) by (simp_all add: tc_inv_def)
  with assms(4) show ?thesis by simp
qed


section \<open>Fencing\<close>

fun inits_of :: "string \<Rightarrow> txn_call \<Rightarrow> bool" where
  "inits_of t (CallInit (Some t') ms) = (t' = t)"
| "inits_of t c = False"

lemma epoch_exec:
  assumes "mget (txns tc) t = Some txn" and "t \<noteq> []"
  shows "\<exists>txn'. mget (txns (tc_exec order tc c)) t = Some txn' \<and> ProducerId txn' = ProducerId txn \<and>
    ProducerEpoch txn' = ProducerEpoch txn + (if inits_of t c then 1 else 0)"
proof (cases c)
  case (CallInit t' ms)
  with assms show ?thesis
    by (cases t') (auto simp: InitProducerId_def Let_def split: option.splits)
next
  case (CallAdd t' pid ep topic ps)
  with assms show ?thesis
    by (auto simp: AddPartitionsToTxn_def Let_def liveTxn_Some split: option.splits)
next
  case (CallEnd t' pid ep b)
  with assms show ?thesis
    by (auto simp: EndTxn_def Let_def liveTxn_Some split: option.splits)
next
  case (CallSeq pid topic p s)
  with assms show ?thesis
    by (auto simp: CheckAndSetSequence_def Let_def split: option.splits)
qed

text \<open>The epoch of a transaction counts the calls of \<open>InitProducerId\<close> for its id.\<close>

lemma epoch_run:
  assumes "mget (txns tc) t = Some txn" and "t \<noteq> []"
  shows "\<exists>txn'. mget (txns (tc_run order tc cs)) t = Some txn' \<and> ProducerId txn' = ProducerId txn \<and>
    ProducerEpoch txn' = ProducerEpoch txn + of_nat (length (filter (inits_of t) cs))"
proof (induction cs rule: rev_induct)
  case Nil
  with assms show ?case by simp
next
  case (snoc c cs)
  then obtain txn1 where t1: "mget (txns (tc_run order tc cs)) t = Some txn1"
    "ProducerId txn1 = ProducerId txn"
    "ProducerEpoch txn1 = ProducerEpoch txn + of_nat (length (filter (inits_of t) cs))"
    by blast
  from epoch_exec [OF t1(1) assms(2), of order c] t1(2,3) show ?case by auto
qed

lemma of_nat16_neq_0:
  assumes "0 < n" and "n < 2 ^ 16"
  shows "(of_nat n :: i16) \<noteq> 0"
  using assms by (auto simp: word_of_nat_eq_0_iff dest: nat_dvd_not_less)

lemma fenced:
  assumes "mget (txns tc) t = Some txn" and "t \<noteq> []"
    and "0 < length (filter (inits_of t) cs)" and "length (filter (inits_of t) cs) < 2 ^ 16"
  shows "liveTxn (tc_run order tc cs) t pid (ProducerEpoch txn) = None"
proof -
  from epoch_run [OF assms(1,2), of order cs] obtain txn' where
    "mget (txns (tc_run order tc cs)) t = Some txn'"
    "ProducerEpoch txn' = ProducerEpoch txn + of_nat (length (filter (inits_of t) cs))"
    by blast
  with of_nat16_neq_0 [OF assms(3,4)] show ?thesis by (simp add: liveTxn_def)
qed


section \<open>Idempotent sequence numbers\<close>

definition lastSeq :: "TransactionCoordinator \<Rightarrow> i64 \<Rightarrow> string \<Rightarrow> i32 \<Rightarrow> i32 option" where
  "lastSeq tc pid topic part = mget (sequences tc) (sequenceKey pid topic part)"

lemma lastSeq_other:
  assumes "(pid', topic', part') \<noteq> (pid, topic, part)"
  shows "lastSeq (fst (CheckAndSetSequence tc pid' topic' part' s)) pid topic part = lastSeq tc pid topic part"
  using assms sequenceKey_inj [of pid topic part pid' topic' part']
  by (auto simp: lastSeq_def CheckAndSetSequence_def Let_def split: option.splits)

lemma lastSeq_exec_mono:
  assumes "lastSeq tc pid topic part = Some s"
  shows "\<exists>s'. lastSeq (tc_exec order tc c) pid topic part = Some s' \<and> sint s \<le> sint s'"
proof (cases c)
  case (CallSeq pid' topic' part' s')
  show ?thesis
  proof (cases "(pid', topic', part') = (pid, topic, part)")
    case True
    with assms CallSeq show ?thesis
      by (auto simp: lastSeq_def CheckAndSetSequence_def Let_def)
  next
    case False
    with assms CallSeq lastSeq_other [OF False] show ?thesis by simp
  qed
qed (use assms in \<open>auto simp: lastSeq_def InitProducerId_def AddPartitionsToTxn_def EndTxn_def Let_def split: option.splits\<close>)

lemma lastSeq_run_mono:
  assumes "lastSeq tc pid topic part = Some s"
  shows "\<exists>s'. lastSeq (tc_run order tc cs) pid topic part = Some s' \<and> sint s \<le> sint s'"
proof (induction cs rule: rev_induct)
  case Nil
  with assms show ?case by simp
next
  case (snoc c cs)
  then obtain s1 where s1: "lastSeq (tc_run order tc cs) pid topic part = Some s1" "sint s \<le> sint s1"
    by blast
  from lastSeq_exec_mono [OF s1(1), of order c] s1(2) show ?case by fastforce
qed

lemma CheckAndSetSequence_result:
  "snd (CheckAndSetSequence tc pid topic part s) \<longleftrightarrow>
     (\<exists>l. lastSeq tc pid topic part = Some l \<and> sint s \<le> sint l)"
  "\<exists>l. lastSeq (fst (CheckAndSetSequence tc pid topic part s)) pid topic part = Some l \<and> sint s \<le> sint l"
  by (auto simp: CheckAndSetSequence_def lastSeq_def Let_def split: option.splits)

text \<open>Whatever happens in between, a sequence number is accepted at most once.\<close>

lemma retry_is_duplicate:
  assumes "sint s' \<le> sint s"
  shows "snd (CheckAndSetSequence
    (tc_run order (fst (CheckAndSetSequence tc pid topic part s)) cs) pid topic part s')"
proof -
  from CheckAndSetSequence_result(2) [of tc pid topic part s] obtain l where
    "lastSeq (fst (CheckAndSetSequence tc pid topic part s)) pid topic part = Some l" "sint s \<le> sint l"
    by blast
  with lastSeq_run_mono [of _ pid topic part l order cs] assms show ?thesis
    unfolding CheckAndSetSequence_result(1) by fastforce
qed


section \<open>The partitions of a transaction\<close>

definition txn_targets :: "(string, i32 list) gomap \<Rightarrow> TxnPartitionTarget multiset" where
  "txn_targets m = (\<Sum>t \<in> set (mkeys m). mset (topicTargets m t))"

lemma mset_concat_distinct:
  "distinct ks \<Longrightarrow> mset (concat (map f ks)) = (\<Sum>k \<in> set ks. mset (f k))"
  by (induction ks) auto

lemma EndTxn_targets:
  assumes "liveTxn tc t pid ep = Some txn" and "gomap_ok (Partitions txn)" and "visits order"
    and "EndTxn order tc t pid ep c = (tc', r)"
  shows "\<exists>targets. r = Inr targets \<and> mset targets = txn_targets (Partitions txn)"
proof -
  have v: "distinct (order (mkeys (Partitions txn)))"
    "set (order (mkeys (Partitions txn))) = set (mkeys (Partitions txn))"
    using assms(2,3) by (simp_all add: visits_def gomap_ok_def)
  show ?thesis
    using assms(1,4) mset_concat_distinct [OF v(1), of "topicTargets (Partitions txn)"] v(2)
    by (auto simp: EndTxn_def Let_def txn_targets_def)
qed

lemma txn_targets_Nil [simp]: "txn_targets [] = {#}"
  by (simp add: txn_targets_def)

lemma txn_targets_add:
  "txn_targets (mput topic ((case mget m topic of None \<Rightarrow> [] | Some ps \<Rightarrow> ps) @ ps') m) =
     txn_targets m + mset (map (\<lambda>p. \<lparr>tt_Topic = topic, tt_Partition = p\<rparr>) ps')"
proof -
  let ?m = "mput topic ((case mget m topic of None \<Rightarrow> [] | Some ps \<Rightarrow> ps) @ ps') m"
  let ?K = "set (mkeys m)"
  have same: "topicTargets ?m t = topicTargets m t" if "t \<noteq> topic" for t
    using that by (simp add: topicTargets_def)
  have new: "mset (topicTargets ?m topic) =
      mset (topicTargets m topic) + mset (map (\<lambda>p. \<lparr>tt_Topic = topic, tt_Partition = p\<rparr>) ps')"
    by (auto simp: topicTargets_def split: option.splits)
  have keys: "set (mkeys ?m) = insert topic ?K" by (rule mkeys_mput)
  have rest: "(\<Sum>t \<in> ?K - {topic}. mset (topicTargets ?m t)) = (\<Sum>t \<in> ?K - {topic}. mset (topicTargets m t))"
    using same by (intro sum.cong) auto
  have none: "topic \<notin> ?K \<Longrightarrow> topicTargets m topic = []"
    using map_of_eq_None_iff [of m topic] by (simp add: topicTargets_def)
  have "txn_targets ?m = mset (topicTargets ?m topic) + (\<Sum>t \<in> ?K - {topic}. mset (topicTargets m t))"
    unfolding txn_targets_def keys rest [symmetric] by (rule sum.insert_remove) simp
  moreover have "txn_targets m = mset (topicTargets m topic) + (\<Sum>t \<in> ?K - {topic}. mset (topicTargets m t))"
  proof (cases "topic \<in> ?K")
    case True
    then show ?thesis unfolding txn_targets_def by (simp add: sum.remove del: set_map)
  next
    case False
    with none show ?thesis unfolding txn_targets_def by (simp del: set_map)
  qed
  ultimately show ?thesis using new by (simp add: ac_simps)
qed

end
