(* ===== verification/Replication.thy ===== *)
theory Replication
  imports Go_Map
begin

text \<open>
  \<open>src/internal/replication/replica_manager.go\<close> and \<open>fetcher.go\<close>: replica positions, the
  in-sync set and the high watermark of a partition, and the fetch tasks of a follower.
  A call is one step (the code holds the partition's mutex). The fetch callback is an
  argument with its own state.
\<close>

record Replica =
  BrokerId :: i32
  rep_LEO :: i64

record PartitionState =
  ps_Topic :: string
  ps_PartitionId :: i32
  ps_LeaderId :: i32
  Replicas :: "(i32, Replica) gomap"
  ISR :: "i32 list"
  HighWatermark :: i64

record ReplicaManager =
  localBrokerId :: i32
  rm_partitions :: "(string, PartitionState) gomap"

definition NewReplicaManager :: "i32 \<Rightarrow> ReplicaManager" where
  "NewReplicaManager brokerId = \<lparr>localBrokerId = brokerId, rm_partitions = []\<rparr>"

definition addReplica :: "i32 \<Rightarrow> (i32, Replica) gomap \<Rightarrow> (i32, Replica) gomap" where
  "addReplica i m = mput i \<lparr>BrokerId = i, rep_LEO = 0\<rparr> m"

definition CreatePartition ::
  "ReplicaManager \<Rightarrow> string \<Rightarrow> i32 \<Rightarrow> i32 \<Rightarrow> i32 list \<Rightarrow> ReplicaManager \<times> PartitionState" where
  "CreatePartition rm topic partitionId leaderId replicaIds =
     (let key = partitionKey topic partitionId
      in case mget (rm_partitions rm) key of
           Some ps \<Rightarrow> (rm, ps)
         | None \<Rightarrow>
             let ps = \<lparr>ps_Topic = topic, ps_PartitionId = partitionId, ps_LeaderId = leaderId,
                       Replicas = fold addReplica replicaIds [], ISR = replicaIds, HighWatermark = 0\<rparr>
             in (rm\<lparr>rm_partitions := mput key ps (rm_partitions rm)\<rparr>, ps))"

definition minStep :: "(i32, Replica) gomap \<Rightarrow> i64 \<Rightarrow> i32 \<Rightarrow> i64" where
  "minStep reps minISRLEO isrId =
     (case mget reps isrId of
        None \<Rightarrow> minISRLEO
      | Some r \<Rightarrow>
          if minISRLEO = -1 \<or> sint (rep_LEO r) < sint minISRLEO then rep_LEO r else minISRLEO)"

definition UpdateFollowerLEO ::
  "ReplicaManager \<Rightarrow> string \<Rightarrow> i32 \<Rightarrow> i32 \<Rightarrow> i64 \<Rightarrow> ReplicaManager \<times> i64 \<times> go_error option" where
  "UpdateFollowerLEO rm topic partitionId followerId leo =
     (let key = partitionKey topic partitionId
      in case mget (rm_partitions rm) key of
           None \<Rightarrow> (rm, 0, Some (ErrText (''partition state not found for '' @ key)))
         | Some ps \<Rightarrow>
             (case mget (Replicas ps) followerId of
                None \<Rightarrow> (rm, HighWatermark ps,
                         Some (ErrText (''replica '' @ show_int (sint followerId) @ '' not found in partition '' @ key)))
              | Some replica \<Rightarrow>
                  let reps = mput followerId (replica\<lparr>rep_LEO := leo\<rparr>) (Replicas ps);
                      minISRLEO = foldl (minStep reps) (-1) (ISR ps);
                      ps' = ps\<lparr>Replicas := reps,
                               HighWatermark := (if sint (HighWatermark ps) < sint minISRLEO
                                                 then minISRLEO else HighWatermark ps)\<rparr>
                  in (rm\<lparr>rm_partitions := mput key ps' (rm_partitions rm)\<rparr>, HighWatermark ps', None)))"

definition GetHighWatermark :: "ReplicaManager \<Rightarrow> string \<Rightarrow> i32 \<Rightarrow> i64" where
  "GetHighWatermark rm topic partitionId =
     (case mget (rm_partitions rm) (partitionKey topic partitionId) of
        None \<Rightarrow> 0 | Some ps \<Rightarrow> HighWatermark ps)"


section \<open>The fetcher\<close>

record FetchTopicPartition =
  ft_Topic :: string
  ft_PartitionId :: i32
  FetchOffset' :: i64

record ReplicationFetcher =
  rf_localBrokerId :: i32
  leaderAddr :: string
  intervalMs :: int
  tasks :: "(string, FetchTopicPartition) gomap"
  rf_quit :: bool
  rf_wg :: nat

definition NewReplicationFetcher :: "i32 \<Rightarrow> string \<Rightarrow> int \<Rightarrow> ReplicationFetcher" where
  "NewReplicationFetcher brokerId addr ms =
     \<lparr>rf_localBrokerId = brokerId, leaderAddr = addr, intervalMs = ms, tasks = [], rf_quit = False, rf_wg = 0\<rparr>"

definition AddFetchTask :: "ReplicationFetcher \<Rightarrow> string \<Rightarrow> i32 \<Rightarrow> i64 \<Rightarrow> ReplicationFetcher" where
  "AddFetchTask rf topic partitionId initialOffset =
     rf\<lparr>tasks := mput (partitionKey topic partitionId)
                   \<lparr>ft_Topic = topic, ft_PartitionId = partitionId, FetchOffset' = initialOffset\<rparr> (tasks rf)\<rparr>"

definition RemoveFetchTask :: "ReplicationFetcher \<Rightarrow> string \<Rightarrow> i32 \<Rightarrow> ReplicationFetcher" where
  "RemoveFetchTask rf topic partitionId = rf\<lparr>tasks := mdel (partitionKey topic partitionId) (tasks rf)\<rparr>"

text \<open>\<open>keys\<close>: the tasks in the order of the copy the loop walks.\<close>

fun fetchTasks ::
  "('w \<Rightarrow> string \<Rightarrow> i32 \<Rightarrow> i64 \<Rightarrow> 'w \<times> (go_error + i64)) \<Rightarrow> string list \<Rightarrow>
   'w \<times> (string, FetchTopicPartition) gomap \<Rightarrow> 'w \<times> (string, FetchTopicPartition) gomap" where
  "fetchTasks cb [] st = st"
| "fetchTasks cb (key # keys) (w, ts) =
     (case mget ts key of
        None \<Rightarrow> fetchTasks cb keys (w, ts)
      | Some task \<Rightarrow>
          (case cb w (ft_Topic task) (ft_PartitionId task) (FetchOffset' task) of
             (w', Inl e) \<Rightarrow> fetchTasks cb keys (w', ts)
           | (w', Inr next) \<Rightarrow>
               fetchTasks cb keys
                 (w', if sint (FetchOffset' task) < sint next
                      then mput key (task\<lparr>FetchOffset' := next\<rparr>) ts else ts)))"

definition fetchBatch ::
  "(string list \<Rightarrow> string list) \<Rightarrow> ('w \<Rightarrow> string \<Rightarrow> i32 \<Rightarrow> i64 \<Rightarrow> 'w \<times> (go_error + i64)) \<Rightarrow>
   'w \<Rightarrow> ReplicationFetcher \<Rightarrow> 'w \<times> ReplicationFetcher" where
  "fetchBatch order cb w rf =
     (case fetchTasks cb (order (mkeys (tasks rf))) (w, tasks rf) of
        (w', ts) \<Rightarrow> (w', rf\<lparr>tasks := ts\<rparr>))"

text \<open>
  The polling goroutine. \<open>NewTicker\<close> panics unless the interval, a 64-bit count of
  nanoseconds, is positive; \<open>Stop\<close> is modelled up to its wait, and closing \<open>quit\<close> twice panics.
\<close>

definition Fetcher_Start :: "ReplicationFetcher \<Rightarrow> go_error + ReplicationFetcher" where
  "Fetcher_Start rf =
     (if sint (of_int (intervalMs rf) * 1000000 :: i64) \<le> 0 then Inl Panic else Inr (rf\<lparr>rf_wg := rf_wg rf + 1\<rparr>))"

definition Fetcher_Stop :: "ReplicationFetcher \<Rightarrow> go_error + ReplicationFetcher" where
  "Fetcher_Stop rf = (if rf_quit rf then Inl Panic else Inr (rf\<lparr>rf_quit := True\<rparr>))"

text \<open>A turn of its loop; the order in which a map is walked differs from turn to turn.\<close>

inductive fetch_turn ::
  "('w \<Rightarrow> string \<Rightarrow> i32 \<Rightarrow> i64 \<Rightarrow> 'w \<times> (go_error + i64)) \<Rightarrow> 'w \<times> ReplicationFetcher \<Rightarrow> 'w \<times> ReplicationFetcher \<Rightarrow> bool"
  for cb where
  tick: "0 < rf_wg rf \<Longrightarrow> fetchBatch order cb w rf = (w', rf') \<Longrightarrow> fetch_turn cb (w, rf) (w', rf')"
| stopped: "0 < rf_wg rf \<Longrightarrow> rf_quit rf \<Longrightarrow> fetch_turn cb (w, rf) (w, rf\<lparr>rf_wg := rf_wg rf - 1\<rparr>)"


section \<open>The high watermark\<close>

definition leo_set :: "(i32, Replica) gomap \<Rightarrow> i32 list \<Rightarrow> int set" where
  "leo_set reps ids = {sint (rep_LEO r) | i r. i \<in> set ids \<and> mget reps i = Some r}"

definition isr_LEOs :: "PartitionState \<Rightarrow> int set" where
  "isr_LEOs ps = leo_set (Replicas ps) (ISR ps)"

lemma finite_leo_set: "finite (leo_set reps ids)"
proof -
  have "leo_set reps ids =
      (\<lambda>i. sint (rep_LEO (the (mget reps i)))) ` {i \<in> set ids. mget reps i \<noteq> None}"
    unfolding leo_set_def by force
  then show ?thesis by simp
qed

definition leo_nonneg :: "(i32, Replica) gomap \<Rightarrow> bool" where
  "leo_nonneg reps \<longleftrightarrow> (\<forall>i r. mget reps i = Some r \<longrightarrow> 0 \<le> sint (rep_LEO r))"

lemma sint_neg1: "sint (x :: i64) = -1 \<longleftrightarrow> x = -1"
  by (metis sint_n1 signed_word_eqI)

text \<open>With non-negative positions the loop computes the minimum, or -1 if there is none.\<close>

lemma minStep_fold:
  assumes "leo_nonneg reps" and "acc = -1 \<or> 0 \<le> sint acc"
  shows "if acc = -1 \<and> leo_set reps ids = {} then foldl (minStep reps) acc ids = -1
    else sint (foldl (minStep reps) acc ids) = Min (leo_set reps ids \<union> (if acc = -1 then {} else {sint acc}))"
  using assms(2)
proof (induction ids arbitrary: acc)
  case Nil
  then show ?case by (auto simp: leo_set_def)
next
  case (Cons i ids)
  let ?V = "leo_set reps"
  show ?case
  proof (cases "mget reps i")
    case None
    then have "?V (i # ids) = ?V ids" by (auto simp: leo_set_def)
    moreover have "minStep reps acc i = acc" using None by (simp add: minStep_def)
    ultimately show ?thesis using Cons.IH [OF Cons.prems] by (simp only: foldl_Cons)
  next
    case (Some r)
    have nn: "0 \<le> sint (rep_LEO r)" using assms(1) Some by (auto simp: leo_nonneg_def)
    then have r: "rep_LEO r \<noteq> -1" using sint_neg1 [of "rep_LEO r"] by auto
    have V: "?V (i # ids) = insert (sint (rep_LEO r)) (?V ids)" using Some by (auto simp: leo_set_def)
    let ?acc = "minStep reps acc i"
    have acc: "?acc = (if acc = -1 \<or> sint (rep_LEO r) < sint acc then rep_LEO r else acc)"
      using Some by (simp add: minStep_def)
    have nn': "?acc \<noteq> -1" "0 \<le> sint ?acc" using acc nn r Cons.prems by auto
    have "sint (foldl (minStep reps) ?acc ids) = Min (?V ids \<union> {sint ?acc})"
      using Cons.IH [of ?acc] nn' by simp
    moreover have "Min (?V ids \<union> {sint ?acc}) = Min (insert (sint (rep_LEO r)) (?V ids) \<union> (if acc = -1 then {} else {sint acc}))"
    proof (cases "acc = -1")
      case True
      then show ?thesis using acc by simp
    next
      case False
      then have "sint ?acc = min (sint (rep_LEO r)) (sint acc)" using acc by simp
      with False finite_leo_set [of reps ids] show ?thesis
        by (cases "?V ids = {}") (simp_all add: min.assoc min.commute min.left_commute)
    qed
    ultimately show ?thesis using V by simp
  qed
qed


definition rm_state :: "ReplicaManager \<Rightarrow> string \<Rightarrow> i32 \<Rightarrow> PartitionState option" where
  "rm_state rm topic p = mget (rm_partitions rm) (partitionKey topic p)"

text \<open>The state of a partition in good order: positions are counts and cover the watermark.\<close>

definition ps_inv :: "PartitionState \<Rightarrow> bool" where
  "ps_inv ps \<longleftrightarrow> leo_nonneg (Replicas ps) \<and> 0 \<le> sint (HighWatermark ps) \<and>
     (\<forall>v \<in> isr_LEOs ps. sint (HighWatermark ps) \<le> v)"

lemma UpdateFollowerLEO_effect:
  assumes "rm_state rm topic p = Some ps" and "mget (Replicas ps) f = Some r"
    and "leo_nonneg (Replicas ps)" and "0 \<le> sint leo" and "0 \<le> sint (HighWatermark ps)"
    and "UpdateFollowerLEO rm topic p f leo = (rm', hw, err)"
  shows "err = None"
    and "\<exists>ps'. rm_state rm' topic p = Some ps' \<and> HighWatermark ps' = hw \<and> ISR ps' = ISR ps \<and>
      Replicas ps' = mput f (r\<lparr>rep_LEO := leo\<rparr>) (Replicas ps) \<and>
      sint hw = (if isr_LEOs ps' = {} then sint (HighWatermark ps)
                 else max (sint (HighWatermark ps)) (Min (isr_LEOs ps')))"
    and "partitionKey topic' p' \<noteq> partitionKey topic p \<Longrightarrow> rm_state rm' topic' p' = rm_state rm topic' p'"
proof -
  let ?reps = "mput f (r\<lparr>rep_LEO := leo\<rparr>) (Replicas ps)"
  let ?min = "foldl (minStep ?reps) (-1) (ISR ps)"
  let ?ps = "ps\<lparr>Replicas := ?reps, HighWatermark := (if sint (HighWatermark ps) < sint ?min then ?min else HighWatermark ps)\<rparr>"
  have run: "rm' = rm\<lparr>rm_partitions := mput (partitionKey topic p) ?ps (rm_partitions rm)\<rparr>"
    "hw = HighWatermark ?ps" "err = None"
    using assms(1,2,6) by (auto simp: UpdateFollowerLEO_def rm_state_def Let_def)
  show "err = None" by (rule run(3))
  show "partitionKey topic' p' \<noteq> partitionKey topic p \<Longrightarrow> rm_state rm' topic' p' = rm_state rm topic' p'"
    using run(1) by (simp add: rm_state_def)
  have "leo_nonneg ?reps" using assms(3,4) by (auto simp: leo_nonneg_def)
  then have "if isr_LEOs ?ps = {} then ?min = -1 else sint ?min = Min (isr_LEOs ?ps)"
    using minStep_fold [of ?reps "-1" "ISR ps"] by (simp add: isr_LEOs_def)
  then have "sint hw = (if isr_LEOs ?ps = {} then sint (HighWatermark ps)
      else max (sint (HighWatermark ps)) (Min (isr_LEOs ?ps)))"
    using run(2) assms(5) by (auto split: if_splits)
  then show "\<exists>ps'. rm_state rm' topic p = Some ps' \<and> HighWatermark ps' = hw \<and> ISR ps' = ISR ps \<and>
      Replicas ps' = ?reps \<and>
      sint hw = (if isr_LEOs ps' = {} then sint (HighWatermark ps)
                 else max (sint (HighWatermark ps)) (Min (isr_LEOs ps')))"
    using run(1,2) by (intro exI [of _ ?ps]) (simp add: rm_state_def)
qed

text \<open>Updates that do not move a replica back keep the watermark covered by the in-sync set.\<close>

lemma UpdateFollowerLEO_inv:
  assumes st: "rm_state rm topic p = Some ps" and rep: "mget (Replicas ps) f = Some r" and inv: "ps_inv ps"
    and fwd: "sint (rep_LEO r) \<le> sint leo" and run: "UpdateFollowerLEO rm topic p f leo = (rm', hw, err)"
  shows "\<exists>ps'. rm_state rm' topic p = Some ps' \<and> ps_inv ps' \<and> HighWatermark ps' = hw \<and>
    sint (HighWatermark ps) \<le> sint hw"
proof -
  have nn: "leo_nonneg (Replicas ps)" "0 \<le> sint (HighWatermark ps)" using inv by (simp_all add: ps_inv_def)
  then have leo: "0 \<le> sint leo" using rep fwd unfolding leo_nonneg_def by (meson order_trans)
  from UpdateFollowerLEO_effect(2) [OF st rep nn(1) leo nn(2) run] obtain ps' where
    ps': "rm_state rm' topic p = Some ps'" "HighWatermark ps' = hw" "ISR ps' = ISR ps"
      "Replicas ps' = mput f (r\<lparr>rep_LEO := leo\<rparr>) (Replicas ps)"
    and hw: "sint hw = (if isr_LEOs ps' = {} then sint (HighWatermark ps)
      else max (sint (HighWatermark ps)) (Min (isr_LEOs ps')))"
    by blast
  have "leo_nonneg (Replicas ps')" using nn(1) leo ps'(4) by (auto simp: leo_nonneg_def)
  moreover have up: "sint (HighWatermark ps) \<le> sint hw" using hw by auto
  moreover have "sint hw \<le> v" if v: "v \<in> isr_LEOs ps'" for v
  proof -
    have "sint (HighWatermark ps) \<le> v"
      using v inv fwd rep unfolding ps_inv_def isr_LEOs_def leo_set_def ps'(3,4)
      by (auto split: if_splits) (metis order_trans)
    moreover have "Min (isr_LEOs ps') \<le> v" using v finite_leo_set by (simp add: isr_LEOs_def)
    ultimately show ?thesis using hw v by (auto split: if_splits)
  qed
  ultimately show ?thesis using ps' nn(2) by (auto simp: ps_inv_def)
qed

lemma addReplica_fold:
  "mget (fold addReplica ids m) i =
     (if i \<in> set ids then Some \<lparr>BrokerId = i, rep_LEO = 0\<rparr> else mget m i)"
  by (induction ids arbitrary: m) (auto simp: addReplica_def [abs_def])

lemma CreatePartition_inv:
  assumes "rm_state rm topic p = None" and "CreatePartition rm topic p l ids = (rm', ps)"
  shows "rm_state rm' topic p = Some ps" and "ps_inv ps" and "HighWatermark ps = 0"
  using assms
  by (auto simp: rm_state_def CreatePartition_def Let_def ps_inv_def leo_nonneg_def isr_LEOs_def leo_set_def
      addReplica_fold split: if_splits)

text \<open>
  The marker -1 of the loop is also a value a follower may report: the replica is then
  left out of the minimum, and the watermark passes its position.
\<close>

lemma watermark_passes_negative_replica:
  "let (rm1, ps) = CreatePartition (NewReplicaManager 1) ''t'' 0 1 [1, 2];
       (rm2, hw1, e1) = UpdateFollowerLEO rm1 ''t'' 0 1 (-1);
       (rm3, hw2, e2) = UpdateFollowerLEO rm2 ''t'' 0 2 5
   in hw2 = 5"
  by (simp add: CreatePartition_def NewReplicaManager_def UpdateFollowerLEO_def Let_def
      partitionKey_def addReplica_def minStep_def)


section \<open>Fetch offsets only grow\<close>

lemma fetchTasks_mono:
  "fetchTasks cb keys (w, ts) = (w', ts') \<Longrightarrow>
   rel_option (\<lambda>a b. ft_Topic b = ft_Topic a \<and> ft_PartitionId b = ft_PartitionId a \<and>
       sint (FetchOffset' a) \<le> sint (FetchOffset' b)) (mget ts k) (mget ts' k)"
proof (induction keys arbitrary: w ts)
  case Nil
  then show ?case by (cases "mget ts' k") auto
next
  case (Cons key keys)
  show ?case
  proof (cases "mget ts key")
    case None
    with Cons show ?thesis by simp
  next
    case (Some task)
    obtain w1 r where cb: "cb w (ft_Topic task) (ft_PartitionId task) (FetchOffset' task) = (w1, r)"
      by fastforce
    show ?thesis
    proof (cases r)
      case (Inl e)
      with Some cb Cons show ?thesis by simp
    next
      case (Inr next_off)
      let ?ts = "if sint (FetchOffset' task) < sint next_off
        then mput key (task\<lparr>FetchOffset' := next_off\<rparr>) ts else ts"
      have "fetchTasks cb keys (w1, ?ts) = (w', ts')" using Some cb Inr Cons.prems by simp
      note IH = Cons.IH [OF this]
      show ?thesis
      proof (cases "k = key \<and> sint (FetchOffset' task) < sint next_off")
        case True
        with IH Some show ?thesis by (auto simp: option_rel_Some1)
      next
        case False
        with IH show ?thesis by (auto split: if_splits)
      qed
    qed
  qed
qed


section \<open>The polling loop\<close>

definition task_advanced :: "(string, FetchTopicPartition) gomap \<Rightarrow> (string, FetchTopicPartition) gomap \<Rightarrow> bool" where
  "task_advanced ts ts' \<longleftrightarrow>
     (\<forall>k t. mget ts k = Some t \<longrightarrow> (\<exists>t'. mget ts' k = Some t' \<and> ft_Topic t' = ft_Topic t \<and>
        ft_PartitionId t' = ft_PartitionId t \<and> sint (FetchOffset' t) \<le> sint (FetchOffset' t')))"

lemma task_advanced_refl [simp]: "task_advanced ts ts"
  by (simp add: task_advanced_def)

lemma task_advanced_trans:
  assumes "task_advanced a b" and "task_advanced b c"
  shows "task_advanced a c"
  unfolding task_advanced_def
proof (intro allI impI)
  fix k t
  assume "mget a k = Some t"
  with assms(1) obtain u where u: "mget b k = Some u" "ft_Topic u = ft_Topic t" "ft_PartitionId u = ft_PartitionId t"
    "sint (FetchOffset' t) \<le> sint (FetchOffset' u)"
    unfolding task_advanced_def by blast
  from u(1) assms(2) obtain v where "mget c k = Some v" "ft_Topic v = ft_Topic u" "ft_PartitionId v = ft_PartitionId u"
    "sint (FetchOffset' u) \<le> sint (FetchOffset' v)"
    unfolding task_advanced_def by blast
  with u show "\<exists>v. mget c k = Some v \<and> ft_Topic v = ft_Topic t \<and> ft_PartitionId v = ft_PartitionId t \<and>
      sint (FetchOffset' t) \<le> sint (FetchOffset' v)"
    by simp
qed

lemma task_advanced_put:
  assumes "mget ts k = Some t" and "sint (FetchOffset' t) < sint n"
  shows "task_advanced ts (mput k (t\<lparr>FetchOffset' := n\<rparr>) ts)"
  unfolding task_advanced_def
proof (intro allI impI)
  fix j u
  assume "mget ts j = Some u"
  with assms show "\<exists>t'. mget (mput k (t\<lparr>FetchOffset' := n\<rparr>) ts) j = Some t' \<and> ft_Topic t' = ft_Topic u \<and>
      ft_PartitionId t' = ft_PartitionId u \<and> sint (FetchOffset' u) \<le> sint (FetchOffset' t')"
    by (cases "j = k") (simp_all add: mget_mput)
qed

lemma fetchTasks_advance: "task_advanced ts (snd (fetchTasks cb keys (w, ts)))"
proof (induction keys arbitrary: w ts)
  case (Cons k keys)
  show ?case
  proof (cases "mget ts k")
    case None
    with Cons.IH [of ts w] show ?thesis by simp
  next
    case (Some t)
    obtain w' r where cb: "cb w (ft_Topic t) (ft_PartitionId t) (FetchOffset' t) = (w', r)" by (metis prod.exhaust)
    show ?thesis
    proof (cases r)
      case (Inl err)
      with Some cb Cons.IH [of ts w'] show ?thesis by simp
    next
      case (Inr n)
      let ?ts = "if sint (FetchOffset' t) < sint n then mput k (t\<lparr>FetchOffset' := n\<rparr>) ts else ts"
      have "task_advanced ts ?ts" using task_advanced_put [OF Some] by simp
      from task_advanced_trans [OF this Cons.IH [of ?ts w']] Some cb Inr show ?thesis by simp
    qed
  qed
qed simp

text \<open>No fetch position moves back, whatever the leader answers, until the tasks are changed.\<close>

lemma fetch_turns_advance:
  assumes "(fetch_turn cb)\<^sup>*\<^sup>* (w, rf) (w', rf')"
  shows "task_advanced (tasks rf) (tasks rf')"
  using assms
proof (induction rule: rtranclp_induct2)
  case (step w1 rf1 w2 rf2)
  from step(2) have "task_advanced (tasks rf1) (tasks rf2)"
  proof cases
    case (tick order)
    with fetchTasks_advance [of "tasks rf1" cb "order (mkeys (tasks rf1))" w1] show ?thesis
      by (auto simp: fetchBatch_def split: prod.splits)
  qed simp
  with step(3) show ?case by (rule task_advanced_trans)
qed simp

end
