(* ===== verification/Kraft.thy ===== *)
theory Kraft
  imports Go_Base
begin

text \<open>
  \<open>src/internal/consensus/kraft.go\<close>: the election state of one node. A history is a list of
  calls; \<open>grants\<close> collects the votes a node hands out along it. The package contains no
  vote counting and no log, so the properties are about a single node.
\<close>

datatype RaftRole = RoleFollower | RoleCandidate | RoleLeader

record KRaftNode =
  kn_nodeId :: i32
  clusterSize :: int
  currentTerm :: i64
  votedFor :: i32
  kn_role :: RaftRole
  kn_leaderId :: i32
  commitIndex :: i64

definition NewKRaftNode :: "i32 \<Rightarrow> int \<Rightarrow> KRaftNode" where
  "NewKRaftNode nodeId sz =
     \<lparr>kn_nodeId = nodeId, clusterSize = sz, currentTerm = 0, votedFor = -1,
      kn_role = RoleFollower, kn_leaderId = -1, commitIndex = 0\<rparr>"

definition RequestVote :: "KRaftNode \<Rightarrow> i32 \<Rightarrow> i64 \<Rightarrow> KRaftNode \<times> bool \<times> i64" where
  "RequestVote kn candidateId candidateTerm =
     (if sint candidateTerm < sint (currentTerm kn) then (kn, False, currentTerm kn)
      else let kn1 = (if sint (currentTerm kn) < sint candidateTerm
                      then kn\<lparr>currentTerm := candidateTerm, kn_role := RoleFollower,
                              votedFor := -1, kn_leaderId := -1\<rparr>
                      else kn)
           in if votedFor kn1 = -1 \<or> votedFor kn1 = candidateId
              then (kn1\<lparr>votedFor := candidateId\<rparr>, True, currentTerm kn1)
              else (kn1, False, currentTerm kn1))"

definition BecomeLeader :: "KRaftNode \<Rightarrow> i64 \<Rightarrow> KRaftNode" where
  "BecomeLeader kn term =
     kn\<lparr>kn_role := RoleLeader, currentTerm := term, kn_leaderId := kn_nodeId kn, votedFor := kn_nodeId kn\<rparr>"

definition BecomeFollower :: "KRaftNode \<Rightarrow> i64 \<Rightarrow> i32 \<Rightarrow> KRaftNode" where
  "BecomeFollower kn term leaderId =
     kn\<lparr>kn_role := RoleFollower, currentTerm := term, kn_leaderId := leaderId, votedFor := -1\<rparr>"

definition GetState :: "KRaftNode \<Rightarrow> RaftRole \<times> i64 \<times> i32" where
  "GetState kn = (kn_role kn, currentTerm kn, kn_leaderId kn)"


section \<open>Histories and votes\<close>

datatype kraft_call = Vote i32 i64 | Lead i64 | Follow i64 i32

fun kn_exec :: "KRaftNode \<Rightarrow> kraft_call \<Rightarrow> KRaftNode" where
  "kn_exec kn (Vote c t) = fst (RequestVote kn c t)"
| "kn_exec kn (Lead t) = BecomeLeader kn t"
| "kn_exec kn (Follow t l) = BecomeFollower kn t l"

text \<open>The votes granted along a history, as pairs of term and candidate.\<close>

fun grants :: "KRaftNode \<Rightarrow> kraft_call list \<Rightarrow> (i64 \<times> i32) list" where
  "grants kn [] = []"
| "grants kn (c # cs) =
     (case c of
        Vote cand t \<Rightarrow>
          (if fst (snd (RequestVote kn cand t)) then (t, cand) # grants (kn_exec kn c) cs
           else grants (kn_exec kn c) cs)
      | _ \<Rightarrow> grants (kn_exec kn c) cs)"

text \<open>
  The documented use of the two transitions: a higher term (the callers of the package
  are to step down only then). Candidates are real nodes, not the marker -1.
\<close>

fun proper :: "KRaftNode \<Rightarrow> kraft_call list \<Rightarrow> bool" where
  "proper kn [] = True"
| "proper kn (c # cs) =
     ((case c of
         Vote cand t \<Rightarrow> cand \<noteq> -1
       | Lead t \<Rightarrow> sint (currentTerm kn) < sint t \<and> kn_nodeId kn \<noteq> -1
       | Follow t l \<Rightarrow> sint (currentTerm kn) < sint t)
      \<and> proper (kn_exec kn c) cs)"

lemma RequestVote_term_mono: "sint (currentTerm kn) \<le> sint (currentTerm (fst (RequestVote kn c t)))"
  by (auto simp: RequestVote_def Let_def)

lemma RequestVote_granted:
  assumes "fst (snd (RequestVote kn c t))"
  shows "currentTerm (fst (RequestVote kn c t)) = t" and "votedFor (fst (RequestVote kn c t)) = c"
    and "sint (currentTerm kn) \<le> sint t"
    and "t = currentTerm kn \<Longrightarrow> votedFor kn = -1 \<or> votedFor kn = c"
proof -
  have "sint t \<le> sint (currentTerm kn) \<Longrightarrow> \<not> sint t < sint (currentTerm kn) \<Longrightarrow> t = currentTerm kn"
    by (simp add: signed_word_eqI)
  then show "currentTerm (fst (RequestVote kn c t)) = t" and "votedFor (fst (RequestVote kn c t)) = c"
    and "sint (currentTerm kn) \<le> sint t"
    and "t = currentTerm kn \<Longrightarrow> votedFor kn = -1 \<or> votedFor kn = c"
    using assms by (auto simp: RequestVote_def Let_def split: if_splits)
qed

lemma grants_later:
  assumes "proper kn cs" and "(t, c) \<in> set (grants kn cs)"
  shows "sint (currentTerm kn) \<le> sint t \<and> (t = currentTerm kn \<longrightarrow> votedFor kn = -1 \<or> votedFor kn = c)"
  using assms
proof (induction cs arbitrary: kn)
  case Nil
  then show ?case by simp
next
  case (Cons x cs)
  have pr: "proper (kn_exec kn x) cs" using Cons.prems(1) by simp
  show ?case
  proof (cases "(t, c) \<in> set (grants (kn_exec kn x) cs)")
    case True
    note IH = Cons.IH [OF pr True]
    show ?thesis
    proof (cases x)
      case (Vote cand t')
      have ne: "cand \<noteq> -1" using Cons.prems(1) Vote by simp
      from IH Vote RequestVote_term_mono [of kn cand t'] ne show ?thesis
        by (auto simp: RequestVote_def Let_def split: if_splits)
    next
      case (Lead t')
      with IH Cons.prems(1) show ?thesis by (auto simp: BecomeLeader_def)
    next
      case (Follow t' l)
      with IH Cons.prems(1) show ?thesis by (auto simp: BecomeFollower_def)
    qed
  next
    case False
    with Cons.prems(2) have "x = Vote c t" "fst (snd (RequestVote kn c t))"
      by (auto split: kraft_call.splits if_splits)
    with RequestVote_granted show ?thesis by blast
  qed
qed

lemma one_vote_per_term:
  assumes "proper kn cs" and "(t, c) \<in> set (grants kn cs)" and "(t, c') \<in> set (grants kn cs)"
  shows "c = c'"
  using assms
proof (induction cs arbitrary: kn)
  case Nil
  then show ?case by simp
next
  case (Cons x cs)
  have pr: "proper (kn_exec kn x) cs" using Cons.prems(1) by simp
  have head: "x = Vote d t \<and> fst (snd (RequestVote kn d t)) \<and> d \<noteq> -1"
    if "(t, d) \<in> set (grants kn (x # cs))" "(t, d) \<notin> set (grants (kn_exec kn x) cs)" for d
    using that Cons.prems(1) by (auto split: kraft_call.splits if_splits)
  have later: "d' = d"
    if "x = Vote d t" "fst (snd (RequestVote kn d t))" "d \<noteq> -1" "(t, d') \<in> set (grants (kn_exec kn x) cs)" for d d'
    using grants_later [OF pr that(4)] RequestVote_granted(1,2) [OF that(2)] that(1,3) by auto
  let ?A = "set (grants (kn_exec kn x) cs)"
  consider "(t, c) \<in> ?A" "(t, c') \<in> ?A" | "(t, c) \<in> ?A" "(t, c') \<notin> ?A"
    | "(t, c) \<notin> ?A" "(t, c') \<in> ?A" | "(t, c) \<notin> ?A" "(t, c') \<notin> ?A"
    by blast
  then show ?case
  proof cases
    case 1
    then show ?thesis by (rule Cons.IH [OF pr])
  next
    case 2
    with head [OF Cons.prems(3)] later [of c' c] show ?thesis by simp
  next
    case 3
    with head [OF Cons.prems(2)] later [of c c'] show ?thesis by simp
  next
    case 4
    with head [OF Cons.prems(2)] head [OF Cons.prems(3)] show ?thesis by simp
  qed
qed

text \<open>
  Without that discipline the node can vote twice in one term: \<open>BecomeFollower\<close> forgets the
  vote even when the term does not change.
\<close>

lemma double_vote:
  "grants (NewKRaftNode 1 3) [Vote 2 5, Follow 5 2, Vote 3 5] = [(5, 2), (5, 3)]"
  by (simp add: NewKRaftNode_def RequestVote_def BecomeFollower_def Let_def)

end
