(* ===== verification/Acl.thy ===== *)
theory Acl
  imports Go_Base
begin

text \<open>
  \<open>src/internal/security/acl.go\<close>: access control rules and their evaluation. The loop is
  translated with its two flags and its early return; \<open>acl_spec\<close> is the policy it
  implements.
\<close>

record ACLRule =
  Principal :: string
  ResourceType :: string
  ResourceName :: string
  Operation :: string
  PermissionType :: string

record ACLManager =
  rules :: "ACLRule list"

definition NewACLManager :: ACLManager where
  "NewACLManager = \<lparr>rules = []\<rparr>"

definition AddRule :: "ACLManager \<Rightarrow> ACLRule \<Rightarrow> ACLManager" where
  "AddRule am rule = am\<lparr>rules := rules am @ [rule]\<rparr>"

fun authorizeLoop :: "string \<Rightarrow> string \<Rightarrow> string \<Rightarrow> string \<Rightarrow> bool \<Rightarrow> bool \<Rightarrow> ACLRule list \<Rightarrow> bool" where
  "authorizeLoop user rtype rname oper matched allowed [] = (if \<not> matched then True else allowed)"
| "authorizeLoop user rtype rname oper matched allowed (rule # rest) =
     (if Principal rule \<noteq> ''*'' \<and> Principal rule \<noteq> user \<and> Principal rule \<noteq> ''User:'' @ user
      then authorizeLoop user rtype rname oper matched allowed rest
      else if ResourceType rule \<noteq> rtype
      then authorizeLoop user rtype rname oper matched allowed rest
      else if ResourceName rule \<noteq> ''*'' \<and> ResourceName rule \<noteq> rname
      then authorizeLoop user rtype rname oper matched allowed rest
      else if Operation rule \<noteq> ''All'' \<and> Operation rule \<noteq> oper
      then authorizeLoop user rtype rname oper matched allowed rest
      else if PermissionType rule = ''Deny'' then False
      else if PermissionType rule = ''Allow''
      then authorizeLoop user rtype rname oper True True rest
      else authorizeLoop user rtype rname oper True allowed rest)"

definition Authorize :: "ACLManager \<Rightarrow> string \<Rightarrow> string \<Rightarrow> string \<Rightarrow> string \<Rightarrow> bool" where
  "Authorize am user rtype rname oper = authorizeLoop user rtype rname oper False False (rules am)"


section \<open>The policy\<close>

definition acl_matches :: "string \<Rightarrow> string \<Rightarrow> string \<Rightarrow> string \<Rightarrow> ACLRule \<Rightarrow> bool" where
  "acl_matches user rtype rname oper rule \<longleftrightarrow>
     Principal rule \<in> {''*'', user, ''User:'' @ user} \<and>
     ResourceType rule = rtype \<and>
     ResourceName rule \<in> {''*'', rname} \<and>
     Operation rule \<in> {''All'', oper}"

text \<open>A matching deny decides; otherwise a matching allow, or no match at all, permits.\<close>

definition acl_spec :: "ACLRule set \<Rightarrow> string \<Rightarrow> string \<Rightarrow> string \<Rightarrow> string \<Rightarrow> bool" where
  "acl_spec rs user rtype rname oper \<longleftrightarrow>
     (let hits = {r \<in> rs. acl_matches user rtype rname oper r}
      in (\<forall>r \<in> hits. PermissionType r \<noteq> ''Deny'') \<and>
         (hits = {} \<or> (\<exists>r \<in> hits. PermissionType r = ''Allow'')))"

lemma authorizeLoop_correct:
  "authorizeLoop p rt rn oper matched allowed rs \<longleftrightarrow>
     (let hits = filter (acl_matches p rt rn oper) rs
      in (\<forall>r \<in> set hits. PermissionType r \<noteq> ''Deny'') \<and>
         ((\<not> matched \<and> hits = []) \<or> (allowed \<and> (matched \<or> hits \<noteq> [])) \<or>
          (\<exists>r \<in> set hits. PermissionType r = ''Allow'')))"
proof (induction rs arbitrary: matched allowed)
  case Nil
  then show ?case by (auto simp: Let_def)
next
  case (Cons rule rs)
  show ?case
  proof (cases "acl_matches p rt rn oper rule")
    case True
    then have "authorizeLoop p rt rn oper matched allowed (rule # rs) =
        (if PermissionType rule = ''Deny'' then False
         else authorizeLoop p rt rn oper True (PermissionType rule = ''Allow'' \<or> allowed) rs)"
      by (auto simp: acl_matches_def)
    with True show ?thesis unfolding Cons.IH Let_def by auto
  next
    case False
    then have "authorizeLoop p rt rn oper matched allowed (rule # rs) =
        authorizeLoop p rt rn oper matched allowed rs"
      by (auto simp: acl_matches_def)
    with False show ?thesis unfolding Cons.IH Let_def by simp
  qed
qed

lemma Authorize_correct: "Authorize am p rt rn oper = acl_spec (set (rules am)) p rt rn oper"
  unfolding Authorize_def authorizeLoop_correct acl_spec_def Let_def
  by (auto simp: filter_empty_conv)

end
