(* ===== verification/Coordinator_Properties.thy ===== *)
theory Coordinator_Properties
  imports Offset_Manager Group_Coordinator Txn_Coordinator Replication Kraft Acl
begin

text \<open>
  The properties of the coordinators, of replication, of the election state and of access
  control, each followed by an application at a concrete input where it has hypotheses.
\<close>

section \<open>Committed offsets\<close>

text \<open>
  After any sequence of commits, the offset and the metadata a group fetches for a
  partition are those of its last commit for that partition (commits with an empty group
  or topic name are rejected and change nothing).
\<close>

theorem last_commit_wins:
  "fetchKey (foldl (\<lambda>om (k, v). commitKey om k v) NewOffsetManager cs) k =
     map_of (rev (filter (\<lambda>(k, v). named_key k) cs)) k"
  using om.fetch_commits [of NewOffsetManager cs k]
  by (cases k) (simp add: fetchKey_def FetchOffset_def NewOffsetManager_def split: option.splits)

text \<open>
  Deleting a group's offsets removes all of them, reports their number, and leaves
  the other groups as they were.
\<close>

theorem delete_group_offsets:
  assumes "om_inv om" and "DeleteGroupOffsets om g = (om', n)"
  shows "om_inv om' \<and> n = length (filter (\<lambda>k. gtp_GroupID k = g) (mkeys (offsets om))) \<and>
    (\<forall>t p. FetchOffset om' g t p = (-1, '''', Some ErrOffsetNotFound)) \<and>
    (\<forall>g' t p. g' \<noteq> g \<longrightarrow> FetchOffset om' g' t p = FetchOffset om g' t p)"
  using DeleteGroupOffsets_correct [OF assms] by (simp add: FetchOffset_def)

theorem delete_group_offsets_witness:
  "FetchOffset (fst (DeleteGroupOffsets (fst (CommitOffset 0 NewOffsetManager ''g'' ''t'' 0 42 ''m'')) ''g'')) ''g'' ''t'' 0
     = (-1, '''', Some ErrOffsetNotFound)"
proof -
  let ?om = "fst (CommitOffset 0 NewOffsetManager ''g'' ''t'' 0 42 ''m'')"
  have "om_inv ?om" by (rule CommitOffset_inv [OF NewOffsetManager_inv])
  from delete_group_offsets [OF this prod.collapse [symmetric]] show ?thesis by simp
qed


section \<open>Consumer groups\<close>

text \<open>
  C19: In every reachable coordinator, each group that has members has one of them as its
  leader, a group without members has none, and members are filed under their own id.
\<close>

theorem leader_is_member:
  assumes "gc_reach gc" and "mget (groups gc) gid = Some g"
  shows "GroupID g = gid \<and> (Members g = [] \<longleftrightarrow> LeaderID g = '''') \<and>
    (Members g \<noteq> [] \<longrightarrow> (\<exists>m. mget (Members g) (LeaderID g) = Some m)) \<and>
    (\<forall>i m. mget (Members g) i = Some m \<longrightarrow> MemberID m = i)"
proof -
  have inv: "group_inv g" "GroupID g = gid"
    using gc_reach_inv [OF assms(1)] assms(2) by (auto simp: gc_inv_def)
  then have lead: "Members g \<noteq> [] \<longrightarrow> (\<exists>m. mget (Members g) (LeaderID g) = Some m)"
    by (auto simp: group_inv_def mget_iff_keys)
  moreover have "Members g = [] \<longleftrightarrow> LeaderID g = ''''"
    using inv(1) lead by (auto simp: group_inv_def)
  ultimately show ?thesis using inv by (auto simp: group_inv_def)
qed

definition gc1 :: GroupCoordinator where
  "gc1 = fst (AddMember 5 NewGroupCoordinator ''g'' ''c'' ''h'' 10 10 ''consumer'' [])"

lemma gc1_reach: "gc_reach gc1"
  unfolding gc1_def by (intro gc_reach.intros)

lemma uuid5: "generateUUIDShort 5 = ''5''"
  using char_of_char [where 'a = nat, of "CHR ''5''"]
  by (simp add: generateUUIDShort_def show_hex.simps hex_char_def)

lemma gc1_group: "\<exists>g. mget (groups gc1) ''g'' = Some g \<and> LeaderID g = ''c-5'' \<and> Members g \<noteq> []"
  by (simp add: gc1_def AddMember_def NewGroupCoordinator_def GetOrCreateGroup_def Let_def
      uuid5)

theorem leader_is_member_witness:
  "\<exists>g m. mget (groups gc1) ''g'' = Some g \<and> mget (Members g) ''c-5'' = Some m"
  using gc1_group leader_is_member [OF gc1_reach] by metis

text \<open>
  C27: No heartbeat is ever accepted. In every reachable coordinator, \<open>Heartbeat\<close> returns an
  error and leaves the coordinator as it is, because no operation moves a group with
  members out of \<open>PreparingRebalance\<close>.
\<close>

theorem heartbeat_never_accepted:
  assumes "gc_reach gc"
  shows "fst (Heartbeat now gc gid mid) = gc \<and> snd (Heartbeat now gc gid mid) \<noteq> None"
  using Heartbeat_rejected [OF gc_reach_inv [OF assms]] by blast

theorem heartbeat_never_accepted_witness:
  "fst (Heartbeat 6 gc1 ''g'' ''c-5'') = gc1 \<and> snd (Heartbeat 6 gc1 ''g'' ''c-5'') \<noteq> None"
  by (rule heartbeat_never_accepted [OF gc1_reach])

text \<open>
  The timeout check removes from every group exactly the members whose session has
  expired and keeps all other groups and members, in whatever order it walks the maps.
\<close>

theorem expiry_exact:
  assumes "gc_reach gc" and "\<And>x. visits (pick x)" and "\<And>x. visits (visit x)" and "visits gorder"
  shows "rel_option (\<lambda>g g'. \<forall>i. mget (Members g') i =
      (case mget (Members g) i of
         None \<Rightarrow> None
       | Some m \<Rightarrow> if SessionTimeout m < now - LastHeartbeat m then None else Some m))
    (mget (groups gc) gid)
    (mget (groups (fst (CheckHeartbeatTimeouts gorder visit pick now gc))) gid)"
proof -
  obtain gc' ev where run: "CheckHeartbeatTimeouts gorder visit pick now gc = (gc', ev)" by fastforce
  from CheckHeartbeatTimeouts_correct(2) [OF gc_reach_inv [OF assms(1)] assms(2-4) run, of gid] run
  show ?thesis
    by (auto simp: checked_def survives_def expired_def elim!: option.rel_mono_strong split: option.splits)
qed

theorem expiry_exact_witness:
  "\<exists>g'. mget (groups (fst (CheckHeartbeatTimeouts rev (\<lambda>g. rev) (\<lambda>g ks. ks) 99999999 gc1))) ''g'' = Some g' \<and>
     mget (Members g') ''c-5'' = None"
proof -
  have "rel_option (\<lambda>g g'. \<forall>i. mget (Members g') i =
      (case mget (Members g) i of
         None \<Rightarrow> None
       | Some m \<Rightarrow> if SessionTimeout m < 99999999 - LastHeartbeat m then None else Some m))
    (mget (groups gc1) ''g'')
    (mget (groups (fst (CheckHeartbeatTimeouts rev (\<lambda>g. rev) (\<lambda>g ks. ks) 99999999 gc1))) ''g'')"
    using expiry_exact [OF gc1_reach, of "\<lambda>g ks. ks" "\<lambda>g. rev" rev 99999999 "''g''"] visits_id visits_rev by blast
  then show ?thesis
    by (auto simp: gc1_def AddMember_def NewGroupCoordinator_def GetOrCreateGroup_def Let_def option_rel_Some1
        uuid5 durationMs_def)
qed

text \<open>
  With a positive cap, joining never makes the number of groups exceed it: a join
  either leaves the number unchanged or stays within the cap.
\<close>

theorem group_cap:
  assumes "0 < maxGroups gc" and "AddMember now gc gid cid host st rt pt ps = (gc', r)"
  shows "length (groups gc') = length (groups gc) \<or> int (length (groups gc')) \<le> maxGroups gc"
proof (cases "gid = [] \<or> mget (groups gc) gid \<noteq> None")
  case True
  with assms(2) show ?thesis
    by (auto simp: AddMember_def GetOrCreateGroup_def Let_def length_mput_old split: option.splits if_splits)
next
  case False
  with assms show ?thesis
    by (auto simp: AddMember_def GetOrCreateGroup_def Let_def length_mput_old length_mput_new split: if_splits)
qed

theorem group_cap_witness:
  "length (groups (fst (AddMember 7 (SetMaxGroups gc1 1) ''other'' ''c'' ''h'' 1 1 ''p'' []))) = length (groups (SetMaxGroups gc1 1)) \<or>
   int (length (groups (fst (AddMember 7 (SetMaxGroups gc1 1) ''other'' ''c'' ''h'' 1 1 ''p'' [])))) \<le> maxGroups (SetMaxGroups gc1 1)"
  by (rule group_cap [OF _ prod.collapse [symmetric]]) (simp add: SetMaxGroups_def)


section \<open>Transactions and idempotence\<close>

text \<open>
  C17: Fencing. Once a transactional id has been initialised again, a producer that still
  uses the epoch of before can neither add partitions nor end the transaction: both calls
  fail and change nothing, whatever other calls happened in between (up to the 65535
  initialisations after which a 16-bit epoch repeats).
\<close>

theorem old_epoch_fenced:
  assumes "mget (txns tc) t = Some txn" and "t \<noteq> ''''"
    and "0 < length (filter (inits_of t) cs)" and "length (filter (inits_of t) cs) < 2 ^ 16"
  shows "AddPartitionsToTxn (tc_run order tc cs) t pid (ProducerEpoch txn) topic ps =
      (tc_run order tc cs, Some (txnError t)) \<and>
    EndTxn order (tc_run order tc cs) t pid (ProducerEpoch txn) c =
      (tc_run order tc cs, Inl (txnError t))"
  using fenced [OF assms, of order pid] by (simp add: AddPartitionsToTxn_def EndTxn_def)

definition tc1 :: TransactionCoordinator where
  "tc1 = fst (InitProducerId NewTransactionCoordinator (Some ''tx'') 0)"

theorem old_epoch_fenced_witness:
  "snd (EndTxn rev (tc_run rev tc1 [CallSeq 1 ''a'' 0 5, CallInit (Some ''tx'') 0]) ''tx'' 1001 0 True)
     = Inl (txnError ''tx'')"
proof -
  have "mget (txns tc1) ''tx'' = Some \<lparr>TransactionalId = ''tx'', ProducerId = 1001, ProducerEpoch = 0,
      txn_State = ''Empty'', Partitions = []\<rparr>"
    by (simp add: tc1_def InitProducerId_def NewTransactionCoordinator_def)
  from old_epoch_fenced [OF this, of "[CallSeq 1 ''a'' 0 5, CallInit (Some ''tx'') 0]" rev 1001 _ _ True]
  show ?thesis by simp
qed

text \<open>
  Producer ids are not shared. In any history of fewer than \<open>2 ^ 63 - 1001\<close> calls, two
  different transactional ids have different producer ids, and a newly handed out id
  differs from all ids of transactions.
\<close>

theorem producer_ids_unique:
  assumes "length cs < 2 ^ 63 - 1001"
  shows "(\<forall>t t' txn txn'.
      mget (txns (tc_run order NewTransactionCoordinator cs)) t = Some txn \<and>
      mget (txns (tc_run order NewTransactionCoordinator cs)) t' = Some txn' \<and>
      ProducerId txn = ProducerId txn' \<longrightarrow> t = t') \<and>
    (\<forall>t txn. mget (txns (tc_run order NewTransactionCoordinator cs)) t = Some txn \<longrightarrow>
      ProducerId txn \<noteq> fst (snd (InitProducerId (tc_run order NewTransactionCoordinator cs) None ms)))"
proof -
  let ?tc = "tc_run order NewTransactionCoordinator cs"
  have c0: "sint (producerIdCounter NewTransactionCoordinator) = 1000"
    by (simp add: NewTransactionCoordinator_def)
  have "sint (producerIdCounter NewTransactionCoordinator) + int (length cs) < 2 ^ 63"
    using assms c0 by simp
  note r = tc_run_inv [OF NewTransactionCoordinator_inv this, of order]
  have b: "sint (producerIdCounter ?tc) < 2 ^ 63 - 1" using r(3) c0 assms by simp
  have "ProducerId txn \<noteq> producerIdCounter ?tc + 1" if "mget (txns ?tc) t = Some txn" for t txn
  proof -
    have "mget (producerTxns ?tc) (ProducerId txn) = Some t" using r(1) that by (simp add: tc_inv_def)
    then have "sint (ProducerId txn) \<le> sint (producerIdCounter ?tc)" using r(1) unfolding tc_inv_def by blast
    with sint_Suc64 [OF b] show ?thesis by auto
  qed
  moreover have "fst (snd (InitProducerId ?tc None ms)) = producerIdCounter ?tc + 1"
    by (simp add: InitProducerId_def Let_def)
  ultimately show ?thesis using tc_inv_pid_unique [OF r(1)] by auto
qed

theorem producer_ids_unique_witness:
  "\<exists>txn txn'.
     mget (txns (tc_run rev NewTransactionCoordinator [CallInit (Some ''a'') 0, CallInit (Some ''b'') 0])) ''a'' = Some txn \<and>
     mget (txns (tc_run rev NewTransactionCoordinator [CallInit (Some ''a'') 0, CallInit (Some ''b'') 0])) ''b'' = Some txn' \<and>
     ProducerId txn \<noteq> ProducerId txn'"
proof -
  let ?tc = "tc_run rev NewTransactionCoordinator [CallInit (Some ''a'') 0, CallInit (Some ''b'') 0]"
  obtain txn txn' where t: "mget (txns ?tc) ''a'' = Some txn" "mget (txns ?tc) ''b'' = Some txn'"
    by (simp add: InitProducerId_def NewTransactionCoordinator_def Let_def)
  with producer_ids_unique [of "[CallInit (Some ''a'') 0, CallInit (Some ''b'') 0]" rev 0]
  have "ProducerId txn \<noteq> ProducerId txn'" by (auto simp del: tc_run_simps)
  with t show ?thesis by blast
qed

text \<open>
  C18: Deduplication. Once a sequence number has been submitted for a producer and a
  partition, submitting it or a lower one again is reported as a duplicate, whatever calls
  happen in between; a higher one than ever submitted is accepted; and the counters of
  other producers and partitions are not touched, even if names contain the separator.
\<close>

theorem sequence_deduplication:
  assumes "sint s' \<le> sint s"
  shows "snd (CheckAndSetSequence
      (tc_run order (fst (CheckAndSetSequence tc pid topic part s)) cs) pid topic part s') \<and>
    ((pid', topic', part') \<noteq> (pid, topic, part) \<longrightarrow>
      lastSeq (fst (CheckAndSetSequence tc pid topic part s)) pid' topic' part' = lastSeq tc pid' topic' part') \<and>
    (\<not> snd (CheckAndSetSequence tc pid topic part n) \<longleftrightarrow>
      (\<forall>l. lastSeq tc pid topic part = Some l \<longrightarrow> sint l < sint n))"
  using retry_is_duplicate [OF assms, of order tc pid topic part cs]
    lastSeq_other [of pid topic part pid' topic' part' tc s]
    CheckAndSetSequence_result(1) [of tc pid topic part n]
  by (auto simp: not_le)

theorem sequence_deduplication_witness:
  "snd (CheckAndSetSequence
     (tc_run rev (fst (CheckAndSetSequence NewTransactionCoordinator 7 ''t'' 0 5)) [CallSeq 7 ''t'' 1 9]) 7 ''t'' 0 5)"
  using sequence_deduplication [of 5 5 rev NewTransactionCoordinator 7 "''t''" 0 "[CallSeq 7 ''t'' 1 9]" 0 "''x''" 0 0] by simp

text \<open>
  Ending a transaction returns exactly the partitions that were added to it, each as
  often as it was added, in some order, and clears them.
\<close>

theorem end_txn_targets:
  assumes "liveTxn tc t pid ep = Some txn" and "gomap_ok (Partitions txn)" and "visits order"
    and "AddPartitionsToTxn tc t pid ep topic ps = (tc', None)"
    and "EndTxn order tc' t pid ep c = (tc'', r)"
  shows "\<exists>targets. r = Inr targets \<and>
      mset targets = txn_targets (Partitions txn) +
        mset (map (\<lambda>p. \<lparr>tt_Topic = topic, tt_Partition = p\<rparr>) ps) \<and>
      (\<exists>txn'. liveTxn tc'' t pid ep = Some txn' \<and> Partitions txn' = [])"
proof -
  let ?parts = "mput topic ((case mget (Partitions txn) topic of None \<Rightarrow> [] | Some ps \<Rightarrow> ps) @ ps) (Partitions txn)"
  let ?txn = "txn\<lparr>txn_State := ''Ongoing'', Partitions := ?parts\<rparr>"
  have eq: "tc' = tc\<lparr>txns := mput t ?txn (txns tc)\<rparr>"
    using assms(1,4) by (auto simp: AddPartitionsToTxn_def Let_def)
  then have live: "liveTxn tc' t pid ep = Some ?txn"
    using assms(1) by (simp add: liveTxn_Some)
  have "gomap_ok (Partitions ?txn)" using assms(2) by simp
  from EndTxn_targets [OF live this assms(3,5)] obtain targets where
    "r = Inr targets" "mset targets = txn_targets ?parts" by auto
  moreover have "\<exists>txn'. liveTxn tc'' t pid ep = Some txn' \<and> Partitions txn' = []"
    using assms(5) live by (auto simp: EndTxn_def Let_def liveTxn_Some)
  ultimately show ?thesis by (simp add: txn_targets_add)
qed

theorem end_txn_targets_witness:
  "\<exists>targets. snd (EndTxn rev (fst (AddPartitionsToTxn tc1 ''tx'' 1001 0 ''a'' [3, 4])) ''tx'' 1001 0 True) = Inr targets \<and>
     mset targets = {#\<lparr>tt_Topic = ''a'', tt_Partition = 3\<rparr>, \<lparr>tt_Topic = ''a'', tt_Partition = 4\<rparr>#}"
proof -
  let ?txn = "\<lparr>TransactionalId = ''tx'', ProducerId = 1001, ProducerEpoch = 0,
    txn_State = ''Empty'', Partitions = []\<rparr>"
  have live: "liveTxn tc1 ''tx'' 1001 0 = Some ?txn"
    by (simp add: tc1_def InitProducerId_def NewTransactionCoordinator_def liveTxn_Some)
  obtain tc' where add: "AddPartitionsToTxn tc1 ''tx'' 1001 0 ''a'' [3, 4] = (tc', None)"
    using live by (auto simp: AddPartitionsToTxn_def Let_def)
  obtain tc2 r where fin: "EndTxn rev tc' ''tx'' 1001 0 True = (tc2, r)" by fastforce
  from end_txn_targets [OF live _ visits_rev add fin] add fin show ?thesis by auto
qed


section \<open>Replication and election\<close>

text \<open>
  C20: The high watermark. When a follower reports progress, the partition's watermark
  becomes the larger of its old value and the smallest position in the in-sync set; it
  never moves back and never passes an in-sync replica.
\<close>

theorem high_watermark_safe:
  assumes "rm_state rm topic p = Some ps" and "mget (Replicas ps) f = Some r" and "ps_inv ps"
    and "sint (rep_LEO r) \<le> sint leo"
  shows "\<exists>rm' hw ps'. UpdateFollowerLEO rm topic p f leo = (rm', hw, None) \<and>
    rm_state rm' topic p = Some ps' \<and> ps_inv ps' \<and> GetHighWatermark rm' topic p = hw \<and>
    sint (HighWatermark ps) \<le> sint hw \<and> (\<forall>v \<in> isr_LEOs ps'. sint hw \<le> v) \<and>
    (isr_LEOs ps' \<noteq> {} \<longrightarrow> sint hw = max (sint (HighWatermark ps)) (Min (isr_LEOs ps')))"
proof -
  obtain rm' hw err where run: "UpdateFollowerLEO rm topic p f leo = (rm', hw, err)"
    using prod_cases3 by blast
  have nn: "leo_nonneg (Replicas ps)" "0 \<le> sint (HighWatermark ps)" "0 \<le> sint leo"
    using assms(2-4) unfolding ps_inv_def leo_nonneg_def by (auto intro: order_trans)
  note e = UpdateFollowerLEO_effect [OF assms(1,2) nn(1,3,2) run]
  from e(2) obtain ps' where ps': "rm_state rm' topic p = Some ps'" "HighWatermark ps' = hw"
    "sint hw = (if isr_LEOs ps' = {} then sint (HighWatermark ps)
      else max (sint (HighWatermark ps)) (Min (isr_LEOs ps')))"
    by blast
  from UpdateFollowerLEO_inv [OF assms run] ps'(1) have inv: "ps_inv ps'" by auto
  have "sint (HighWatermark ps) \<le> sint hw" using ps'(3) by simp
  moreover have "\<forall>v \<in> isr_LEOs ps'. sint hw \<le> v" using inv ps'(2) by (simp add: ps_inv_def)
  moreover have "GetHighWatermark rm' topic p = hw"
    using ps'(1,2) by (simp add: GetHighWatermark_def rm_state_def)
  ultimately show ?thesis using run e(1) ps' inv by auto
qed

theorem high_watermark_safe_witness:
  "\<exists>rm' hw. UpdateFollowerLEO (fst (CreatePartition (NewReplicaManager 1) ''t'' 0 1 [1, 2])) ''t'' 0 1 5 = (rm', hw, None) \<and> 0 \<le> sint hw"
proof -
  let ?rm = "fst (CreatePartition (NewReplicaManager 1) ''t'' 0 1 [1, 2])"
  let ?ps = "snd (CreatePartition (NewReplicaManager 1) ''t'' 0 1 [1, 2])"
  have n: "rm_state (NewReplicaManager 1) ''t'' 0 = None" by (simp add: rm_state_def NewReplicaManager_def)
  note c = CreatePartition_inv [OF n prod.collapse [symmetric], of 1 "[1, 2]"]
  have rep: "mget (Replicas ?ps) 1 = Some \<lparr>BrokerId = 1, rep_LEO = 0\<rparr>"
    by (simp add: CreatePartition_def NewReplicaManager_def Let_def addReplica_def)
  from high_watermark_safe [OF c(1) rep c(2), of 5] c(3) show ?thesis by auto
qed

text \<open>
  A round of the replication fetcher moves no fetch offset back and keeps the set of
  tasks, whatever the callback returns and in whatever order the tasks are visited.
\<close>

theorem fetch_offsets_grow:
  "rel_option (\<lambda>a b. ft_Topic b = ft_Topic a \<and> ft_PartitionId b = ft_PartitionId a \<and>
      sint (FetchOffset' a) \<le> sint (FetchOffset' b))
    (mget (tasks rf) k) (mget (tasks (snd (fetchBatch order cb w rf))) k)"
proof -
  obtain w' ts where run: "fetchTasks cb (order (mkeys (tasks rf))) (w, tasks rf) = (w', ts)" by fastforce
  from fetchTasks_mono [OF run, of k] run show ?thesis by (simp add: fetchBatch_def)
qed

text \<open>
  C24: A node grants at most one candidate its vote in any term, along every history in
  which it changes role only on a higher term.
\<close>

theorem single_vote_per_term:
  assumes "proper kn cs" and "(t, c) \<in> set (grants kn cs)" and "(t, c') \<in> set (grants kn cs)"
  shows "c = c'"
  by (rule one_vote_per_term [OF assms])

theorem single_vote_per_term_witness:
  "(5, 2) \<in> set (grants (NewKRaftNode 1 3) [Vote 2 5, Vote 3 5, Follow 6 2, Vote 3 6]) \<and>
   (5, 3) \<notin> set (grants (NewKRaftNode 1 3) [Vote 2 5, Vote 3 5, Follow 6 2, Vote 3 6])"
proof -
  have p: "proper (NewKRaftNode 1 3) [Vote 2 5, Vote 3 5, Follow 6 2, Vote 3 6]"
    and g: "grants (NewKRaftNode 1 3) [Vote 2 5, Vote 3 5, Follow 6 2, Vote 3 6] = [(5, 2), (6, 3)]"
    by (simp_all add: NewKRaftNode_def RequestVote_def BecomeFollower_def Let_def)
  have "(5, 2) \<in> set (grants (NewKRaftNode 1 3) [Vote 2 5, Vote 3 5, Follow 6 2, Vote 3 6])"
    unfolding g by simp
  moreover have "(3 :: i32) \<noteq> 2" by simp
  ultimately show ?thesis using single_vote_per_term [OF p, of 5 3 2] by blast
qed


section \<open>Access control\<close>

text \<open>
  C21: \<open>Authorize\<close> decides by the policy: a matching deny rule forbids; otherwise access is
  granted if some matching rule allows it or if no rule matches. In particular the order
  of the rules does not matter.
\<close>

theorem authorize_policy:
  "Authorize am user rtype rname oper \<longleftrightarrow>
     (\<forall>r \<in> {r \<in> set (rules am). acl_matches user rtype rname oper r}. PermissionType r \<noteq> ''Deny'') \<and>
     ((\<forall>r \<in> set (rules am). \<not> acl_matches user rtype rname oper r) \<or>
      (\<exists>r \<in> set (rules am). acl_matches user rtype rname oper r \<and> PermissionType r = ''Allow''))"
  unfolding Authorize_correct acl_spec_def Let_def by auto

theorem authorize_policy_witness:
  "\<not> Authorize (AddRule (AddRule NewACLManager
       \<lparr>Principal = ''*'', ResourceType = ''Topic'', ResourceName = ''*'', Operation = ''All'', PermissionType = ''Allow''\<rparr>)
       \<lparr>Principal = ''User:bob'', ResourceType = ''Topic'', ResourceName = ''pay'', Operation = ''Write'', PermissionType = ''Deny''\<rparr>)
     ''bob'' ''Topic'' ''pay'' ''Write''"
proof -
  let ?allow = "\<lparr>Principal = ''*'', ResourceType = ''Topic'', ResourceName = ''*'', Operation = ''All'', PermissionType = ''Allow''\<rparr>"
  let ?deny = "\<lparr>Principal = ''User:bob'', ResourceType = ''Topic'', ResourceName = ''pay'', Operation = ''Write'', PermissionType = ''Deny''\<rparr>"
  have "?deny \<in> set (rules (AddRule (AddRule NewACLManager ?allow) ?deny))"
    by (simp add: AddRule_def NewACLManager_def)
  moreover have "acl_matches ''bob'' ''Topic'' ''pay'' ''Write'' ?deny" by (simp add: acl_matches_def)
  moreover have "PermissionType ?deny = ''Deny''" by simp
  ultimately show ?thesis unfolding authorize_policy by blast
qed

end
