(* ===== verification/Go_State.thy ===== *)
theory Go_State
  imports Go_Base
begin

text \<open>
  Actions on a shared state that may stop with an error: what a method of the broker does
  while it walks a request. A failed action keeps the state it reached, as Go code does.
  \<open>holds P m Q R\<close> is the triple the proofs about handlers are made of: from a state with
  \<open>P\<close>, the action \<open>m\<close> ends in a value and a state with \<open>Q\<close>, or in an error and a state
  with \<open>R\<close>; its rules are collected in \<open>holds_intros\<close>.
\<close>

named_theorems act_simps \<open>running an action\<close>
named_theorems holds_intros \<open>introduction rules for triples\<close>

type_synonym ('s, 'a) act = "'s \<Rightarrow> (go_error + 'a) \<times> 's"

definition act_return :: "'a \<Rightarrow> ('s, 'a) act" where
  "act_return x s = (Inr x, s)"

definition act_fail :: "go_error \<Rightarrow> ('s, 'a) act" where
  "act_fail e s = (Inl e, s)"

definition act_bind :: "('s, 'a) act \<Rightarrow> ('a \<Rightarrow> ('s, 'b) act) \<Rightarrow> ('s, 'b) act" where
  "act_bind m f s = (case m s of (Inl e, s') \<Rightarrow> (Inl e, s') | (Inr x, s') \<Rightarrow> f x s')"

definition act_get :: "('s \<Rightarrow> 'a) \<Rightarrow> ('s, 'a) act" where
  "act_get g s = (Inr (g s), s)"

definition act_run :: "('s \<Rightarrow> 's \<times> 'a) \<Rightarrow> ('s, 'a) act" where
  "act_run f s = (case f s of (s', x) \<Rightarrow> (Inr x, s'))"

definition act_lift :: "go_error + 'a \<Rightarrow> ('s, 'a) act" where
  "act_lift r s = (r, s)"

text \<open>
  A call whose error the caller handles. A panic is not an error value: it passes through.
\<close>

definition act_try :: "('s, 'a) act \<Rightarrow> ('s, go_error + 'a) act" where
  "act_try m s =
     (case m s of
        (Inl e, s') \<Rightarrow> (if e = Panic then (Inl Panic, s') else (Inr (Inl e), s'))
      | (Inr x, s') \<Rightarrow> (Inr (Inr x), s'))"

text \<open>The loop over a slice that appends one result per element.\<close>

primrec act_for :: "('a \<Rightarrow> ('s, 'b) act) \<Rightarrow> 'a list \<Rightarrow> ('s, 'b list) act" where
  "act_for f [] = act_return []"
| "act_for f (x # xs) =
     act_bind (f x) (\<lambda>y. act_bind (act_for f xs) (\<lambda>ys. act_return (y # ys)))"

lemma act_return_apply [act_simps]: "act_return x s = (Inr x, s)"
  by (simp add: act_return_def)

lemma act_fail_apply [act_simps]: "act_fail e s = (Inl e, s)"
  by (simp add: act_fail_def)

lemma act_get_apply [act_simps]: "act_get g s = (Inr (g s), s)"
  by (simp add: act_get_def)

lemma act_bind_ok [act_simps]: "m s = (Inr x, s') \<Longrightarrow> act_bind m f s = f x s'"
  by (simp add: act_bind_def)

lemma act_bind_err [act_simps]: "m s = (Inl e, s') \<Longrightarrow> act_bind m f s = (Inl e, s')"
  by (simp add: act_bind_def)

lemma act_bind_return [simp]: "act_bind (act_return x) f = f x"
  by (rule ext) (simp add: act_bind_def act_return_def)

lemma act_return_bind [simp]: "act_bind m act_return = m"
  by (rule ext) (simp add: act_bind_def act_return_def split: prod.splits sum.splits)

lemma act_bind_assoc: "act_bind (act_bind m f) g = act_bind m (\<lambda>x. act_bind (f x) g)"
  by (rule ext) (simp add: act_bind_def split: prod.splits sum.splits)


section \<open>Triples\<close>

definition holds :: "('s \<Rightarrow> bool) \<Rightarrow> ('s, 'a) act \<Rightarrow> ('a \<Rightarrow> 's \<Rightarrow> bool) \<Rightarrow> (go_error \<Rightarrow> 's \<Rightarrow> bool) \<Rightarrow> bool" where
  "holds P m Q R \<longleftrightarrow>
     (\<forall>s. P s \<longrightarrow> (case m s of (Inr x, s') \<Rightarrow> Q x s' | (Inl e, s') \<Rightarrow> R e s'))"

lemma holdsI:
  assumes "\<And>s x s'. P s \<Longrightarrow> m s = (Inr x, s') \<Longrightarrow> Q x s'"
    and "\<And>s e s'. P s \<Longrightarrow> m s = (Inl e, s') \<Longrightarrow> R e s'"
  shows "holds P m Q R"
  using assms by (auto simp: holds_def split: prod.splits sum.splits)

lemma holdsD:
  assumes "holds P m Q R" and "P s"
  shows "m s = (Inr x, s') \<Longrightarrow> Q x s'" and "m s = (Inl e, s') \<Longrightarrow> R e s'"
  using assms by (auto simp: holds_def split: prod.splits sum.splits)

lemma holds_return [holds_intros]: "(\<And>s. P s \<Longrightarrow> Q x s) \<Longrightarrow> holds P (act_return x) Q R"
  by (simp add: holds_def act_return_def)

lemma holds_fail [holds_intros]: "(\<And>s. P s \<Longrightarrow> R e s) \<Longrightarrow> holds P (act_fail e) Q R"
  by (simp add: holds_def act_fail_def)

lemma holds_get: "(\<And>s. P s \<Longrightarrow> Q (g s) s) \<Longrightarrow> holds P (act_get g) Q R"
  by (simp add: holds_def act_get_def)

lemma holds_run: "(\<And>s s' x. P s \<Longrightarrow> f s = (s', x) \<Longrightarrow> Q x s') \<Longrightarrow> holds P (act_run f) Q R"
  by (auto simp: holds_def act_run_def split: prod.splits)

lemma holds_lift: "(\<And>s x. P s \<Longrightarrow> r = Inr x \<Longrightarrow> Q x s) \<Longrightarrow> (\<And>s e. P s \<Longrightarrow> r = Inl e \<Longrightarrow> R e s) \<Longrightarrow>
    holds P (act_lift r) Q R"
  by (auto simp: holds_def act_lift_def split: sum.splits)

lemma holds_try:
  assumes "holds P m Q (\<lambda>e s. S e s \<and> e \<noteq> Panic)"
  shows "holds P (act_try m) (\<lambda>r. case r of Inl e \<Rightarrow> S e | Inr x \<Rightarrow> Q x) R"
proof (rule holdsI)
  fix s r s'
  assume s: "P s" and run: "act_try m s = (Inr r, s')"
  show "(case r of Inl e \<Rightarrow> S e | Inr x \<Rightarrow> Q x) s'"
    using run holdsD [OF assms s]
    by (cases "m s"; cases "fst (m s)") (auto simp: act_try_def split: if_splits)
next
  fix s e s'
  assume s: "P s" and run: "act_try m s = (Inl e, s')"
  show "R e s'"
    using run holdsD(2) [OF assms s]
    by (cases "m s"; cases "fst (m s)") (auto simp: act_try_def split: if_splits)
qed

lemma holds_try_any:
  assumes "holds P m Q R"
  shows "holds P (act_try m) (\<lambda>r. case r of Inl e \<Rightarrow> R e | Inr x \<Rightarrow> Q x) R"
proof (rule holdsI)
  fix s r s'
  assume s: "P s" and run: "act_try m s = (Inr r, s')"
  show "(case r of Inl e \<Rightarrow> R e | Inr x \<Rightarrow> Q x) s'"
    using run holdsD [OF assms s]
    by (cases "m s"; cases "fst (m s)") (auto simp: act_try_def split: if_splits)
next
  fix s e s'
  assume s: "P s" and run: "act_try m s = (Inl e, s')"
  show "R e s'"
    using run holdsD(2) [OF assms s]
    by (cases "m s"; cases "fst (m s)") (auto simp: act_try_def split: if_splits)
qed

lemma holds_if: "(b \<Longrightarrow> holds P m Q R) \<Longrightarrow> (\<not> b \<Longrightarrow> holds P m' Q R) \<Longrightarrow> holds P (if b then m else m') Q R"
  by simp

lemma holds_get_then:
  assumes "\<And>x. holds P (f x) Q R"
  shows "holds P (act_bind (act_get g) f) Q R"
  using assms by (simp add: holds_def act_bind_def act_get_def)

lemma holds_lift_then:
  assumes "\<And>x. r = Inr x \<Longrightarrow> holds P (f x) Q R" and "\<And>e s. r = Inl e \<Longrightarrow> P s \<Longrightarrow> R e s"
  shows "holds P (act_bind (act_lift r) f) Q R"
  using assms by (cases r) (simp_all add: holds_def act_bind_def act_lift_def)

lemma holds_bind:
  assumes "holds P m Q R" and "\<And>x. holds (Q x) (f x) S R"
  shows "holds P (act_bind m f) S R"
  using assms by (fastforce simp: holds_def act_bind_def split: prod.splits sum.splits)

lemma holds_weaken:
  assumes "holds P m Q R" and "\<And>s. P' s \<Longrightarrow> P s" and "\<And>x s. Q x s \<Longrightarrow> Q' x s" and "\<And>e s. R e s \<Longrightarrow> R' e s"
  shows "holds P' m Q' R'"
  using assms by (fastforce simp: holds_def split: prod.splits sum.splits)

text \<open>
  A loop whose body may use up part of a budget: \<open>c x\<close> is the share of element \<open>x\<close>.
\<close>

lemma holds_for_budget:
  assumes "\<And>x n. x \<in> set xs \<Longrightarrow> holds (J (c x + n)) (f x) (\<lambda>_. J n) R"
  shows "holds (J (sum_list (map c xs) + n)) (act_for f xs) (\<lambda>_. J n) R"
  using assms
proof (induction xs)
  case Nil
  then show ?case by (simp add: holds_return)
next
  case (Cons x xs)
  have "holds (J (c x + (sum_list (map c xs) + n))) (f x) (\<lambda>_. J (sum_list (map c xs) + n)) R"
    by (rule Cons.prems) simp
  moreover have "holds (J (sum_list (map c xs) + n))
      (act_bind (act_for f xs) (\<lambda>ys. act_return (y # ys))) (\<lambda>_. J n) R" for y
    by (rule holds_bind [OF Cons.IH]) (use Cons.prems in \<open>auto intro: holds_return\<close>)
  ultimately show ?case
    by (simp add: add.assoc) (rule holds_bind)
qed

lemma holds_for:
  assumes "\<And>x. x \<in> set xs \<Longrightarrow> holds J (f x) (\<lambda>_. J) R"
  shows "holds J (act_for f xs) (\<lambda>_. J) R"
  using holds_for_budget [of xs "\<lambda>_ :: nat. J" "\<lambda>_. 0" f R 0] assms by simp

text \<open>An action that leaves the state alone.\<close>

definition pure_act :: "('s, 'a) act \<Rightarrow> bool" where
  "pure_act m \<longleftrightarrow> (\<forall>s. snd (m s) = s)"

lemma pure_return [intro]: "pure_act (act_return x)"
  by (simp add: pure_act_def act_return_def)

lemma pure_get [intro]: "pure_act (act_get g)"
  by (simp add: pure_act_def act_get_def)

lemma pure_lift [intro]: "pure_act (act_lift r)"
  by (simp add: pure_act_def act_lift_def)

lemma pure_bind [intro]: "pure_act m \<Longrightarrow> (\<And>x. pure_act (f x)) \<Longrightarrow> pure_act (act_bind m f)"
  unfolding pure_act_def act_bind_def
  by (auto split: prod.splits sum.splits) (metis snd_conv)+

end
