(* ===== verification/Go_Crypto.thy ===== *)
theory Go_Crypto
  imports Go_Base
begin

text \<open>
  The part of Go's \<open>crypto/sha256\<close>, \<open>crypto/hmac\<close> and \<open>encoding/base64\<close> that
  \<open>src/internal/security\<close> calls: SHA-256 (FIPS 180-4) on byte lists, HMAC with it
  (RFC 2104, block size 64), and base64 with and without padding. All of it computes.
  What the SASL theory needs of them: digests have 32 bytes, and decoding undoes padded
  encoding.
\<close>

section \<open>SHA-256\<close>

definition rotr32 :: "nat \<Rightarrow> u32 \<Rightarrow> u32" where
  "rotr32 n x = drop_bit n x OR push_bit (32 - n) x"

definition sha256_k :: "u32 list" where
  "sha256_k =
    [1116352408, 1899447441, 3049323471, 3921009573, 961987163, 1508970993,
     2453635748, 2870763221, 3624381080, 310598401, 607225278, 1426881987,
     1925078388, 2162078206, 2614888103, 3248222580, 3835390401, 4022224774,
     264347078, 604807628, 770255983, 1249150122, 1555081692, 1996064986,
     2554220882, 2821834349, 2952996808, 3210313671, 3336571891, 3584528711,
     113926993, 338241895, 666307205, 773529912, 1294757372, 1396182291,
     1695183700, 1986661051, 2177026350, 2456956037, 2730485921, 2820302411,
     3259730800, 3345764771, 3516065817, 3600352804, 4094571909, 275423344,
     430227734, 506948616, 659060556, 883997877, 958139571, 1322822218,
     1537002063, 1747873779, 1955562222, 2024104815, 2227730452, 2361852424,
     2428436474, 2756734187, 3204031479, 3329325298]"

text \<open>The message schedule: \<open>n\<close> more words after the ones in \<open>w\<close>.\<close>

fun sha256_extend :: "nat \<Rightarrow> u32 list \<Rightarrow> u32 list" where
  "sha256_extend 0 w = w"
| "sha256_extend (Suc n) w =
     (let t = length w;
          v1 = w ! (t - 2);
          s1 = rotr32 17 v1 XOR rotr32 19 v1 XOR drop_bit 10 v1;
          v2 = w ! (t - 15);
          s0 = rotr32 7 v2 XOR rotr32 18 v2 XOR drop_bit 3 v2
      in sha256_extend n (w @ [s1 + w ! (t - 7) + s0 + w ! (t - 16)]))"

fun words_of :: "bytes \<Rightarrow> u32 list" where
  "words_of (a # b # c # d # rest) = Uint32 [a, b, c, d] # words_of rest"
| "words_of _ = []"

datatype sha_state = Sha u32 u32 u32 u32 u32 u32 u32 u32

fun sha256_round :: "sha_state \<Rightarrow> u32 \<times> u32 \<Rightarrow> sha_state" where
  "sha256_round (Sha a b c d e f g h) (k, w) =
     (let t1 = h + (rotr32 6 e XOR rotr32 11 e XOR rotr32 25 e) + ((e AND f) XOR (NOT e AND g)) + k + w;
          t2 = (rotr32 2 a XOR rotr32 13 a XOR rotr32 22 a) + ((a AND b) XOR (a AND c) XOR (b AND c))
      in Sha (t1 + t2) a b c (d + t1) e f g)"

fun sha_add :: "sha_state \<Rightarrow> sha_state \<Rightarrow> sha_state" where
  "sha_add (Sha a b c d e f g h) (Sha a' b' c' d' e' f' g' h') =
     Sha (a + a') (b + b') (c + c') (d + d') (e + e') (f + f') (g + g') (h + h')"

definition sha256_block :: "sha_state \<Rightarrow> bytes \<Rightarrow> sha_state" where
  "sha256_block st blk =
     sha_add st (foldl sha256_round st (zip sha256_k (sha256_extend 48 (words_of blk))))"

definition sha_start :: sha_state where
  "sha_start =
     Sha 1779033703 3144134277 1013904242 2773480762
         1359893119 2600822924 528734635 1541459225"

definition sha256_pad :: "bytes \<Rightarrow> bytes" where
  "sha256_pad msg =
     msg @ [0x80] @ replicate ((119 - length msg mod 64) mod 64) 0 @
     PutUint64 (of_nat (8 * length msg))"

function sha256_blocks :: "sha_state \<Rightarrow> bytes \<Rightarrow> sha_state" where
  "sha256_blocks st bs =
     (if length bs < 64 then st else sha256_blocks (sha256_block st (take 64 bs)) (drop 64 bs))"
  by pat_completeness auto
termination
  by (relation "measure (\<lambda>(st, bs). length bs)") auto

declare sha256_blocks.simps [simp del]

fun sha_bytes :: "sha_state \<Rightarrow> bytes" where
  "sha_bytes (Sha a b c d e f g h) =
     PutUint32 a @ PutUint32 b @ PutUint32 c @ PutUint32 d @
     PutUint32 e @ PutUint32 f @ PutUint32 g @ PutUint32 h"

definition Sum256 :: "bytes \<Rightarrow> bytes" where
  "Sum256 msg = sha_bytes (sha256_blocks sha_start (sha256_pad msg))"

lemma length_Sum256 [simp]: "length (Sum256 msg) = 32"
  unfolding Sum256_def by (cases "sha256_blocks sha_start (sha256_pad msg)") simp

text \<open>The padding fills whole blocks, so no byte of the message is left out.\<close>

lemma pad_blocks: "64 dvd length (sha256_pad msg)"
proof -
  define q r where "q = length msg div 64" and "r = length msg mod 64"
  have n: "length msg = 64 * q + r" and r: "r < 64"
    by (simp_all add: q_def r_def)
  have len: "length (sha256_pad msg) = 64 * q + (r + 9 + (119 - r) mod 64)"
    using n r by (simp add: sha256_pad_def)
  have "r + 9 + (119 - r) mod 64 = (if r \<le> 55 then 64 else 128)"
    using r by (auto simp: mod_if)
  then have "64 dvd r + 9 + (119 - r) mod 64" by simp
  with len show ?thesis by simp
qed


section \<open>HMAC\<close>

definition xorBytes :: "bytes \<Rightarrow> bytes \<Rightarrow> bytes" where
  "xorBytes xs ys = map2 (XOR) xs ys"

definition hmacKey :: "bytes \<Rightarrow> bytes" where
  "hmacKey key =
     (let k = (if 64 < length key then Sum256 key else key)
      in k @ replicate (64 - length k) 0)"

definition Hmac256 :: "bytes \<Rightarrow> bytes \<Rightarrow> bytes" where
  "Hmac256 key msg =
     (let k = hmacKey key
      in Sum256 (map (\<lambda>b. b XOR 0x5c) k @ Sum256 (map (\<lambda>b. b XOR 0x36) k @ msg)))"

lemma length_Hmac256 [simp]: "length (Hmac256 key msg) = 32"
  by (simp add: Hmac256_def Let_def)

lemma length_xorBytes [simp]: "length (xorBytes xs ys) = min (length xs) (length ys)"
  by (simp add: xorBytes_def)

lemma xorBytes_cancel: "length xs = length ys \<Longrightarrow> xorBytes xs (xorBytes xs ys) = ys"
proof (induction xs ys rule: list_induct2)
  case Nil
  then show ?case by (simp add: xorBytes_def)
next
  case (Cons x xs y ys)
  have "x XOR (x XOR y) = y" by (simp flip: xor.assoc)
  with Cons show ?case by (simp add: xorBytes_def)
qed

lemma xorBytes_commute: "xorBytes xs ys = xorBytes ys xs"
  by (simp add: xorBytes_def zip_commute [of xs] comp_def split_def xor.commute)


section \<open>Base64\<close>

definition b64_alphabet :: string where
  "b64_alphabet = ''ABCDEFGHIJKLMNOPQRSTUVWXYZabcdefghijklmnopqrstuvwxyz0123456789+/''"

definition b64_char :: "nat \<Rightarrow> char" where
  "b64_char n = b64_alphabet ! n"

fun indexOf :: "char \<Rightarrow> string \<Rightarrow> nat option" where
  "indexOf c [] = None"
| "indexOf c (x # xs) = (if c = x then Some 0 else map_option Suc (indexOf c xs))"

definition b64_digit :: "char \<Rightarrow> nat option" where
  "b64_digit c = indexOf c b64_alphabet"

fun b64_encode :: "bool \<Rightarrow> bytes \<Rightarrow> string" where
  "b64_encode padded [] = []"
| "b64_encode padded [a] =
     (let val = unat a * 65536
      in [b64_char (val div 262144), b64_char (val div 4096 mod 64)] @
         (if padded then ''=='' else []))"
| "b64_encode padded [a, b] =
     (let val = unat a * 65536 + unat b * 256
      in [b64_char (val div 262144), b64_char (val div 4096 mod 64), b64_char (val div 64 mod 64)] @
         (if padded then ''='' else []))"
| "b64_encode padded (a # b # c # rest) =
     (let val = unat a * 65536 + unat b * 256 + unat c
      in [b64_char (val div 262144), b64_char (val div 4096 mod 64), b64_char (val div 64 mod 64),
          b64_char (val mod 64)] @ b64_encode padded rest)"

text \<open>
  \<open>StdEncoding.DecodeString\<close>: line ends are skipped, groups of four characters, padding in
  the last group only. The value of a corrupt input is never used, so the error has no
  content. Trailing bits of a padded group are not checked (the encoding is not strict).
\<close>

fun b64_groups :: "string \<Rightarrow> bytes option" where
  "b64_groups [] = Some []"
| "b64_groups (a # b # c # d # rest) =
     (case (b64_digit a, b64_digit b) of
        (Some w, Some x) \<Rightarrow>
          (if c = CHR ''='' then
             (if d = CHR ''='' \<and> rest = [] then Some [of_nat ((w * 262144 + x * 4096) div 65536)] else None)
           else case b64_digit c of
             None \<Rightarrow> None
           | Some y \<Rightarrow>
               if d = CHR ''='' then
                 (if rest = []
                  then let val = w * 262144 + x * 4096 + y * 64
                       in Some [of_nat (val div 65536), of_nat (val div 256)]
                  else None)
               else case b64_digit d of
                 None \<Rightarrow> None
               | Some z \<Rightarrow>
                   let val = w * 262144 + x * 4096 + y * 64 + z
                   in map_option (\<lambda>out. [of_nat (val div 65536), of_nat (val div 256), of_nat val] @ out)
                        (b64_groups rest))
      | _ \<Rightarrow> None)"
| "b64_groups _ = None"

definition StdDecodeString :: "string \<Rightarrow> bytes option" where
  "StdDecodeString s = b64_groups (filter (\<lambda>c. c \<noteq> CHR 0x0A \<and> c \<noteq> CHR 0x0D) s)"

abbreviation StdEncodeToString :: "bytes \<Rightarrow> string" where
  "StdEncodeToString \<equiv> b64_encode True"

abbreviation RawStdEncodeToString :: "bytes \<Rightarrow> string" where
  "RawStdEncodeToString \<equiv> b64_encode False"


text \<open>Every digit is found again, and no digit is a pad, a separator or a line end.\<close>

lemma b64_digits:
  assumes "n < 64"
  shows "b64_digit (b64_char n) = Some n"
    and "b64_char n \<notin> {CHR ''='', CHR '','', CHR 0x0A, CHR 0x0D}"
proof -
  have "\<forall>n \<in> set [0..<64]. b64_digit (b64_char n) = Some n \<and>
      b64_char n \<notin> {CHR ''='', CHR '','', CHR 0x0A, CHR 0x0D}"
    by code_simp
  with assms show "b64_digit (b64_char n) = Some n"
    and "b64_char n \<notin> {CHR ''='', CHR '','', CHR 0x0A, CHR 0x0D}"
    by auto
qed

lemma unat_byte: "unat (b :: byte) < 256"
  using unat_bound [of b] by simp

lemma b64_group_digits:
  fixes val :: nat
  assumes "val < 16777216"
  shows "val div 262144 * 262144 + val div 4096 mod 64 * 4096 + val div 64 mod 64 * 64 + val mod 64 = val"
    and "val div 262144 < 64"
proof -
  have "val = val div 64 * 64 + val mod 64" "val div 64 = val div 64 div 64 * 64 + val div 64 mod 64"
    "val div 4096 = val div 4096 div 64 * 64 + val div 4096 mod 64"
    by simp_all
  moreover have "val div 64 div 64 = val div 4096" "val div 4096 div 64 = val div 262144"
    by (simp_all add: div_mult2_eq [symmetric])
  ultimately show "val div 262144 * 262144 + val div 4096 mod 64 * 4096 + val div 64 mod 64 * 64 + val mod 64 = val"
    by linarith
  show "val div 262144 < 64" using assms by simp
qed

lemma b64_group_bytes:
  fixes a b c :: byte
  defines "val \<equiv> unat a * 65536 + unat b * 256 + unat c"
  shows "val < 16777216" and "(of_nat (val div 65536) :: byte) = a"
    and "(of_nat (val div 256) :: byte) = b" and "(of_nat val :: byte) = c"
proof -
  note lt = unat_byte [of a] unat_byte [of b] unat_byte [of c]
  show "val < 16777216" using lt by (simp add: val_def)
  have 1: "val div 65536 = unat a" using lt by (simp add: val_def)
  have 2: "val div 256 = unat a * 256 + unat b" using lt by (simp add: val_def)
  have z: "(of_nat (n * 256 + m) :: byte) = of_nat m" for n m :: nat
    by (rule word_unat_eq_iff [THEN iffD2]) (simp only: unat_of_nat take_bit_eq_mod, simp)
  have 3: "val = (unat a * 256 + unat b) * 256 + unat c" by (simp add: val_def)
  show "(of_nat (val div 65536) :: byte) = a" by (simp add: 1)
  show "(of_nat (val div 256) :: byte) = b" unfolding 2 z by simp
  show "(of_nat val :: byte) = c" unfolding 3 z by simp
qed

lemma b64_groups_encode: "b64_groups (StdEncodeToString bs) = Some bs"
proof (induction "True" bs rule: b64_encode.induct)
  case 1
  then show ?case by simp
next
  case (2 a)
  define v where "v = unat a * 65536"
  have "v < 16777216" "(of_nat (v div 65536) :: byte) = a"
    using b64_group_bytes [of a 0 0] by (simp_all add: v_def)
  moreover have "v div 64 mod 64 = 0" "v mod 64 = 0" by (simp_all add: v_def)
  ultimately show ?case
    using b64_group_digits [of v] unfolding b64_encode.simps Let_def v_def [symmetric]
    by (simp add: b64_digits(1))
next
  case (3 a b)
  define v where "v = unat a * 65536 + unat b * 256"
  have "v < 16777216" "(of_nat (v div 65536) :: byte) = a" "(of_nat (v div 256) :: byte) = b"
    using b64_group_bytes [of a b 0] by (simp_all add: v_def)
  moreover have "v mod 64 = 0" by (simp add: v_def mod_add_eq [symmetric])
  ultimately show ?case
    using b64_group_digits [of v] b64_digits(2) [of "v div 64 mod 64"]
    unfolding b64_encode.simps Let_def v_def [symmetric]
    by (simp add: b64_digits(1))
next
  case (4 a b c rest)
  define v where "v = unat a * 65536 + unat b * 256 + unat c"
  have "v < 16777216" "(of_nat (v div 65536) :: byte) = a" "(of_nat (v div 256) :: byte) = b"
    "(of_nat v :: byte) = c"
    unfolding v_def by (rule b64_group_bytes)+
  with 4 show ?case
    using b64_group_digits [of v] b64_digits(2) [of "v div 64 mod 64"] b64_digits(2) [of "v mod 64"]
    unfolding b64_encode.simps Let_def v_def [symmetric]
    by (simp add: b64_digits(1))
qed

definition b64_text :: "char \<Rightarrow> bool" where
  "b64_text c \<longleftrightarrow> c \<noteq> CHR '','' \<and> c \<noteq> CHR 0x0A \<and> c \<noteq> CHR 0x0D"

lemma b64_text_digit: "n < 64 \<Longrightarrow> b64_text (b64_char n)"
  using b64_digits(2) [of n] by (simp add: b64_text_def)

lemma b64_text_pad: "b64_text CHR ''=''"
  by (simp add: b64_text_def)

lemma b64_encode_chars: "list_all b64_text (b64_encode padded bs)"
proof (induction padded bs rule: b64_encode.induct)
  case (2 padded a)
  show ?case using b64_group_digits(2) [OF b64_group_bytes(1) [of a 0 0]]
    by (simp add: Let_def b64_text_digit b64_text_pad)
next
  case (3 padded a b)
  show ?case using b64_group_digits(2) [OF b64_group_bytes(1) [of a b 0]]
    by (simp add: Let_def b64_text_digit b64_text_pad)
next
  case (4 padded a b c rest)
  show ?case using 4 b64_group_digits(2) [OF b64_group_bytes(1) [of a b c]]
    by (simp add: Let_def b64_text_digit)
qed simp

lemma StdDecode_Encode: "StdDecodeString (StdEncodeToString bs) = Some bs"
proof -
  have "filter (\<lambda>c. c \<noteq> CHR 0x0A \<and> c \<noteq> CHR 0x0D) (StdEncodeToString bs) = StdEncodeToString bs"
    using b64_encode_chars [of True bs] by (intro filter_True) (simp add: list_all_iff b64_text_def)
  then show ?thesis by (simp add: StdDecodeString_def b64_groups_encode)
qed

lemma b64_encode_nonempty: "bs \<noteq> [] \<Longrightarrow> b64_encode padded bs \<noteq> []"
  by (cases "(padded, bs)" rule: b64_encode.cases) (auto simp: Let_def)

end
