(* ===== verification/Sasl.thy ===== *)
theory Sasl
  imports Go_Map Go_Crypto
begin

text \<open>
  \<open>src/internal/security/sasl.go\<close> and \<open>scram.go\<close>: credentials derived with PBKDF2,
  SASL/PLAIN, and the two round trips of SASL/SCRAM-SHA-256 with the session that spans
  them. Each call is one step on the authenticator (its mutex is held) and on the session
  of one connection.

  Random bytes (\<open>crypto/rand\<close>) are an argument: the bytes read, or the text of the read
  error. \<open>quote\<close> is the text \<open>fmt\<close> prints for \<open>%q\<close>; it depends on Unicode tables and
  ends in the text of one error only. \<open>subtle.ConstantTimeCompare\<close> is equality.
\<close>

type_synonym random = "string + bytes"

section \<open>Package strings and bytes\<close>

primrec splitOn :: "'a \<Rightarrow> 'a list \<Rightarrow> 'a list list" where
  "splitOn sep [] = [[]]"
| "splitOn sep (x # xs) =
     (if x = sep then [] # splitOn sep xs
      else case splitOn sep xs of [] \<Rightarrow> [[x]] | p # ps \<Rightarrow> (x # p) # ps)"

text \<open>
  \<open>strings.ToUpper\<close>. Two letters outside ASCII have an ASCII upper case: U+0131 (I) and
  U+017F (S), here as their UTF-8 bytes. Every other byte outside ASCII stands for a
  letter whose upper case is not ASCII either; it is kept, which is enough for the
  comparisons with ASCII names the code makes.
\<close>

definition upperChar :: "char \<Rightarrow> char" where
  "upperChar c =
     (let n = of_char c :: nat in if 97 \<le> n \<and> n \<le> 122 then char_of (n - 32) else c)"

fun ToUpper :: "string \<Rightarrow> string" where
  "ToUpper [] = []"
| "ToUpper [c] = [upperChar c]"
| "ToUpper (c # d # rest) =
     (if c = CHR 0xC4 \<and> d = CHR 0xB1 then CHR ''I'' # ToUpper rest
      else if c = CHR 0xC5 \<and> d = CHR 0xBF then CHR ''S'' # ToUpper rest
      else upperChar c # ToUpper (d # rest))"

definition HasPrefix :: "string \<Rightarrow> string \<Rightarrow> bool" where
  "HasPrefix s p \<longleftrightarrow> take (length p) s = p"

definition LastIndex :: "string \<Rightarrow> string \<Rightarrow> int" where
  "LastIndex s sub =
     (case rev (filter (\<lambda>i. take (length sub) (drop i s) = sub) [0..<length s]) of
        [] \<Rightarrow> -1 | i # _ \<Rightarrow> int i)"


section \<open>Credentials\<close>

definition hmacSHA256 :: "bytes \<Rightarrow> bytes \<Rightarrow> bytes" where
  "hmacSHA256 key msg = Hmac256 key msg"

fun pbkdf2Loop :: "bytes \<Rightarrow> nat \<Rightarrow> bytes \<Rightarrow> bytes \<Rightarrow> bytes" where
  "pbkdf2Loop password 0 u t = t"
| "pbkdf2Loop password (Suc n) u t =
     (let u' = Hmac256 password u in pbkdf2Loop password n u' (xorBytes t u'))"

definition pbkdf2HMACSHA256 :: "bytes \<Rightarrow> bytes \<Rightarrow> int \<Rightarrow> nat \<Rightarrow> bytes" where
  "pbkdf2HMACSHA256 password salt iterations keyLen =
     (let numBlocks = (keyLen + 32 - 1) div 32;
          blockBytes = (\<lambda>block.
            let u = Hmac256 password (salt @ PutUint32 (of_nat block))
            in pbkdf2Loop password (nat (iterations - 1)) u u)
      in take keyLen (concat (map blockBytes [1..<numBlocks + 1])))"

definition scramIterations :: int where
  "scramIterations = 4096"

record scramCredential =
  Salt :: bytes
  Iterations :: int
  StoredKey :: bytes
  ServerKey :: bytes

definition deriveCredential :: "string \<Rightarrow> bytes \<Rightarrow> int \<Rightarrow> scramCredential" where
  "deriveCredential password salt iterations =
     (let saltedPassword = pbkdf2HMACSHA256 (bytes_of password) salt iterations 32;
          clientKey = hmacSHA256 saltedPassword (bytes_of ''Client Key'');
          storedKey = Sum256 clientKey;
          serverKey = hmacSHA256 saltedPassword (bytes_of ''Server Key'')
      in \<lparr>Salt = salt, Iterations = iterations, StoredKey = storedKey, ServerKey = serverKey\<rparr>)"

record SASLAuthenticator =
  credentials :: "(string, scramCredential) gomap"
  enabledMechs :: "(string, bool) gomap"

definition NewSASLAuthenticator :: SASLAuthenticator where
  "NewSASLAuthenticator =
     \<lparr>credentials = [], enabledMechs = [(''PLAIN'', True), (''SCRAM-SHA-256'', True)]\<rparr>"

definition AddUser ::
  "random \<Rightarrow> SASLAuthenticator \<Rightarrow> string \<Rightarrow> string \<Rightarrow> SASLAuthenticator \<times> go_error option" where
  "AddUser rnd sa username password =
     (case rnd of
        Inl e \<Rightarrow> (sa, Some (ErrText (''failed to generate credential salt: '' @ e)))
      | Inr salt \<Rightarrow>
          (sa\<lparr>credentials := mput username (deriveCredential password salt scramIterations)
                               (credentials sa)\<rparr>, None))"

definition GetEnabledMechanisms :: "(string list \<Rightarrow> string list) \<Rightarrow> SASLAuthenticator \<Rightarrow> string list" where
  "GetEnabledMechanisms order sa = order (mkeys (enabledMechs sa))"

definition IsMechanismSupported :: "SASLAuthenticator \<Rightarrow> string \<Rightarrow> bool" where
  "IsMechanismSupported sa mech \<longleftrightarrow> mget (enabledMechs sa) (ToUpper mech) = Some True"

definition authFailed :: "string \<Rightarrow> go_error" where
  "authFailed username = ErrText (''authentication failed for user: '' @ username)"

definition AuthenticatePlain :: "SASLAuthenticator \<Rightarrow> bytes \<Rightarrow> go_error + string" where
  "AuthenticatePlain sa msg =
     (let parts = splitOn 0 msg
      in if length parts < 3 then Inl (ErrText ''malformed SASL/PLAIN payload'')
         else let username = string_of (parts ! 1); password = string_of (parts ! 2)
              in case mget (credentials sa) username of
                   None \<Rightarrow> Inl (authFailed username)
                 | Some crd \<Rightarrow>
                     let candidate = deriveCredential password (Salt crd) (Iterations crd)
                     in if StoredKey candidate \<noteq> StoredKey crd then Inl (authFailed username)
                        else Inr username)"


section \<open>Sessions\<close>

record SASLSession =
  Mechanism :: string
  Username :: string
  authenticated :: bool
  scramStep :: int
  clientFirstBare :: string
  serverFirst :: string
  fullNonce :: string
  cred :: "scramCredential option"

definition NewSASLSession :: SASLSession where
  "NewSASLSession =
     \<lparr>Mechanism = '''', Username = '''', authenticated = False, scramStep = 0,
      clientFirstBare = '''', serverFirst = '''', fullNonce = '''', cred = None\<rparr>"

definition SetMechanism :: "SASLSession \<Rightarrow> string \<Rightarrow> SASLSession" where
  "SetMechanism s mech = s\<lparr>Mechanism := ToUpper mech\<rparr>"

fun parseAttrs ::
  "(string \<Rightarrow> string) \<Rightarrow> string list \<Rightarrow> (string, string) gomap \<Rightarrow> go_error + (string, string) gomap" where
  "parseAttrs quote [] attrs = Inr attrs"
| "parseAttrs quote (part # parts) attrs =
     (if part = '''' then parseAttrs quote parts attrs
      else let key = takeWhile (\<lambda>c. c \<noteq> CHR ''='') part; idx = length key
           in if idx = length part \<or> idx < 1
              then Inl (ErrText (''malformed SCRAM attribute: '' @ quote part))
              else parseAttrs quote parts (mput key (drop (idx + 1) part) attrs))"

definition parseScramAttrs :: "(string \<Rightarrow> string) \<Rightarrow> string \<Rightarrow> go_error + (string, string) gomap" where
  "parseScramAttrs quote s = parseAttrs quote (splitOn CHR '','' s) []"

definition attr :: "(string, string) gomap \<Rightarrow> string \<Rightarrow> string" where
  "attr attrs k = (case mget attrs k of None \<Rightarrow> '''' | Some v \<Rightarrow> v)"

text \<open>The text after the switch on the GS2 header of a client-first-message.\<close>

definition bareMessage :: "string \<Rightarrow> go_error + string" where
  "bareMessage msg =
     (if HasPrefix msg ''n,,'' then Inr (drop 3 msg)
      else if HasPrefix msg ''y,,'' \<or> HasPrefix msg ''p=''
      then Inl (ErrText ''SCRAM channel binding is not supported'')
      else Inr msg)"

definition scramClientFirst ::
  "(string \<Rightarrow> string) \<Rightarrow> random \<Rightarrow> SASLAuthenticator \<Rightarrow> SASLSession \<Rightarrow> bytes \<Rightarrow>
   SASLSession \<times> (go_error + bytes)" where
  "scramClientFirst quote rnd sa s msgBytes =
     (case bareMessage (string_of msgBytes) of
        Inl e \<Rightarrow> (s, Inl e)
      | Inr bare \<Rightarrow>
          (case parseScramAttrs quote bare of
             Inl e \<Rightarrow> (s, Inl e)
           | Inr attrs \<Rightarrow>
               let username = attr attrs ''n''; clientNonce = attr attrs ''r''
               in if username = '''' \<or> clientNonce = ''''
                  then (s, Inl (ErrText ''malformed SCRAM client-first-message''))
                  else case mget (credentials sa) username of
                         None \<Rightarrow> (s, Inl (authFailed username))
                       | Some crd \<Rightarrow>
                           (case rnd of
                              Inl e \<Rightarrow> (s, Inl (ErrText (''failed to generate server nonce: '' @ e)))
                            | Inr serverNonceRaw \<Rightarrow>
                                let nonce = clientNonce @ RawStdEncodeToString serverNonceRaw;
                                    first = ''r='' @ nonce @ '',s='' @ StdEncodeToString (Salt crd) @
                                            '',i='' @ show_int (Iterations crd)
                                in (s\<lparr>Username := username, cred := Some crd, clientFirstBare := bare,
                                      serverFirst := first, fullNonce := nonce, scramStep := 1\<rparr>,
                                    Inr (bytes_of first)))))"

definition scramClientFinal ::
  "(string \<Rightarrow> string) \<Rightarrow> SASLSession \<Rightarrow> bytes \<Rightarrow> SASLSession \<times> (go_error + bytes \<times> bool \<times> string)" where
  "scramClientFinal quote s msgBytes =
     (let msg = string_of msgBytes
      in case parseScramAttrs quote msg of
           Inl e \<Rightarrow> (s, Inl e)
         | Inr attrs \<Rightarrow>
             let channelBinding = attr attrs ''c''; nonce = attr attrs ''r''; proofB64 = attr attrs ''p''
             in if channelBinding \<noteq> ''biws'' \<or> nonce \<noteq> fullNonce s \<or> proofB64 = ''''
                then (s, Inl (ErrText ''malformed or invalid SCRAM client-final-message''))
                else case StdDecodeString proofB64 of
                       None \<Rightarrow> (s, Inl (ErrText ''invalid SCRAM client proof''))
                     | Some clientProof \<Rightarrow>
                         if length clientProof \<noteq> 32 then (s, Inl (ErrText ''invalid SCRAM client proof''))
                         else let proofIdx = LastIndex msg '',p=''
                              in if proofIdx < 0
                                 then (s, Inl (ErrText ''malformed SCRAM client-final-message''))
                                 else case cred s of
                                        None \<Rightarrow> (s, Inl Panic)
                                      | Some crd \<Rightarrow>
                                          let withoutProof = take (nat proofIdx) msg;
                                              authMessage = clientFirstBare s @ '','' @ serverFirst s @ '','' @ withoutProof;
                                              clientSignature = hmacSHA256 (StoredKey crd) (bytes_of authMessage);
                                              clientKey = xorBytes clientSignature clientProof
                                          in if Sum256 clientKey \<noteq> StoredKey crd
                                             then (s, Inl (authFailed (Username s)))
                                             else let serverSignature = hmacSHA256 (ServerKey crd) (bytes_of authMessage)
                                                  in (s\<lparr>authenticated := True, scramStep := 2\<rparr>,
                                                      Inr (bytes_of (''v='' @ StdEncodeToString serverSignature),
                                                           True, Username s)))"

definition authenticateScram ::
  "(string \<Rightarrow> string) \<Rightarrow> random \<Rightarrow> SASLAuthenticator \<Rightarrow> SASLSession \<Rightarrow> bytes \<Rightarrow>
   SASLSession \<times> (go_error + bytes \<times> bool \<times> string)" where
  "authenticateScram quote rnd sa s msg =
     (if scramStep s = 0 then
        (case scramClientFirst quote rnd sa s msg of
           (s', Inl e) \<Rightarrow> (s', Inl e)
         | (s', Inr resp) \<Rightarrow> (s', Inr (resp, False, '''')))
      else if scramStep s = 1 then scramClientFinal quote s msg
      else (s, Inl (ErrText ''SCRAM exchange already completed'')))"

text \<open>
  \<open>Authenticate\<close> returns the response, whether the exchange is over and the user; with an
  error it always returns no response, a finished exchange and no user.
\<close>

definition Authenticate ::
  "(string \<Rightarrow> string) \<Rightarrow> random \<Rightarrow> SASLAuthenticator \<Rightarrow> SASLSession \<Rightarrow> bytes \<Rightarrow>
   SASLSession \<times> (go_error + bytes \<times> bool \<times> string)" where
  "Authenticate quote rnd sa s msg =
     (if Mechanism s = ''PLAIN'' then
        (case AuthenticatePlain sa msg of
           Inl e \<Rightarrow> (s, Inl e)
         | Inr username \<Rightarrow> (s\<lparr>authenticated := True, Username := username\<rparr>, Inr ([], True, username)))
      else if Mechanism s = ''SCRAM-SHA-256'' then authenticateScram quote rnd sa s msg
      else (s, Inl (ErrText ''no SASL mechanism negotiated (send SaslHandshake first)'')))"


section \<open>Key derivation against RFC 2898\<close>

primrec rfcU :: "bytes \<Rightarrow> bytes \<Rightarrow> nat \<Rightarrow> nat \<Rightarrow> bytes" where
  "rfcU P S i 0 = Hmac256 P (S @ PutUint32 (of_nat i))"
| "rfcU P S i (Suc k) = Hmac256 P (rfcU P S i k)"

definition rfcF :: "bytes \<Rightarrow> bytes \<Rightarrow> nat \<Rightarrow> nat \<Rightarrow> bytes" where
  "rfcF P S c i = foldl (\<lambda>t k. xorBytes t (rfcU P S i k)) (rfcU P S i 0) [1..<c]"

lemma pbkdf2Loop_rfc:
  "pbkdf2Loop P n (rfcU P S i k) t = foldl (\<lambda>t j. xorBytes t (rfcU P S i j)) t [Suc k..<Suc k + n]"
proof (induction n arbitrary: k t)
  case 0
  then show ?case by simp
next
  case (Suc n)
  have "[Suc k..<Suc k + Suc n] = Suc k # [Suc (Suc k)..<Suc (Suc k) + n]"
    by (simp add: upt_conv_Cons)
  then show ?case
    using Suc [of "Suc k" "xorBytes t (rfcU P S i (Suc k))"] by (simp add: Let_def)
qed

lemma pbkdf2_rfc:
  assumes "1 \<le> c"
  shows "pbkdf2HMACSHA256 P S c n = take n (concat (map (rfcF P S (nat c)) [1..<(n + 31) div 32 + 1]))"
proof -
  have "pbkdf2Loop P (nat (c - 1)) (rfcU P S i 0) (rfcU P S i 0) = rfcF P S (nat c) i" for i
  proof -
    have "Suc 0 + nat (c - 1) = nat c" using assms by simp
    then show ?thesis by (simp only: pbkdf2Loop_rfc rfcF_def) simp
  qed
  then show ?thesis by (simp add: pbkdf2HMACSHA256_def Let_def add.commute)
qed

lemma length_rfcF: "length (rfcF P S c i) = 32"
proof -
  have "length (foldl (\<lambda>t k. xorBytes t (rfcU P S i k)) t ks) = 32" if "length t = 32" for t ks
    using that
  proof (induction ks arbitrary: t)
    case (Cons k ks)
    have "length (rfcU P S i k) = 32" by (cases k) simp_all
    with Cons show ?case by simp
  qed simp
  then show ?thesis by (simp add: rfcF_def)
qed


section \<open>Splitting and parsing attribute lists\<close>

lemma splitOn_nonempty [simp]: "splitOn sep xs \<noteq> []"
  by (induction xs) (auto split: list.splits)

lemma splitOn_plain: "sep \<notin> set xs \<Longrightarrow> splitOn sep xs = [xs]"
  by (induction xs) auto

lemma splitOn_append: "sep \<notin> set xs \<Longrightarrow> splitOn sep (xs @ sep # ys) = xs # splitOn sep ys"
  by (induction xs) auto

lemma takeWhile_key: "CHR ''='' \<notin> set k \<Longrightarrow> takeWhile (\<lambda>c. c \<noteq> CHR ''='') (k @ CHR ''='' # v) = k"
  by (induction k) auto

lemma parseAttrs_Cons:
  assumes "CHR ''='' \<notin> set k" and "k \<noteq> []"
  shows "parseAttrs quote ((k @ CHR ''='' # v) # parts) attrs = parseAttrs quote parts (mput k v attrs)"
  using assms by (simp add: takeWhile_key Let_def)

lemma LastIndex_last:
  assumes "CHR '','' \<notin> set rst"
  shows "LastIndex (pre @ '',p='' @ rst) '',p='' = int (length pre)"
proof -
  let ?s = "pre @ '',p='' @ rst"
  let ?hit = "\<lambda>i. take (length '',p='') (drop i ?s) = '',p=''"
  have miss: "\<not> ?hit i" if "length pre < i" for i
  proof
    assume "?hit i"
    then have "set (take (length '',p='') (drop i ?s)) = set '',p=''" by (rule arg_cong)
    then have "CHR '','' \<in> set (take (length '',p='') (drop i ?s))" by (simp only:) simp
    then have "CHR '','' \<in> set (drop i ?s)" by (rule in_set_takeD)
    moreover have "drop i ?s = drop (i - length pre - 1) (''p='' @ rst)"
      using that by (simp add: drop_Cons')
    ultimately have "CHR '','' \<in> set (''p='' @ rst)" by (metis in_set_dropD)
    then show False using assms by auto
  qed
  have "[0..<length ?s] = [0..<length pre] @ [length pre..<length ?s]"
    by (metis le_add1 length_append upt_add_eq_append zero_le add_0 less_eqE)
  moreover have "[length pre..<length ?s] = length pre # [Suc (length pre)..<length ?s]"
    by (rule upt_conv_Cons) simp
  moreover have "filter ?hit [Suc (length pre)..<length ?s] = []"
    using miss by (intro filter_False) (auto simp only: set_upt atLeastLessThan_iff Suc_le_eq)
  moreover have "?hit (length pre)" by simp
  ultimately have "filter ?hit [0..<length ?s] = filter ?hit [0..<length pre] @ [length pre]"
    by simp
  then show ?thesis by (simp add: LastIndex_def)
qed

text \<open>The three attributes of a SCRAM message that has them in order.\<close>

definition no_comma :: "string \<Rightarrow> bool" where
  "no_comma s \<longleftrightarrow> CHR '','' \<notin> set s"

lemma parse_two:
  assumes "no_comma u" and "no_comma r"
  shows "parseScramAttrs quote (''n='' @ u @ '',r='' @ r) = Inr [(''n'', u), (''r'', r)]"
proof -
  have "splitOn CHR '','' (''n='' @ u @ '',r='' @ r) = [''n='' @ u, ''r='' @ r]"
    using assms splitOn_append [of "CHR '',''" "''n='' @ u" "''r='' @ r"] splitOn_plain [of "CHR '',''" "''r='' @ r"]
    by (simp add: no_comma_def)
  moreover have "parseAttrs quote [''n='' @ u, ''r='' @ r] [] = Inr [(''n'', u), (''r'', r)]"
    using parseAttrs_Cons [of "''n''" quote u] parseAttrs_Cons [of "''r''" quote r] by simp
  ultimately show ?thesis by (simp add: parseScramAttrs_def)
qed

lemma parse_three:
  assumes "no_comma r" and "no_comma p"
  shows "parseScramAttrs quote (''c=biws,r='' @ r @ '',p='' @ p) = Inr [(''c'', ''biws''), (''r'', r), (''p'', p)]"
proof -
  have "splitOn CHR '','' (''c=biws,r='' @ r @ '',p='' @ p) = [''c=biws'', ''r='' @ r, ''p='' @ p]"
    using assms splitOn_append [of "CHR '',''" "''r='' @ r" "''p='' @ p"] splitOn_plain [of "CHR '',''" "''p='' @ p"]
    by (simp add: no_comma_def)
  moreover have "parseAttrs quote [''c=biws'', ''r='' @ r, ''p='' @ p] [] =
      Inr [(''c'', ''biws''), (''r'', r), (''p'', p)]"
    using parseAttrs_Cons [of "''c''" quote "''biws''"] parseAttrs_Cons [of "''r''" quote r]
      parseAttrs_Cons [of "''p''" quote p] by simp
  ultimately show ?thesis by (simp add: parseScramAttrs_def)
qed


section \<open>PLAIN\<close>

text \<open>What a login with PLAIN verifies: a password that derives the stored key.\<close>

definition knows_password :: "SASLAuthenticator \<Rightarrow> string \<Rightarrow> string \<Rightarrow> bool" where
  "knows_password sa username password \<longleftrightarrow>
     (\<exists>crd. mget (credentials sa) username = Some crd \<and>
        StoredKey (deriveCredential password (Salt crd) (Iterations crd)) = StoredKey crd)"

lemma AuthenticatePlain_iff:
  "AuthenticatePlain sa msg = Inr u \<longleftrightarrow>
     (\<exists>a p rest. splitOn 0 msg = a # bytes_of u # p # rest \<and> knows_password sa u (string_of p))"
proof (cases "3 \<le> length (splitOn 0 msg)")
  case True
  then obtain a b p rest where l: "splitOn 0 msg = a # b # p # rest"
    by (auto simp: numeral_3_eq_3 Suc_le_length_iff)
  have b: "b = bytes_of u \<longleftrightarrow> u = string_of b" by auto
  from l b show ?thesis
    by (auto simp: AuthenticatePlain_def knows_password_def Let_def split: option.splits if_splits)
next
  case False
  then show ?thesis by (auto simp: AuthenticatePlain_def)
qed

lemma derive_fields [simp]:
  "Salt (deriveCredential pw sl i) = sl" "Iterations (deriveCredential pw sl i) = i"
  by (simp_all add: deriveCredential_def Let_def)

lemma AddUser_knows:
  "fst (AddUser (Inr salt) sa u pw) = sa' \<Longrightarrow> knows_password sa' u pw"
  by (auto simp: AddUser_def knows_password_def)

lemma AddUser_other:
  "u' \<noteq> u \<Longrightarrow> mget (credentials (fst (AddUser rnd sa u pw))) u' = mget (credentials sa) u'"
  by (auto simp: AddUser_def split: sum.splits)

definition no_nul :: "string \<Rightarrow> bool" where
  "no_nul s \<longleftrightarrow> (0 :: byte) \<notin> set (bytes_of s)"

lemma plain_split:
  "no_nul u \<Longrightarrow> no_nul pw \<Longrightarrow>
   splitOn 0 (0 # bytes_of u @ 0 # bytes_of pw) = [[], bytes_of u, bytes_of pw]"
  by (simp add: no_nul_def splitOn_append splitOn_plain)

lemma plain_login:
  assumes "no_nul u" and "no_nul pw"
  shows "AuthenticatePlain sa (0 # bytes_of u @ 0 # bytes_of pw) = Inr u \<longleftrightarrow> knows_password sa u pw"
  unfolding AuthenticatePlain_iff plain_split [OF assms] by auto


section \<open>SCRAM\<close>

text \<open>What the client-final-message proves: the key behind the stored key, for this exchange.\<close>

definition scram_proof :: "SASLSession \<Rightarrow> string \<Rightarrow> bytes \<Rightarrow> bool" where
  "scram_proof s withoutProof proof \<longleftrightarrow>
     (\<exists>crd. cred s = Some crd \<and> length proof = 32 \<and>
        Sum256 (xorBytes (hmacSHA256 (StoredKey crd)
          (bytes_of (clientFirstBare s @ '','' @ serverFirst s @ '','' @ withoutProof))) proof) = StoredKey crd)"

lemma scramClientFinal_done:
  assumes "scramClientFinal quote s msg = (s', Inr (resp, fin, u))"
  shows "s' = s\<lparr>authenticated := True, scramStep := 2\<rparr>" and "fin" and "u = Username s"
    and "\<exists>attrs proof k. parseScramAttrs quote (string_of msg) = Inr attrs \<and> attr attrs ''r'' = fullNonce s \<and>
      StdDecodeString (attr attrs ''p'') = Some proof \<and> scram_proof s (take k (string_of msg)) proof"
  using assms
  by (auto simp: scramClientFinal_def Let_def scram_proof_def split: sum.splits if_splits option.splits)

lemma scramClientFinal_error:
  "scramClientFinal quote s msg = (s', Inl e) \<Longrightarrow> s' = s"
  by (auto simp: scramClientFinal_def Let_def split: sum.splits if_splits option.splits)

lemma scramClientFirst_effect:
  assumes "scramClientFirst quote rnd sa s msg = (s', r)"
  shows "authenticated s' = authenticated s \<and> Mechanism s' = Mechanism s \<and>
    (s' = s \<or> scramStep s' = 1 \<and> (\<exists>crd. cred s' = Some crd \<and> mget (credentials sa) (Username s') = Some crd))"
  using assms
  by (auto simp: scramClientFirst_def Let_def split: sum.splits if_splits option.splits)

text \<open>
  The messages of a client that follows RFC 5802: \<open>rfc_client_first\<close> and \<open>rfc_client_final\<close> write
  the user name as a saslname, with \<open>=2C\<close> for a comma and \<open>=3D\<close> for an equals sign. \<open>client_first\<close>
  and \<open>client_final\<close> put a name in as it is. SASLprep, which leaves printable ASCII unchanged, is
  left out. The server does not undo the escaping (\<open>parseScramAttrs\<close> says so), so the two
  agree only on names without these characters.
\<close>

definition client_first :: "string \<Rightarrow> string \<Rightarrow> string" where
  "client_first user nonce = ''n,,n='' @ user @ '',r='' @ nonce"

definition client_key :: "string \<Rightarrow> bytes \<Rightarrow> int \<Rightarrow> bytes" where
  "client_key password salt iterations =
     hmacSHA256 (pbkdf2HMACSHA256 (bytes_of password) salt iterations 32) (bytes_of ''Client Key'')"

definition client_auth_message :: "string \<Rightarrow> string \<Rightarrow> string \<Rightarrow> string \<Rightarrow> string" where
  "client_auth_message user nonce server_first full =
     ''n='' @ user @ '',r='' @ nonce @ '','' @ server_first @ '',c=biws,r='' @ full"

definition client_final :: "string \<Rightarrow> string \<Rightarrow> string \<Rightarrow> string \<Rightarrow> string \<Rightarrow> bytes \<Rightarrow> int \<Rightarrow> string" where
  "client_final user password nonce server_first full salt iterations =
     (let key = client_key password salt iterations;
          signature = hmacSHA256 (Sum256 key) (bytes_of (client_auth_message user nonce server_first full))
      in ''c=biws,r='' @ full @ '',p='' @ StdEncodeToString (xorBytes signature key))"

definition saslname :: "string \<Rightarrow> string" where
  "saslname s = concat (map (\<lambda>c. if c = CHR '','' then ''=2C'' else if c = CHR ''='' then ''=3D'' else [c]) s)"

definition rfc_client_first :: "string \<Rightarrow> string \<Rightarrow> string" where
  "rfc_client_first user nonce = client_first (saslname user) nonce"

definition rfc_client_final :: "string \<Rightarrow> string \<Rightarrow> string \<Rightarrow> string \<Rightarrow> string \<Rightarrow> bytes \<Rightarrow> int \<Rightarrow> string" where
  "rfc_client_final user = client_final (saslname user)"

definition plain_saslname :: "string \<Rightarrow> bool" where
  "plain_saslname s \<longleftrightarrow> CHR '','' \<notin> set s \<and> CHR ''='' \<notin> set s"

lemma saslname_plain: "plain_saslname s \<Longrightarrow> saslname s = s"
  by (induction s) (auto simp: saslname_def plain_saslname_def)

lemma saslname_longer:
  assumes "\<not> plain_saslname s"
  shows "saslname s \<noteq> s"
proof -
  have ge: "length t \<le> length (saslname t)" for t by (induction t) (simp_all add: saslname_def)
  have "length s < length (saslname s)"
    using assms
  proof (induction s)
    case (Cons c s)
    with ge [of s] show ?case by (cases "c = CHR '','' \<or> c = CHR ''=''") (auto simp: saslname_def plain_saslname_def)
  qed (simp add: plain_saslname_def)
  then show ?thesis by (metis less_irrefl)
qed

lemma no_comma_saslname: "no_comma (saslname s)"
  by (auto simp: saslname_def no_comma_def)

lemma saslname_nonempty: "s \<noteq> [] \<Longrightarrow> saslname s \<noteq> []"
  by (cases s) (simp_all add: saslname_def)

definition server_first_text :: "string \<Rightarrow> scramCredential \<Rightarrow> string" where
  "server_first_text full crd =
     ''r='' @ full @ '',s='' @ StdEncodeToString (Salt crd) @ '',i='' @ show_int (Iterations crd)"

lemma attr_simps [simp]:
  "attr [] k = []" "attr ((k', v) # m) k = (if k = k' then v else attr m k)"
  by (simp_all add: attr_def)

lemma StoredKey_derive: "StoredKey (deriveCredential pw sl i) = Sum256 (client_key pw sl i)"
  by (simp add: deriveCredential_def client_key_def Let_def)

lemma bareMessage_client_first: "bareMessage (client_first u r) = Inr (''n='' @ u @ '',r='' @ r)"
  by (simp add: bareMessage_def client_first_def HasPrefix_def numeral_eq_Suc)

lemma scramClientFirst_honest:
  assumes "no_comma u" and "no_comma r" and "u \<noteq> []" and "r \<noteq> []"
    and "mget (credentials sa) u = Some crd"
  shows "scramClientFirst quote (Inr rnd) sa s (bytes_of (client_first u r)) =
    (let full = r @ RawStdEncodeToString rnd
     in (s\<lparr>Username := u, cred := Some crd, clientFirstBare := ''n='' @ u @ '',r='' @ r,
           serverFirst := server_first_text full crd, fullNonce := full, scramStep := 1\<rparr>,
         Inr (bytes_of (server_first_text full crd))))"
  using assms
  by (simp add: scramClientFirst_def bareMessage_client_first parse_two [simplified] server_first_text_def Let_def)

lemma scramClientFirst_unknown:
  assumes "no_comma u" and "no_comma r" and "u \<noteq> []" and "r \<noteq> []" and "mget (credentials sa) u = None"
  shows "scramClientFirst quote rnd sa s (bytes_of (client_first u r)) = (s, Inl (authFailed u))"
  using assms by (simp add: scramClientFirst_def bareMessage_client_first parse_two [simplified] Let_def)

lemma no_comma_b64: "no_comma (b64_encode padded bs)"
  using b64_encode_chars [of padded bs] by (auto simp: no_comma_def list_all_iff b64_text_def)

lemma scramClientFinal_honest:
  assumes "cred s = Some (deriveCredential pw salt iters)" and "no_comma (fullNonce s)"
    and "clientFirstBare s = ''n='' @ u @ '',r='' @ r"
  defines "am \<equiv> client_auth_message u r (serverFirst s) (fullNonce s)"
  shows "scramClientFinal quote s (bytes_of (client_final u pw r (serverFirst s) (fullNonce s) salt iters)) =
    (s\<lparr>authenticated := True, scramStep := 2\<rparr>,
     Inr (bytes_of (''v='' @ StdEncodeToString
       (hmacSHA256 (ServerKey (deriveCredential pw salt iters)) (bytes_of am))), True, Username s))"
proof -
  let ?key = "client_key pw salt iters"
  let ?sig = "hmacSHA256 (Sum256 ?key) (bytes_of am)"
  let ?proof = "xorBytes ?sig ?key"
  let ?wp = "''c=biws,r='' @ fullNonce s"
  let ?msg = "?wp @ '',p='' @ StdEncodeToString ?proof"
  have msg: "client_final u pw r (serverFirst s) (fullNonce s) salt iters = ?msg"
    by (simp add: client_final_def Let_def am_def)
  have len: "length ?sig = 32" "length ?key = 32"
    by (simp_all add: hmacSHA256_def client_key_def)
  then have plen: "length ?proof = 32" by simp
  have parse: "parseScramAttrs quote ?msg =
      Inr [(''c'', ''biws''), (''r'', fullNonce s), (''p'', StdEncodeToString ?proof)]"
    using parse_three [OF assms(2) no_comma_b64 [of True ?proof]] by simp
  have idx: "LastIndex ?msg '',p='' = int (length ?wp)"
    by (rule LastIndex_last) (use no_comma_b64 [of True ?proof] in \<open>simp add: no_comma_def\<close>)
  have ne: "StdEncodeToString ?proof \<noteq> []"
    using plen by (intro b64_encode_nonempty) (metis list.size(3) zero_neq_numeral)
  have wp: "take (nat (int (length ?wp))) ?msg = ?wp" by (simp only: nat_int) simp
  have am: "clientFirstBare s @ '','' @ serverFirst s @ '','' @ ?wp = am"
    by (simp add: am_def client_auth_message_def assms(3))
  have key: "xorBytes ?sig ?proof = ?key" using len by (simp add: xorBytes_cancel)
  show ?thesis
    unfolding msg scramClientFinal_def Let_def string_of_bytes_of parse
    by (simp only: sum.case attr_simps StdDecode_Encode option.case plen idx wp am assms(1)
        StoredKey_derive key) (simp add: ne StdDecode_Encode len key)
qed


section \<open>Histories of a session\<close>

text \<open>
  A connection feeds its session with SaslHandshake and SaslAuthenticate requests. The
  interface a server relies on: a session becomes authenticated only in a step that
  verified something, so an authenticated session has such a step behind it.
\<close>

locale login_guard =
  fixes auth :: "'s \<Rightarrow> bool"
    and exec :: "'s \<Rightarrow> 'm \<Rightarrow> 's"
    and verified :: "'s \<Rightarrow> 'm \<Rightarrow> bool"
  assumes rise: "\<not> auth s \<Longrightarrow> auth (exec s m) \<Longrightarrow> verified s m"
begin

lemma authenticated_has_verified:
  assumes "\<not> auth s" and "auth (foldl exec s ms)"
  shows "\<exists>pre m post. ms = pre @ m # post \<and> verified (foldl exec s pre) m"
  using assms
proof (induction ms rule: rev_induct)
  case Nil
  then show ?case by simp
next
  case (snoc m ms)
  show ?case
  proof (cases "auth (foldl exec s ms)")
    case True
    with snoc obtain pre m' post where "ms = pre @ m' # post" "verified (foldl exec s pre) m'"
      by blast
    then show ?thesis by (intro exI [of _ pre] exI [of _ m'] exI [of _ "post @ [m]"]) simp
  next
    case False
    with snoc(3) have "verified (foldl exec s ms) m" by (intro rise) simp_all
    then show ?thesis by (intro exI [of _ ms] exI [of _ m] exI [of _ "[]"]) simp
  qed
qed

end

datatype sasl_msg = Handshake string | Token random bytes

fun sasl_exec :: "(string \<Rightarrow> string) \<Rightarrow> SASLAuthenticator \<Rightarrow> SASLSession \<Rightarrow> sasl_msg \<Rightarrow> SASLSession" where
  "sasl_exec quote sa s (Handshake mech) = (if IsMechanismSupported sa mech then SetMechanism s mech else s)"
| "sasl_exec quote sa s (Token rnd msg) = fst (Authenticate quote rnd sa s msg)"

fun sasl_verified :: "(string \<Rightarrow> string) \<Rightarrow> SASLAuthenticator \<Rightarrow> SASLSession \<Rightarrow> sasl_msg \<Rightarrow> bool" where
  "sasl_verified quote sa s (Handshake mech) = False"
| "sasl_verified quote sa s (Token rnd msg) =
     (Mechanism s = ''PLAIN'' \<and>
        (\<exists>a u p rest. splitOn 0 msg = a # bytes_of u # p # rest \<and> knows_password sa u (string_of p)) \<or>
      Mechanism s = ''SCRAM-SHA-256'' \<and> scramStep s = 1 \<and>
        (\<exists>attrs proof k. parseScramAttrs quote (string_of msg) = Inr attrs \<and> attr attrs ''r'' = fullNonce s \<and>
           StdDecodeString (attr attrs ''p'') = Some proof \<and> scram_proof s (take k (string_of msg)) proof))"

lemma Authenticate_rise:
  assumes "\<not> authenticated s" and "authenticated (fst (Authenticate quote rnd sa s msg))"
  shows "sasl_verified quote sa s (Token rnd msg)"
proof (cases "Mechanism s = ''PLAIN''")
  case True
  with assms obtain u where "AuthenticatePlain sa msg = Inr u"
    by (auto simp: Authenticate_def split: sum.splits)
  with True show ?thesis by (auto simp: AuthenticatePlain_iff)
next
  case False
  with assms have sc: "Mechanism s = ''SCRAM-SHA-256''"
    by (auto simp: Authenticate_def split: if_splits)
  obtain s' r where run: "authenticateScram quote rnd sa s msg = (s', r)" by (metis prod.exhaust)
  have auth: "authenticated s'" using assms(2) sc run by (simp add: Authenticate_def)
  have s1: "scramStep s = 1"
  proof (rule ccontr)
    assume "scramStep s \<noteq> 1"
    moreover have "authenticated s' = authenticated s" if "scramStep s = 0"
      using run that scramClientFirst_effect [of quote rnd sa s msg]
      by (auto simp: authenticateScram_def split: prod.splits sum.splits)
    ultimately show False
      using run auth assms(1) by (auto simp: authenticateScram_def split: if_splits)
  qed
  with run have fin: "scramClientFinal quote s msg = (s', r)"
    by (simp add: authenticateScram_def)
  obtain resp d u where "r = Inr (resp, d, u)"
    using fin scramClientFinal_error [of quote s msg s'] auth assms(1) by (cases r) auto
  with scramClientFinal_done(4) [of quote s msg s' resp d u] fin sc s1 show ?thesis by simp
qed

interpretation sasl: login_guard authenticated "sasl_exec quote sa" "sasl_verified quote sa"
  for quote sa
proof unfold_locales
  fix s m
  assume "\<not> authenticated s" "authenticated (sasl_exec quote sa s m)"
  then show "sasl_verified quote sa s m"
    by (cases m) (auto simp: SetMechanism_def Authenticate_rise [simplified] split: if_splits)
qed

text \<open>The exchange never dereferences a missing credential.\<close>

definition session_inv :: "SASLSession \<Rightarrow> bool" where
  "session_inv s \<longleftrightarrow> scramStep s \<in> {0, 1, 2} \<and> (scramStep s = 1 \<longrightarrow> cred s \<noteq> None)"

lemma session_inv_new [simp]: "session_inv NewSASLSession"
  by (simp add: session_inv_def NewSASLSession_def)

lemma session_inv_SetMechanism [simp]: "session_inv (SetMechanism s mech) = session_inv s"
  by (simp add: session_inv_def SetMechanism_def)

lemma parseAttrs_no_panic: "parseAttrs quote parts m \<noteq> Inl Panic"
  by (induction parts arbitrary: m) (auto simp: Let_def)

lemma scramClientFinal_no_panic:
  "cred s \<noteq> None \<Longrightarrow> snd (scramClientFinal quote s msg) \<noteq> Inl Panic"
  using parseAttrs_no_panic
  by (auto simp: scramClientFinal_def parseScramAttrs_def authFailed_def Let_def split: sum.splits if_splits option.splits)

lemma scramClientFirst_no_panic: "snd (scramClientFirst quote rnd sa s msg) \<noteq> Inl Panic"
  using parseAttrs_no_panic
  by (auto simp: scramClientFirst_def bareMessage_def parseScramAttrs_def authFailed_def Let_def
      split: sum.splits if_splits option.splits)

lemma Authenticate_safe:
  assumes "session_inv s"
  shows "snd (Authenticate quote rnd sa s msg) \<noteq> Inl Panic \<and>
    session_inv (fst (Authenticate quote rnd sa s msg))"
proof -
  have plain: "AuthenticatePlain sa msg \<noteq> Inl Panic"
    by (auto simp: AuthenticatePlain_def authFailed_def Let_def split: option.splits)
  obtain s1 r1 where 1: "scramClientFirst quote rnd sa s msg = (s1, r1)" by (metis prod.exhaust)
  obtain s2 r2 where 2: "scramClientFinal quote s msg = (s2, r2)" by (metis prod.exhaust)
  have inv1: "session_inv s1" "r1 \<noteq> Inl Panic"
    using scramClientFirst_effect [OF 1] scramClientFirst_no_panic [of quote rnd sa s msg] 1 assms
    by (auto simp: session_inv_def)
  have inv2: "session_inv s2" "r2 \<noteq> Inl Panic" if "scramStep s = 1"
    using scramClientFinal_error [of quote s msg s2] scramClientFinal_done(1) [of quote s msg s2]
      scramClientFinal_no_panic [of s quote msg] 2 assms that
    by (cases r2; auto simp: session_inv_def)+
  show ?thesis
  proof (cases "Mechanism s = ''PLAIN''")
    case True
    then show ?thesis using plain assms
      by (auto simp: Authenticate_def session_inv_def split: sum.splits)
  next
    case False
    then show ?thesis using inv1 inv2 assms 1 2
      by (auto simp: Authenticate_def authenticateScram_def split: sum.splits)
  qed
qed

end
