(* ===== verification/Handler.thy ===== *)
theory Handler
  imports Go_State Messages_Data Messages_Group Commit_Log Offset_Manager Group_Coordinator
    Txn_Coordinator Acl Sasl
begin

text \<open>
  \<open>src/internal/server/handler.go\<close>: the state of the broker, the dispatch of requests and
  every API handler, over the models of storage, coordinators, access control and SASL.

  A handler is an action on \<open>Handler\<close> that returns the response body or stops with an
  error, which closes the connection; a panic ends the process. Requests are served one
  after the other here: each call of a component is atomic in the code (its mutex), while
  the calls of requests on different connections may interleave (\<open>Concurrent_Produce\<close>, \<open>Log_Calls\<close>).

  \<open>env\<close> holds what the code reads from outside: the successive readings of the clock, random
  bytes, directory listings, the text of \<open>%q\<close>, and the iteration orders of the maps a
  request walks. \<open>h_disk\<close> holds the directories of partitions that are not open (an open
  partition owns its files), \<open>h_ticks\<close> counts the readings of the clock.
\<close>

section \<open>State\<close>

record env =
  e_clock :: "nat \<Rightarrow> nat"
  e_rnd :: random
  e_quote :: "string \<Rightarrow> string"
  e_list :: "string \<Rightarrow> string list"
  e_members :: "string list \<Rightarrow> string list"
  e_protocols :: "string \<Rightarrow> string list \<Rightarrow> string list"
  e_pick :: "string \<Rightarrow> string list \<Rightarrow> string list"
  e_topics :: "string list \<Rightarrow> string list"
  e_mechs :: "string list \<Rightarrow> string list"

datatype tel_event = RecordMsgIn u64 u64 | RecordBytesOut u64

record Handler =
  dataDir :: string
  nodeId :: i32
  host :: string
  port :: i32
  partitions :: "(string, PartitionLog) gomap"
  offsetManager :: OffsetManager
  groupCoordinator :: GroupCoordinator
  txnCoordinator :: TransactionCoordinator
  saslAuth :: SASLAuthenticator
  aclManager :: ACLManager
  saslRequired :: bool
  maxPartitions :: int
  telemetry :: "tel_event list option"
  h_disk :: "string \<Rightarrow> dir"
  h_ticks :: nat

definition NewHandler :: "(string \<Rightarrow> dir) \<Rightarrow> string \<Rightarrow> i32 \<Rightarrow> string \<Rightarrow> i32 \<Rightarrow> Handler" where
  "NewHandler disk ddir node hst prt =
     \<lparr>dataDir = ddir, nodeId = node, host = hst, port = prt, partitions = [],
      offsetManager = NewOffsetManager, groupCoordinator = NewGroupCoordinator,
      txnCoordinator = NewTransactionCoordinator, saslAuth = NewSASLAuthenticator,
      aclManager = NewACLManager, saslRequired = False, maxPartitions = 0, telemetry = None,
      h_disk = disk, h_ticks = 0\<rparr>"

definition SetTelemetryListener :: "Handler \<Rightarrow> Handler" where
  "SetTelemetryListener h = h\<lparr>telemetry := Some []\<rparr>"

definition SetMaxPartitions :: "Handler \<Rightarrow> int \<Rightarrow> Handler" where
  "SetMaxPartitions h mx = h\<lparr>maxPartitions := mx\<rparr>"

definition SetSASLRequired :: "Handler \<Rightarrow> bool \<Rightarrow> Handler" where
  "SetSASLRequired h required = h\<lparr>saslRequired := required\<rparr>"

definition AddSASLUser :: "random \<Rightarrow> Handler \<Rightarrow> string \<Rightarrow> string \<Rightarrow> Handler \<times> go_error option" where
  "AddSASLUser rnd h username password =
     (case AddUser rnd (saslAuth h) username password of (sa, err) \<Rightarrow> (h\<lparr>saslAuth := sa\<rparr>, err))"

definition AddACLRule :: "Handler \<Rightarrow> ACLRule \<Rightarrow> Handler" where
  "AddACLRule h rule = h\<lparr>aclManager := AddRule (aclManager h) rule\<rparr>"

definition AuthenticateBasic :: "Handler \<Rightarrow> string \<Rightarrow> string \<Rightarrow> bool" where
  "AuthenticateBasic h username password =
     (case AuthenticatePlain (saslAuth h) (0 # bytes_of username @ 0 # bytes_of password) of
        Inl e \<Rightarrow> False | Inr u \<Rightarrow> True)"

definition sessionUser :: "SASLSession option \<Rightarrow> string" where
  "sessionUser session = (case session of None \<Rightarrow> '''' | Some s \<Rightarrow> Username s)"

definition authorizeTopic :: "Handler \<Rightarrow> SASLSession option \<Rightarrow> string \<Rightarrow> string \<Rightarrow> bool" where
  "authorizeTopic h session topic oper = Authorize (aclManager h) (sessionUser session) ''Topic'' topic oper"

definition authorizeGroup :: "Handler \<Rightarrow> SASLSession option \<Rightarrow> string \<Rightarrow> string \<Rightarrow> bool" where
  "authorizeGroup h session groupId oper = Authorize (aclManager h) (sessionUser session) ''Group'' groupId oper"

definition errCodeTopicAuthorizationFailed :: i16 where "errCodeTopicAuthorizationFailed = 29"
definition errCodeGroupAuthorizationFailed :: i16 where "errCodeGroupAuthorizationFailed = 30"

definition readClock :: "env \<Rightarrow> (Handler, nat) act" where
  "readClock e = act_run (\<lambda>h. (h\<lparr>h_ticks := h_ticks h + 1\<rparr>, e_clock e (h_ticks h)))"

definition unixMilli :: "nat \<Rightarrow> i64" where
  "unixMilli nanos = of_nat (nanos div 1000000)"

definition tell :: "tel_event \<Rightarrow> Handler \<Rightarrow> Handler" where
  "tell ev h = h\<lparr>telemetry := map_option (\<lambda>evs. evs @ [ev]) (telemetry h)\<rparr>"


section \<open>Partition logs\<close>

text \<open>Package \<open>path/filepath\<close> on Unix: \<open>Clean\<close> and \<open>Join\<close> of two elements.\<close>

definition pathElems :: "string \<Rightarrow> string list" where
  "pathElems p = filter (\<lambda>e. e \<noteq> '''' \<and> e \<noteq> ''.'') (splitOn CHR ''/'' p)"

definition cleanStep :: "bool \<Rightarrow> string list \<Rightarrow> string \<Rightarrow> string list" where
  "cleanStep rooted stack e =
     (if e = ''..''
      then (case stack of
              [] \<Rightarrow> if rooted then [] else [''..'']
            | t # ts \<Rightarrow> if t = ''..'' then ''..'' # stack else ts)
      else e # stack)"

definition cleanElems :: "string \<Rightarrow> string list" where
  "cleanElems p = rev (foldl (cleanStep (take 1 p = ''/'')) [] (pathElems p))"

fun joinSlash :: "string list \<Rightarrow> string" where
  "joinSlash [] = ''''"
| "joinSlash [x] = x"
| "joinSlash (x # y # rest) = x @ ''/'' @ joinSlash (y # rest)"

definition filepathClean :: "string \<Rightarrow> string" where
  "filepathClean p =
     (let rel = joinSlash (cleanElems p)
      in if take 1 p = ''/'' then ''/'' @ rel else if rel = '''' then ''.'' else rel)"

definition filepathJoin :: "string \<Rightarrow> string \<Rightarrow> string" where
  "filepathJoin a b =
     (if a = '''' then (if b = '''' then '''' else filepathClean b) else filepathClean (a @ ''/'' @ b))"

definition validTopicChar :: "char \<Rightarrow> bool" where
  "validTopicChar c \<longleftrightarrow>
     (let n = of_char c :: nat
      in 97 \<le> n \<and> n \<le> 122 \<or> 65 \<le> n \<and> n \<le> 90 \<or> 48 \<le> n \<and> n \<le> 57 \<or>
         c = CHR ''.'' \<or> c = CHR ''_'' \<or> c = CHR ''-'')"

text \<open>
  The code ranges over runes; a byte outside ASCII belongs to a rune outside ASCII or to
  an invalid sequence, and both are refused, as the byte is here.
\<close>

definition isValidTopicName :: "string \<Rightarrow> bool" where
  "isValidTopicName topic \<longleftrightarrow>
     \<not> (topic = '''' \<or> 249 < length topic \<or> topic = ''.'' \<or> topic = ''..'') \<and> list_all validTopicChar topic"

definition segmentBytes :: int where "segmentBytes = 10 * 1024 * 1024"
definition indexInterval :: int where "indexInterval = 4096"

text \<open>The open log is named by its key: entries of \<open>partitions\<close> are never replaced.\<close>

definition getOrCreatePartitionLog :: "env \<Rightarrow> string \<Rightarrow> i32 \<Rightarrow> (Handler, string) act" where
  "getOrCreatePartitionLog e topic partitionId h =
     (if \<not> isValidTopicName topic then (Inl (ErrText (''invalid topic name: '' @ e_quote e topic)), h)
      else let key = partitionKey topic partitionId
           in case mget (partitions h) key of
                Some pl \<Rightarrow> (Inr key, h)
              | None \<Rightarrow>
                  if 0 < maxPartitions h \<and> maxPartitions h \<le> int (length (partitions h))
                  then (Inl (ErrText (''maximum number of topic-partitions ('' @
                          show_int (maxPartitions h) @ '') reached'')), h)
                  else let dir = filepathJoin (dataDir h) key;
                           d = h_disk h dir;
                           entries = e_list e dir
                       in case NewPartitionLog d entries segmentBytes indexInterval of
                            Inl err \<Rightarrow>
                              (Inl err, h\<lparr>h_disk := (h_disk h)(dir :=
                                 fst (loadSegments d entries segmentBytes indexInterval))\<rparr>)
                          | Inr newPl \<Rightarrow> (Inr key, h\<lparr>partitions := mput key newPl (partitions h)\<rparr>))"

definition appendTo :: "string \<Rightarrow> Record \<Rightarrow> (Handler, Record) act" where
  "appendTo key rec h =
     (case mget (partitions h) key of
        None \<Rightarrow> (Inl Panic, h)
      | Some pl \<Rightarrow>
          (case Append pl rec of (pl', res) \<Rightarrow> (res, h\<lparr>partitions := mput key pl' (partitions h)\<rparr>)))"


section \<open>Produce\<close>

definition valueLen :: "Record \<Rightarrow> u64" where
  "valueLen rec = of_nat (length (case Value rec of None \<Rightarrow> [] | Some v \<Rightarrow> v))"

text \<open>Append one record, report it, remember the first offset of the batch.\<close>

definition storeRecord :: "string \<Rightarrow> Record \<Rightarrow> i64 \<Rightarrow> (Handler, i64) act" where
  "storeRecord key rec firstOffset =
     act_bind (appendTo key rec) (\<lambda>rec'.
     act_run (\<lambda>h. (tell (RecordMsgIn 1 (valueLen rec')) h,
                   if firstOffset = -1 then Offset rec' else firstOffset)))"

function produceLoop :: "env \<Rightarrow> string \<Rightarrow> bytes \<Rightarrow> i64 \<Rightarrow> (Handler, i64) act" where
  "produceLoop e key reader firstOffset h =
     (if reader = [] then (Inr firstOffset, h)
      else case ReadRecord reader of
             (Inr (rec, n), rest) \<Rightarrow>
               (case storeRecord key rec firstOffset h of
                  (Inl err, h') \<Rightarrow> (if err = Panic then (Inl Panic, h') else (Inr firstOffset, h'))
                | (Inr first', h') \<Rightarrow> produceLoop e key rest first' h')
           | (Inl err, rest) \<Rightarrow>
               if err = Panic then (Inl Panic, h)
               else if rest = [] then (Inr firstOffset, h)
               else case readClock e h of
                      (Inl err', h') \<Rightarrow> (Inl err', h')
                    | (Inr now, h') \<Rightarrow>
                        (case storeRecord key
                                \<lparr>Offset = 0, Timestamp = of_nat now, Key = None, Value = Some rest\<rparr>
                                firstOffset h' of
                           (Inl err, h'') \<Rightarrow> (if err = Panic then (Inl Panic, h'') else (Inr firstOffset, h''))
                         | (Inr first', h'') \<Rightarrow> (Inr first', h'')))"
  by pat_completeness auto
termination
  by (relation "measure (\<lambda>(e, key, reader, f, h). length reader)")
    (auto dest: ReadRecord_consumes [OF sym])

declare produceLoop.simps [simp del]

definition producePartition ::
  "env \<Rightarrow> string \<Rightarrow> PartitionProduceData \<Rightarrow> (Handler, PartitionProduceResponse) act" where
  "producePartition e topic p =
     act_bind (act_try (getOrCreatePartitionLog e topic (ppd_PartitionId p))) (\<lambda>r.
     case r of
       Inl err \<Rightarrow> act_return \<lparr>ppr_PartitionId = ppd_PartitionId p, ppr_ErrorCode = 1,
                              ppr_BaseOffset = -1, ppr_LogAppendTime = -1\<rparr>
     | Inr key \<Rightarrow>
         act_bind (produceLoop e key (ppd_RecordsData p) (-1)) (\<lambda>firstOffset.
         act_bind (readClock e) (\<lambda>now.
         act_return \<lparr>ppr_PartitionId = ppd_PartitionId p, ppr_ErrorCode = 0,
                     ppr_BaseOffset = (if firstOffset = -1 then 0 else firstOffset),
                     ppr_LogAppendTime = unixMilli now\<rparr>)))"

definition produceTopic ::
  "env \<Rightarrow> SASLSession option \<Rightarrow> TopicProduceData \<Rightarrow> (Handler, TopicProduceResponse) act" where
  "produceTopic e session t =
     act_bind (act_get (\<lambda>h. authorizeTopic h session (tpd_TopicName t) ''Write'')) (\<lambda>allowed.
     if \<not> allowed
     then act_return \<lparr>tpr_TopicName = tpd_TopicName t,
                      tpr_Partitions = map (\<lambda>p. \<lparr>ppr_PartitionId = ppd_PartitionId p,
                        ppr_ErrorCode = errCodeTopicAuthorizationFailed, ppr_BaseOffset = -1,
                        ppr_LogAppendTime = -1\<rparr>) (tpd_Partitions t)\<rparr>
     else act_bind (act_for (producePartition e (tpd_TopicName t)) (tpd_Partitions t)) (\<lambda>ps.
          act_return \<lparr>tpr_TopicName = tpd_TopicName t, tpr_Partitions = ps\<rparr>))"

definition handleProduce :: "env \<Rightarrow> bytes \<Rightarrow> SASLSession option \<Rightarrow> (Handler, bytes) act" where
  "handleProduce e msg session =
     act_bind (act_lift (fst (DecodeProduceRequest msg))) (\<lambda>req.
     act_bind (act_for (produceTopic e session) (preq_Topics req)) (\<lambda>topics.
     act_return (EncodeProduceResponse \<lparr>pres_Topics = topics\<rparr>)))"


section \<open>Fetch\<close>

definition readFrom :: "string \<Rightarrow> i64 \<Rightarrow> int \<Rightarrow> (Handler, bytes \<times> u64) act" where
  "readFrom key start maxB h =
     (case mget (partitions h) key of
        None \<Rightarrow> (Inl Panic, h)
      | Some pl \<Rightarrow>
          (case ReadZeroCopy pl start maxB of
             (out, Some err) \<Rightarrow> (Inl err, h)
           | (out, None) \<Rightarrow> (Inr (out, LEO pl), h)))"

definition fetchMaxBytes :: "i32 \<Rightarrow> int" where
  "fetchMaxBytes m = (if sint m \<le> 0 then 1024 * 1024 else sint m)"

definition fetchFailed :: "i32 \<Rightarrow> i16 \<Rightarrow> PartitionFetchResponse" where
  "fetchFailed p code =
     \<lparr>pfr_PartitionId = p, pfr_ErrorCode = code, pfr_HighWatermark = 0, pfr_RecordsData = []\<rparr>"

definition fetchPartition ::
  "env \<Rightarrow> string \<Rightarrow> PartitionFetchData \<Rightarrow> (Handler, PartitionFetchResponse) act" where
  "fetchPartition e topic p =
     act_bind (act_try (getOrCreatePartitionLog e topic (pfd_PartitionId p))) (\<lambda>r.
     case r of
       Inl err \<Rightarrow> act_return (fetchFailed (pfd_PartitionId p) 1)
     | Inr key \<Rightarrow>
         act_bind (act_try (readFrom key (pfd_FetchOffset p) (fetchMaxBytes (pfd_MaxBytes p)))) (\<lambda>r2.
         case r2 of
           Inl err \<Rightarrow> act_return (fetchFailed (pfd_PartitionId p) 1)
         | Inr (out, leo) \<Rightarrow>
             act_run (\<lambda>h. (if 0 < length out then tell (RecordBytesOut (of_nat (length out))) h else h,
               \<lparr>pfr_PartitionId = pfd_PartitionId p, pfr_ErrorCode = 0, pfr_HighWatermark = leo,
                pfr_RecordsData = out\<rparr>))))"

definition fetchTopic ::
  "env \<Rightarrow> SASLSession option \<Rightarrow> TopicFetchData \<Rightarrow> (Handler, TopicFetchResponse) act" where
  "fetchTopic e session t =
     act_bind (act_get (\<lambda>h. authorizeTopic h session (tfd_TopicName t) ''Read'')) (\<lambda>allowed.
     if \<not> allowed
     then act_return \<lparr>tfr_TopicName = tfd_TopicName t,
                      tfr_Partitions = map (\<lambda>p. fetchFailed (pfd_PartitionId p)
                        errCodeTopicAuthorizationFailed) (tfd_Partitions t)\<rparr>
     else act_bind (act_for (fetchPartition e (tfd_TopicName t)) (tfd_Partitions t)) (\<lambda>ps.
          act_return \<lparr>tfr_TopicName = tfd_TopicName t, tfr_Partitions = ps\<rparr>))"

definition handleFetch :: "env \<Rightarrow> bytes \<Rightarrow> SASLSession option \<Rightarrow> (Handler, bytes) act" where
  "handleFetch e msg session =
     act_bind (act_lift (fst (DecodeFetchRequest msg))) (\<lambda>req.
     act_bind (act_for (fetchTopic e session) (freq_Topics req)) (\<lambda>topics.
     act_return (EncodeFetchResponse \<lparr>fres_Topics = topics\<rparr>)))"


section \<open>Metadata and discovery\<close>

definition handleApiVersions :: "(Handler, bytes) act" where
  "handleApiVersions = act_return (EncodeApiVersionResponse DefaultApiVersionResponse)"

definition topicMetadata :: "i32 \<Rightarrow> string \<Rightarrow> TopicMetadata" where
  "topicMetadata node topicName =
     \<lparr>tm_ErrorCode = 0, tm_TopicName = topicName,
      tm_Partitions = [\<lparr>pm_ErrorCode = 0, pm_PartitionId = 0, pm_LeaderId = node,
                        pm_Replicas = [node], pm_InSyncReplicas = [node]\<rparr>]\<rparr>"

definition handleMetadata :: "bytes \<Rightarrow> (Handler, bytes) act" where
  "handleMetadata msg =
     act_bind (act_lift (fst (DecodeMetadataRequest msg))) (\<lambda>req.
     act_get (\<lambda>h. EncodeMetadataResponse
       \<lparr>mres_Brokers = [\<lparr>bm_NodeId = nodeId h, bm_Host = host h, bm_Port = port h\<rparr>],
        mres_Topics = map (topicMetadata (nodeId h)) (mreq_Topics req)\<rparr>))"

definition handleFindCoordinator :: "bytes \<Rightarrow> (Handler, bytes) act" where
  "handleFindCoordinator msg =
     act_bind (act_lift (fst (DecodeFindCoordinatorRequest msg))) (\<lambda>req.
     act_get (\<lambda>h. EncodeFindCoordinatorResponse
       \<lparr>fcres_ErrorCode = 0, fcres_NodeId = nodeId h, fcres_Host = host h, fcres_Port = port h\<rparr>))"


section \<open>Committed offsets\<close>

definition commitPartition ::
  "env \<Rightarrow> string \<Rightarrow> string \<Rightarrow> OffsetCommitPartition \<Rightarrow> (Handler, OffsetCommitResponsePartition) act" where
  "commitPartition e groupId topic p =
     act_bind (readClock e) (\<lambda>now.
     act_run (\<lambda>h.
       case CommitOffset (int now) (offsetManager h) groupId topic (ocp_PartitionIndex p)
              (ocp_CommittedOffset p) (ocp_Metadata p) of
         (om, err) \<Rightarrow>
           (h\<lparr>offsetManager := om\<rparr>,
            \<lparr>ocrp_PartitionIndex = ocp_PartitionIndex p,
             ocrp_ErrorCode = (if err = None then 0 else 1)\<rparr>)))"

definition commitTopic ::
  "env \<Rightarrow> SASLSession option \<Rightarrow> string \<Rightarrow> bool \<Rightarrow> OffsetCommitTopic \<Rightarrow> (Handler, OffsetCommitResponseTopic) act" where
  "commitTopic e session groupId groupAuthorized t =
     act_bind (act_get (\<lambda>h. authorizeTopic h session (oct_TopicName t) ''Read'')) (\<lambda>topicAuthorized.
     if \<not> groupAuthorized \<or> \<not> topicAuthorized
     then act_return \<lparr>ocrt_TopicName = oct_TopicName t,
                      ocrt_Partitions = map (\<lambda>p. \<lparr>ocrp_PartitionIndex = ocp_PartitionIndex p,
                        ocrp_ErrorCode = errCodeGroupAuthorizationFailed\<rparr>) (oct_Partitions t)\<rparr>
     else act_bind (act_for (commitPartition e groupId (oct_TopicName t)) (oct_Partitions t)) (\<lambda>ps.
          act_return \<lparr>ocrt_TopicName = oct_TopicName t, ocrt_Partitions = ps\<rparr>))"

definition handleOffsetCommit :: "env \<Rightarrow> bytes \<Rightarrow> SASLSession option \<Rightarrow> (Handler, bytes) act" where
  "handleOffsetCommit e msg session =
     act_bind (act_lift (fst (DecodeOffsetCommitRequest msg))) (\<lambda>req.
     act_bind (act_get (\<lambda>h. authorizeGroup h session (ocreq_GroupId req) ''Read'')) (\<lambda>groupAuthorized.
     act_bind (act_for (commitTopic e session (ocreq_GroupId req) groupAuthorized) (ocreq_Topics req)) (\<lambda>topics.
     act_return (EncodeOffsetCommitResponse \<lparr>ocres_Topics = topics\<rparr>))))"

definition fetchedOffset :: "OffsetManager \<Rightarrow> string \<Rightarrow> string \<Rightarrow> i32 \<Rightarrow> OffsetFetchResponsePartition" where
  "fetchedOffset om groupId topic pIdx =
     (case FetchOffset om groupId topic pIdx of
        (offset, metadata, err) \<Rightarrow>
          \<lparr>ofrp_PartitionIndex = pIdx, ofrp_CommittedOffset = offset, ofrp_Metadata = metadata,
           ofrp_ErrorCode = 0\<rparr>)"

definition fetchedTopic :: "OffsetManager \<Rightarrow> string \<Rightarrow> OffsetFetchTopic \<Rightarrow> OffsetFetchResponseTopic" where
  "fetchedTopic om groupId t =
     \<lparr>ofrt_TopicName = oft_TopicName t,
      ofrt_Partitions = map (fetchedOffset om groupId (oft_TopicName t)) (oft_PartitionIndexes t)\<rparr>"

definition handleOffsetFetch :: "bytes \<Rightarrow> SASLSession option \<Rightarrow> (Handler, bytes) act" where
  "handleOffsetFetch msg session =
     act_bind (act_lift (fst (DecodeOffsetFetchRequest msg))) (\<lambda>req.
     act_get (\<lambda>h. EncodeOffsetFetchResponse
       (if \<not> authorizeGroup h session (ofreq_GroupId req) ''Describe''
        then \<lparr>ofres_ErrorCode = errCodeGroupAuthorizationFailed, ofres_Topics = []\<rparr>
        else \<lparr>ofres_ErrorCode = 0,
              ofres_Topics = map (fetchedTopic (offsetManager h) (ofreq_GroupId req)) (ofreq_Topics req)\<rparr>)))"


section \<open>Consumer groups\<close>

definition joinFailed :: "i16 \<Rightarrow> JoinGroupResponse" where
  "joinFailed code =
     \<lparr>jres_ErrorCode = code, jres_GenerationId = 0, jres_ProtocolName = '''', jres_LeaderId = '''',
      jres_MemberId = '''', jres_Members = []\<rparr>"

definition protocolMap :: "GroupProtocol list \<Rightarrow> (string, bytes) gomap" where
  "protocolMap ps = foldl (\<lambda>m p. mput (gp_Name p) (gp_Metadata p) m) [] ps"

text \<open>The metadata of the first protocol an iteration over a member's protocols yields.\<close>

definition memberMeta :: "env \<Rightarrow> GroupMember \<Rightarrow> bytes" where
  "memberMeta e m =
     (case e_protocols e (MemberID m) (mkeys (SupportedProtocols m)) of
        [] \<Rightarrow> []
      | name # _ \<Rightarrow> (case mget (SupportedProtocols m) name of None \<Rightarrow> [] | Some meta \<Rightarrow> meta))"

definition memberList :: "env \<Rightarrow> ConsumerGroup \<Rightarrow> JoinGroupResponseMember list" where
  "memberList e grp =
     List.map_filter (\<lambda>mID. map_option (\<lambda>m. \<lparr>jm_MemberId = mID, jm_Metadata = memberMeta e m\<rparr>)
       (mget (Members grp) mID)) (e_members e (mkeys (Members grp)))"

definition joined :: "env \<Rightarrow> JoinGroupRequest \<Rightarrow> ConsumerGroup \<Rightarrow> GroupMember \<Rightarrow> JoinGroupResponse" where
  "joined e req grp member =
     \<lparr>jres_ErrorCode = 0, jres_GenerationId = GenerationID grp,
      jres_ProtocolName = (case jreq_Protocols req of [] \<Rightarrow> ''range'' | p # _ \<Rightarrow> gp_Name p),
      jres_LeaderId = LeaderID grp, jres_MemberId = MemberID member,
      jres_Members = (if LeaderID grp = MemberID member then memberList e grp else [])\<rparr>"

definition handleJoinGroup :: "env \<Rightarrow> bytes \<Rightarrow> SASLSession option \<Rightarrow> (Handler, bytes) act" where
  "handleJoinGroup e msg session =
     act_bind (act_lift (fst (DecodeJoinGroupRequest msg))) (\<lambda>req.
     act_bind (act_get (\<lambda>h. authorizeGroup h session (jreq_GroupId req) ''Read'')) (\<lambda>allowed.
     if \<not> allowed
     then act_return (EncodeJoinGroupResponse (joinFailed errCodeGroupAuthorizationFailed))
     else act_bind (readClock e) (\<lambda>now.
          act_run (\<lambda>h.
            case AddMember now (groupCoordinator h) (jreq_GroupId req) (jreq_MemberId req) ''127.0.0.1''
                   (jreq_SessionTimeoutMs req) (jreq_RebalanceTimeoutMs req) (jreq_ProtocolType req)
                   (protocolMap (jreq_Protocols req)) of
              (gc, Inl err) \<Rightarrow> (h\<lparr>groupCoordinator := gc\<rparr>, EncodeJoinGroupResponse (joinFailed 1))
            | (gc, Inr (grp, member)) \<Rightarrow>
                (h\<lparr>groupCoordinator := gc\<rparr>, EncodeJoinGroupResponse (joined e req grp member))))))"

fun assignmentOf :: "string \<Rightarrow> GroupAssignment list \<Rightarrow> bytes" where
  "assignmentOf memberId [] = []"
| "assignmentOf memberId (a # rest) =
     (if ga_MemberId a = memberId then ga_Assignment a else assignmentOf memberId rest)"

definition handleSyncGroup :: "bytes \<Rightarrow> SASLSession option \<Rightarrow> (Handler, bytes) act" where
  "handleSyncGroup msg session =
     act_bind (act_lift (fst (DecodeSyncGroupRequest msg))) (\<lambda>req.
     act_get (\<lambda>h. EncodeSyncGroupResponse
       (if \<not> authorizeGroup h session (sreq_GroupId req) ''Read''
        then \<lparr>sres_ErrorCode = errCodeGroupAuthorizationFailed, sres_Assignment = []\<rparr>
        else \<lparr>sres_ErrorCode = 0,
              sres_Assignment = assignmentOf (sreq_MemberId req) (sreq_GroupAssignments req)\<rparr>)))"

definition handleHeartbeat :: "env \<Rightarrow> bytes \<Rightarrow> SASLSession option \<Rightarrow> (Handler, bytes) act" where
  "handleHeartbeat e msg session =
     act_bind (act_lift (fst (DecodeHeartbeatRequest msg))) (\<lambda>req.
     act_bind (act_get (\<lambda>h. authorizeGroup h session (hreq_GroupId req) ''Read'')) (\<lambda>allowed.
     if \<not> allowed
     then act_return (EncodeHeartbeatResponse \<lparr>hres_ErrorCode = errCodeGroupAuthorizationFailed\<rparr>)
     else act_bind (readClock e) (\<lambda>now.
          act_run (\<lambda>h.
            case Heartbeat (int now) (groupCoordinator h) (hreq_GroupId req) (hreq_MemberId req) of
              (gc, err) \<Rightarrow>
                (h\<lparr>groupCoordinator := gc\<rparr>,
                 EncodeHeartbeatResponse \<lparr>hres_ErrorCode = (if err = None then 0 else 25)\<rparr>)))))"

definition handleLeaveGroup :: "env \<Rightarrow> bytes \<Rightarrow> SASLSession option \<Rightarrow> (Handler, bytes) act" where
  "handleLeaveGroup e msg session =
     act_bind (act_lift (fst (DecodeLeaveGroupRequest msg))) (\<lambda>req.
     act_bind (act_get (\<lambda>h. authorizeGroup h session (lreq_GroupId req) ''Read'')) (\<lambda>allowed.
     if \<not> allowed
     then act_return (EncodeLeaveGroupResponse \<lparr>lres_ErrorCode = errCodeGroupAuthorizationFailed\<rparr>)
     else act_run (\<lambda>h.
            case RemoveMember (e_pick e) (groupCoordinator h) (lreq_GroupId req) (lreq_MemberId req) of
              (gc, err) \<Rightarrow>
                (h\<lparr>groupCoordinator := gc\<rparr>,
                 EncodeLeaveGroupResponse \<lparr>lres_ErrorCode = (if err = None then 0 else 25)\<rparr>))))"


section \<open>Transactions\<close>

definition handleInitProducerId :: "bytes \<Rightarrow> (Handler, bytes) act" where
  "handleInitProducerId msg =
     act_bind (act_lift (fst (DecodeInitProducerIdRequest msg))) (\<lambda>req.
     act_run (\<lambda>h.
       case InitProducerId (txnCoordinator h) (ireq_TransactionalId req) (ireq_TransactionTimeoutMs req) of
         (tc, pid, epoch) \<Rightarrow>
           (h\<lparr>txnCoordinator := tc\<rparr>,
            EncodeInitProducerIdResponse
              \<lparr>ires_ErrorCode = 0, ires_ProducerId = pid, ires_ProducerEpoch = epoch\<rparr>)))"

definition addTxnPartition ::
  "AddPartitionsToTxnRequest \<Rightarrow> string \<Rightarrow> i32 \<Rightarrow> (Handler, AddPartitionsToTxnResult) act" where
  "addTxnPartition req topic partId =
     act_run (\<lambda>h.
       case AddPartitionsToTxn (txnCoordinator h) (apreq_TransactionalId req) (apreq_ProducerId req)
              (apreq_ProducerEpoch req) topic [partId] of
         (tc, err) \<Rightarrow>
           (h\<lparr>txnCoordinator := tc\<rparr>,
            \<lparr>apr_PartitionId = partId, apr_ErrorCode = (if err = None then 0 else 1)\<rparr>))"

definition addTxnTopic ::
  "SASLSession option \<Rightarrow> AddPartitionsToTxnRequest \<Rightarrow> AddPartitionsToTxnTopic \<Rightarrow>
   (Handler, AddPartitionsToTxnTopicResult) act" where
  "addTxnTopic session req t =
     act_bind (act_get (\<lambda>h. authorizeTopic h session (apt_TopicName t) ''Write'')) (\<lambda>allowed.
     if \<not> allowed
     then act_return \<lparr>aptr_TopicName = apt_TopicName t,
                      aptr_Partitions = map (\<lambda>p. \<lparr>apr_PartitionId = p,
                        apr_ErrorCode = errCodeTopicAuthorizationFailed\<rparr>) (apt_Partitions t)\<rparr>
     else act_bind (act_for (addTxnPartition req (apt_TopicName t)) (apt_Partitions t)) (\<lambda>ps.
          act_return \<lparr>aptr_TopicName = apt_TopicName t, aptr_Partitions = ps\<rparr>))"

definition handleAddPartitionsToTxn :: "bytes \<Rightarrow> SASLSession option \<Rightarrow> (Handler, bytes) act" where
  "handleAddPartitionsToTxn msg session =
     act_bind (act_lift (fst (DecodeAddPartitionsToTxnRequest msg))) (\<lambda>req.
     act_bind (act_for (addTxnTopic session req) (apreq_Topics req)) (\<lambda>results.
     act_return (EncodeAddPartitionsToTxnResponse \<lparr>apres_Results = results\<rparr>)))"

text \<open>Write the marker to one partition; a partition that cannot be opened is skipped.\<close>

definition writeMarker :: "env \<Rightarrow> Record \<Rightarrow> TxnPartitionTarget \<Rightarrow> (Handler, unit) act" where
  "writeMarker e controlRec t =
     act_bind (act_try (getOrCreatePartitionLog e (tt_Topic t) (tt_Partition t))) (\<lambda>r.
     case r of
       Inl err \<Rightarrow> act_return ()
     | Inr key \<Rightarrow> act_bind (act_try (appendTo key controlRec)) (\<lambda>_. act_return ()))"

definition handleEndTxn :: "env \<Rightarrow> bytes \<Rightarrow> (Handler, bytes) act" where
  "handleEndTxn e msg =
     act_bind (act_lift (fst (DecodeEndTxnRequest msg))) (\<lambda>req.
     act_bind (act_run (\<lambda>h.
       case EndTxn (e_topics e) (txnCoordinator h) (ereq_TransactionalId req) (ereq_ProducerId req)
              (ereq_ProducerEpoch req) (ereq_Committed req) of
         (tc, r) \<Rightarrow> (h\<lparr>txnCoordinator := tc\<rparr>, r))) (\<lambda>r.
     case r of
       Inl err \<Rightarrow> act_return (EncodeEndTxnResponse \<lparr>eres_ErrorCode = 1\<rparr>)
     | Inr targets \<Rightarrow>
         act_bind (readClock e) (\<lambda>now.
         act_bind (act_for (writeMarker e (NewControlRecord (of_nat now)
                     (if ereq_Committed req then ControlMarkerCommit else ControlMarkerAbort))) targets) (\<lambda>_.
         act_return (EncodeEndTxnResponse \<lparr>eres_ErrorCode = 0\<rparr>)))))"


section \<open>SASL\<close>

definition handleSaslHandshake ::
  "env \<Rightarrow> bytes \<Rightarrow> SASLSession option \<Rightarrow> Handler \<Rightarrow> (go_error + bytes) \<times> SASLSession option" where
  "handleSaslHandshake e msg session h =
     (case fst (DecodeSaslHandshakeRequest msg) of
        Inl err \<Rightarrow> (Inl err, session)
      | Inr req \<Rightarrow>
          let mechs = GetEnabledMechanisms (e_mechs e) (saslAuth h)
          in if \<not> IsMechanismSupported (saslAuth h) (shreq_Mechanism req)
             then (Inr (EncodeSaslHandshakeResponse
                          \<lparr>shres_ErrorCode = 33, shres_EnabledMechanisms = mechs\<rparr>), session)
             else case session of
                    None \<Rightarrow> (Inl Panic, session)
                  | Some s \<Rightarrow>
                      (Inr (EncodeSaslHandshakeResponse
                              \<lparr>shres_ErrorCode = 0, shres_EnabledMechanisms = mechs\<rparr>),
                       Some (SetMechanism s (shreq_Mechanism req))))"

fun errorText :: "go_error \<Rightarrow> string" where
  "errorText EOF = ''EOF''"
| "errorText ErrUnexpectedEOF = ''unexpected EOF''"
| "errorText (ErrArrayCount c) =
     ''array count '' @ show_int (sint c) @ '' exceeds maximum allowed '' @ show_nat maxProtocolArrayLen"
| "errorText (ErrFieldLength c) =
     ''byte field length '' @ show_int (sint c) @ '' exceeds maximum allowed '' @ show_nat maxProtocolFieldBytes"
| "errorText (ErrText t) = t"
| "errorText Panic = ''''"

definition handleSaslAuthenticate ::
  "env \<Rightarrow> bytes \<Rightarrow> SASLSession option \<Rightarrow> Handler \<Rightarrow> (go_error + bytes) \<times> SASLSession option" where
  "handleSaslAuthenticate e msg session h =
     (case fst (DecodeSaslAuthenticateRequest msg) of
        Inl err \<Rightarrow> (Inl err, session)
      | Inr req \<Rightarrow>
          (case session of
             None \<Rightarrow> (Inl Panic, session)
           | Some s \<Rightarrow>
               (case Authenticate (e_quote e) (e_rnd e) (saslAuth h) s (sareq_AuthData req) of
                  (s', Inl err) \<Rightarrow>
                    if err = Panic then (Inl Panic, Some s')
                    else (Inr (EncodeSaslAuthenticateResponse
                                 \<lparr>sares_ErrorCode = 58, sares_ErrorMessage = Some (errorText err),
                                  sares_AuthData = []\<rparr>), Some s')
                | (s', Inr (authData, fin, u)) \<Rightarrow>
                    (Inr (EncodeSaslAuthenticateResponse
                            \<lparr>sares_ErrorCode = 0, sares_ErrorMessage = None,
                             sares_AuthData = authData\<rparr>), Some s'))))"


section \<open>Dispatch\<close>

definition saslBlocked :: "Handler \<Rightarrow> SASLSession option \<Rightarrow> bool" where
  "saslBlocked h session \<longleftrightarrow>
     saslRequired h \<and> (case session of None \<Rightarrow> True | Some s \<Rightarrow> \<not> authenticated s)"

text \<open>The handlers that touch the broker's state but not the session.\<close>

definition dispatch :: "env \<Rightarrow> i16 \<Rightarrow> bytes \<Rightarrow> SASLSession option \<Rightarrow> (Handler, bytes) act" where
  "dispatch e key msg session =
     (if key = ApiKeyApiVersions then handleApiVersions
      else if key = ApiKeyMetadata then handleMetadata msg
      else if key = ApiKeyProduce then handleProduce e msg session
      else if key = ApiKeyFetch then handleFetch e msg session
      else if key = ApiKeyOffsetCommit then handleOffsetCommit e msg session
      else if key = ApiKeyOffsetFetch then handleOffsetFetch msg session
      else if key = ApiKeyGroupCoordinator then handleFindCoordinator msg
      else if key = ApiKeyJoinGroup then handleJoinGroup e msg session
      else if key = ApiKeySyncGroup then handleSyncGroup msg session
      else if key = ApiKeyHeartbeat then handleHeartbeat e msg session
      else if key = ApiKeyLeaveGroup then handleLeaveGroup e msg session
      else if key = ApiKeyInitProducerId then handleInitProducerId msg
      else if key = ApiKeyAddPartitionsToTxn then handleAddPartitionsToTxn msg session
      else if key = ApiKeyEndTxn then handleEndTxn e msg
      else act_fail (ErrText (''unsupported ApiKey: '' @ show_int (sint key))))"

definition HandleRequest ::
  "env \<Rightarrow> RequestHeader \<Rightarrow> bytes \<Rightarrow> SASLSession option \<Rightarrow> Handler \<Rightarrow>
   (go_error + bytes) \<times> SASLSession option \<times> Handler" where
  "HandleRequest e header msg session h =
     (let key = ApiKey header
      in if saslBlocked h session \<and> key \<notin> {ApiKeyApiVersions, ApiKeySaslHandshake, ApiKeySaslAuthenticate}
         then (Inl (ErrText (''SASL authentication required before serving ApiKey '' @ show_int (sint key))),
               session, h)
         else if key = ApiKeySaslHandshake
         then (case handleSaslHandshake e msg session h of (r, session') \<Rightarrow> (r, session', h))
         else if key = ApiKeySaslAuthenticate
         then (case handleSaslAuthenticate e msg session h of (r, session') \<Rightarrow> (r, session', h))
         else case dispatch e key msg session h of (r, h') \<Rightarrow> (r, session, h'))"

end
