(* ===== verification/Broker_Files.thy ===== *)
theory Broker_Files
  imports Handler
begin

text \<open>
  Where the broker puts its files, and how much a request can append: the path of a
  partition is a child of the data directory, different partitions have different paths,
  and the bytes a decoder hands out are bounded by the bytes it read.
\<close>

section \<open>Paths\<close>

definition rooted :: "string \<Rightarrow> bool" where
  "rooted p \<longleftrightarrow> take 1 p = ''/''"

definition renderPath :: "bool \<Rightarrow> string list \<Rightarrow> string" where
  "renderPath r elems =
     (let rel = joinSlash elems
      in if r then ''/'' @ rel else if rel = '''' then ''.'' else rel)"

lemma filepathClean_render: "filepathClean p = renderPath (rooted p) (cleanElems p)"
  by (simp add: filepathClean_def renderPath_def rooted_def)

lemma splitOn_join: "splitOn sep (xs @ sep # ys) = splitOn sep xs @ splitOn sep ys"
  by (induction xs) (auto split: list.splits)

definition plain_name :: "string \<Rightarrow> bool" where
  "plain_name k \<longleftrightarrow> CHR ''/'' \<notin> set k \<and> k \<noteq> '''' \<and> k \<noteq> ''.'' \<and> k \<noteq> ''..''"

lemma pathElems_child: "plain_name k \<Longrightarrow> pathElems (d @ ''/'' @ k) = pathElems d @ [k]"
  by (simp add: pathElems_def plain_name_def splitOn_join splitOn_plain)

lemma cleanElems_child:
  assumes "plain_name k" and "d \<noteq> ''''"
  shows "cleanElems (d @ ''/'' @ k) = cleanElems d @ [k]"
proof -
  have "take 1 (d @ ''/'' @ k) = take 1 d" using assms(2) by (cases d) auto
  then show ?thesis
    using assms(1) pathElems_child [OF assms(1), of d]
    by (simp add: cleanElems_def) (simp add: cleanStep_def plain_name_def)
qed

lemma joinSlash_snoc: "joinSlash (xs @ [k]) = (if xs = [] then k else joinSlash xs @ ''/'' @ k)"
  by (induction xs rule: joinSlash.induct) auto

lemma filepathJoin_child:
  assumes "plain_name k"
  shows "filepathJoin d k = renderPath (rooted d) (cleanElems d @ [k])"
proof (cases "d = ''''")
  case True
  have "\<not> rooted k"
    using assms by (cases k) (auto simp: rooted_def plain_name_def)
  moreover have "cleanElems k = [k]"
    using assms by (simp add: cleanElems_def pathElems_def plain_name_def splitOn_plain cleanStep_def)
  moreover have "cleanElems '''' = []" "\<not> rooted ''''"
    by (simp_all add: cleanElems_def pathElems_def rooted_def)
  ultimately show ?thesis
    using True assms by (simp add: filepathJoin_def filepathClean_render plain_name_def)
next
  case False
  then have "rooted (d @ ''/'' @ k) = rooted d" by (cases d) (auto simp: rooted_def)
  with False cleanElems_child [OF assms False] show ?thesis
    by (simp add: filepathJoin_def filepathClean_render)
qed

lemma filepathJoin_inj:
  assumes "plain_name k" and "plain_name k'" and "filepathJoin d k = filepathJoin d k'"
  shows "k = k'"
proof -
  have ne: "joinSlash (cleanElems d @ [x]) \<noteq> ''''" if "plain_name x" for x
    using that by (simp add: joinSlash_snoc plain_name_def)
  have "joinSlash (cleanElems d @ [k]) = joinSlash (cleanElems d @ [k'])"
    using assms(3) ne [OF assms(1)] ne [OF assms(2)]
    by (simp add: filepathJoin_child [OF assms(1)] filepathJoin_child [OF assms(2)] renderPath_def Let_def
        split: if_splits)
  then show ?thesis by (simp add: joinSlash_snoc split: if_splits)
qed

lemma valid_no_slash: "isValidTopicName t \<Longrightarrow> CHR ''/'' \<notin> set t"
  by (auto simp: isValidTopicName_def list_all_iff validTopicChar_def dest!: bspec)

lemma slash_not_in_show_int: "CHR ''/'' \<notin> set (show_int i)"
proof -
  have "\<not> is_digit CHR ''/''" by (simp add: is_digit_def)
  then show ?thesis by (simp add: show_int_def not_digit_not_in_show_nat)
qed

lemma partitionKey_plain:
  assumes "isValidTopicName t"
  shows "plain_name (partitionKey t i)"
proof -
  have "partitionKey t i \<noteq> ''.''" "partitionKey t i \<noteq> ''..''"
  proof -
    have "CHR ''-'' \<in> set (partitionKey t i)" by (simp add: partitionKey_def)
    then show "partitionKey t i \<noteq> ''.''" "partitionKey t i \<noteq> ''..''" by auto
  qed
  with valid_no_slash [OF assms] slash_not_in_show_int show ?thesis
    by (simp add: plain_name_def partitionKey_def)
qed


section \<open>What a decoder hands out\<close>

text \<open>\<open>metered c m\<close>: the value \<open>m\<close> returns costs at most the bytes it consumed.\<close>

definition metered :: "('a \<Rightarrow> nat) \<Rightarrow> 'a reader \<Rightarrow> bool" where
  "metered c m \<longleftrightarrow> (\<forall>bs x rest. m bs = (Inr x, rest) \<longrightarrow> c x + length rest \<le> length bs)"

lemma meteredD: "metered c m \<Longrightarrow> m bs = (Inr x, rest) \<Longrightarrow> c x + length rest \<le> length bs"
  by (simp add: metered_def)

lemma metered_return: "c x = 0 \<Longrightarrow> metered c (rd_return x)"
  by (simp add: metered_def rd_return_def)

lemma metered_fail: "metered c (rd_fail e)"
  by (simp add: metered_def rd_fail_def)

lemma metered_bind:
  assumes "metered a m" and "\<And>x. metered (\<lambda>y. c y - a x) (f x)"
  shows "metered c (rd_bind m f)"
  unfolding metered_def
proof (intro allI impI)
  fix bs y rest
  assume "rd_bind m f bs = (Inr y, rest)"
  then obtain x mid where x: "m bs = (Inr x, mid)" and y: "f x mid = (Inr y, rest)"
    by (auto simp: rd_bind_Inr_iff)
  have "a x + length mid \<le> length bs" by (rule meteredD [OF assms(1) x])
  moreover have "c y - a x + length rest \<le> length mid" by (rule meteredD [OF assms(2) y])
  ultimately show "c y + length rest \<le> length bs" by linarith
qed

lemma metered_if: "metered c a \<Longrightarrow> metered c b \<Longrightarrow> metered c (if P then a else b)"
  by simp

lemma metered_ReadFull: "metered length (ReadFull n)"
  by (auto simp: metered_def ReadFull_ok)

lemma metered_makeSlice: "metered (\<lambda>_. 0) (makeSlice n)"
  by (simp add: makeSlice_def metered_def rd_fail_def rd_return_def)

lemma metered_zero: "metered c m \<Longrightarrow> metered (\<lambda>_. 0) m"
  unfolding metered_def by (metis add_leD2 add_0)

lemma metered_repeat: "metered c m \<Longrightarrow> metered (\<lambda>xs. sum_list (map c xs)) (rd_repeat n m)"
proof (induction n)
  case 0
  then show ?case by (simp add: metered_return)
next
  case (Suc n)
  then show ?case
    by (auto intro!: metered_bind [of c] metered_bind [of "\<lambda>xs. sum_list (map c xs)"] metered_return)
qed

lemma metered_prims:
  "metered (\<lambda>_. 0) ReadInt8" "metered (\<lambda>_. 0) ReadInt16" "metered (\<lambda>_. 0) ReadInt32" "metered (\<lambda>_. 0) ReadInt64"
  unfolding ReadInt8_def ReadInt16_def ReadInt32_def ReadInt64_def
  by (auto intro!: metered_bind [of "\<lambda>_. 0"] metered_zero [OF metered_ReadFull] metered_return)

lemma metered_values:
  "metered (\<lambda>_. 0) ReadArrayCount" "metered (\<lambda>_. 0) ReadString" "metered length ReadBytes"
  unfolding ReadArrayCount_def ReadString_def ReadBytes_def ReadSlice_def
  by (auto intro!: metered_bind [of "\<lambda>_. 0"] metered_if metered_prims metered_zero [OF metered_ReadFull]
      metered_ReadFull metered_makeSlice metered_fail metered_return)

lemma metered_ReadArray: "metered c m \<Longrightarrow> metered (\<lambda>xs. sum_list (map c xs)) (ReadArray m)"
  unfolding ReadArray_def by (auto intro!: metered_bind [of "\<lambda>_. 0"] metered_if metered_makeSlice metered_values metered_repeat metered_return)

definition topicBytes :: "TopicProduceData \<Rightarrow> nat" where
  "topicBytes t = sum_list (map (length \<circ> ppd_RecordsData) (tpd_Partitions t))"

definition requestBytes :: "ProduceRequest \<Rightarrow> nat" where
  "requestBytes req = sum_list (map topicBytes (preq_Topics req))"

lemma metered_produce:
  "metered (length \<circ> ppd_RecordsData) DecodePartitionProduceData"
  "metered topicBytes DecodeTopicProduceData"
  "metered requestBytes DecodeProduceRequest"
proof -
  show 1: "metered (length \<circ> ppd_RecordsData) DecodePartitionProduceData"
    unfolding DecodePartitionProduceData_def
    by (auto intro!: metered_bind [of "\<lambda>_. 0" ReadInt32] metered_bind [of length ReadBytes] metered_prims
        metered_values metered_return)
  show 2: "metered topicBytes DecodeTopicProduceData"
    unfolding DecodeTopicProduceData_def
    by (auto simp: topicBytes_def intro!: metered_bind [of "\<lambda>_. 0" ReadString]
        metered_bind [OF metered_ReadArray [OF 1]] metered_values metered_return)
  show "metered requestBytes DecodeProduceRequest"
    unfolding DecodeProduceRequest_def
    by (auto simp: requestBytes_def intro!: metered_bind [of "\<lambda>_. 0" ReadInt16] metered_bind [of "\<lambda>_. 0" ReadInt32]
        metered_bind [OF metered_ReadArray [OF 2]] metered_prims metered_return)
qed

lemma produce_payload: "DecodeProduceRequest msg = (Inr req, rest) \<Longrightarrow> requestBytes req \<le> length msg"
  using meteredD [OF metered_produce(3), of msg req rest] by simp


section \<open>Records a client sends\<close>

text \<open>A record read from \<open>n\<close> bytes has a key and a value of at most \<open>n\<close> bytes together.\<close>

lemma readValue_len:
  "readValue buf cur = Inr v \<Longrightarrow> 4 + cur + optLen v \<le> length buf"
  by (auto simp: readValue_def optLen_def Let_def split: if_splits)

lemma parseRecord_len:
  assumes "parseRecord sz buf = Inr (r, n)"
  shows "24 + optLen (Key r) + optLen (Value r) \<le> length buf"
proof -
  from assms obtain offB tsB keyLenB where sl: "go_slice buf 0 8 = Some offB" "go_slice buf 8 16 = Some tsB"
    "go_slice buf 16 20 = Some keyLenB"
    by (auto simp: parseRecord_def split: option.splits)
  show ?thesis
  proof (cases "0 \<le> sint (Uint32 keyLenB)")
    case True
    then obtain k v where "go_slice buf 20 (20 + nat (sint (Uint32 keyLenB))) = Some k"
      "readValue buf (20 + nat (sint (Uint32 keyLenB))) = Inr v" "Key r = Some k" "Value r = v"
      using assms sl by (auto simp: parseRecord_def Let_def split: option.splits sum.splits)
    with readValue_len [of buf "20 + nat (sint (Uint32 keyLenB))" v] show ?thesis
      by (auto simp: optLen_def go_slice_def split: if_splits)
  next
    case False
    then obtain v where "readValue buf 20 = Inr v" "Key r = None" "Value r = v"
      using assms sl by (auto simp: parseRecord_def Let_def split: option.splits sum.splits)
    with readValue_len [of buf 20 v] show ?thesis by (auto simp: optLen_def)
  qed
qed

lemma ReadRecord_record_ok:
  assumes "ReadRecord bs = (Inr (r, n), rest)" and "length bs < 2 ^ 31"
  shows "record_ok r" and "length rest + 28 \<le> length bs"
proof -
  note ok = ReadRecord_ok [OF assms(1)]
  have "24 + optLen (Key r) + optLen (Value r) \<le> unat (Uint32 (take 4 bs))"
    using parseRecord_len [OF ok(3)] by simp
  with ok(1,2) assms(2) show "record_ok r" and "length rest + 28 \<le> length bs"
    by (simp_all add: record_ok_def)
qed

lemma ReadFull_error_shorter: "ReadFull n bs = (Inl e, rest) \<Longrightarrow> bs \<noteq> [] \<Longrightarrow> length rest < length bs"
  by (auto simp: ReadFull_def split: if_splits)

lemma ReadRecord_error_consumes:
  assumes "ReadRecord bs = (Inl e, rest)" and "bs \<noteq> []"
  shows "length rest < length bs"
proof (cases "ReadFull 4 bs")
  case (Pair r mid)
  show ?thesis
  proof (cases r)
    case (Inl e')
    with Pair assms have "mid = rest" by (simp add: ReadRecord_def rd_bind_def)
    with Pair Inl assms(2) ReadFull_error_shorter [of 4 bs e' mid] show ?thesis by simp
  next
    case (Inr b)
    then have mid: "mid = drop 4 bs" "4 \<le> length bs" using Pair by (simp_all add: ReadFull_ok)
    have "length rest \<le> length mid"
      using assms(1) Pair Inr ReadFull_rest_le [of "unat (Uint32 b)" mid]
      by (auto simp: ReadRecord_def rd_bind_def rd_lift_def Let_def split: prod.splits sum.splits)
    with mid show ?thesis by simp
  qed
qed

end
