(* ===== verification/Broker_Invariant.thy ===== *)
theory Broker_Invariant
  imports Broker_Files
begin

text \<open>
  The invariant of the broker and its preservation by every handler. \<open>broker_inv n h\<close> holds
  when every open partition satisfies \<open>log_inv\<close> and has room for \<open>n\<close> more offsets, the
  directories of closed partitions are empty or were left by a broker, partition keys come
  from valid topic names, the caps are respected and the coordinators are in states their
  operations lead to. The triples of \<open>Go_State\<close> carry it through the handlers.
\<close>

section \<open>The invariant\<close>

definition dir_ok :: "nat \<Rightarrow> dir \<Rightarrow> bool" where
  "dir_ok n d \<longleftrightarrow> n < 2 ^ 64 \<and>
     (d = Map.empty \<or> (\<exists>p. log_inv p \<and> log_dense p \<and> pl_dir p = d \<and> unat (LEO p) + n < 2 ^ 64))"

definition topic_key :: "string \<Rightarrow> bool" where
  "topic_key k \<longleftrightarrow> (\<exists>t i. isValidTopicName t \<and> k = partitionKey t i)"

definition logs_inv :: "nat \<Rightarrow> Handler \<Rightarrow> bool" where
  "logs_inv n h \<longleftrightarrow>
     gomap_ok (partitions h) \<and>
     (\<forall>k p. mget (partitions h) k = Some p \<longrightarrow> topic_key k \<and> log_inv p \<and> unat (LEO p) + n < 2 ^ 64) \<and>
     (\<forall>k. topic_key k \<longrightarrow> mget (partitions h) k = None \<longrightarrow> dir_ok n (h_disk h (filepathJoin (dataDir h) k))) \<and>
     (0 < maxPartitions h \<longrightarrow> int (length (partitions h)) \<le> maxPartitions h)"

definition broker_inv :: "nat \<Rightarrow> Handler \<Rightarrow> bool" where
  "broker_inv n h \<longleftrightarrow> logs_inv n h \<and> gc_reach (groupCoordinator h) \<and> om_inv (offsetManager h)"

text \<open>What Go and the file system guarantee about the readings of a request.\<close>

definition listing_ok :: "env \<Rightarrow> Handler \<Rightarrow> bool" where
  "listing_ok e h \<longleftrightarrow> (\<forall>path. distinct (e_list e path) \<and> set (e_list e path) = dom (h_disk h path))"

definition env_ok :: "env \<Rightarrow> Handler \<Rightarrow> bool" where
  "env_ok e h \<longleftrightarrow> listing_ok e h \<and> (\<forall>g. visits (e_pick e g)) \<and> (\<forall>i. visits (e_protocols e i)) \<and>
     visits (e_members e) \<and> visits (e_topics e) \<and> visits (e_mechs e)"

definition served :: "env \<Rightarrow> nat \<Rightarrow> Handler \<Rightarrow> bool" where
  "served e n h \<longleftrightarrow> broker_inv n h \<and> env_ok e h"

lemma dir_ok_mono: "dir_ok m d \<Longrightarrow> n \<le> m \<Longrightarrow> dir_ok n d"
  unfolding dir_ok_def by (metis add_le_mono order_refl order_le_less_trans)

lemma served_mono:
  assumes "served e m h" and "n \<le> m"
  shows "served e n h"
proof -
  have "unat (LEO p) + n < 2 ^ 64" if "unat (LEO p) + m < 2 ^ 64" for p
    using that assms(2) by linarith
  with assms dir_ok_mono show ?thesis
    unfolding served_def broker_inv_def logs_inv_def by blast
qed

text \<open>Fields that no part of the invariant reads.\<close>

lemma served_frame [simp]:
  "served e n (h\<lparr>h_ticks := t\<rparr>) = served e n h"
  "served e n (tell ev h) = served e n h"
  "served e n (h\<lparr>txnCoordinator := tc\<rparr>) = served e n h"
  by (simp_all add: served_def broker_inv_def logs_inv_def env_ok_def listing_ok_def tell_def)

lemma partitions_frame [simp]:
  "partitions (tell ev h) = partitions h"
  by (simp add: tell_def)


section \<open>Opening a directory\<close>

definition is_open :: "string \<Rightarrow> Handler \<Rightarrow> bool" where
  "is_open key h \<longleftrightarrow> mget (partitions h) key \<noteq> None"

lemma dir_opens:
  assumes "dir_ok n d" and "distinct entries" and "set entries = dom d"
  shows "\<exists>p. NewPartitionLog d entries segmentBytes indexInterval = Inr p \<and> log_inv p \<and> unat (LEO p) + n < 2 ^ 64"
proof -
  have sz: "0 < segmentBytes" "segmentBytes \<le> 2 ^ 62" by (simp_all add: segmentBytes_def)
  from assms(1) consider "d = Map.empty" "n < 2 ^ 64"
    | q where "log_inv q" "log_dense q" "pl_dir q = d" "unat (LEO q) + n < 2 ^ 64"
    unfolding dir_ok_def by blast
  then show ?thesis
  proof cases
    case 1
    obtain p where "NewPartitionLog Map.empty [] segmentBytes indexInterval = Inr p" "log_inv p" "LEO p = 0"
      using NewPartitionLog_empty [OF sz] by blast
    with 1 assms(3) show ?thesis by auto
  next
    case (2 q)
    with NewPartitionLog_reopens [OF 2(1,2) _ assms(2) sz, of indexInterval] assms(3)
    show ?thesis by (metis (no_types, lifting))
  qed
qed

lemma closed_opens:
  assumes inv: "served e n h" and t: "isValidTopicName t" and cl: "mget (partitions h) (partitionKey t i) = None"
  defines "dir \<equiv> filepathJoin (dataDir h) (partitionKey t i)"
  shows "\<exists>p. NewPartitionLog (h_disk h dir) (e_list e dir) segmentBytes indexInterval = Inr p \<and> log_inv p \<and>
    unat (LEO p) + n < 2 ^ 64"
proof (rule dir_opens)
  have "topic_key (partitionKey t i)" using t by (auto simp: topic_key_def)
  with inv cl show "dir_ok n (h_disk h dir)"
    unfolding served_def broker_inv_def logs_inv_def dir_def by blast
  show "distinct (e_list e dir)" "set (e_list e dir) = dom (h_disk h dir)"
    using inv by (simp_all add: served_def env_ok_def listing_ok_def)
qed

section \<open>Records that stay\<close>

text \<open>
  \<open>grown L h\<close>: the records that \<open>L\<close> lists for a partition are still the first records of its
  log. The triples below carry it along with the invariant: no request ever loses, changes or
  reorders records.
\<close>

definition grown :: "(string \<rightharpoonup> Record list) \<Rightarrow> Handler \<Rightarrow> bool" where
  "grown L h \<longleftrightarrow>
     (\<forall>k rs. L k = Some rs \<longrightarrow> (\<exists>p. mget (partitions h) k = Some p \<and> prefix rs (log_records p)))"

definition keeps :: "(string \<rightharpoonup> Record list) \<Rightarrow> env \<Rightarrow> nat \<Rightarrow> Handler \<Rightarrow> bool" where
  "keeps L e n h \<longleftrightarrow> served e n h \<and> grown L h"

lemma keeps_empty: "keeps Map.empty e n h = served e n h"
  by (simp add: keeps_def grown_def)

lemma keeps_mono: "keeps L e m h \<Longrightarrow> n \<le> m \<Longrightarrow> keeps L e n h"
  using served_mono by (auto simp: keeps_def)

lemma grown_frame [simp]:
  "grown L (h\<lparr>h_ticks := t\<rparr>) = grown L h" "grown L (tell ev h) = grown L h"
  "grown L (h\<lparr>txnCoordinator := tc\<rparr>) = grown L h" "grown L (h\<lparr>groupCoordinator := gc\<rparr>) = grown L h"
  "grown L (h\<lparr>offsetManager := om\<rparr>) = grown L h"
  by (simp_all add: grown_def)

lemma keeps_frame [simp]:
  "keeps L e n (h\<lparr>h_ticks := t\<rparr>) = keeps L e n h"
  "keeps L e n (tell ev h) = keeps L e n h"
  "keeps L e n (h\<lparr>txnCoordinator := tc\<rparr>) = keeps L e n h"
  by (simp_all add: keeps_def)

lemma grown_opened:
  assumes "grown L h" and "mget (partitions h) k = None"
  shows "grown L (h\<lparr>partitions := mput k p (partitions h)\<rparr>)"
  using assms unfolding grown_def by (auto, force)

lemma grown_appended:
  assumes "grown L h" and "mget (partitions h) k = Some p" and "log_records p' = log_records p @ rs"
  shows "grown L (h\<lparr>partitions := mput k p' (partitions h)\<rparr>)"
proof -
  have "\<exists>q. mget (mput k p' (partitions h)) k' = Some q \<and> prefix xs (log_records q)" if "L k' = Some xs" for k' xs
    using assms that unfolding grown_def by (cases "k' = k") fastforce+
  then show ?thesis by (simp add: grown_def)
qed


section \<open>Opening and appending a partition\<close>

lemma getOrCreate_holds:
  "holds (keeps L e n) (getOrCreatePartitionLog e t i)
     (\<lambda>key h. keeps L e n h \<and> is_open key h \<and> key = partitionKey t i) (\<lambda>err h. keeps L e n h \<and> err \<noteq> Panic)"
proof (rule holdsI)
  fix h key h'
  assume kpt: "keeps L e n h" and run: "getOrCreatePartitionLog e t i h = (Inr key, h')"
  then have inv: "served e n h" and gr: "grown L h" by (simp_all add: keeps_def)
  let ?k = "partitionKey t i"
  have valid: "isValidTopicName t" using run by (auto simp: getOrCreatePartitionLog_def split: if_splits)
  show "keeps L e n h' \<and> is_open key h' \<and> key = partitionKey t i"
  proof (cases "mget (partitions h) ?k")
    case (Some p)
    with kpt run valid show ?thesis by (simp add: getOrCreatePartitionLog_def is_open_def)
  next
    case None
    let ?dir = "filepathJoin (dataDir h) ?k"
    have tk: "topic_key ?k" using valid by (auto simp: topic_key_def)
    from closed_opens [OF inv valid None] obtain p where
      p: "NewPartitionLog (h_disk h ?dir) (e_list e ?dir) segmentBytes indexInterval = Inr p"
        "log_inv p" "unat (LEO p) + n < 2 ^ 64"
      by blast
    have cap: "0 < maxPartitions h \<longrightarrow> int (length (partitions h)) < maxPartitions h"
      using run valid None by (auto simp: getOrCreatePartitionLog_def Let_def split: if_splits)
    have run': "key = ?k" "h' = h\<lparr>partitions := mput ?k p (partitions h)\<rparr>"
      using run valid None p(1) cap by (auto simp: getOrCreatePartitionLog_def Let_def split: if_splits)
    have "served e n h'"
      using inv p tk cap length_mput_new [OF None, of p]
      by (auto simp: run'(2) served_def broker_inv_def logs_inv_def env_ok_def listing_ok_def)
    then have "keeps L e n h'" using grown_opened [OF gr None] by (simp add: keeps_def run'(2))
    with run' show ?thesis by (simp add: is_open_def)
  qed
next
  fix h err h'
  assume kpt: "keeps L e n h" and run: "getOrCreatePartitionLog e t i h = (Inl err, h')"
  then have inv: "served e n h" by (simp add: keeps_def)
  show "keeps L e n h' \<and> err \<noteq> Panic"
  proof (cases "isValidTopicName t \<and> mget (partitions h) (partitionKey t i) = None \<and>
      \<not> (0 < maxPartitions h \<and> maxPartitions h \<le> int (length (partitions h)))")
    case True
    let ?dir = "filepathJoin (dataDir h) (partitionKey t i)"
    from closed_opens [OF inv conjunct1 [OF True] conjunct1 [OF conjunct2 [OF True]]] obtain p where
      "NewPartitionLog (h_disk h ?dir) (e_list e ?dir) segmentBytes indexInterval = Inr p"
      by blast
    with run True show ?thesis by (auto simp: getOrCreatePartitionLog_def Let_def split: if_splits)
  next
    case False
    with kpt run show ?thesis
      by (auto simp: getOrCreatePartitionLog_def Let_def split: if_splits option.splits)
  qed
qed

lemma appendTo_holds:
  assumes "record_ok rec"
  shows "holds (\<lambda>h. keeps L e (Suc n) h \<and> is_open key h) (appendTo key rec)
    (\<lambda>rec' h. keeps L e n h \<and> is_open key h) (\<lambda>err h. False)"
proof -
  have step: "\<exists>p' r'. appendTo key rec h = (Inr r', h\<lparr>partitions := mput key p' (partitions h)\<rparr>) \<and>
      keeps L e n (h\<lparr>partitions := mput key p' (partitions h)\<rparr>)"
    if kpt: "keeps L e (Suc n) h" and op: "is_open key h" for h
  proof -
    have inv: "served e (Suc n) h" and gr: "grown L h" using kpt by (simp_all add: keeps_def)
    obtain p where p: "mget (partitions h) key = Some p" using op by (auto simp: is_open_def)
    have room: "log_inv p" "unat (LEO p) + Suc n < 2 ^ 64" "topic_key key"
      using inv p by (auto simp: served_def broker_inv_def logs_inv_def)
    have "unat (LEO p) + 1 < 2 ^ 64" using room(2) by linarith
    from plog.app_law [OF room(1) assms this] obtain p' where
      p': "Append p rec = (p', Inr (rec\<lparr>Offset := LEO p\<rparr>))" "log_inv p'" "LEO p' = LEO p + 1"
        "log_records p' = log_records p @ [rec\<lparr>Offset := LEO p\<rparr>]"
      by blast
    have "unat (LEO p + 1) = unat (LEO p) + 1"
      using \<open>unat (LEO p) + 1 < 2 ^ 64\<close> unat_add_of_nat [of "LEO p" 1] by simp
    then have "unat (LEO p') + n < 2 ^ 64" using p'(3) room(2) by simp
    moreover have "length (mput key p' (partitions h)) = length (partitions h)"
      using p by (intro length_mput_old) simp
    moreover have "served e n h" by (rule served_mono [OF inv]) simp
    ultimately have "served e n (h\<lparr>partitions := mput key p' (partitions h)\<rparr>)"
      using p p' room(3)
      by (auto simp: served_def broker_inv_def logs_inv_def env_ok_def listing_ok_def)
    then have "keeps L e n (h\<lparr>partitions := mput key p' (partitions h)\<rparr>)"
      using grown_appended [OF gr p p'(4)] by (simp add: keeps_def)
    with p p' show ?thesis by (auto simp: appendTo_def)
  qed
  show ?thesis
  proof (rule holdsI)
    fix h x h'
    assume "keeps L e (Suc n) h \<and> is_open key h" and "appendTo key rec h = (Inr x, h')"
    with step [of h] show "keeps L e n h' \<and> is_open key h'" by (auto simp: is_open_def)
  next
    fix h err h'
    assume "keeps L e (Suc n) h \<and> is_open key h" and "appendTo key rec h = (Inl err, h')"
    with step [of h] show False by auto
  qed
qed

lemma readClock_holds: "(\<And>h t. P h \<Longrightarrow> P (h\<lparr>h_ticks := t\<rparr>)) \<Longrightarrow> holds P (readClock e) (\<lambda>_. P) R"
  unfolding readClock_def by (rule holds_run) auto


section \<open>Produce and fetch\<close>

lemma storeRecord_holds:
  assumes "record_ok rec"
  shows "holds (\<lambda>h. keeps L e (Suc n) h \<and> is_open key h) (storeRecord key rec f)
    (\<lambda>_ h. keeps L e n h \<and> is_open key h) (\<lambda>err h. False)"
  unfolding storeRecord_def
  by (rule holds_bind [OF appendTo_holds [OF assms]]) (auto intro!: holds_run simp: is_open_def)

lemma produceLoop_inv:
  assumes "keeps L e (length reader + n) h" and "is_open key h" and "length reader < 2 ^ 31"
    and "produceLoop e key reader f h = (r, h')"
  shows "keeps L e n h' \<and> is_open key h' \<and> (\<forall>err. r = Inl err \<longrightarrow> err = Panic)"
  using assms
proof (induction e key reader f h arbitrary: n r h' rule: produceLoop.induct)
  case (1 e key reader f h)
  show ?case
  proof (cases "reader = []")
    case True
    with 1 show ?thesis by (auto simp: produceLoop.simps)
  next
    case False
    obtain res rest where rd: "ReadRecord reader = (res, rest)" by (metis prod.exhaust)
    note unfold = 1(5) [unfolded produceLoop.simps [of e key reader]]
    have weak: "keeps L e n h" by (rule keeps_mono [OF 1(2)]) simp
    show ?thesis
    proof (cases res)
      case (Inr x)
      obtain rec m where x: "x = (rec, m)" by (metis prod.exhaust)
      have ok: "record_ok rec" "length rest + 28 \<le> length reader"
        using ReadRecord_record_ok [of reader rec m rest] rd Inr x 1(4) by auto
      have "keeps L e (Suc (length rest + n)) h"
        using keeps_mono [OF 1(2)] ok(2) by simp
      then have pre: "keeps L e (Suc (length rest + n)) h \<and> is_open key h" using 1(3) by simp
      note st = holdsD [OF storeRecord_holds [OF ok(1)] pre]
      obtain sr h1 where sr: "storeRecord key rec f h = (sr, h1)" by (metis prod.exhaust)
      obtain f' where f': "sr = Inr f'" using st(2) sr by (cases sr) auto
      have post: "keeps L e (length rest + n) h1" "is_open key h1" using st(1) sr f' by auto
      have run: "produceLoop e key rest f' h1 = (r, h')"
        using unfold False rd Inr x sr f' by simp
      have "length rest < 2 ^ 31" using ok(2) 1(4) by simp
      from 1(1) [OF False rd [symmetric] Inr x [symmetric] sr [symmetric] f' post this run] show ?thesis .
    next
      case (Inl err)
      show ?thesis
      proof (cases "err = Panic \<or> rest = []")
        case True
        with unfold False rd Inl weak 1(3) show ?thesis by (auto split: if_splits)
      next
        case raw: False
        let ?h1 = "h\<lparr>h_ticks := h_ticks h + 1\<rparr>"
        let ?rec = "\<lparr>Offset = 0, Timestamp = of_nat (e_clock e (h_ticks h)), Key = None, Value = Some rest\<rparr>"
        have clock: "readClock e h = (Inr (e_clock e (h_ticks h)), ?h1)"
          by (simp add: readClock_def act_run_def)
        have "length rest < length reader"
          using rd Inl False by (intro ReadRecord_error_consumes [of reader err rest]) auto
        then have "keeps L e (Suc n) ?h1" "is_open key ?h1" "record_ok ?rec"
          using keeps_mono [OF 1(2), of "Suc n"] 1(3,4)
          by (auto simp: is_open_def record_ok_def optLen_def)
        then have pre: "keeps L e (Suc n) ?h1 \<and> is_open key ?h1" and ok: "record_ok ?rec" by auto
        note st = holdsD [OF storeRecord_holds [OF ok] pre]
        obtain sr h2 where sr: "storeRecord key ?rec f ?h1 = (sr, h2)" by (metis prod.exhaust)
        obtain f' where f': "sr = Inr f'" using st(2) sr by (cases sr) auto
        have post: "keeps L e n h2" "is_open key h2" using st(1) sr f' by auto
        moreover have "h' = h2" "r = Inr f'" using unfold False rd Inl raw clock sr f' by simp_all
        ultimately show ?thesis by simp
      qed
    qed
  qed
qed


lemma produceLoop_holds:
  assumes "length reader < 2 ^ 31"
  shows "holds (\<lambda>h. keeps L e (length reader + n) h \<and> is_open key h) (produceLoop e key reader f)
    (\<lambda>_. keeps L e n) (\<lambda>err h. keeps L e n h \<and> err = Panic)"
  by (rule holdsI) (use produceLoop_inv [OF _ _ assms] in blast)+

text \<open>
  A call whose error becomes an error code: the handler goes on with the state it finds.
\<close>

lemma getOrCreate_then:
  assumes "\<And>err. holds (keeps L e n) (g (Inl err)) Q R"
    and "\<And>key. holds (\<lambda>h. keeps L e n h \<and> is_open key h) (g (Inr key)) Q R"
  shows "holds (keeps L e n) (act_bind (act_try (getOrCreatePartitionLog e t i)) g) Q R"
proof (rule holds_bind)
  show "holds (keeps L e n) (act_try (getOrCreatePartitionLog e t i))
      (\<lambda>r. case r of Inl err \<Rightarrow> keeps L e n | Inr key \<Rightarrow> \<lambda>h. keeps L e n h \<and> is_open key h \<and> key = partitionKey t i) R"
    by (rule holds_try [OF getOrCreate_holds])
  show "holds ((\<lambda>r. case r of Inl err \<Rightarrow> keeps L e n | Inr key \<Rightarrow> \<lambda>h. keeps L e n h \<and> is_open key h \<and> key = partitionKey t i) x)
      (g x) Q R" for x
  proof (cases x)
    case (Inl err)
    then show ?thesis using assms(1) by simp
  next
    case (Inr key)
    show ?thesis unfolding Inr sum.case by (rule holds_weaken [OF assms(2)]) auto
  qed
qed

lemma keeps_less: "keeps L e (k + n) h \<Longrightarrow> keeps L e n h"
  by (erule keeps_mono) simp

lemma keeps_none: "keeps L e n h \<Longrightarrow> keeps L e 0 h"
  by (erule keeps_mono) simp

lemma producePartition_holds:
  assumes "length (ppd_RecordsData p) < 2 ^ 31"
  shows "holds (keeps L e (length (ppd_RecordsData p) + n)) (producePartition e t p) (\<lambda>_. keeps L e n) (\<lambda>err h. keeps L e n h \<and> err = Panic)"
  unfolding producePartition_def
proof (rule getOrCreate_then, unfold sum.case)
  show "holds (keeps L e (length (ppd_RecordsData p) + n)) (act_return x) (\<lambda>_. keeps L e n) (\<lambda>err h. keeps L e n h \<and> err = Panic)"
    for x :: PartitionProduceResponse
    by (rule holds_return) (rule keeps_less)
  show "holds (\<lambda>h. keeps L e (length (ppd_RecordsData p) + n) h \<and> is_open key h)
      (act_bind (produceLoop e key (ppd_RecordsData p) (-1)) (\<lambda>f. act_bind (readClock e) (\<lambda>now. act_return (g f now))))
      (\<lambda>_. keeps L e n) (\<lambda>err h. keeps L e n h \<and> err = Panic)" for key and g :: "i64 \<Rightarrow> nat \<Rightarrow> PartitionProduceResponse"
    by (intro holds_bind [OF produceLoop_holds [OF assms]] holds_bind [OF readClock_holds] holds_return) simp_all
qed

lemma topicBytes_member:
  "p \<in> set (tpd_Partitions t) \<Longrightarrow> length (ppd_RecordsData p) \<le> topicBytes t"
  unfolding topicBytes_def by (rule member_le_sum_list) force+

lemma requestBytes_member: "t \<in> set (preq_Topics req) \<Longrightarrow> topicBytes t \<le> requestBytes req"
  unfolding requestBytes_def by (rule member_le_sum_list) force+

lemma produceTopic_holds:
  assumes "topicBytes t < 2 ^ 31"
  shows "holds (keeps L e (topicBytes t + n)) (produceTopic e s t) (\<lambda>_. keeps L e n) (\<lambda>err h. keeps L e 0 h \<and> err = Panic)"
proof -
  have "holds (keeps L e (length (ppd_RecordsData p) + m)) (producePartition e (tpd_TopicName t) p) (\<lambda>_. keeps L e m) (\<lambda>err h. keeps L e 0 h \<and> err = Panic)"
    if "p \<in> set (tpd_Partitions t)" for p m
  proof (rule holds_weaken [OF producePartition_holds [of p L e m]])
    show "length (ppd_RecordsData p) < 2 ^ 31" using topicBytes_member [OF that] assms by linarith
  qed (auto dest: keeps_none)
  then have loop: "holds (keeps L e (topicBytes t + n)) (act_for (producePartition e (tpd_TopicName t)) (tpd_Partitions t))
      (\<lambda>_. keeps L e n) (\<lambda>err h. keeps L e 0 h \<and> err = Panic)"
    unfolding topicBytes_def comp_def by (intro holds_for_budget)
  show ?thesis
    unfolding produceTopic_def
    by (intro holds_get_then holds_if holds_bind [OF loop] holds_return) (auto dest: keeps_less)
qed

lemma handleProduce_holds:
  assumes "length msg < 2 ^ 31"
  shows "holds (keeps L e (length msg + n)) (handleProduce e msg s) (\<lambda>_. keeps L e n)
    (\<lambda>err h. keeps L e 0 h \<and> (err \<noteq> Panic \<longrightarrow> keeps L e n h))"
  unfolding handleProduce_def
proof (rule holds_lift_then)
  fix req
  assume "fst (DecodeProduceRequest msg) = Inr req"
  then have sz: "requestBytes req \<le> length msg"
    using produce_payload [of msg req "snd (DecodeProduceRequest msg)"] by (simp add: prod_eq_iff)
  have "holds (keeps L e (topicBytes t + m)) (produceTopic e s t) (\<lambda>_. keeps L e m) (\<lambda>err h. keeps L e 0 h \<and> err = Panic)"
    if "t \<in> set (preq_Topics req)" for t m
    by (rule produceTopic_holds) (use requestBytes_member [OF that] sz assms in linarith)
  then have "holds (keeps L e (requestBytes req + n)) (act_for (produceTopic e s) (preq_Topics req))
      (\<lambda>_. keeps L e n) (\<lambda>err h. keeps L e 0 h \<and> err = Panic)"
    unfolding requestBytes_def by (intro holds_for_budget)
  then have loop: "holds (keeps L e (length msg + n)) (act_for (produceTopic e s) (preq_Topics req))
      (\<lambda>_. keeps L e n) (\<lambda>err h. keeps L e 0 h \<and> err = Panic)"
    by (rule holds_weaken) (use sz in \<open>auto elim: keeps_mono\<close>)
  show "holds (keeps L e (length msg + n)) (act_bind (act_for (produceTopic e s) (preq_Topics req)) (\<lambda>topics.
      act_return (EncodeProduceResponse \<lparr>pres_Topics = topics\<rparr>))) (\<lambda>_. keeps L e n)
      (\<lambda>err h. keeps L e 0 h \<and> (err \<noteq> Panic \<longrightarrow> keeps L e n h))"
    by (rule holds_weaken [OF holds_bind [OF loop holds_return]]) auto
qed (auto dest: keeps_none keeps_less)


lemma decode_no_panic: "framed m \<Longrightarrow> fst (m msg) = Inl err \<Longrightarrow> err \<noteq> Panic"
  by (metis framed_no_panic prod.collapse)

text \<open>A handler starts with a decoder, whose failure closes the connection.\<close>

lemma decode_then:
  assumes "framed m" and "\<And>req. fst (m msg) = Inr req \<Longrightarrow> holds P (f req) Q (\<lambda>err h. I h \<and> err \<noteq> Panic)"
    and "\<And>h. P h \<Longrightarrow> I h"
  shows "holds P (act_bind (act_lift (fst (m msg))) f) Q (\<lambda>err h. I h \<and> err \<noteq> Panic)"
  using assms decode_no_panic [OF assms(1), of msg] by (intro holds_lift_then) auto

lemma readFrom_holds:
  assumes "0 < maxB"
  shows "holds (\<lambda>h. keeps L e n h \<and> is_open key h) (readFrom key start maxB) (\<lambda>_. keeps L e n)
    (\<lambda>err h. keeps L e n h \<and> err \<noteq> Panic)"
proof -
  have "\<exists>out leo. readFrom key start maxB h = (Inr (out, leo), h)" if inv: "keeps L e n h" and op: "is_open key h" for h
  proof -
    obtain p where p: "mget (partitions h) key = Some p" using op by (auto simp: is_open_def)
    have "log_inv p" using inv p by (auto simp: keeps_def served_def broker_inv_def logs_inv_def)
    then have "\<exists>out. ReadZeroCopy p start maxB = (out, None)"
      using ReadZeroCopy_correct [OF _ assms, of p start] findSegmentIndex_correct [of p start]
      by (cases "start < BaseOffset p") (auto simp: ReadZeroCopy_def not_less)
    with p show ?thesis by (auto simp: readFrom_def)
  qed
  then show ?thesis by (intro holdsI) fastforce+
qed

lemma fetchMaxBytes_pos: "0 < fetchMaxBytes m"
  by (simp add: fetchMaxBytes_def)

lemma fetchPartition_holds:
  "holds (keeps L e n) (fetchPartition e t p) (\<lambda>_. keeps L e n) R"
  unfolding fetchPartition_def
proof (rule getOrCreate_then, unfold sum.case)
  show "holds (keeps L e n) (act_return x) (\<lambda>_. keeps L e n) R" for x :: PartitionFetchResponse
    by (rule holds_return)
  fix key
  have rd: "holds (\<lambda>h. keeps L e n h \<and> is_open key h)
      (act_try (readFrom key (pfd_FetchOffset p) (fetchMaxBytes (pfd_MaxBytes p))))
      (\<lambda>r. case r of Inl err \<Rightarrow> keeps L e n | Inr x \<Rightarrow> keeps L e n) R"
    by (rule holds_try [OF readFrom_holds [OF fetchMaxBytes_pos]])
  show "holds (\<lambda>h. keeps L e n h \<and> is_open key h)
      (act_bind (act_try (readFrom key (pfd_FetchOffset p) (fetchMaxBytes (pfd_MaxBytes p))))
        (\<lambda>r2. case r2 of
           Inl err \<Rightarrow> act_return (fetchFailed (pfd_PartitionId p) 1)
         | Inr (out, leo) \<Rightarrow>
             act_run (\<lambda>h. (if 0 < length out then tell (RecordBytesOut (of_nat (length out))) h else h,
               \<lparr>pfr_PartitionId = pfd_PartitionId p, pfr_ErrorCode = 0, pfr_HighWatermark = leo,
                pfr_RecordsData = out\<rparr>))))
      (\<lambda>_. keeps L e n) R"
    by (rule holds_bind [OF rd]) (auto intro!: holds_return holds_run split: sum.splits if_splits)
qed

lemma handleFetch_holds:
  "holds (keeps L e n) (handleFetch e msg s) (\<lambda>_. keeps L e n) (\<lambda>err h. keeps L e n h \<and> err \<noteq> Panic)"
  unfolding handleFetch_def fetchTopic_def
  by (intro decode_then framed_fetch(3) holds_bind [OF holds_for] holds_get_then holds_if holds_return
      holds_bind [OF holds_for [OF fetchPartition_holds]])


section \<open>Coordinators\<close>

lemma keeps_groups:
  assumes "keeps L e n h" and "gc_reach gc"
  shows "keeps L e n (h\<lparr>groupCoordinator := gc\<rparr>)"
  using assms by (simp add: keeps_def served_def broker_inv_def logs_inv_def env_ok_def listing_ok_def)

lemma keeps_offsets:
  assumes "keeps L e n h" and "om_inv om"
  shows "keeps L e n (h\<lparr>offsetManager := om\<rparr>)"
  using assms by (simp add: keeps_def served_def broker_inv_def logs_inv_def env_ok_def listing_ok_def)

lemma keeps_parts: "keeps L e n h \<Longrightarrow> gc_reach (groupCoordinator h)" "keeps L e n h \<Longrightarrow> om_inv (offsetManager h)"
  "keeps L e n h \<Longrightarrow> visits (e_pick e g)"
  by (simp_all add: keeps_def served_def broker_inv_def env_ok_def)

lemma commitPartition_holds: "holds (keeps L e n) (commitPartition e g t p) (\<lambda>_. keeps L e n) R"
  unfolding commitPartition_def
proof (intro holds_bind [OF readClock_holds] holds_run)
  fix now h h' x
  assume inv: "keeps L e n h" and run: "(case CommitOffset (int now) (offsetManager h) g t (ocp_PartitionIndex p)
      (ocp_CommittedOffset p) (ocp_Metadata p) of
      (om, err) \<Rightarrow> (h\<lparr>offsetManager := om\<rparr>, \<lparr>ocrp_PartitionIndex = ocp_PartitionIndex p,
         ocrp_ErrorCode = (if err = None then 0 else 1)\<rparr>)) = (h', x)"
  obtain om err where c: "CommitOffset (int now) (offsetManager h) g t (ocp_PartitionIndex p)
      (ocp_CommittedOffset p) (ocp_Metadata p) = (om, err)" by (metis prod.exhaust)
  have "om_inv om" using CommitOffset_inv [OF keeps_parts(2) [OF inv]] c by (metis fst_conv)
  with keeps_offsets [OF inv] run c show "keeps L e n h'" by auto
qed simp

lemma handleOffsetCommit_holds:
  "holds (keeps L e n) (handleOffsetCommit e msg s) (\<lambda>_. keeps L e n) (\<lambda>err h. keeps L e n h \<and> err \<noteq> Panic)"
  unfolding handleOffsetCommit_def commitTopic_def
  by (intro decode_then framed_group_requests holds_bind [OF holds_for] holds_get_then holds_if holds_return
      holds_bind [OF holds_for [OF commitPartition_holds]])

lemma handleJoinGroup_holds:
  "holds (keeps L e n) (handleJoinGroup e msg s) (\<lambda>_. keeps L e n) (\<lambda>err h. keeps L e n h \<and> err \<noteq> Panic)"
  unfolding handleJoinGroup_def
proof (intro decode_then framed_group_requests holds_get_then holds_if holds_return holds_bind [OF readClock_holds] holds_run)
  fix req now h h' x
  assume inv: "keeps L e n h" and run: "(case AddMember now (groupCoordinator h) (jreq_GroupId req) (jreq_MemberId req) ''127.0.0.1''
        (jreq_SessionTimeoutMs req) (jreq_RebalanceTimeoutMs req) (jreq_ProtocolType req) (protocolMap (jreq_Protocols req)) of
      (gc, Inl err) \<Rightarrow> (h\<lparr>groupCoordinator := gc\<rparr>, EncodeJoinGroupResponse (joinFailed 1))
    | (gc, Inr (grp, member)) \<Rightarrow> (h\<lparr>groupCoordinator := gc\<rparr>, EncodeJoinGroupResponse (joined e req grp member))) = (h', x)"
  let ?r = "AddMember now (groupCoordinator h) (jreq_GroupId req) (jreq_MemberId req) ''127.0.0.1''
        (jreq_SessionTimeoutMs req) (jreq_RebalanceTimeoutMs req) (jreq_ProtocolType req) (protocolMap (jreq_Protocols req))"
  have "h' = h\<lparr>groupCoordinator := fst ?r\<rparr>" using run by (auto split: prod.splits sum.splits)
  with keeps_groups [OF inv gc_reach.add [OF keeps_parts(1) [OF inv]]] show "keeps L e n h'" by simp
qed simp_all

lemma handleHeartbeat_holds:
  "holds (keeps L e n) (handleHeartbeat e msg s) (\<lambda>_. keeps L e n) (\<lambda>err h. keeps L e n h \<and> err \<noteq> Panic)"
  unfolding handleHeartbeat_def
proof (intro decode_then framed_group_requests holds_get_then holds_if holds_return holds_bind [OF readClock_holds] holds_run)
  fix req :: HeartbeatRequest and now h h' x
  assume inv: "keeps L e n h" and run: "(case Heartbeat (int now) (groupCoordinator h) (hreq_GroupId req) (hreq_MemberId req) of
      (gc, err) \<Rightarrow> (h\<lparr>groupCoordinator := gc\<rparr>, EncodeHeartbeatResponse \<lparr>hres_ErrorCode = (if err = None then 0 else 25)\<rparr>)) = (h', x)"
  have "h' = h\<lparr>groupCoordinator := fst (Heartbeat (int now) (groupCoordinator h) (hreq_GroupId req) (hreq_MemberId req))\<rparr>"
    using run by (auto split: prod.splits)
  with keeps_groups [OF inv gc_reach.heartbeat [OF keeps_parts(1) [OF inv]]] show "keeps L e n h'" by simp
qed simp_all

lemma handleLeaveGroup_holds:
  "holds (keeps L e n) (handleLeaveGroup e msg s) (\<lambda>_. keeps L e n) (\<lambda>err h. keeps L e n h \<and> err \<noteq> Panic)"
  unfolding handleLeaveGroup_def
proof (intro decode_then framed_group_requests holds_get_then holds_if holds_return holds_run)
  fix req :: LeaveGroupRequest and h h' x
  assume inv: "keeps L e n h" and run: "(case RemoveMember (e_pick e) (groupCoordinator h) (lreq_GroupId req) (lreq_MemberId req) of
      (gc, err) \<Rightarrow> (h\<lparr>groupCoordinator := gc\<rparr>, EncodeLeaveGroupResponse \<lparr>lres_ErrorCode = (if err = None then 0 else 25)\<rparr>)) = (h', x)"
  have "h' = h\<lparr>groupCoordinator := fst (RemoveMember (e_pick e) (groupCoordinator h) (lreq_GroupId req) (lreq_MemberId req))\<rparr>"
    using run by (auto split: prod.splits)
  with keeps_groups [OF inv gc_reach.remove [OF keeps_parts(1) [OF inv] keeps_parts(3) [OF inv]]]
  show "keeps L e n h'" by simp
qed simp_all


section \<open>Transactions\<close>

lemma handleInitProducerId_holds:
  "holds (keeps L e n) (handleInitProducerId msg) (\<lambda>_. keeps L e n) (\<lambda>err h. keeps L e n h \<and> err \<noteq> Panic)"
  unfolding handleInitProducerId_def
  by (intro decode_then framed_txn_sasl_requests holds_run) (auto split: prod.splits)

lemma handleAddPartitionsToTxn_holds:
  "holds (keeps L e n) (handleAddPartitionsToTxn msg s) (\<lambda>_. keeps L e n) (\<lambda>err h. keeps L e n h \<and> err \<noteq> Panic)"
proof -
  have add: "holds (keeps L e n) (addTxnPartition req t p) (\<lambda>_. keeps L e n) R" for req t p R
    unfolding addTxnPartition_def by (rule holds_run) (auto split: prod.splits)
  show ?thesis
    unfolding handleAddPartitionsToTxn_def addTxnTopic_def
    by (intro decode_then framed_txn_sasl_requests holds_bind [OF holds_for] holds_get_then holds_if holds_return
        holds_bind [OF holds_for [OF add]])
qed

lemma record_ok_control: "record_ok (NewControlRecord now m)"
  by (simp add: record_ok_def NewControlRecord_def optLen_def)

lemma writeMarker_holds:
  "holds (keeps L e (1 + n)) (writeMarker e (NewControlRecord now m) t) (\<lambda>_. keeps L e n) R"
  unfolding writeMarker_def
proof (rule getOrCreate_then, unfold sum.case)
  show "holds (keeps L e (1 + n)) (act_return ()) (\<lambda>_. keeps L e n) R"
    by (rule holds_return) (rule keeps_less)
  fix key
  have "holds (\<lambda>h. keeps L e (1 + n) h \<and> is_open key h) (act_try (appendTo key (NewControlRecord now m)))
      (\<lambda>r. case r of Inl err \<Rightarrow> \<lambda>h. False | Inr x \<Rightarrow> \<lambda>h. keeps L e n h \<and> is_open key h) R"
    by (rule holds_try) (rule holds_weaken [OF appendTo_holds [OF record_ok_control]], auto)
  then show "holds (\<lambda>h. keeps L e (1 + n) h \<and> is_open key h)
      (act_bind (act_try (appendTo key (NewControlRecord now m))) (\<lambda>_. act_return ())) (\<lambda>_. keeps L e n) R"
    by (rule holds_bind) (auto intro!: holds_return split: sum.splits)
qed


definition marker_count :: "env \<Rightarrow> bytes \<Rightarrow> Handler \<Rightarrow> nat" where
  "marker_count e msg h =
     (case fst (DecodeEndTxnRequest msg) of
        Inl err \<Rightarrow> 0
      | Inr req \<Rightarrow>
          (case snd (EndTxn (e_topics e) (txnCoordinator h) (ereq_TransactionalId req) (ereq_ProducerId req)
                 (ereq_ProducerEpoch req) (ereq_Committed req)) of
             Inl err \<Rightarrow> 0 | Inr targets \<Rightarrow> length targets))"

lemma handleEndTxn_holds:
  "holds (\<lambda>h. keeps L e (marker_count e msg h + n) h) (handleEndTxn e msg) (\<lambda>_. keeps L e n)
     (\<lambda>err h. keeps L e n h \<and> err \<noteq> Panic)"
  unfolding handleEndTxn_def
proof (rule decode_then [OF framed_txn_sasl_requests(3)])
  fix req
  assume dec: "fst (DecodeEndTxnRequest msg) = Inr req"
  let ?run = "\<lambda>h. EndTxn (e_topics e) (txnCoordinator h) (ereq_TransactionalId req) (ereq_ProducerId req)
         (ereq_ProducerEpoch req) (ereq_Committed req)"
  let ?count = "\<lambda>r. case r of Inl err \<Rightarrow> 0 | Inr targets \<Rightarrow> length targets"
  let ?Q = "\<lambda>r. keeps L e (?count r + n)"
  let ?rec = "\<lambda>now. NewControlRecord (of_nat now) (if ereq_Committed req then ControlMarkerCommit else ControlMarkerAbort)"
  show "holds (\<lambda>h. keeps L e (marker_count e msg h + n) h)
     (act_bind (act_run (\<lambda>h. case ?run h of (tc, r) \<Rightarrow> (h\<lparr>txnCoordinator := tc\<rparr>, r))) (\<lambda>r.
     case r of
       Inl err \<Rightarrow> act_return (EncodeEndTxnResponse \<lparr>eres_ErrorCode = 1\<rparr>)
     | Inr targets \<Rightarrow>
         act_bind (readClock e) (\<lambda>now. act_bind (act_for (writeMarker e (?rec now)) targets) (\<lambda>_.
         act_return (EncodeEndTxnResponse \<lparr>eres_ErrorCode = 0\<rparr>)))))
     (\<lambda>_. keeps L e n) (\<lambda>err h. keeps L e n h \<and> err \<noteq> Panic)"
  proof (rule holds_bind [where Q = ?Q, OF holds_run])
    fix h h' r
    assume inv: "keeps L e (marker_count e msg h + n) h"
      and run: "(case ?run h of (tc, r) \<Rightarrow> (h\<lparr>txnCoordinator := tc\<rparr>, r)) = (h', r)"
    have "snd (?run h) = r" "h' = h\<lparr>txnCoordinator := fst (?run h)\<rparr>" using run by (auto split: prod.splits)
    moreover have "marker_count e msg h = ?count (snd (?run h))" using dec by (simp add: marker_count_def)
    ultimately show "?Q r h'" using inv by simp
  next
    fix r
    show "holds (?Q r) (case r of
         Inl err \<Rightarrow> act_return (EncodeEndTxnResponse \<lparr>eres_ErrorCode = 1\<rparr>)
       | Inr targets \<Rightarrow>
           act_bind (readClock e) (\<lambda>now. act_bind (act_for (writeMarker e (?rec now)) targets) (\<lambda>_.
           act_return (EncodeEndTxnResponse \<lparr>eres_ErrorCode = 0\<rparr>))))
       (\<lambda>_. keeps L e n) (\<lambda>err h. keeps L e n h \<and> err \<noteq> Panic)"
    proof (cases r)
      case (Inl err)
      then show ?thesis by (simp add: holds_return)
    next
      case (Inr targets)
      have len: "length targets = sum_list (map (\<lambda>_. 1) targets)" by (simp add: sum_list_triv)
      have "holds (keeps L e (length targets + n)) (act_for (writeMarker e (?rec now)) targets) (\<lambda>_. keeps L e n)
          (\<lambda>err h. keeps L e n h \<and> err \<noteq> Panic)" for now
        unfolding len by (rule holds_for_budget) (rule writeMarker_holds)
      then show ?thesis
        unfolding Inr sum.case by (intro holds_bind [OF readClock_holds] holds_bind [where Q = "\<lambda>_. keeps L e n"] holds_return) auto
    qed
  qed
qed (rule keeps_less)


section \<open>Every request\<close>

definition request_appends :: "env \<Rightarrow> i16 \<Rightarrow> bytes \<Rightarrow> Handler \<Rightarrow> nat" where
  "request_appends e key msg h =
     (if key = ApiKeyProduce then length msg else if key = ApiKeyEndTxn then marker_count e msg h else 0)"

lemma handle_pure:
  "holds (keeps L e n) (handleMetadata msg) (\<lambda>_. keeps L e n) (\<lambda>err h. keeps L e n h \<and> err \<noteq> Panic)"
  "holds (keeps L e n) (handleFindCoordinator msg) (\<lambda>_. keeps L e n) (\<lambda>err h. keeps L e n h \<and> err \<noteq> Panic)"
  "holds (keeps L e n) (handleOffsetFetch msg s) (\<lambda>_. keeps L e n) (\<lambda>err h. keeps L e n h \<and> err \<noteq> Panic)"
  "holds (keeps L e n) (handleSyncGroup msg s) (\<lambda>_. keeps L e n) (\<lambda>err h. keeps L e n h \<and> err \<noteq> Panic)"
  unfolding handleMetadata_def handleFindCoordinator_def handleOffsetFetch_def handleSyncGroup_def
  by (intro decode_then framed_metadata framed_group_requests holds_get; simp)+

lemma dispatch_holds:
  assumes "length msg < 2 ^ 31"
  shows "holds (\<lambda>h. keeps L e (request_appends e key msg h + n) h) (dispatch e key msg s) (\<lambda>_. keeps L e n)
    (\<lambda>err h. keeps L e 0 h \<and> (err = Panic \<longrightarrow> key = ApiKeyProduce) \<and> (err \<noteq> Panic \<longrightarrow> keeps L e n h))"
proof -
  let ?R = "\<lambda>err h. keeps L e 0 h \<and> (err = Panic \<longrightarrow> key = ApiKeyProduce) \<and> (err \<noteq> Panic \<longrightarrow> keeps L e n h)"
  have other: "holds P m (\<lambda>_. keeps L e n) ?R"
    if "holds P' m (\<lambda>_. keeps L e n) (\<lambda>err h. keeps L e n h \<and> err \<noteq> Panic)" and "\<And>h. P h \<Longrightarrow> P' h"
    for m :: "(Handler, bytes) act" and P P'
    by (rule holds_weaken [OF that(1)]) (auto simp: that(2) dest: keeps_none)
  note le = keeps_less [of L e "request_appends e key msg h" n h for h]
  show ?thesis
  proof (cases "key = ApiKeyProduce")
    case True
    have "dispatch e key msg s = handleProduce e msg s" using True by (simp add: dispatch_def ApiKey_defs)
    moreover have "holds (keeps L e (length msg + n)) (handleProduce e msg s) (\<lambda>_. keeps L e n) ?R"
      by (rule holds_weaken [OF handleProduce_holds [OF assms]]) (use True in auto)
    ultimately show ?thesis using True by (simp add: request_appends_def)
  next
    case np: False
    show ?thesis
    proof (cases "key = ApiKeyEndTxn")
      case True
      have "dispatch e key msg s = handleEndTxn e msg" using True by (simp add: dispatch_def ApiKey_defs)
      moreover have "request_appends e key msg = marker_count e msg"
        using True by (auto simp: request_appends_def ApiKey_defs)
      ultimately show ?thesis using other [OF handleEndTxn_holds] by simp
    next
      case False
      have req: "request_appends e key msg h = 0" for h using np False by (simp add: request_appends_def)
      have base: "holds (\<lambda>h. keeps L e (request_appends e key msg h + n) h) m (\<lambda>_. keeps L e n) ?R"
        if "holds (keeps L e n) m (\<lambda>_. keeps L e n) (\<lambda>err h. keeps L e n h \<and> err \<noteq> Panic)" for m :: "(Handler, bytes) act"
        using other [OF that, of "keeps L e n"] by (simp add: req)
      show ?thesis
        unfolding dispatch_def handleApiVersions_def
        using np False
        by (intro holds_if base handle_pure handleFetch_holds handleOffsetCommit_holds handleJoinGroup_holds
            handleHeartbeat_holds handleLeaveGroup_holds handleInitProducerId_holds
            handleAddPartitionsToTxn_holds holds_return holds_fail) simp_all
    qed
  qed
qed

text \<open>
  One request: the invariant survives with the room the request did not use, the session
  stays consistent, and only a Produce request can make the process panic.
\<close>

lemma HandleRequest_keeps:
  assumes inv: "keeps L e (request_appends e (ApiKey hdr) msg h + n) h" and len: "length msg < 2 ^ 31"
    and ses: "session_inv s" and run: "HandleRequest e hdr msg (Some s) h = (r, s', h')"
  shows "keeps L e 0 h' \<and> (r \<noteq> Inl Panic \<longrightarrow> keeps L e n h') \<and> (r = Inl Panic \<longrightarrow> ApiKey hdr = ApiKeyProduce) \<and>
    (\<exists>s1. s' = Some s1 \<and> session_inv s1)"
proof -
  have weak: "keeps L e n h" by (rule keeps_less [OF inv])
  note none = keeps_none [OF weak]
  consider (blocked) "saslBlocked h (Some s) \<and> ApiKey hdr \<notin> {ApiKeyApiVersions, ApiKeySaslHandshake, ApiKeySaslAuthenticate}"
    | (shake) "ApiKey hdr = ApiKeySaslHandshake" | (auth) "ApiKey hdr = ApiKeySaslAuthenticate"
    | (disp) "\<not> (saslBlocked h (Some s) \<and> ApiKey hdr \<notin> {ApiKeyApiVersions, ApiKeySaslHandshake, ApiKeySaslAuthenticate})"
        "ApiKey hdr \<noteq> ApiKeySaslHandshake" "ApiKey hdr \<noteq> ApiKeySaslAuthenticate"
    by blast
  then show ?thesis
  proof cases
    case blocked
    with run weak none ses show ?thesis by (auto simp: HandleRequest_def Let_def)
  next
    case shake
    then have "h' = h" and hs: "(r, s') = handleSaslHandshake e msg (Some s) h"
      using run by (auto simp: HandleRequest_def Let_def split: prod.splits)
    moreover have "r \<noteq> Inl Panic \<and> (\<exists>s1. s' = Some s1 \<and> session_inv s1)"
      using hs ses decode_no_panic [OF framed_txn_sasl_requests(4), of msg]
      by (auto simp: handleSaslHandshake_def Let_def split: sum.splits if_splits)
    ultimately show ?thesis using weak none by simp
  next
    case auth
    then have "h' = h" and hs: "(r, s') = handleSaslAuthenticate e msg (Some s) h"
      using run by (auto simp: HandleRequest_def Let_def ApiKey_defs split: prod.splits)
    moreover have "r \<noteq> Inl Panic \<and> (\<exists>s1. s' = Some s1 \<and> session_inv s1)"
      using hs ses decode_no_panic [OF framed_txn_sasl_requests(5), of msg]
        Authenticate_safe [OF ses, of "e_quote e" "e_rnd e" "saslAuth h"]
      by (auto simp: handleSaslAuthenticate_def split: sum.splits prod.splits if_splits)
        (metis fst_conv snd_conv)+
    ultimately show ?thesis using weak none by simp
  next
    case disp
    then have s': "s' = Some s" and d: "dispatch e (ApiKey hdr) msg (Some s) h = (r, h')"
      using run by (auto simp: HandleRequest_def Let_def split: prod.splits)
    show ?thesis
      using holdsD [OF dispatch_holds [OF len] inv] d s' ses by (cases r) (auto dest: keeps_none)
  qed
qed

lemma HandleRequest_served:
  assumes "served e (request_appends e (ApiKey hdr) msg h + n) h" and "length msg < 2 ^ 31"
    and "session_inv s" and "HandleRequest e hdr msg (Some s) h = (r, s', h')"
  shows "served e 0 h' \<and> (r \<noteq> Inl Panic \<longrightarrow> served e n h') \<and> (r = Inl Panic \<longrightarrow> ApiKey hdr = ApiKeyProduce) \<and>
    (\<exists>s1. s' = Some s1 \<and> session_inv s1)"
  using HandleRequest_keeps [of Map.empty] assms by (simp add: keeps_empty)

end
