(* ===== verification/Broker_Access.thy ===== *)
theory Broker_Access
  imports Broker_Invariant
begin

text \<open>
  Who may change what. \<open>confined\<close> says which entries of the broker's maps differ from an
  earlier state; every handler keeps it for the entries its session is authorized for.
\<close>

definition registered :: "Handler \<Rightarrow> string \<Rightarrow> string \<Rightarrow> i32 \<Rightarrow> bool" where
  "registered h txId t i \<longleftrightarrow>
     (\<exists>txn ps. mget (txns (txnCoordinator h)) txId = Some txn \<and> mget (Partitions txn) t = Some ps \<and> i \<in> set ps)"

definition confined ::
  "Handler \<Rightarrow> (string \<Rightarrow> bool) \<Rightarrow> (string \<Rightarrow> bool) \<Rightarrow> (GroupTopicPartition \<Rightarrow> bool) \<Rightarrow> (string \<Rightarrow> bool) \<Rightarrow>
   (string \<Rightarrow> bool) \<Rightarrow> Handler \<Rightarrow> bool" where
  "confined h0 P G C T D h \<longleftrightarrow>
     aclManager h = aclManager h0 \<and>
     (\<forall>k. mget (partitions h) k \<noteq> mget (partitions h0) k \<longrightarrow> P k) \<and>
     (\<forall>g. mget (groups (groupCoordinator h)) g \<noteq> mget (groups (groupCoordinator h0)) g \<longrightarrow> G g) \<and>
     (\<forall>k. mget (offsets (offsetManager h)) k \<noteq> mget (offsets (offsetManager h0)) k \<longrightarrow> C k) \<and>
     (\<forall>x t i. registered h x t i \<longrightarrow> \<not> registered h0 x t i \<longrightarrow> T t) \<and>
     (\<forall>x t i. registered h0 x t i \<longrightarrow> \<not> registered h x t i \<longrightarrow> D x)"

lemma confined_refl: "confined h P G C T D h"
  by (simp add: confined_def)

lemma confined_frame [simp]:
  "confined h0 P G C T D (h\<lparr>h_ticks := t\<rparr>) = confined h0 P G C T D h"
  "confined h0 P G C T D (h\<lparr>h_disk := d\<rparr>) = confined h0 P G C T D h"
  "confined h0 P G C T D (tell ev h) = confined h0 P G C T D h"
  by (simp_all add: confined_def registered_def tell_def)

lemma confined_partition:
  assumes "confined h0 P G C T D h" and "P k"
  shows "confined h0 P G C T D (h\<lparr>partitions := mput k p (partitions h)\<rparr>)"
  using assms by (simp add: confined_def registered_def)

lemma confined_groups:
  assumes "confined h0 P G C T D h" and "\<And>g. mget (groups gc) g \<noteq> mget (groups (groupCoordinator h)) g \<Longrightarrow> G g"
  shows "confined h0 P G C T D (h\<lparr>groupCoordinator := gc\<rparr>)"
  using assms unfolding confined_def registered_def by (simp, metis)

lemma confined_offsets:
  assumes "confined h0 P G C T D h" and "\<And>k. mget (offsets om) k \<noteq> mget (offsets (offsetManager h)) k \<Longrightarrow> C k"
  shows "confined h0 P G C T D (h\<lparr>offsetManager := om\<rparr>)"
  using assms unfolding confined_def registered_def by (simp, metis)

lemma confined_txns:
  assumes "confined h0 P G C T D h"
    and "\<And>x t i. registered (h\<lparr>txnCoordinator := tc\<rparr>) x t i \<Longrightarrow> \<not> registered h x t i \<Longrightarrow> T t"
    and "\<And>x t i. registered h x t i \<Longrightarrow> \<not> registered (h\<lparr>txnCoordinator := tc\<rparr>) x t i \<Longrightarrow> D x"
  shows "confined h0 P G C T D (h\<lparr>txnCoordinator := tc\<rparr>)"
proof -
  have "T t" if "registered (h\<lparr>txnCoordinator := tc\<rparr>) x t i" "\<not> registered h0 x t i" for x t i
    using that assms unfolding confined_def by blast
  moreover have "D x" if "registered h0 x t i" "\<not> registered (h\<lparr>txnCoordinator := tc\<rparr>) x t i" for x t i
    using that assms unfolding confined_def by blast
  ultimately show ?thesis using assms(1) by (simp add: confined_def)
qed

lemma confined_authorize:
  "confined h0 P G C T D h \<Longrightarrow> authorizeTopic h s t oper = authorizeTopic h0 s t oper"
  "confined h0 P G C T D h \<Longrightarrow> authorizeGroup h s g oper = authorizeGroup h0 s g oper"
  by (simp_all add: confined_def authorizeTopic_def authorizeGroup_def)

text \<open>The check of a handler, as the handler sees it and as the first state decides it.\<close>

lemma confined_check_topic:
  assumes "authorizeTopic h0 s t oper \<Longrightarrow> holds (confined h0 P G C T D) m Q R"
    and "holds (confined h0 P G C T D) m' Q R"
  shows "holds (confined h0 P G C T D)
    (act_bind (act_get (\<lambda>h. authorizeTopic h s t oper)) (\<lambda>allowed. if \<not> allowed then m' else m)) Q R"
  using assms by (auto simp: holds_def act_bind_def act_get_def confined_authorize)

lemma confined_check_group:
  assumes "authorizeGroup h0 s g oper \<Longrightarrow> holds (confined h0 P G C T D) m Q R"
    and "holds (confined h0 P G C T D) m' Q R"
  shows "holds (confined h0 P G C T D)
    (act_bind (act_get (\<lambda>h. authorizeGroup h s g oper)) (\<lambda>allowed. if \<not> allowed then m' else m)) Q R"
  using assms by (auto simp: holds_def act_bind_def act_get_def confined_authorize)


section \<open>Partitions\<close>

lemma getOrCreate_confined:
  assumes "P (partitionKey t i)"
  shows "holds (confined h0 P G C T D) (getOrCreatePartitionLog e t i)
    (\<lambda>key h. confined h0 P G C T D h \<and> key = partitionKey t i) (\<lambda>_. confined h0 P G C T D)"
  by (rule holdsI)
    (auto simp: getOrCreatePartitionLog_def Let_def confined_partition assms split: if_splits option.splits sum.splits)

lemma appendTo_confined:
  assumes "P key"
  shows "holds (confined h0 P G C T D) (appendTo key rec) (\<lambda>_. confined h0 P G C T D) (\<lambda>_. confined h0 P G C T D)"
  by (rule holdsI) (auto simp: appendTo_def confined_partition assms split: option.splits prod.splits)

lemma storeRecord_confined:
  assumes "P key" and "confined h0 P G C T D h" and "storeRecord key rec f h = (r, h')"
  shows "confined h0 P G C T D h'"
proof -
  have "holds (confined h0 P G C T D) (storeRecord key rec f) (\<lambda>_. confined h0 P G C T D) (\<lambda>_. confined h0 P G C T D)"
    unfolding storeRecord_def
    by (rule holds_bind [OF appendTo_confined [of P key, OF assms(1)]]) (rule holds_run, auto)
  from holdsD [OF this assms(2)] assms(3) show ?thesis by (cases r) auto
qed

lemma produceLoop_confined:
  assumes "P key" and "confined h0 P G C T D h" and "produceLoop e key reader f h = (r, h')"
  shows "confined h0 P G C T D h'"
  using assms
proof (induction e key reader f h arbitrary: r h' rule: produceLoop.induct)
  case (1 e key reader f h)
  have clock: "readClock e h = (Inr (e_clock e (h_ticks h)), h\<lparr>h_ticks := h_ticks h + 1\<rparr>)"
    by (simp add: readClock_def act_run_def)
  obtain res rest where rd: "ReadRecord reader = (res, rest)" by (metis prod.exhaust)
  note run = 1(4) [unfolded produceLoop.simps [of e key reader] clock rd]
  show ?case
  proof (cases "reader = []")
    case True
    with run 1(3) show ?thesis by simp
  next
    case ne: False
    show ?thesis
    proof (cases res)
      case (Inl err)
      then show ?thesis
        using run ne 1(3) storeRecord_confined [of P key h0 G C T D "h\<lparr>h_ticks := h_ticks h + 1\<rparr>", OF 1(2)]
        by (auto split: if_splits prod.splits sum.splits)
    next
      case (Inr x)
      obtain rec m where x: "x = (rec, m)" by (metis prod.exhaust)
      obtain sr h1 where sr: "storeRecord key rec f h = (sr, h1)" by (metis prod.exhaust)
      have h1: "confined h0 P G C T D h1" by (rule storeRecord_confined [of P key, OF 1(2,3) sr])
      show ?thesis
      proof (cases sr)
        case (Inl err)
        with run ne Inr x sr h1 show ?thesis by (auto split: if_splits)
      next
        case (Inr f')
        with run ne \<open>res = Inr x\<close> x sr have "produceLoop e key rest f' h1 = (r, h')" by simp
        from 1(1) [OF ne rd [symmetric] \<open>res = Inr x\<close> x [symmetric] sr [symmetric] Inr 1(2) h1 this]
        show ?thesis .
      qed
    qed
  qed
qed

lemma getOrCreate_confined_then:
  assumes "P (partitionKey t i)" and "\<And>err. holds (confined h0 P G C T D) (g (Inl err)) Q (\<lambda>_. confined h0 P G C T D)"
    and "\<And>key. P key \<Longrightarrow> holds (confined h0 P G C T D) (g (Inr key)) Q (\<lambda>_. confined h0 P G C T D)"
  shows "holds (confined h0 P G C T D) (act_bind (act_try (getOrCreatePartitionLog e t i)) g) Q (\<lambda>_. confined h0 P G C T D)"
proof (rule holds_bind [OF holds_try_any [OF getOrCreate_confined [of P, OF assms(1)]]])
  fix r
  show "holds (case r of Inl e \<Rightarrow> confined h0 P G C T D | Inr key \<Rightarrow> \<lambda>h. confined h0 P G C T D h \<and> key = partitionKey t i)
      (g r) Q (\<lambda>_. confined h0 P G C T D)"
  proof (cases r)
    case (Inl err)
    then show ?thesis using assms(2) by simp
  next
    case (Inr key)
    show ?thesis
      unfolding Inr sum.case
      by (cases "key = partitionKey t i") (use assms(1,3) in \<open>auto simp: holds_def\<close>)
  qed
qed

lemma producePartition_confined:
  assumes "P (partitionKey t (ppd_PartitionId p))"
  shows "holds (confined h0 P G C T D) (producePartition e t p) (\<lambda>_. confined h0 P G C T D) (\<lambda>_. confined h0 P G C T D)"
  unfolding producePartition_def
proof (rule getOrCreate_confined_then [of P, OF assms], unfold sum.case)
  fix key
  assume "P key"
  then have "holds (confined h0 P G C T D) (produceLoop e key (ppd_RecordsData p) (-1)) (\<lambda>_. confined h0 P G C T D) (\<lambda>_. confined h0 P G C T D)"
    by (intro holdsI) (auto elim: produceLoop_confined [of P])
  then show "holds (confined h0 P G C T D)
      (act_bind (produceLoop e key (ppd_RecordsData p) (-1)) (\<lambda>f. act_bind (readClock e) (\<lambda>now. act_return (g f now))))
      (\<lambda>_. confined h0 P G C T D) (\<lambda>_. confined h0 P G C T D)" for g :: "i64 \<Rightarrow> nat \<Rightarrow> PartitionProduceResponse"
    by (rule holds_bind) (intro holds_bind [OF readClock_holds] holds_return; simp)
qed (rule holds_return)

lemma handleProduce_confined:
  assumes "\<And>t i. authorizeTopic h0 s t ''Write'' \<Longrightarrow> P (partitionKey t i)"
  shows "holds (confined h0 P G C T D) (handleProduce e msg s) (\<lambda>_. confined h0 P G C T D) (\<lambda>_. confined h0 P G C T D)"
  unfolding handleProduce_def produceTopic_def
  by (intro holds_lift_then holds_bind [OF holds_for] confined_check_topic holds_return
      holds_bind [OF holds_for [OF producePartition_confined]] assms)

lemma fetchPartition_confined:
  assumes "P (partitionKey t (pfd_PartitionId p))"
  shows "holds (confined h0 P G C T D) (fetchPartition e t p) (\<lambda>_. confined h0 P G C T D) (\<lambda>_. confined h0 P G C T D)"
  unfolding fetchPartition_def
proof (rule getOrCreate_confined_then [of P, OF assms], unfold sum.case)
  fix key
  have rd: "holds (confined h0 P G C T D) (readFrom key st mb) (\<lambda>_. confined h0 P G C T D) (\<lambda>_. confined h0 P G C T D)" for st mb
    by (rule holdsI) (auto simp: readFrom_def split: option.splits prod.splits)
  show "holds (confined h0 P G C T D)
      (act_bind (act_try (readFrom key (pfd_FetchOffset p) (fetchMaxBytes (pfd_MaxBytes p))))
        (\<lambda>r2. case r2 of
           Inl err \<Rightarrow> act_return (fetchFailed (pfd_PartitionId p) 1)
         | Inr (out, leo) \<Rightarrow>
             act_run (\<lambda>h. (if 0 < length out then tell (RecordBytesOut (of_nat (length out))) h else h,
               \<lparr>pfr_PartitionId = pfd_PartitionId p, pfr_ErrorCode = 0, pfr_HighWatermark = leo,
                pfr_RecordsData = out\<rparr>))))
      (\<lambda>_. confined h0 P G C T D) (\<lambda>_. confined h0 P G C T D)"
    by (rule holds_bind [OF holds_try_any [OF rd]])
      (auto intro!: holds_return holds_run split: sum.splits if_splits)
qed (rule holds_return)

lemma handleFetch_confined:
  assumes "\<And>t i. authorizeTopic h0 s t ''Read'' \<Longrightarrow> P (partitionKey t i)"
  shows "holds (confined h0 P G C T D) (handleFetch e msg s) (\<lambda>_. confined h0 P G C T D) (\<lambda>_. confined h0 P G C T D)"
  unfolding handleFetch_def fetchTopic_def
  by (intro holds_lift_then holds_bind [OF holds_for] confined_check_topic holds_return
      holds_bind [OF holds_for [OF fetchPartition_confined]] assms)


section \<open>Offsets and groups\<close>

lemma CommitOffset_only:
  "mget (offsets (fst (CommitOffset now om g t p off md))) k \<noteq> mget (offsets om) k \<Longrightarrow> k = gtpKey g t p"
  by (auto simp: CommitOffset_def split: if_splits)

lemma handleOffsetCommit_confined:
  assumes "\<And>g t i. authorizeGroup h0 s g ''Read'' \<Longrightarrow> authorizeTopic h0 s t ''Read'' \<Longrightarrow> C (gtpKey g t i)"
  shows "holds (confined h0 P G C T D) (handleOffsetCommit e msg s) (\<lambda>_. confined h0 P G C T D) (\<lambda>_. confined h0 P G C T D)"
proof -
  let ?I = "confined h0 P G C T D"
  have part: "holds ?I (commitPartition e g t p) (\<lambda>_. ?I) (\<lambda>_. ?I)"
    if "authorizeGroup h0 s g ''Read''" "authorizeTopic h0 s t ''Read''" for g t p
  proof -
    have "?I (h\<lparr>offsetManager := fst (CommitOffset now (offsetManager h) g t i off md)\<rparr>)" if "?I h" for h now i off md
      using CommitOffset_only assms [OF \<open>authorizeGroup h0 s g ''Read''\<close> \<open>authorizeTopic h0 s t ''Read''\<close>]
      by (intro confined_offsets [OF that]) blast
    then show ?thesis
      unfolding commitPartition_def
      by (intro holds_bind [OF readClock_holds] holds_run) (auto split: prod.splits, metis fst_conv)
  qed
  have topic: "holds ?I (commitTopic e s g ga t) (\<lambda>_. ?I) (\<lambda>_. ?I)" if "ga = authorizeGroup h0 s g ''Read''" for g ga t
  proof (cases ga)
    case True
    then show ?thesis
      using part that unfolding commitTopic_def
      by (auto intro!: confined_check_topic holds_bind [OF holds_for] holds_return)
  next
    case False
    then show ?thesis unfolding commitTopic_def by (auto intro!: holds_get_then holds_return)
  qed
  have check: "holds ?I (act_get (\<lambda>h. authorizeGroup h s g ''Read'')) (\<lambda>ga h. ?I h \<and> ga = authorizeGroup h0 s g ''Read'') R" for g R
    by (rule holds_get) (simp add: confined_authorize)
  have loop: "holds (\<lambda>h. ?I h \<and> ga = authorizeGroup h0 s g ''Read'') (act_for (commitTopic e s g ga) ts) (\<lambda>_. ?I) (\<lambda>_. ?I)" for ga g ts
  proof (cases "ga = authorizeGroup h0 s g ''Read''")
    case True
    show ?thesis by (rule holds_weaken [OF holds_for [OF topic [OF True]]]) auto
  next
    case False
    then show ?thesis by (simp add: holds_def)
  qed
  show ?thesis
    unfolding handleOffsetCommit_def
    by (intro holds_lift_then holds_bind [OF check] holds_bind [OF loop] holds_return)
qed


lemma AddMember_only:
  "mget (groups (fst (AddMember now gc gid cid hst st rt pt ps))) g \<noteq> mget (groups gc) g \<Longrightarrow> g = gid"
  by (auto simp: AddMember_def GetOrCreateGroup_def Let_def split: if_splits option.splits)

lemma RemoveMember_only:
  "mget (groups (fst (RemoveMember pick gc gid mid))) g \<noteq> mget (groups gc) g \<Longrightarrow> g = gid"
  by (auto simp: RemoveMember_def Let_def split: if_splits option.splits)

lemma Heartbeat_only:
  "mget (groups (fst (Heartbeat now gc gid mid))) g \<noteq> mget (groups gc) g \<Longrightarrow> g = gid"
  by (auto simp: Heartbeat_def Let_def split: if_splits option.splits)

text \<open>A handler that replaces the group coordinator by the result of one of its operations.\<close>

lemma confined_group_step:
  assumes "G gid" and "\<And>h g. mget (groups (step h)) g \<noteq> mget (groups (groupCoordinator h)) g \<Longrightarrow> g = gid"
    and "\<And>h. fst (f h) = h\<lparr>groupCoordinator := step h\<rparr>"
  shows "holds (confined h0 P G C T D) (act_run f) (\<lambda>_. confined h0 P G C T D) R"
proof (rule holds_run)
  fix h h' x
  assume "confined h0 P G C T D h" and "f h = (h', x)"
  then have "h' = h\<lparr>groupCoordinator := step h\<rparr>" using assms(3) [of h] by simp
  moreover have "G g" if "mget (groups (step h)) g \<noteq> mget (groups (groupCoordinator h)) g" for g
    using assms(1) assms(2) [OF that] by simp
  ultimately show "confined h0 P G C T D h'"
    using confined_groups [OF \<open>confined h0 P G C T D h\<close>] by simp
qed

lemma handleJoinGroup_confined:
  assumes "\<And>g. authorizeGroup h0 s g ''Read'' \<Longrightarrow> G g"
  shows "holds (confined h0 P G C T D) (handleJoinGroup e msg s) (\<lambda>_. confined h0 P G C T D) (\<lambda>_. confined h0 P G C T D)"
  unfolding handleJoinGroup_def
proof (intro holds_lift_then confined_check_group holds_return holds_bind [OF readClock_holds])
  fix req :: JoinGroupRequest and now
  assume "authorizeGroup h0 s (jreq_GroupId req) ''Read''"
  then show "holds (confined h0 P G C T D) (act_run (\<lambda>h.
      case AddMember now (groupCoordinator h) (jreq_GroupId req) (jreq_MemberId req) ''127.0.0.1''
        (jreq_SessionTimeoutMs req) (jreq_RebalanceTimeoutMs req) (jreq_ProtocolType req) (protocolMap (jreq_Protocols req)) of
      (gc, Inl err) \<Rightarrow> (h\<lparr>groupCoordinator := gc\<rparr>, EncodeJoinGroupResponse (joinFailed 1))
    | (gc, Inr (grp, member)) \<Rightarrow> (h\<lparr>groupCoordinator := gc\<rparr>, EncodeJoinGroupResponse (joined e req grp member))))
    (\<lambda>_. confined h0 P G C T D) (\<lambda>_. confined h0 P G C T D)"
    by (intro confined_group_step [where gid = "jreq_GroupId req" and step = "\<lambda>h. fst (AddMember now (groupCoordinator h) (jreq_GroupId req) (jreq_MemberId req) ''127.0.0.1''
        (jreq_SessionTimeoutMs req) (jreq_RebalanceTimeoutMs req) (jreq_ProtocolType req) (protocolMap (jreq_Protocols req)))"]
        AddMember_only)
      (auto simp: assms split: prod.splits sum.splits)
qed simp_all

lemma handleHeartbeat_confined:
  assumes "\<And>g. authorizeGroup h0 s g ''Read'' \<Longrightarrow> G g"
  shows "holds (confined h0 P G C T D) (handleHeartbeat e msg s) (\<lambda>_. confined h0 P G C T D) (\<lambda>_. confined h0 P G C T D)"
  unfolding handleHeartbeat_def
proof (intro holds_lift_then confined_check_group holds_return holds_bind [OF readClock_holds])
  fix req :: HeartbeatRequest and now
  assume "authorizeGroup h0 s (hreq_GroupId req) ''Read''"
  then show "holds (confined h0 P G C T D) (act_run (\<lambda>h.
      case Heartbeat (int now) (groupCoordinator h) (hreq_GroupId req) (hreq_MemberId req) of
      (gc, err) \<Rightarrow> (h\<lparr>groupCoordinator := gc\<rparr>, EncodeHeartbeatResponse \<lparr>hres_ErrorCode = (if err = None then 0 else 25)\<rparr>)))
    (\<lambda>_. confined h0 P G C T D) (\<lambda>_. confined h0 P G C T D)"
    by (intro confined_group_step [where gid = "hreq_GroupId req" and
          step = "\<lambda>h. fst (Heartbeat (int now) (groupCoordinator h) (hreq_GroupId req) (hreq_MemberId req))"] Heartbeat_only)
      (auto simp: assms split: prod.splits)
qed simp_all

lemma handleLeaveGroup_confined:
  assumes "\<And>g. authorizeGroup h0 s g ''Read'' \<Longrightarrow> G g"
  shows "holds (confined h0 P G C T D) (handleLeaveGroup e msg s) (\<lambda>_. confined h0 P G C T D) (\<lambda>_. confined h0 P G C T D)"
  unfolding handleLeaveGroup_def
proof (intro holds_lift_then confined_check_group holds_return)
  fix req :: LeaveGroupRequest
  assume "authorizeGroup h0 s (lreq_GroupId req) ''Read''"
  then show "holds (confined h0 P G C T D) (act_run (\<lambda>h.
      case RemoveMember (e_pick e) (groupCoordinator h) (lreq_GroupId req) (lreq_MemberId req) of
      (gc, err) \<Rightarrow> (h\<lparr>groupCoordinator := gc\<rparr>, EncodeLeaveGroupResponse \<lparr>lres_ErrorCode = (if err = None then 0 else 25)\<rparr>)))
    (\<lambda>_. confined h0 P G C T D) (\<lambda>_. confined h0 P G C T D)"
    by (intro confined_group_step [where gid = "lreq_GroupId req" and
          step = "\<lambda>h. fst (RemoveMember (e_pick e) (groupCoordinator h) (lreq_GroupId req) (lreq_MemberId req))"] RemoveMember_only)
      (auto simp: assms split: prod.splits)
qed simp_all


section \<open>Transactions\<close>

lemma handleInitProducerId_confined:
  assumes "\<And>req x. fst (DecodeInitProducerIdRequest msg) = Inr req \<Longrightarrow> ireq_TransactionalId req = Some x \<Longrightarrow> D x"
  shows "holds (confined h0 P G C T D) (handleInitProducerId msg) (\<lambda>_. confined h0 P G C T D) (\<lambda>_. confined h0 P G C T D)"
  unfolding handleInitProducerId_def
proof (intro holds_lift_then holds_run)
  fix req h h' x
  assume req: "fst (DecodeInitProducerIdRequest msg) = Inr req"
  assume inv: "confined h0 P G C T D h" and run: "(case InitProducerId (txnCoordinator h) (ireq_TransactionalId req)
       (ireq_TransactionTimeoutMs req) of (tc, pid, epoch) \<Rightarrow> (h\<lparr>txnCoordinator := tc\<rparr>,
       EncodeInitProducerIdResponse \<lparr>ires_ErrorCode = 0, ires_ProducerId = pid, ires_ProducerEpoch = epoch\<rparr>)) = (h', x)"
  let ?tc = "fst (InitProducerId (txnCoordinator h) (ireq_TransactionalId req) (ireq_TransactionTimeoutMs req))"
  have "registered h x t i" if "registered (h\<lparr>txnCoordinator := ?tc\<rparr>) x t i" for x t i
    using that by (auto simp: registered_def InitProducerId_def Let_def split: option.splits if_splits)
  moreover have "D x" if "registered h x t i" "\<not> registered (h\<lparr>txnCoordinator := ?tc\<rparr>) x t i" for x t i
  proof -
    have "ireq_TransactionalId req = Some x"
      using that by (auto simp: registered_def InitProducerId_def Let_def split: option.splits if_splits)
    with assms [OF req] show ?thesis by simp
  qed
  ultimately have "confined h0 P G C T D (h\<lparr>txnCoordinator := ?tc\<rparr>)" by (intro confined_txns [OF inv]) blast+
  moreover have "h' = h\<lparr>txnCoordinator := ?tc\<rparr>" using run by (auto split: prod.splits)
  ultimately show "confined h0 P G C T D h'" by simp
qed

lemma addTxnPartition_confined:
  assumes "T t"
  shows "holds (confined h0 P G C T D) (addTxnPartition req t p) (\<lambda>_. confined h0 P G C T D) R"
  unfolding addTxnPartition_def
proof (rule holds_run)
  fix h h' :: Handler and x
  let ?tc = "fst (AddPartitionsToTxn (txnCoordinator h) (apreq_TransactionalId req) (apreq_ProducerId req) (apreq_ProducerEpoch req) t [p])"
  assume inv: "confined h0 P G C T D h" and run: "(case AddPartitionsToTxn (txnCoordinator h) (apreq_TransactionalId req)
      (apreq_ProducerId req) (apreq_ProducerEpoch req) t [p] of (tc, err) \<Rightarrow> (h\<lparr>txnCoordinator := tc\<rparr>,
      \<lparr>apr_PartitionId = p, apr_ErrorCode = (if err = None then 0 else 1)\<rparr>)) = (h', x)"
  have "t' = t" if "registered (h\<lparr>txnCoordinator := ?tc\<rparr>) y t' i" "\<not> registered h y t' i" for y t' i
    using that by (auto simp: registered_def AddPartitionsToTxn_def liveTxn_def Let_def split: option.splits if_splits)
  moreover have "registered (h\<lparr>txnCoordinator := ?tc\<rparr>) y t' i" if "registered h y t' i" for y t' i
    using that by (cases "t' = t") (fastforce simp: registered_def AddPartitionsToTxn_def liveTxn_def Let_def split: option.splits if_splits)+
  ultimately have "confined h0 P G C T D (h\<lparr>txnCoordinator := ?tc\<rparr>)"
    by (intro confined_txns [OF inv]) (use assms in blast)+
  moreover have "h' = h\<lparr>txnCoordinator := ?tc\<rparr>" using run by (auto split: prod.splits)
  ultimately show "confined h0 P G C T D h'" by simp
qed

lemma handleAddPartitionsToTxn_confined:
  assumes "\<And>t. authorizeTopic h0 s t ''Write'' \<Longrightarrow> T t"
  shows "holds (confined h0 P G C T D) (handleAddPartitionsToTxn msg s) (\<lambda>_. confined h0 P G C T D) (\<lambda>_. confined h0 P G C T D)"
  unfolding handleAddPartitionsToTxn_def addTxnTopic_def
  by (intro holds_lift_then holds_bind [OF holds_for] confined_check_topic holds_return
      holds_bind [OF holds_for [OF addTxnPartition_confined [of T]]] assms)

lemma EndTxn_targets_registered:
  assumes "EndTxn order tc txId pid ep c = (tc', Inr targets)" and "tgt \<in> set targets"
  shows "\<exists>txn ps. liveTxn tc txId pid ep = Some txn \<and> mget (txns tc) txId = Some txn \<and>
    mget (Partitions txn) (tt_Topic tgt) = Some ps \<and> tt_Partition tgt \<in> set ps"
proof -
  from assms(1) obtain txn where txn: "liveTxn tc txId pid ep = Some txn" "mget (txns tc) txId = Some txn"
    and tg: "targets = concat (map (topicTargets (Partitions txn)) (order (mkeys (Partitions txn))))"
    by (auto simp: EndTxn_def liveTxn_def Let_def split: option.splits if_splits)
  from assms(2) tg obtain t where "tgt \<in> set (topicTargets (Partitions txn) t)" by auto
  then obtain ps i where "mget (Partitions txn) t = Some ps" "i \<in> set ps" "tgt = \<lparr>tt_Topic = t, tt_Partition = i\<rparr>"
    by (cases "mget (Partitions txn) t") (auto simp: topicTargets_def)
  with txn show ?thesis by auto
qed

text \<open>
  The transaction an EndTxn request may end: the one it names, if the producer id and the
  epoch of the request are the current ones. No access rule is asked.
\<close>

definition ends_txn :: "bytes \<Rightarrow> Handler \<Rightarrow> string \<Rightarrow> bool" where
  "ends_txn msg h x \<longleftrightarrow>
     (\<exists>req. fst (DecodeEndTxnRequest msg) = Inr req \<and> x = ereq_TransactionalId req \<and>
        liveTxn (txnCoordinator h) x (ereq_ProducerId req) (ereq_ProducerEpoch req) \<noteq> None)"

lemma handleEndTxn_confined:
  assumes "\<And>x t i. ends_txn msg h0 x \<Longrightarrow> registered h0 x t i \<Longrightarrow> P (partitionKey t i)"
    and "\<And>x. ends_txn msg h0 x \<Longrightarrow> D x"
  shows "holds (\<lambda>h. h = h0) (handleEndTxn e msg) (\<lambda>_. confined h0 P G C T D) (\<lambda>_. confined h0 P G C T D)"
  unfolding handleEndTxn_def
proof (rule holds_lift_then)
  fix req
  assume req: "fst (DecodeEndTxnRequest msg) = Inr req"
  let ?run = "EndTxn (e_topics e) (txnCoordinator h0) (ereq_TransactionalId req) (ereq_ProducerId req)
         (ereq_ProducerEpoch req) (ereq_Committed req)"
  let ?rec = "\<lambda>now. NewControlRecord (of_nat now) (if ereq_Committed req then ControlMarkerCommit else ControlMarkerAbort)"
  let ?I = "confined h0 P G C T D"
  have marker: "holds ?I (writeMarker e rec tgt) (\<lambda>_. ?I) (\<lambda>_. ?I)" if "P (partitionKey (tt_Topic tgt) (tt_Partition tgt))" for rec tgt
    unfolding writeMarker_def
  proof (rule getOrCreate_confined_then [of P, OF that], unfold sum.case)
    fix key
    assume key: "P key"
    have app: "holds ?I (act_try (appendTo key rec)) (\<lambda>r. case r of Inl e \<Rightarrow> ?I | Inr x \<Rightarrow> ?I) (\<lambda>_. ?I)"
      by (rule holds_try_any) (rule appendTo_confined [of P key, OF key])
    show "holds ?I (act_bind (act_try (appendTo key rec)) (\<lambda>_. act_return ())) (\<lambda>_. ?I) (\<lambda>_. ?I)"
      by (rule holds_bind [OF app]) (auto intro!: holds_return split: sum.splits)
  qed (rule holds_return)
  have tc: "?I (h0\<lparr>txnCoordinator := fst ?run\<rparr>)"
  proof (rule confined_txns [OF confined_refl])
    fix x t i
    assume "registered (h0\<lparr>txnCoordinator := fst ?run\<rparr>) x t i" "\<not> registered h0 x t i"
    then show "T t"
      by (auto simp: registered_def EndTxn_def liveTxn_def Let_def split: option.splits if_splits)
  next
    fix x t i
    assume gone: "registered h0 x t i" "\<not> registered (h0\<lparr>txnCoordinator := fst ?run\<rparr>) x t i"
    then have "x = ereq_TransactionalId req"
      by (auto simp: registered_def EndTxn_def Let_def split: option.splits if_splits)
    moreover have "liveTxn (txnCoordinator h0) (ereq_TransactionalId req) (ereq_ProducerId req) (ereq_ProducerEpoch req) \<noteq> None"
      using gone by (cases "liveTxn (txnCoordinator h0) (ereq_TransactionalId req) (ereq_ProducerId req) (ereq_ProducerEpoch req)")
        (auto simp: registered_def EndTxn_def)
    ultimately show "D x" using req by (intro assms(2)) (simp add: ends_txn_def)
  qed
  have tgt: "P (partitionKey (tt_Topic t) (tt_Partition t))" if "snd ?run = Inr targets" "t \<in> set targets" for targets t
  proof -
    have "?run = (fst ?run, Inr targets)" using that(1) by (metis prod.collapse)
    from EndTxn_targets_registered [OF this that(2)] obtain txn ps where
      "liveTxn (txnCoordinator h0) (ereq_TransactionalId req) (ereq_ProducerId req) (ereq_ProducerEpoch req) = Some txn"
      "mget (txns (txnCoordinator h0)) (ereq_TransactionalId req) = Some txn"
      "mget (Partitions txn) (tt_Topic t) = Some ps" "tt_Partition t \<in> set ps"
      by blast
    then show ?thesis using req
      by (intro assms(1) [of "ereq_TransactionalId req"]) (auto simp: ends_txn_def registered_def)
  qed
  let ?Q = "\<lambda>r h. ?I h \<and> r = snd ?run"
  show "holds (\<lambda>h. h = h0)
     (act_bind (act_run (\<lambda>h. case EndTxn (e_topics e) (txnCoordinator h) (ereq_TransactionalId req) (ereq_ProducerId req)
         (ereq_ProducerEpoch req) (ereq_Committed req) of (tc, r) \<Rightarrow> (h\<lparr>txnCoordinator := tc\<rparr>, r))) (\<lambda>r.
     case r of
       Inl err \<Rightarrow> act_return (EncodeEndTxnResponse \<lparr>eres_ErrorCode = 1\<rparr>)
     | Inr targets \<Rightarrow>
         act_bind (readClock e) (\<lambda>now. act_bind (act_for (writeMarker e (?rec now)) targets) (\<lambda>_.
         act_return (EncodeEndTxnResponse \<lparr>eres_ErrorCode = 0\<rparr>)))))
     (\<lambda>_. ?I) (\<lambda>_. ?I)"
  proof (rule holds_bind [where Q = ?Q, OF holds_run])
    fix h h' r
    assume "h = h0" and "(case EndTxn (e_topics e) (txnCoordinator h) (ereq_TransactionalId req) (ereq_ProducerId req)
         (ereq_ProducerEpoch req) (ereq_Committed req) of (tc, r) \<Rightarrow> (h\<lparr>txnCoordinator := tc\<rparr>, r)) = (h', r)"
    with tc show "?Q r h'" by (auto split: prod.splits)
  next
    fix r
    show "holds (?Q r) (case r of
         Inl err \<Rightarrow> act_return (EncodeEndTxnResponse \<lparr>eres_ErrorCode = 1\<rparr>)
       | Inr targets \<Rightarrow>
           act_bind (readClock e) (\<lambda>now. act_bind (act_for (writeMarker e (?rec now)) targets) (\<lambda>_.
           act_return (EncodeEndTxnResponse \<lparr>eres_ErrorCode = 0\<rparr>)))) (\<lambda>_. ?I) (\<lambda>_. ?I)"
    proof (cases r)
      case (Inl err)
      then show ?thesis by (auto intro: holds_return)
    next
      case (Inr targets)
      have "holds (?Q r) (act_bind (readClock e) (\<lambda>now. act_bind (act_for (writeMarker e (?rec now)) targets) (\<lambda>_.
           act_return (EncodeEndTxnResponse \<lparr>eres_ErrorCode = 0\<rparr>)))) (\<lambda>_. ?I) (\<lambda>_. ?I)"
      proof (cases "r = snd ?run")
        case True
        with Inr tgt have "holds ?I (writeMarker e (?rec now) t) (\<lambda>_. ?I) (\<lambda>_. ?I)" if "t \<in> set targets" for now t
          using that marker by metis
        then show ?thesis
          by (intro holds_weaken [OF holds_bind [OF readClock_holds [of ?I] holds_bind [OF holds_for holds_return]]]) auto
      next
        case False
        then show ?thesis by (simp add: holds_def)
      qed
      then show ?thesis by (simp add: Inr)
    qed
  qed
qed (simp add: confined_refl)


section \<open>Every request\<close>

text \<open>What a request may change, by its key and the principal of its session.\<close>

definition may_store :: "i16 \<Rightarrow> SASLSession option \<Rightarrow> Handler \<Rightarrow> string \<Rightarrow> bool" where
  "may_store key s h k \<longleftrightarrow>
     (\<exists>t i. k = partitionKey t i \<and>
        (key = ApiKeyProduce \<and> authorizeTopic h s t ''Write'' \<or>
         key = ApiKeyFetch \<and> authorizeTopic h s t ''Read''))"

text \<open>What a request may change without being authorized for it.\<close>

definition ends_registered :: "i16 \<Rightarrow> bytes \<Rightarrow> Handler \<Rightarrow> string \<Rightarrow> bool" where
  "ends_registered key msg h k \<longleftrightarrow>
     key = ApiKeyEndTxn \<and> (\<exists>x t i. ends_txn msg h x \<and> registered h x t i \<and> k = partitionKey t i)"

definition may_release :: "i16 \<Rightarrow> bytes \<Rightarrow> Handler \<Rightarrow> string \<Rightarrow> bool" where
  "may_release key msg h x \<longleftrightarrow>
     key = ApiKeyEndTxn \<and> ends_txn msg h x \<or>
     key = ApiKeyInitProducerId \<and>
       (\<exists>req. fst (DecodeInitProducerIdRequest msg) = Inr req \<and> ireq_TransactionalId req = Some x)"

definition may_group :: "i16 \<Rightarrow> SASLSession option \<Rightarrow> Handler \<Rightarrow> string \<Rightarrow> bool" where
  "may_group key s h g \<longleftrightarrow>
     key \<in> {ApiKeyJoinGroup, ApiKeyHeartbeat, ApiKeyLeaveGroup} \<and> authorizeGroup h s g ''Read''"

definition may_commit :: "i16 \<Rightarrow> SASLSession option \<Rightarrow> Handler \<Rightarrow> GroupTopicPartition \<Rightarrow> bool" where
  "may_commit key s h k \<longleftrightarrow>
     key = ApiKeyOffsetCommit \<and> authorizeGroup h s (gtp_GroupID k) ''Read'' \<and>
     authorizeTopic h s (gtp_Topic k) ''Read''"

definition may_register :: "i16 \<Rightarrow> SASLSession option \<Rightarrow> Handler \<Rightarrow> string \<Rightarrow> bool" where
  "may_register key s h t \<longleftrightarrow> key = ApiKeyAddPartitionsToTxn \<and> authorizeTopic h s t ''Write''"

abbreviation permitted :: "i16 \<Rightarrow> bytes \<Rightarrow> SASLSession option \<Rightarrow> Handler \<Rightarrow> Handler \<Rightarrow> bool" where
  "permitted key msg s h \<equiv> confined h (\<lambda>k. may_store key s h k \<or> ends_registered key msg h k) (may_group key s h)
     (may_commit key s h) (may_register key s h) (may_release key msg h)"

lemma handlers_pure_confined:
  "holds (confined h0 P G C T D) (handleMetadata msg) (\<lambda>_. confined h0 P G C T D) (\<lambda>_. confined h0 P G C T D)"
  "holds (confined h0 P G C T D) (handleFindCoordinator msg) (\<lambda>_. confined h0 P G C T D) (\<lambda>_. confined h0 P G C T D)"
  "holds (confined h0 P G C T D) (handleOffsetFetch msg s) (\<lambda>_. confined h0 P G C T D) (\<lambda>_. confined h0 P G C T D)"
  "holds (confined h0 P G C T D) (handleSyncGroup msg s) (\<lambda>_. confined h0 P G C T D) (\<lambda>_. confined h0 P G C T D)"
  unfolding handleMetadata_def handleFindCoordinator_def handleOffsetFetch_def handleSyncGroup_def
  by (intro holds_lift_then holds_get; simp)+

lemma dispatch_permitted: "holds (\<lambda>h. h = h0) (dispatch e key msg s) (\<lambda>_. permitted key msg s h0) (\<lambda>_. permitted key msg s h0)"
proof -
  have start: "holds (\<lambda>h. h = h0) m (\<lambda>_. permitted key msg s h0) (\<lambda>_. permitted key msg s h0)"
    if "holds (permitted key msg s h0) m (\<lambda>_. permitted key msg s h0) (\<lambda>_. permitted key msg s h0)" for m :: "(Handler, bytes) act"
    by (rule holds_weaken [OF that]) (simp_all add: confined_refl)
  have gtp: "gtp_GroupID (gtpKey g t i) = g" "gtp_Topic (gtpKey g t i) = t" for g t i
    by (simp_all add: gtpKey_def)
  show ?thesis
    unfolding dispatch_def handleApiVersions_def
    by (intro holds_if handleEndTxn_confined;
        (intro start handlers_pure_confined handleInitProducerId_confined holds_return holds_fail
          handleProduce_confined handleFetch_confined handleOffsetCommit_confined handleJoinGroup_confined
          handleHeartbeat_confined handleLeaveGroup_confined handleAddPartitionsToTxn_confined)?)
      (auto simp: may_store_def ends_registered_def may_group_def may_commit_def may_register_def may_release_def gtp)
qed

lemma HandleRequest_permitted:
  assumes "HandleRequest e hdr msg s h = (r, s', h')"
  shows "permitted (ApiKey hdr) msg s h h'"
proof (cases "h' = h")
  case True
  then show ?thesis by (simp add: confined_refl)
next
  case False
  then have "dispatch e (ApiKey hdr) msg s h = (r, h')"
    using assms by (auto simp: HandleRequest_def Let_def split: if_splits prod.splits)
  with holdsD [OF dispatch_permitted [of h e "ApiKey hdr" msg s] refl] show ?thesis by (cases r) auto
qed

text \<open>Before authentication nothing of the broker's state changes.\<close>

lemma blocked_unchanged:
  assumes "saslBlocked h s" and "HandleRequest e hdr msg s h = (r, s', h')"
  shows "h' = h"
  using assms
  by (auto simp: HandleRequest_def Let_def dispatch_def handleApiVersions_def act_return_def ApiKey_defs
      split: if_splits prod.splits)

end
