(* ===== verification/Connection.thy ===== *)
theory Connection
  imports Broker_Access
begin

text \<open>
  \<open>src/internal/server/connection.go\<close>: the loop that serves one client connection. A
  connection reads a stream of frames, passes each request to the handler and writes one
  response frame per request. The loop is proved to implement a specification in two steps:
  cut the stream into requests (\<open>requestsOf\<close>), then serve them in order (\<open>serveAll\<close>).
\<close>

section \<open>The loop\<close>

definition maxRequestFrameBytes :: nat where
  "maxRequestFrameBytes = 100 * 1024 * 1024"

text \<open>
  \<open>conn_in\<close> is what the client sends until it closes its side, \<open>conn_out\<close> what was written to
  it, \<open>conn_count\<close> counts the requests, so that each request reads its own environment.
\<close>

record ConnectionHandler =
  conn_in :: bytes
  conn_out :: bytes
  conn_count :: nat
  handler :: Handler
  saslSession :: SASLSession

definition NewConnectionHandler :: "bytes \<Rightarrow> Handler \<Rightarrow> ConnectionHandler" where
  "NewConnectionHandler input h =
     \<lparr>conn_in = input, conn_out = [], conn_count = 0, handler = h, saslSession = NewSASLSession\<rparr>"

text \<open>How the loop ends: it closes the socket, or a panic ends the process.\<close>

datatype fate = Closed | Crashed

definition fateOf :: "go_error \<Rightarrow> fate" where
  "fateOf err = (if err = Panic then Crashed else Closed)"

text \<open>
  The part of an iteration after the payload is read. The response goes out in three calls
  of \<open>Write\<close>, of which the first \<open>w\<close> succeed.
\<close>

definition serveRequest :: "env \<Rightarrow> nat \<Rightarrow> bytes \<Rightarrow> ConnectionHandler \<Rightarrow> fate option \<times> ConnectionHandler" where
  "serveRequest e w requestPayload c =
     (case DecodeRequestHeader requestPayload of
        (Inl err, reqReader) \<Rightarrow> (Some Closed, c)
      | (Inr header, reqReader) \<Rightarrow>
          (case HandleRequest e header reqReader (Some (saslSession c)) (handler c) of
             (r, ses, h') \<Rightarrow>
               let c' = c\<lparr>handler := h', conn_count := conn_count c + 1,
                          saslSession := (case ses of None \<Rightarrow> saslSession c | Some s \<Rightarrow> s)\<rparr>
               in case r of
                    Inl err \<Rightarrow> (Some (fateOf err), c')
                  | Inr respBody \<Rightarrow>
                      let respHeader = EncodeResponseHeader \<lparr>rh_CorrelationId = CorrelationId header\<rparr>;
                          totalRespSize = length respHeader + length respBody;
                          writes = [PutUint32 (of_nat totalRespSize), respHeader, respBody]
                      in (if w < 3 then Some Closed else None,
                          c'\<lparr>conn_out := conn_out c @ concat (take w writes)\<rparr>)))"

definition serveOne :: "env \<Rightarrow> nat \<Rightarrow> ConnectionHandler \<Rightarrow> fate option \<times> ConnectionHandler" where
  "serveOne e w c =
     (case ReadFull 4 (conn_in c) of
        (Inl err, rest) \<Rightarrow> (Some Closed, c\<lparr>conn_in := rest\<rparr>)
      | (Inr sizeBuf, rest) \<Rightarrow>
          let requestSize = Uint32 sizeBuf
          in if requestSize = 0 then (None, c\<lparr>conn_in := rest\<rparr>)
             else if maxRequestFrameBytes < unat requestSize then (Some Closed, c\<lparr>conn_in := rest\<rparr>)
             else case ReadFull (unat requestSize) rest of
                    (Inl err, rest') \<Rightarrow> (Some Closed, c\<lparr>conn_in := rest'\<rparr>)
                  | (Inr requestPayload, rest') \<Rightarrow> serveRequest e w requestPayload (c\<lparr>conn_in := rest'\<rparr>))"

lemma serveRequest_input: "serveRequest e w p c = (f, c') \<Longrightarrow> conn_in c' = conn_in c"
  by (auto simp: serveRequest_def Let_def split: prod.splits sum.splits if_splits)

lemma serveOne_consumes:
  assumes "serveOne e w c = (None, c')"
  shows "length (conn_in c') < length (conn_in c)"
  using assms
  by (auto simp: serveOne_def Let_def ReadFull_def dest!: serveRequest_input split: prod.splits sum.splits if_splits)

function Handle :: "(nat \<Rightarrow> env) \<Rightarrow> (nat \<Rightarrow> nat) \<Rightarrow> ConnectionHandler \<Rightarrow> fate \<times> ConnectionHandler" where
  "Handle es ws c =
     (case serveOne (es (conn_count c)) (ws (conn_count c)) c of
        (Some f, c') \<Rightarrow> (f, c')
      | (None, c') \<Rightarrow> Handle es ws c')"
  by pat_completeness auto
termination
  by (relation "measure (\<lambda>(es, ws, c). length (conn_in c))") (auto dest: serveOne_consumes [OF sym])

declare Handle.simps [simp del]


section \<open>The specification\<close>

text \<open>The requests in a stream, up to the first frame that is cut off, too large or has no header.\<close>

function requestsOf :: "bytes \<Rightarrow> (RequestHeader \<times> bytes) list" where
  "requestsOf bs =
     (if length bs < 4 then []
      else let n = unat (Uint32 (take 4 bs)); rest = drop 4 bs
           in if n = 0 then requestsOf rest
              else if maxRequestFrameBytes < n \<or> length rest < n then []
              else case DecodeRequestHeader (take n rest) of
                     (Inl err, _) \<Rightarrow> []
                   | (Inr header, msg) \<Rightarrow> (header, msg) # requestsOf (drop n rest))"
  by pat_completeness auto
termination by (relation "measure length") auto

declare requestsOf.simps [simp del]

text \<open>
  Requests served one after the other until one fails: the answers with their correlation
  ids, how serving ended (\<open>None\<close>: all were served), and the state left behind.
\<close>

primrec serveAll :: "(nat \<Rightarrow> env) \<Rightarrow> nat \<Rightarrow> (RequestHeader \<times> bytes) list \<Rightarrow> SASLSession \<Rightarrow> Handler \<Rightarrow>
    (i32 \<times> bytes) list \<times> go_error option \<times> SASLSession \<times> Handler" where
  "serveAll es k [] s h = ([], None, s, h)"
| "serveAll es k (r # rs) s h =
     (case HandleRequest (es k) (fst r) (snd r) (Some s) h of
        (res, ses, h') \<Rightarrow>
          let s' = (case ses of None \<Rightarrow> s | Some s1 \<Rightarrow> s1)
          in case res of
               Inl err \<Rightarrow> ([], Some err, s', h')
             | Inr answer \<Rightarrow>
                 (case serveAll es (Suc k) rs s' h' of
                    (as, end_state) \<Rightarrow> ((CorrelationId (fst r), answer) # as, end_state)))"

definition responseFrame :: "i32 \<times> bytes \<Rightarrow> bytes" where
  "responseFrame a = PutUint32 (of_nat (4 + length (snd a))) @ WriteInt32 (fst a) @ snd a"



section \<open>The loop implements the specification\<close>

text \<open>What one iteration does, by the first frame of the input.\<close>

lemma serveOne_cases:
  obtains (stop) c' where "serveOne e w c = (Some Closed, c')" "requestsOf (conn_in c) = []"
      "handler c' = handler c" "saslSession c' = saslSession c" "conn_out c' = conn_out c"
  | (skip) rest where "serveOne e w c = (None, c\<lparr>conn_in := rest\<rparr>)" "requestsOf (conn_in c) = requestsOf rest"
  | (request) frame header msg rest where
      "serveOne e w c = serveRequest e w frame (c\<lparr>conn_in := rest\<rparr>)"
      "DecodeRequestHeader frame = (Inr header, msg)"
      "requestsOf (conn_in c) = (header, msg) # requestsOf rest"
proof -
  let ?n = "Uint32 (take 4 (conn_in c))"
  let ?rest = "drop 4 (conn_in c)"
  note unf = requestsOf.simps [of "conn_in c"] serveOne_def Let_def
  show ?thesis
  proof (cases "length (conn_in c) < 4")
    case True
    then show ?thesis by (intro stop [of "c\<lparr>conn_in := []\<rparr>"]) (simp_all add: unf ReadFull_short)
  next
    case len: False
    then have rd: "ReadFull 4 (conn_in c) = (Inr (take 4 (conn_in c)), ?rest)" by (auto simp: ReadFull_def)
    consider (zero) "?n = 0" | (large) "?n \<noteq> 0" "maxRequestFrameBytes < unat ?n"
      | (short) "?n \<noteq> 0" "\<not> maxRequestFrameBytes < unat ?n" "length ?rest < unat ?n"
      | (full) "?n \<noteq> 0" "\<not> maxRequestFrameBytes < unat ?n" "unat ?n \<le> length ?rest"
      by linarith
    then show ?thesis
    proof cases
      case zero
      with len rd show ?thesis by (intro skip [of ?rest]) (simp_all add: unf)
    next
      case large
      with len rd show ?thesis by (intro stop [of "c\<lparr>conn_in := ?rest\<rparr>"]) (simp_all add: unf unat_eq_zero)
    next
      case short
      with len rd show ?thesis
        by (intro stop [of "c\<lparr>conn_in := []\<rparr>"]) (simp_all add: unf unat_eq_zero ReadFull_short)
    next
      case full
      let ?frame = "take (unat ?n) ?rest"
      let ?tail = "drop (unat ?n) ?rest"
      have rd2: "ReadFull (unat ?n) ?rest = (Inr ?frame, ?tail)" using full(3) unfolding ReadFull_ok by simp
      obtain res msg where dec: "DecodeRequestHeader ?frame = (res, msg)" by (metis prod.exhaust)
      show ?thesis
      proof (cases res)
        case (Inl err)
        with len rd rd2 full dec show ?thesis
          by (intro stop [of "c\<lparr>conn_in := ?tail\<rparr>"])
            (simp_all add: unf unat_eq_zero serveRequest_def not_less)
      next
        case (Inr header)
        with len rd rd2 full dec show ?thesis
          by (intro request [of ?frame ?tail header msg]) (simp_all add: unf unat_eq_zero not_less)
      qed
    qed
  qed
qed

lemma serveRequest_run:
  assumes "DecodeRequestHeader frame = (Inr header, msg)"
    and "saslSession c = s" "handler c = h" "HandleRequest e header msg (Some s) h = (res, ses, h')"
  defines "s' \<equiv> (case ses of None \<Rightarrow> s | Some s1 \<Rightarrow> s1)"
  defines "c' \<equiv> c\<lparr>handler := h', conn_count := conn_count c + 1, saslSession := s'\<rparr>"
  shows "res = Inl err \<Longrightarrow> serveRequest e w frame c = (Some (fateOf err), c')"
    and "res = Inr answer \<Longrightarrow> serveRequest e w frame c =
      (if w < 3 then Some Closed else None,
       c'\<lparr>conn_out := conn_out c @ concat (take w
         [PutUint32 (of_nat (4 + length answer)), WriteInt32 (CorrelationId header), answer])\<rparr>)"
  using assms(1-4)
  by (simp_all add: serveRequest_def s'_def c'_def EncodeResponseHeader_def WriteInt32_def split: option.split)

text \<open>What the client received is the answers, cut short where a write failed.\<close>

lemma answers_prefix:
  "prefix (concat (take w [a, b, x])) ((a @ b @ x) @ rest)"
proof -
  have "prefix (concat (take w [a, b, x])) (concat (take w [a, b, x]) @ concat (drop w [a, b, x]) @ rest)"
    by (rule prefixI) (rule refl)
  also have "concat (take w [a, b, x]) @ concat (drop w [a, b, x]) @ rest = (a @ b @ x) @ rest"
    by (metis append.assoc append_take_drop_id concat.simps concat_append append_Nil2)
  finally show ?thesis .
qed

definition refines_run ::
  "(nat \<Rightarrow> env) \<Rightarrow> (nat \<Rightarrow> nat) \<Rightarrow> ConnectionHandler \<Rightarrow> (RequestHeader \<times> bytes) list \<Rightarrow> fate \<Rightarrow> ConnectionHandler \<Rightarrow> bool" where
  "refines_run es ws c rs f c' \<longleftrightarrow>
     (\<exists>n as err. serveAll es (conn_count c) (take n rs) (saslSession c) (handler c) = (as, err, saslSession c', handler c') \<and>
        prefix (conn_out c') (conn_out c @ concat (map responseFrame as)) \<and>
        (f = Crashed \<longleftrightarrow> err = Some Panic) \<and>
        ((\<forall>k. 3 \<le> ws k) \<longrightarrow> length rs \<le> n \<and> conn_out c' = conn_out c @ concat (map responseFrame as)))"

lemma Handle_refines:
  assumes "Handle es ws c = (f, c')"
  shows "refines_run es ws c (requestsOf (conn_in c)) f c'"
  using assms
proof (induction es ws c rule: Handle.induct)
  case (1 es ws c)
  let ?e = "es (conn_count c)"
  let ?w = "ws (conn_count c)"
  show ?case
  proof (cases rule: serveOne_cases [of ?e ?w c])
    case (stop c1)
    with 1(2) have "f = Closed" "c' = c1" by (simp_all add: Handle.simps [of es ws c])
    with stop show ?thesis by (simp add: refines_run_def)
  next
    case (skip rest)
    with 1(2) have "Handle es ws (c\<lparr>conn_in := rest\<rparr>) = (f, c')" by (simp add: Handle.simps [of es ws c])
    from 1(1) [OF skip(1) [symmetric] refl this] skip(2) show ?thesis by (simp add: refines_run_def)
  next
    case (request frame header msg rest)
    obtain res ses h' where hr: "HandleRequest ?e header msg (Some (saslSession c)) (handler c) = (res, ses, h')"
      by (metis prod.exhaust)
    let ?s = "case ses of None \<Rightarrow> saslSession c | Some s \<Rightarrow> s"
    let ?c = "c\<lparr>conn_in := rest, handler := h', conn_count := conn_count c + 1, saslSession := ?s\<rparr>"
    note run = serveRequest_run [of frame header msg "c\<lparr>conn_in := rest\<rparr>", OF request(2) _ _ hr, simplified, of _ ?w]
    show ?thesis
    proof (cases res)
      case (Inl err)
      then have "f = fateOf err" "c' = ?c"
        using 1(2) request(1) run(1) [OF Inl] by (simp_all add: Handle.simps [of es ws c])
      with Inl hr request(3) show ?thesis
        by (auto simp: refines_run_def fateOf_def intro!: exI [of _ "Suc (length (requestsOf rest))"])
    next
      case (Inr answer)
      let ?ws = "[PutUint32 (of_nat (4 + length answer)), WriteInt32 (CorrelationId header), answer]"
      let ?c2 = "?c\<lparr>conn_out := conn_out c @ concat (take ?w ?ws)\<rparr>"
      have fr: "responseFrame (CorrelationId header, answer) = concat ?ws" by (simp add: responseFrame_def)
      have one: "serveOne ?e ?w c = (if ?w < 3 then Some Closed else None, ?c2)"
        using request(1) run(2) [OF Inr] by simp
      show ?thesis
      proof (cases "?w < 3")
        case True
        then have "f = Closed" "c' = ?c2" using 1(2) one by (simp_all add: Handle.simps [of es ws c])
        moreover have "\<not> (\<forall>k. 3 \<le> ws k)" using True by (auto simp: not_le)
        ultimately show ?thesis
          using hr Inr request(3) answers_prefix [of ?w "?ws ! 0" "?ws ! 1" "?ws ! 2" "[]"]
          unfolding refines_run_def by (intro exI [of _ 1]) (auto simp: fr)
      next
        case False
        then have nx: "serveOne ?e ?w c = (None, ?c2)" and all: "take ?w ?ws = ?ws" using one by simp_all
        with 1(2) have "Handle es ws ?c2 = (f, c')" by (simp add: Handle.simps [of es ws c])
        from 1(1) [OF nx [symmetric] refl this] obtain n as err where
          ih: "serveAll es (conn_count ?c2) (take n (requestsOf rest)) (saslSession ?c2) (handler ?c2) =
              (as, err, saslSession c', handler c')"
            "prefix (conn_out c') (conn_out ?c2 @ concat (map responseFrame as))"
            "f = Crashed \<longleftrightarrow> err = Some Panic"
            "(\<forall>k. 3 \<le> ws k) \<longrightarrow> length (requestsOf rest) \<le> n \<and> conn_out c' = conn_out ?c2 @ concat (map responseFrame as)"
          unfolding refines_run_def by auto
        have "serveAll es (conn_count c) (take (Suc n) (requestsOf (conn_in c))) (saslSession c) (handler c) =
            ((CorrelationId header, answer) # as, err, saslSession c', handler c')"
          using request(3) hr Inr ih(1) by simp
        moreover have "conn_out ?c2 = conn_out c @ responseFrame (CorrelationId header, answer)"
          using all fr by simp
        ultimately show ?thesis
          using ih(2-4) request(3) unfolding refines_run_def by (intro exI [of _ "Suc n"]) auto
      qed
    qed
  qed
qed



section \<open>Frames on the wire\<close>

definition requestFrame :: "RequestHeader \<times> bytes \<Rightarrow> bytes" where
  "requestFrame r =
     (let body_bytes = EncodeRequestHeader (fst r) @ snd r
      in PutUint32 (of_nat (length body_bytes)) @ body_bytes)"

definition request_ok :: "RequestHeader \<times> bytes \<Rightarrow> bool" where
  "request_ok r \<longleftrightarrow>
     header_ok (fst r) \<and> length (EncodeRequestHeader (fst r) @ snd r) \<le> maxRequestFrameBytes"

lemma requestsOf_step:
  assumes "b \<noteq> []" and "length b \<le> maxRequestFrameBytes" and "DecodeRequestHeader b = (Inr header, msg)"
  shows "requestsOf (PutUint32 (of_nat (length b)) @ b @ rest) = (header, msg) # requestsOf rest"
proof -
  have "unat (of_nat (length b) :: u32) = length b"
    using assms(2) by (intro unat_of_nat32) (simp add: maxRequestFrameBytes_def)
  with assms show ?thesis by (subst requestsOf.simps) (simp add: Let_def)
qed

lemma requestsOf_frame:
  assumes "request_ok r"
  shows "requestsOf (requestFrame r @ rest) = r # requestsOf rest"
proof -
  have "0 < length (EncodeRequestHeader (fst r))" by (simp add: EncodeRequestHeader_def WriteInt16_def)
  then have "EncodeRequestHeader (fst r) @ snd r \<noteq> []" by auto
  moreover have "DecodeRequestHeader (EncodeRequestHeader (fst r) @ snd r) = (Inr (fst r), snd r)"
    using assms by (intro hdr.dec_enc) (simp add: request_ok_def)
  ultimately show ?thesis
    using requestsOf_step [of "EncodeRequestHeader (fst r) @ snd r" "fst r" "snd r" rest] assms
    by (simp add: requestFrame_def request_ok_def Let_def)
qed

lemma requestsOf_frames:
  "list_all request_ok rs \<Longrightarrow> requestsOf (concat (map requestFrame rs) @ rest) = rs @ requestsOf rest"
  by (induction rs) (simp_all add: requestsOf_frame)

lemma requestsOf_Nil [simp]: "requestsOf [] = []"
  by (simp add: requestsOf.simps)

text \<open>No request exceeds the frame limit, whatever the client sends.\<close>

lemma requestsOf_bounded:
  "r \<in> set (requestsOf bs) \<Longrightarrow> length (snd r) \<le> maxRequestFrameBytes"
proof (induction bs rule: requestsOf.induct)
  case (1 bs)
  let ?n = "unat (Uint32 (take 4 bs))"
  let ?p = "take ?n (drop 4 bs)"
  have small: "length msg \<le> maxRequestFrameBytes"
    if dec: "DecodeRequestHeader ?p = (Inr header, msg)" and le: "\<not> maxRequestFrameBytes < ?n" for header msg
  proof -
    obtain c where "?p = c @ msg" using framedD [OF framed_DecodeRequestHeader dec] by metis
    then have "length msg \<le> length ?p" by simp
    with le show ?thesis by simp
  qed
  show ?case
    using 1 small requestsOf.simps [of bs] by (fastforce simp: Let_def split: if_splits sum.splits prod.splits)
qed

text \<open>The reader of a client: a size, then as many bytes, the first four the correlation id.\<close>

definition readResponse :: "(i32 \<times> bytes) reader" where
  "readResponse =
     rd_bind (ReadFull 4) (\<lambda>sizeBuf.
     rd_bind ReadInt32 (\<lambda>cid.
     rd_bind (ReadFull (unat (Uint32 sizeBuf) - 4)) (\<lambda>answer. rd_return (cid, answer))))"

definition response_ok :: "i32 \<times> bytes \<Rightarrow> bool" where
  "response_ok a \<longleftrightarrow> 4 + length (snd a) < 2 ^ 32"

interpretation response: wire_codec responseFrame readResponse response_ok
proof unfold_locales
  fix a :: "i32 \<times> bytes" and rest
  assume "response_ok a"
  then have "unat (of_nat (4 + length (snd a)) :: u32) = 4 + length (snd a)"
    by (intro unat_of_nat32) (simp add: response_ok_def)
  then show "readResponse (responseFrame a @ rest) = (Inr a, rest)"
    by (simp add: readResponse_def responseFrame_def rd_bind_def ReadFull_append int32.dec_enc rd_return_def)
qed



section \<open>Properties of served requests\<close>

lemma HandleRequest_session:
  obtains res s' h' where "HandleRequest e hdr msg (Some s) h = (res, Some s', h')"
proof -
  obtain res ses h' where run: "HandleRequest e hdr msg (Some s) h = (res, ses, h')" by (metis prod.exhaust)
  then have "ses \<noteq> None"
    by (auto simp: HandleRequest_def handleSaslHandshake_def handleSaslAuthenticate_def Let_def
        split: if_splits prod.splits sum.splits)
  with run that show ?thesis by auto
qed

lemma serveAll_Cons_cases:
  assumes "serveAll es k (r # rs) s h = (as, err, s', h')"
  obtains (fail) e where "HandleRequest (es k) (fst r) (snd r) (Some s) h = (Inl e, Some s', h')" "as = []" "err = Some e"
  | (answer) answer as1 s1 h1 where "HandleRequest (es k) (fst r) (snd r) (Some s) h = (Inr answer, Some s1, h1)"
      "serveAll es (Suc k) rs s1 h1 = (as1, err, s', h')" "as = (CorrelationId (fst r), answer) # as1"
proof -
  obtain res s1 h1 where run: "HandleRequest (es k) (fst r) (snd r) (Some s) h = (res, Some s1, h1)"
    by (rule HandleRequest_session)
  obtain as1 tail where rest: "serveAll es (Suc k) rs s1 h1 = (as1, tail)" by (metis prod.exhaust)
  show ?thesis
    using assms run rest fail answer by (cases res) auto
qed

text \<open>Answers come in the order of the requests and carry their correlation ids.\<close>

lemma serveAll_in_order:
  assumes "serveAll es k rs s h = (as, err, s', h')"
  shows "map fst as = map (\<lambda>r. CorrelationId (fst r)) (take (length as) rs) \<and> length as \<le> length rs \<and>
    (err = None \<longleftrightarrow> length as = length rs)"
  using assms
proof (induction rs arbitrary: k s h as)
  case Nil
  then show ?case by simp
next
  case (Cons r rs)
  from Cons.prems show ?case
  proof (cases rule: serveAll_Cons_cases)
    case (answer answer as1 s1 h1)
    with Cons.IH [of "Suc k" s1 h1 as1] show ?thesis by simp
  qed simp
qed

text \<open>How many records the requests of a connection may append.\<close>

primrec run_appends :: "(nat \<Rightarrow> env) \<Rightarrow> nat \<Rightarrow> (RequestHeader \<times> bytes) list \<Rightarrow> SASLSession \<Rightarrow> Handler \<Rightarrow> nat" where
  "run_appends es k [] s h = 0"
| "run_appends es k (r # rs) s h =
     request_appends (es k) (ApiKey (fst r)) (snd r) h +
     (case HandleRequest (es k) (fst r) (snd r) (Some s) h of
        (Inr answer, Some s', h') \<Rightarrow> run_appends es (Suc k) rs s' h'
      | _ \<Rightarrow> 0)"

lemma run_appends_take: "run_appends es k (take m rs) s h \<le> run_appends es k rs s h"
proof (induction rs arbitrary: k m s h)
  case Nil
  then show ?case by simp
next
  case (Cons r rs)
  then show ?case by (cases m) (simp_all split: prod.split sum.split option.split)
qed

lemma served_other_env:
  assumes "served e n h" and "served e m h'" and "served e' n' h"
  shows "served e' m h'"
proof -
  have "dom (h_disk h' path) = dom (h_disk h path)" for path
    using assms(1,2) by (simp add: served_def env_ok_def listing_ok_def)
  with assms(2,3) show ?thesis by (simp add: served_def env_ok_def listing_ok_def)
qed

lemma serveAll_served:
  assumes "\<And>j. served (es j) (run_appends es k rs s h + n) h" and "\<forall>r \<in> set rs. length (snd r) < 2 ^ 31"
    and "session_inv s" and "serveAll es k rs s h = (as, err, s', h')"
  shows "(\<forall>j. served (es j) (if err = Some Panic then 0 else n) h') \<and> session_inv s' \<and>
    (err = Some Panic \<longrightarrow> (\<exists>r \<in> set rs. ApiKey (fst r) = ApiKeyProduce))"
  using assms
proof (induction rs arbitrary: k s h as)
  case Nil
  then show ?case by simp
next
  case (Cons r rs)
  obtain res s1 h1 where run: "HandleRequest (es k) (fst r) (snd r) (Some s) h = (res, Some s1, h1)"
    by (rule HandleRequest_session)
  let ?a = "request_appends (es k) (ApiKey (fst r)) (snd r) h"
  let ?m = "case res of Inl e \<Rightarrow> 0 | Inr answer \<Rightarrow> run_appends es (Suc k) rs s1 h1"
  have split: "run_appends es k (r # rs) s h = ?a + ?m" using run by (simp split: sum.split)
  have len: "length (snd r) < 2 ^ 31" using Cons.prems(2) by simp
  have "served (es k) (?a + (?m + n)) h" using Cons.prems(1) [of k] split by (simp add: add.assoc)
  from HandleRequest_served [OF this len Cons.prems(3) run]
  have one: "served (es k) 0 h1" "res \<noteq> Inl Panic \<Longrightarrow> served (es k) (?m + n) h1"
    "res = Inl Panic \<Longrightarrow> ApiKey (fst r) = ApiKeyProduce" "session_inv s1"
    by auto
  have all: "served (es j) (if res = Inl Panic then 0 else ?m + n) h1" for j
    using served_other_env [OF Cons.prems(1) [of k] _ Cons.prems(1) [of j]] one(1,2) by simp
  from Cons.prems(4) show ?case
  proof (cases rule: serveAll_Cons_cases)
    case (fail e)
    with run all one(3,4) show ?thesis by auto
  next
    case (answer answer as1 s2 h2)
    with run have eq: "res = Inr answer" "s2 = s1" "h2 = h1" by auto
    then have "served (es j) (run_appends es (Suc k) rs s1 h1 + n) h1" for j using all [of j] by simp
    from Cons.IH [OF this _ one(4) answer(2) [unfolded eq]] Cons.prems(2) show ?thesis by auto
  qed
qed


section \<open>Authentication\<close>

text \<open>A request that carries a SASL token which the stored credentials confirm.\<close>

definition proves_identity :: "env \<Rightarrow> Handler \<Rightarrow> SASLSession \<Rightarrow> RequestHeader \<times> bytes \<Rightarrow> bool" where
  "proves_identity e h s r \<longleftrightarrow>
     ApiKey (fst r) = ApiKeySaslAuthenticate \<and>
     (\<exists>req. fst (DecodeSaslAuthenticateRequest (snd r)) = Inr req \<and>
        sasl_verified (e_quote e) (saslAuth h) s (Token (e_rnd e) (sareq_AuthData req)))"

lemma HandleRequest_rise:
  assumes "\<not> authenticated s" and "HandleRequest e hdr msg (Some s) h = (res, Some s', h')" and "authenticated s'"
  shows "proves_identity e h s (hdr, msg)"
proof -
  have shake: "authenticated (SetMechanism s m) = authenticated s" for m by (simp add: SetMechanism_def)
  have auth: "ApiKey hdr = ApiKeySaslAuthenticate" and run: "handleSaslAuthenticate e msg (Some s) h = (res, Some s')"
    using assms shake
    by (auto simp: HandleRequest_def handleSaslHandshake_def Let_def ApiKey_defs split: if_splits prod.splits sum.splits)
  then obtain req where req: "fst (DecodeSaslAuthenticateRequest msg) = Inr req"
    and s': "s' = fst (Authenticate (e_quote e) (e_rnd e) (saslAuth h) s (sareq_AuthData req))"
    using assms(1,3) by (auto simp: handleSaslAuthenticate_def split: sum.splits prod.splits if_splits)
  with Authenticate_rise [OF assms(1), of "e_quote e" "e_rnd e" "saslAuth h" "sareq_AuthData req"] assms(3) auth
  show ?thesis by (auto simp: proves_identity_def)
qed

text \<open>
  With SASL required, a connection changes the broker only after a request on it proved an
  identity; all requests before that left the broker as it was.
\<close>

lemma serveAll_guarded:
  assumes "saslRequired h" and "\<not> authenticated s" and "serveAll es k rs s h = (as, err, s', h')" and "h' \<noteq> h"
  shows "\<exists>pre r post as1 s1. rs = pre @ r # post \<and> serveAll es k pre s h = (as1, None, s1, h) \<and>
    proves_identity (es (k + length pre)) h s1 r"
  using assms
proof (induction rs arbitrary: k s as)
  case Nil
  then show ?case by simp
next
  case (Cons r rs)
  have same: "h1 = h" if "HandleRequest (es k) (fst r) (snd r) (Some s) h = (res, s1, h1)" for res s1 h1
    using Cons.prems(1,2) by (intro blocked_unchanged [OF _ that]) (simp add: saslBlocked_def)
  from Cons.prems(3) show ?case
  proof (cases rule: serveAll_Cons_cases)
    case (fail e)
    with same Cons.prems(4) show ?thesis by blast
  next
    case (answer answer as1 s1 h1)
    note h1 = same [OF answer(1)]
    show ?thesis
    proof (cases "authenticated s1")
      case True
      from HandleRequest_rise [OF Cons.prems(2) answer(1) True] show ?thesis
        by (intro exI [of _ "[]"] exI [of _ r] exI [of _ rs]) simp
    next
      case False
      from Cons.IH [OF Cons.prems(1) False answer(2) [unfolded h1] Cons.prems(4)] obtain pre r' post as2 s2 where
        ih: "rs = pre @ r' # post" "serveAll es (Suc k) pre s1 h = (as2, None, s2, h)"
          "proves_identity (es (Suc k + length pre)) h s2 r'"
        by blast
      have "serveAll es k (r # pre) s h = ((CorrelationId (fst r), answer) # as2, None, s2, h)"
        using answer(1) h1 ih(2) by simp
      with ih(1,3) show ?thesis
        by (intro exI [of _ "r # pre"] exI [of _ r'] exI [of _ post]) auto
    qed
  qed
qed

end
