(* ===== verification/Broker_Data.thy ===== *)
theory Broker_Data
  imports Broker_Access
begin

text \<open>
  The data path through the broker: what a Produce request with marshalled records stores,
  what a Fetch request returns, and what happens to payloads that are not records.
\<close>

section \<open>Storing a batch\<close>

definition log_of :: "Handler \<Rightarrow> string \<Rightarrow> PartitionLog option" where
  "log_of h key = mget (partitions h) key"

text \<open>What a request on the data path leaves alone.\<close>

definition same_setup :: "Handler \<Rightarrow> Handler \<Rightarrow> bool" where
  "same_setup h h' \<longleftrightarrow>
     aclManager h' = aclManager h \<and> saslRequired h' = saslRequired h \<and> saslAuth h' = saslAuth h \<and>
     dataDir h' = dataDir h \<and> maxPartitions h' = maxPartitions h"

lemma same_setup_refl [simp]: "same_setup h h"
  by (simp add: same_setup_def)

lemma same_setup_trans: "same_setup h h1 \<Longrightarrow> same_setup h1 h2 \<Longrightarrow> same_setup h h2"
  by (simp add: same_setup_def)

lemma storeRecord_run:
  assumes "log_of h key = Some p" and "log_inv p" and "record_ok r" and "unat (LEO p) + 1 < 2 ^ 64"
  shows "\<exists>p' h'. storeRecord key r f h = (Inr (if f = -1 then LEO p else f), h') \<and> log_of h' key = Some p' \<and>
    same_setup h h' \<and> log_inv p' \<and> log_records p' = log_records p @ [r\<lparr>Offset := LEO p\<rparr>] \<and> LEO p' = LEO p + 1 \<and>
    BaseOffset p' = BaseOffset p"
proof -
  from plog.app_law [OF assms(2-4)] obtain p' where
    p': "Append p r = (p', Inr (r\<lparr>Offset := LEO p\<rparr>))" "log_inv p'"
      "log_records p' = log_records p @ [r\<lparr>Offset := LEO p\<rparr>]" "LEO p' = LEO p + 1" "BaseOffset p' = BaseOffset p"
    by blast
  let ?h = "tell (RecordMsgIn 1 (valueLen (r\<lparr>Offset := LEO p\<rparr>))) (h\<lparr>partitions := mput key p' (partitions h)\<rparr>)"
  have "storeRecord key r f h = (Inr (if f = -1 then LEO p else f), ?h)"
    using assms(1) p'(1) by (simp add: storeRecord_def appendTo_def act_bind_def act_run_def log_of_def)
  moreover have "log_of ?h key = Some p'" "same_setup h ?h"
    by (simp_all add: log_of_def same_setup_def tell_def)
  ultimately show ?thesis using p' by blast
qed

lemma Marshal_nonempty: "Marshal r @ rest \<noteq> []"
proof -
  have "0 < length (Marshal r @ rest)" by (simp add: Marshal_def)
  then show ?thesis by auto
qed

text \<open>
  A payload of marshalled records followed by a tail: the records are appended one after the
  other, then the loop goes on with the tail.
\<close>

lemma produceLoop_batch:
  assumes "log_of h key = Some p" and "log_inv p" and "list_all record_ok rs" and "unat (LEO p) + length rs < 2 ^ 64"
  shows "\<exists>p' h'. produceLoop e key (marshal_all rs @ tail) f h =
      produceLoop e key tail (if f = -1 \<and> rs \<noteq> [] then LEO p else f) h' \<and>
    log_of h' key = Some p' \<and> same_setup h h' \<and> log_inv p' \<and>
    log_records p' = log_records p @ numbered (LEO p) rs \<and> LEO p' = LEO p + of_nat (length rs) \<and>
    BaseOffset p' = BaseOffset p"
  using assms
proof (induction rs arbitrary: h p f)
  case Nil
  then show ?case by (auto intro!: exI [of _ p] exI [of _ h])
next
  case (Cons r rs)
  have room: "unat (LEO p) + 1 < 2 ^ 64" using Cons.prems(4) by simp
  have okr: "record_ok r" using Cons.prems(3) by simp
  from storeRecord_run [OF Cons.prems(1,2) okr room, of f] obtain p1 h1 where
    1: "storeRecord key r f h = (Inr (if f = -1 then LEO p else f), h1)" "log_of h1 key = Some p1" "same_setup h h1"
      "log_inv p1" "log_records p1 = log_records p @ [r\<lparr>Offset := LEO p\<rparr>]" "LEO p1 = LEO p + 1" "BaseOffset p1 = BaseOffset p"
    by blast
  have leo1: "unat (LEO p1) = unat (LEO p) + 1"
    using 1(6) unat_add_of_nat [of "LEO p" 1] room by simp
  let ?f = "if f = -1 then LEO p else f"
  have ne: "LEO p \<noteq> -1"
  proof
    assume "LEO p = -1"
    then have "LEO p1 = 0" using 1(6) by simp
    with leo1 show False by simp
  qed
  have "list_all record_ok rs" "unat (LEO p1) + length rs < 2 ^ 64" using Cons.prems(3,4) leo1 by simp_all
  from Cons.IH [OF 1(2,4) this, of ?f] obtain p2 h2 where
    2: "produceLoop e key (marshal_all rs @ tail) ?f h1 =
        produceLoop e key tail (if ?f = -1 \<and> rs \<noteq> [] then LEO p1 else ?f) h2"
      "log_of h2 key = Some p2" "same_setup h1 h2" "log_inv p2"
      "log_records p2 = log_records p1 @ numbered (LEO p1) rs" "LEO p2 = LEO p1 + of_nat (length rs)"
      "BaseOffset p2 = BaseOffset p1"
    by blast
  have "(if ?f = -1 \<and> rs \<noteq> [] then LEO p1 else ?f) = ?f" using ne by auto
  then have "produceLoop e key (marshal_all (r # rs) @ tail) f h = produceLoop e key tail ?f h2"
    using 2(1) 1(1) ReadRecord_Marshal [OF okr, of "marshal_all rs @ tail"] Marshal_nonempty [of r "marshal_all rs @ tail"]
    by (subst produceLoop.simps) simp
  with 1 2 same_setup_trans [OF 1(3) 2(3)] show ?case
    by (intro exI [of _ p2] exI [of _ h2]) (simp add: add.assoc)
qed

text \<open>The tail decides what happens next: nothing left, a crash, or silence.\<close>

lemma produceLoop_end: "produceLoop e key [] f h = (Inr f, h)"
  by (simp add: produceLoop.simps)

lemma ReadRecord_short:
  assumes "unat sz < 20" and "length buf = unat sz"
  shows "ReadRecord (PutUint32 sz @ buf @ rest) = (Inl Panic, rest)"
proof -
  have "go_slice buf 16 20 = None" using assms by (simp add: go_slice_def)
  then have "parseRecord sz buf = Inl Panic"
    by (simp add: parseRecord_def split: option.splits)
  then show ?thesis
    using assms(2) by (simp add: ReadRecord_def Let_def rd_bind_def ReadFull_append rd_lift_def)
qed

lemma produceLoop_short:
  assumes "unat sz < 20" and "length buf = unat sz"
  shows "produceLoop e key (PutUint32 sz @ buf @ rest) f h = (Inl Panic, h)"
proof -
  have "0 < length (PutUint32 sz)" by simp
  then have "PutUint32 sz \<noteq> []" by auto
  with ReadRecord_short [OF assms, of rest] show ?thesis by (subst produceLoop.simps) simp
qed

text \<open>A length prefix that claims more bytes than there are swallows the rest of the payload.\<close>

lemma ReadRecord_overlong:
  assumes "length bs < 4 + unat (Uint32 (take 4 bs))"
  shows "\<exists>err. ReadRecord bs = (Inl err, []) \<and> err \<noteq> Panic"
  using assms by (auto simp: ReadRecord_def Let_def rd_bind_def ReadFull_def split: if_splits)

lemma produceLoop_overlong:
  assumes "length bs < 4 + unat (Uint32 (take 4 bs))"
  shows "produceLoop e key bs f h = (Inr f, h)"
  using ReadRecord_overlong [OF assms] by (subst produceLoop.simps) auto


section \<open>Opening the partition of a request\<close>

text \<open>The partition exists or may still be created.\<close>

definition openable :: "Handler \<Rightarrow> string \<Rightarrow> bool" where
  "openable h key \<longleftrightarrow>
     is_open key h \<or> maxPartitions h \<le> 0 \<or> int (length (partitions h)) < maxPartitions h"

text \<open>The log a request finds: the open one, or the one opened from disk.\<close>

definition found_log :: "env \<Rightarrow> Handler \<Rightarrow> string \<Rightarrow> PartitionLog \<Rightarrow> bool" where
  "found_log e h key p \<longleftrightarrow>
     (case log_of h key of
        Some q \<Rightarrow> p = q
      | None \<Rightarrow> (let dir = filepathJoin (dataDir h) key
                 in NewPartitionLog (h_disk h dir) (e_list e dir) segmentBytes indexInterval = Inr p))"

lemma getOrCreate_run:
  assumes "served e n h" and "isValidTopicName t" and "openable h (partitionKey t i)"
  shows "\<exists>p h'. getOrCreatePartitionLog e t i h = (Inr (partitionKey t i), h') \<and>
    log_of h' (partitionKey t i) = Some p \<and> found_log e h (partitionKey t i) p \<and> same_setup h h' \<and> served e n h' \<and>
    log_inv p \<and> unat (LEO p) + n < 2 ^ 64"
proof -
  let ?k = "partitionKey t i"
  obtain r h' where run: "getOrCreatePartitionLog e t i h = (r, h')" by (metis prod.exhaust)
  have "\<exists>p. r = Inr ?k \<and> log_of h' ?k = Some p \<and> found_log e h ?k p \<and> same_setup h h'"
  proof (cases "mget (partitions h) ?k")
    case (Some p)
    with run assms(2) show ?thesis
      by (auto simp: getOrCreatePartitionLog_def log_of_def found_log_def)
  next
    case None
    from closed_opens [OF assms(1,2) None] obtain p where
      p: "NewPartitionLog (h_disk h (filepathJoin (dataDir h) ?k)) (e_list e (filepathJoin (dataDir h) ?k))
        segmentBytes indexInterval = Inr p"
      by blast
    have "\<not> (0 < maxPartitions h \<and> maxPartitions h \<le> int (length (partitions h)))"
      using assms(3) None by (auto simp: openable_def is_open_def)
    then have "r = Inr ?k" "h' = h\<lparr>partitions := mput ?k p (partitions h)\<rparr>"
      using run assms(2) None p by (auto simp: getOrCreatePartitionLog_def Let_def)
    with None p show ?thesis by (auto simp: log_of_def found_log_def same_setup_def Let_def)
  qed
  then obtain p where p: "r = Inr ?k" "log_of h' ?k = Some p" "found_log e h ?k p" "same_setup h h'" by blast
  have srv: "served e n h'"
    using holdsD(1) [OF getOrCreate_holds [of Map.empty]] assms(1) run p(1) unfolding keeps_empty by blast
  then have "log_inv p \<and> unat (LEO p) + n < 2 ^ 64"
    using p(2) by (auto simp: served_def broker_inv_def logs_inv_def log_of_def)
  with run p srv show ?thesis by blast
qed


section \<open>A Produce request\<close>

definition one_partition :: "i16 \<Rightarrow> i32 \<Rightarrow> string \<Rightarrow> i32 \<Rightarrow> bytes \<Rightarrow> ProduceRequest" where
  "one_partition acks timeout t i data =
     \<lparr>preq_Acks = acks, preq_Timeout = timeout,
      preq_Topics = [\<lparr>tpd_TopicName = t, tpd_Partitions = [\<lparr>ppd_PartitionId = i, ppd_RecordsData = data\<rparr>]\<rparr>]\<rparr>"

definition produced :: "string \<Rightarrow> i32 \<Rightarrow> i64 \<Rightarrow> i64 \<Rightarrow> ProduceResponse" where
  "produced t i base time =
     \<lparr>pres_Topics = [\<lparr>tpr_TopicName = t, tpr_Partitions = [\<lparr>ppr_PartitionId = i, ppr_ErrorCode = 0,
        ppr_BaseOffset = base, ppr_LogAppendTime = time\<rparr>]\<rparr>]\<rparr>"

lemma topic_small: "isValidTopicName t \<Longrightarrow> small_string t"
  by (auto simp: isValidTopicName_def small_string_def)

lemma decode_one_partition:
  assumes "isValidTopicName t" and "small_bytes data"
  shows "fst (DecodeProduceRequest (EncodeProduceRequest (one_partition acks timeout t i data))) =
    Inr (one_partition acks timeout t i data)"
proof -
  have "preq_ok (one_partition acks timeout t i data)"
    using assms topic_small [OF assms(1)]
    by (simp add: preq_ok_def one_partition_def tpd_ok_def ppd_ok_def small_list_def maxProtocolArrayLen_def)
  then show ?thesis by (simp add: preq.dec_enc_exact)
qed

text \<open>What the loop over the payload returns decides the answer.\<close>

lemma handleProduce_loop:
  assumes srv: "served e n h" and t: "isValidTopicName t" and op: "openable h (partitionKey t i)"
    and au: "authorizeTopic h s t ''Write''" and sm: "small_bytes data"
  shows "\<exists>p h1. found_log e h (partitionKey t i) p \<and> log_of h1 (partitionKey t i) = Some p \<and> same_setup h h1 \<and>
    log_inv p \<and> unat (LEO p) + n < 2 ^ 64 \<and>
    handleProduce e (EncodeProduceRequest (one_partition acks timeout t i data)) s h =
      (case produceLoop e (partitionKey t i) data (-1) h1 of
         (Inl err, h2) \<Rightarrow> (Inl err, h2)
       | (Inr f, h2) \<Rightarrow> (Inr (EncodeProduceResponse
             (produced t i (if f = -1 then 0 else f) (unixMilli (e_clock e (h_ticks h2))))),
           h2\<lparr>h_ticks := h_ticks h2 + 1\<rparr>))"
proof -
  let ?k = "partitionKey t i"
  from getOrCreate_run [OF srv t op] obtain p h1 where
    1: "getOrCreatePartitionLog e t i h = (Inr ?k, h1)" "log_of h1 ?k = Some p" "found_log e h ?k p" "same_setup h h1"
      "log_inv p" "unat (LEO p) + n < 2 ^ 64"
    by blast
  obtain r h2 where 2: "produceLoop e ?k data (-1) h1 = (r, h2)" by (metis prod.exhaust)
  have "handleProduce e (EncodeProduceRequest (one_partition acks timeout t i data)) s h =
      (case r of Inl err \<Rightarrow> (Inl err, h2)
       | Inr f \<Rightarrow> (Inr (EncodeProduceResponse
             (produced t i (if f = -1 then 0 else f) (unixMilli (e_clock e (h_ticks h2))))),
           h2\<lparr>h_ticks := h_ticks h2 + 1\<rparr>))"
    unfolding handleProduce_def decode_one_partition [OF t sm]
    using 1(1) 2 au
    by (cases r) (simp_all add: one_partition_def produced_def produceTopic_def producePartition_def act_bind_def
        act_lift_def act_get_def act_return_def act_try_def readClock_def act_run_def)
  with 1 2 show ?thesis by (intro exI [of _ p] exI [of _ h1]) (simp split: sum.split)
qed

lemma handleProduce_run:
  assumes srv: "served e n h" and t: "isValidTopicName t" and op: "openable h (partitionKey t i)"
    and au: "authorizeTopic h s t ''Write''" and rs: "list_all record_ok rs" "length rs \<le> n" "rs \<noteq> []"
    and sm: "small_bytes (marshal_all rs)"
  shows "\<exists>p p' h' time.
    handleProduce e (EncodeProduceRequest (one_partition acks timeout t i (marshal_all rs))) s h =
      (Inr (EncodeProduceResponse (produced t i (LEO p) time)), h') \<and>
    found_log e h (partitionKey t i) p \<and> log_inv p \<and> log_of h' (partitionKey t i) = Some p' \<and> log_inv p' \<and>
    log_records p' = log_records p @ numbered (LEO p) rs \<and> LEO p' = LEO p + of_nat (length rs) \<and>
    BaseOffset p' = BaseOffset p \<and> unat (LEO p) + length rs < 2 ^ 64 \<and> same_setup h h'"
proof -
  let ?k = "partitionKey t i"
  from handleProduce_loop [OF srv t op au sm] obtain p h1 where
    1: "found_log e h ?k p" "log_of h1 ?k = Some p" "same_setup h h1" "log_inv p" "unat (LEO p) + n < 2 ^ 64"
      "handleProduce e (EncodeProduceRequest (one_partition acks timeout t i (marshal_all rs))) s h =
      (case produceLoop e ?k (marshal_all rs) (-1) h1 of
         (Inl err, h2) \<Rightarrow> (Inl err, h2)
       | (Inr f, h2) \<Rightarrow> (Inr (EncodeProduceResponse
             (produced t i (if f = -1 then 0 else f) (unixMilli (e_clock e (h_ticks h2))))),
           h2\<lparr>h_ticks := h_ticks h2 + 1\<rparr>))"
    by blast
  have room: "unat (LEO p) + length rs < 2 ^ 64" using 1(5) rs(2) by linarith
  from produceLoop_batch [OF 1(2,4) rs(1) room, of e "[]" "-1"] rs(3) obtain p' h2 where
    2: "produceLoop e ?k (marshal_all rs) (-1) h1 = (Inr (LEO p), h2)" "log_of h2 ?k = Some p'" "same_setup h1 h2"
      "log_inv p'" "log_records p' = log_records p @ numbered (LEO p) rs" "LEO p' = LEO p + of_nat (length rs)"
      "BaseOffset p' = BaseOffset p"
    by (auto simp: produceLoop_end)
  let ?h3 = "h2\<lparr>h_ticks := h_ticks h2 + 1\<rparr>"
  have "LEO p \<noteq> -1"
    using unat_add_of_nat [of "LEO p" 1] room rs(3) by (cases rs) auto
  then have "handleProduce e (EncodeProduceRequest (one_partition acks timeout t i (marshal_all rs))) s h =
      (Inr (EncodeProduceResponse (produced t i (LEO p) (unixMilli (e_clock e (h_ticks h2))))), ?h3)"
    using 1(6) 2(1) by simp
  moreover have "log_of ?h3 ?k = Some p'" "same_setup h ?h3"
    using 2(2,3) 1(3) by (simp_all add: log_of_def same_setup_def)
  ultimately show ?thesis using 1(1,4) 2(4-7) room by blast
qed

text \<open>A record of fewer than 20 bytes anywhere in the payload stops the broker process.\<close>

lemma handleProduce_crash:
  assumes "served e n h" and "isValidTopicName t" and "openable h (partitionKey t i)"
    and "authorizeTopic h s t ''Write''" and "list_all record_ok rs" and "length rs \<le> n"
    and "unat sz < 20" and "length buf = unat sz"
    and "small_bytes (marshal_all rs @ PutUint32 sz @ buf @ rest)"
  shows "\<exists>h'. handleProduce e (EncodeProduceRequest (one_partition acks timeout t i
      (marshal_all rs @ PutUint32 sz @ buf @ rest))) s h = (Inl Panic, h')"
proof -
  let ?k = "partitionKey t i"
  from handleProduce_loop [OF assms(1-4,9)] obtain p h1 where
    1: "log_of h1 ?k = Some p" "log_inv p" "unat (LEO p) + n < 2 ^ 64"
      "\<And>h2. produceLoop e ?k (marshal_all rs @ PutUint32 sz @ buf @ rest) (-1) h1 = (Inl Panic, h2) \<Longrightarrow>
        handleProduce e (EncodeProduceRequest (one_partition acks timeout t i
          (marshal_all rs @ PutUint32 sz @ buf @ rest))) s h = (Inl Panic, h2)"
    by fastforce
  have "unat (LEO p) + length rs < 2 ^ 64" using 1(3) assms(6) by linarith
  from produceLoop_batch [OF 1(1,2) assms(5) this, of e "PutUint32 sz @ buf @ rest" "-1"] 1(4)
    produceLoop_short [OF assms(7,8)]
  show ?thesis by metis
qed

text \<open>A payload that is not made of records is acknowledged and dropped.\<close>

lemma handleProduce_dropped:
  assumes "served e n h" and "isValidTopicName t" and "openable h (partitionKey t i)"
    and "authorizeTopic h s t ''Write''" and "small_bytes data"
    and "length data < 4 + unat (Uint32 (take 4 data))"
  shows "\<exists>p h' time. handleProduce e (EncodeProduceRequest (one_partition acks timeout t i data)) s h =
      (Inr (EncodeProduceResponse (produced t i 0 time)), h') \<and>
    found_log e h (partitionKey t i) p \<and> log_of h' (partitionKey t i) = Some p"
proof -
  from handleProduce_loop [OF assms(1-5)] obtain p h1 where
    1: "found_log e h (partitionKey t i) p" "log_of h1 (partitionKey t i) = Some p"
      "handleProduce e (EncodeProduceRequest (one_partition acks timeout t i data)) s h =
      (case produceLoop e (partitionKey t i) data (-1) h1 of
         (Inl err, h2) \<Rightarrow> (Inl err, h2)
       | (Inr f, h2) \<Rightarrow> (Inr (EncodeProduceResponse
             (produced t i (if f = -1 then 0 else f) (unixMilli (e_clock e (h_ticks h2))))),
           h2\<lparr>h_ticks := h_ticks h2 + 1\<rparr>))"
    by blast
  then show ?thesis
    by (intro exI [of _ p] exI [of _ "h1\<lparr>h_ticks := h_ticks h1 + 1\<rparr>"]
        exI [of _ "unixMilli (e_clock e (h_ticks h1))"])
      (simp add: produceLoop_overlong [OF assms(6)] log_of_def)
qed


section \<open>A Fetch request\<close>

definition fetch_one :: "string \<Rightarrow> i32 \<Rightarrow> i64 \<Rightarrow> i32 \<Rightarrow> FetchRequest" where
  "fetch_one t i start m =
     \<lparr>freq_ReplicaId = -1, freq_MaxWaitTime = 0, freq_MinBytes = 0,
      freq_Topics = [\<lparr>tfd_TopicName = t,
        tfd_Partitions = [\<lparr>pfd_PartitionId = i, pfd_FetchOffset = start, pfd_MaxBytes = m\<rparr>]\<rparr>]\<rparr>"

definition fetched_one :: "string \<Rightarrow> i32 \<Rightarrow> i64 \<Rightarrow> bytes \<Rightarrow> FetchResponse" where
  "fetched_one t i hw out =
     \<lparr>fres_Topics = [\<lparr>tfr_TopicName = t, tfr_Partitions = [\<lparr>pfr_PartitionId = i, pfr_ErrorCode = 0,
        pfr_HighWatermark = hw, pfr_RecordsData = out\<rparr>]\<rparr>]\<rparr>"

lemma decode_fetch_one:
  assumes "isValidTopicName t"
  shows "fst (DecodeFetchRequest (client_FetchRequest (fetch_one t i start m))) = Inr (fetch_one t i start m)"
proof -
  have "freq_ok (fetch_one t i start m)"
    using topic_small [OF assms] by (simp add: freq_ok_def fetch_one_def tfd_ok_def small_list_def maxProtocolArrayLen_def)
  then show ?thesis by (simp add: freq.dec_enc_exact)
qed

lemma client_fetched_one:
  assumes "isValidTopicName t" and "small_bytes out"
  shows "client_FetchResponse (EncodeFetchResponse (fetched_one t i hw out)) = (Inr (fetched_one t i hw out), [])"
proof -
  have "fres_ok (fetched_one t i hw out)"
    using assms topic_small [OF assms(1)]
    by (simp add: fres_ok_def fetched_one_def tfr_ok_def pfr_ok_def small_list_def maxProtocolArrayLen_def)
  then show ?thesis by (rule fres.dec_enc_exact)
qed

text \<open>
  A reader of an open partition gets, from the requested offset on, an initial part of the
  records, and all of them when they fit into the requested size.
\<close>

definition fetch_answer :: "PartitionLog \<Rightarrow> i64 \<Rightarrow> i32 \<Rightarrow> bytes \<Rightarrow> bool" where
  "fetch_answer p start m out \<longleftrightarrow>
     (\<exists>rs. ParseRecordStream out = Inr rs \<and>
        prefix (filter (\<lambda>r. start \<le> Offset r) rs) (filter (\<lambda>r. start \<le> Offset r) (log_records p)) \<and>
        (int (length (marshal_all (log_records p))) \<le> fetchMaxBytes m \<longrightarrow>
           filter (\<lambda>r. start \<le> Offset r) rs = filter (\<lambda>r. start \<le> Offset r) (log_records p)))"

lemma handleFetch_run:
  assumes p: "log_of h (partitionKey t i) = Some p" "log_inv p" "BaseOffset p \<le> start"
    and t: "isValidTopicName t" and au: "authorizeTopic h s t ''Read''"
  shows "\<exists>out h'. handleFetch e (client_FetchRequest (fetch_one t i start m)) s h =
      (Inr (EncodeFetchResponse (fetched_one t i (LEO p) out)), h') \<and> fetch_answer p start m out \<and>
    int (length out) \<le> fetchMaxBytes m \<and> partitions h' = partitions h \<and> same_setup h h'"
proof -
  from ReadZeroCopy_records [OF p(2) fetchMaxBytes_pos p(3)] obtain out where
    out: "ReadZeroCopy p start (fetchMaxBytes m) = (out, None)" "fetch_answer p start m out"
      "int (length out) \<le> fetchMaxBytes m"
    unfolding fetch_answer_def by blast
  let ?h = "if 0 < length out then tell (RecordBytesOut (of_nat (length out))) h else h"
  have "fetchPartition e t \<lparr>pfd_PartitionId = i, pfd_FetchOffset = start, pfd_MaxBytes = m\<rparr> h =
      (Inr \<lparr>pfr_PartitionId = i, pfr_ErrorCode = 0, pfr_HighWatermark = LEO p, pfr_RecordsData = out\<rparr>, ?h)"
    using p(1) t out(1)
    by (simp add: fetchPartition_def getOrCreatePartitionLog_def Let_def log_of_def readFrom_def act_bind_def
        act_try_def act_run_def)
  then have "handleFetch e (client_FetchRequest (fetch_one t i start m)) s h =
      (Inr (EncodeFetchResponse (fetched_one t i (LEO p) out)), ?h)"
    unfolding handleFetch_def decode_fetch_one [OF t] using au
    by (simp add: fetch_one_def fetched_one_def fetchTopic_def act_bind_def act_lift_def act_get_def act_return_def)
  moreover have "partitions ?h = partitions h" "same_setup h ?h"
    by (simp_all add: tell_def same_setup_def)
  ultimately show ?thesis using out(2,3) by blast
qed


section \<open>Through the dispatcher\<close>

lemma HandleRequest_dispatch:
  assumes "\<not> saslBlocked h s" and "ApiKey hdr \<notin> {ApiKeySaslHandshake, ApiKeySaslAuthenticate}"
    and "dispatch e (ApiKey hdr) msg s h = (r, h')"
  shows "HandleRequest e hdr msg s h = (r, s, h')"
  using assms by (simp add: HandleRequest_def Let_def)

lemma HandleRequest_Produce:
  assumes "\<not> saslBlocked h s" and "ApiKey hdr = ApiKeyProduce" and "handleProduce e msg s h = (r, h')"
  shows "HandleRequest e hdr msg s h = (r, s, h')"
  using assms by (intro HandleRequest_dispatch) (simp_all add: dispatch_def ApiKey_defs)

lemma HandleRequest_Fetch:
  assumes "\<not> saslBlocked h s" and "ApiKey hdr = ApiKeyFetch" and "handleFetch e msg s h = (r, h')"
  shows "HandleRequest e hdr msg s h = (r, s, h')"
  using assms by (intro HandleRequest_dispatch) (simp_all add: dispatch_def ApiKey_defs)

lemma same_setup_rules:
  assumes "same_setup h h'"
  shows "authorizeTopic h' s t oper = authorizeTopic h s t oper" and "saslBlocked h' s = saslBlocked h s"
  using assms by (simp_all add: same_setup_def authorizeTopic_def saslBlocked_def split: option.split)

text \<open>A fetch from the first offset of a batch sees the batch and nothing else.\<close>

lemma fetch_answer_batch:
  assumes "fetch_answer p' (LEO p) m out" and "log_inv p" and "log_records p' = log_records p @ numbered (LEO p) rs"
    and "unat (LEO p) + length rs < 2 ^ 64"
  shows "\<exists>xs. ParseRecordStream out = Inr xs \<and>
    prefix (filter (\<lambda>r. LEO p \<le> Offset r) xs) (numbered (LEO p) rs) \<and>
    (int (length (marshal_all (log_records p'))) \<le> fetchMaxBytes m \<longrightarrow>
       filter (\<lambda>r. LEO p \<le> Offset r) xs = numbered (LEO p) rs)"
proof -
  have "filter (\<lambda>r. LEO p \<le> Offset r) (log_records p) = []"
    using plog.below_leo [OF assms(2)] by (auto simp: filter_empty_conv not_le)
  moreover have "filter (\<lambda>r. LEO p \<le> Offset r) (numbered (LEO p) rs) = numbered (LEO p) rs"
    using numbered_ge [OF assms(4)] by (simp add: filter_id_conv)
  ultimately have "filter (\<lambda>r. LEO p \<le> Offset r) (log_records p') = numbered (LEO p) rs"
    using assms(3) by simp
  with assms(1) show ?thesis unfolding fetch_answer_def by auto
qed

text \<open>A broker that starts on an empty disk.\<close>

lemma NewHandler_served:
  assumes "n < 2 ^ 64" and "\<And>path. e_list e path = []" and "visits (e_members e)" "visits (e_topics e)"
    "visits (e_mechs e)" "\<And>g. visits (e_pick e g)" "\<And>i. visits (e_protocols e i)"
  shows "served e n (NewHandler (\<lambda>_. Map.empty) ddir node hst prt)"
  using assms gc_reach.intros(1)
  by (simp add: served_def broker_inv_def logs_inv_def env_ok_def listing_ok_def NewHandler_def dir_ok_def
      gomap_ok_def om_inv_def NewOffsetManager_def)

end
