(* ===== verification/Tls.thy ===== *)
theory Tls
  imports Go_Base
begin

text \<open>
  \<open>src/internal/security/tls.go\<close>: where the listener's certificate comes from. The calls of
  \<open>crypto/rsa\<close>, \<open>crypto/x509\<close>, \<open>crypto/tls\<close> and \<open>encoding/pem\<close> are the fields of \<open>crypto\<close>;
  keys, certificates and PEM texts are byte strings to the model.
\<close>

datatype key_usage = KeyUsageKeyEncipherment | KeyUsageDigitalSignature

datatype ext_key_usage = ExtKeyUsageServerAuth

record x509_Certificate =
  SerialNumber :: int
  NotBefore :: int
  NotAfter :: int
  KeyUsage :: "key_usage set"
  ExtKeyUsage :: "ext_key_usage list"
  BasicConstraintsValid :: bool
  IPAddresses :: "string list"

record tls_Config =
  Certificates :: "bytes list"
  MinVersion :: u16

definition VersionTLS12 :: u16 where
  "VersionTLS12 = 0x0303"

record crypto =
  LoadX509KeyPair :: "string \<Rightarrow> string \<Rightarrow> go_error + bytes"
  GenerateKey :: "nat \<Rightarrow> go_error + bytes"
  CreateCertificate :: "x509_Certificate \<Rightarrow> x509_Certificate \<Rightarrow> bytes \<Rightarrow> bytes \<Rightarrow> go_error + bytes"
  PublicKey :: "bytes \<Rightarrow> bytes"
  MarshalPKCS1PrivateKey :: "bytes \<Rightarrow> bytes"
  EncodeToMemory :: "string \<Rightarrow> bytes \<Rightarrow> bytes"
  X509KeyPair :: "bytes \<Rightarrow> bytes \<Rightarrow> go_error + bytes"

text \<open>Times are nanoseconds; a year is 365 days.\<close>

definition selfSignedTemplate :: "int \<Rightarrow> int \<Rightarrow> x509_Certificate" where
  "selfSignedTemplate now1 now2 =
     \<lparr>SerialNumber = 1, NotBefore = now1, NotAfter = now2 + 365 * 24 * 3600 * 1000000000,
      KeyUsage = {KeyUsageKeyEncipherment, KeyUsageDigitalSignature}, ExtKeyUsage = [ExtKeyUsageServerAuth],
      BasicConstraintsValid = True, IPAddresses = [''127.0.0.1'']\<rparr>"

definition GenerateSelfSignedTLSConfig :: "crypto \<Rightarrow> int \<Rightarrow> int \<Rightarrow> go_error + tls_Config" where
  "GenerateSelfSignedTLSConfig K now1 now2 =
     (case GenerateKey K 2048 of
        Inl err \<Rightarrow> Inl err
      | Inr priv \<Rightarrow>
          (let template = selfSignedTemplate now1 now2
           in case CreateCertificate K template template (PublicKey K priv) priv of
                Inl err \<Rightarrow> Inl err
              | Inr derBytes \<Rightarrow>
                  (let certPEM = EncodeToMemory K ''CERTIFICATE'' derBytes;
                       keyPEM = EncodeToMemory K ''RSA PRIVATE KEY'' (MarshalPKCS1PrivateKey K priv)
                   in case X509KeyPair K certPEM keyPEM of
                        Inl err \<Rightarrow> Inl err
                      | Inr cert \<Rightarrow> Inr \<lparr>Certificates = [cert], MinVersion = VersionTLS12\<rparr>)))"

definition CreateTLSConfig :: "crypto \<Rightarrow> int \<Rightarrow> int \<Rightarrow> string \<Rightarrow> string \<Rightarrow> go_error + tls_Config" where
  "CreateTLSConfig K now1 now2 certFile keyFile =
     (if certFile \<noteq> '''' \<and> keyFile \<noteq> ''''
      then case LoadX509KeyPair K certFile keyFile of
             Inl err \<Rightarrow> Inl err
           | Inr cert \<Rightarrow> Inr \<lparr>Certificates = [cert], MinVersion = VersionTLS12\<rparr>
      else GenerateSelfSignedTLSConfig K now1 now2)"

text \<open>
  A configuration has one certificate and refuses protocols older than TLS 1.2; a certificate
  from files is used exactly if both are named.
\<close>

lemma CreateTLSConfig_sound:
  assumes "CreateTLSConfig K now1 now2 certFile keyFile = Inr cfg"
  shows "MinVersion cfg = VersionTLS12 \<and> (\<exists>cert. Certificates cfg = [cert] \<and>
    (if certFile \<noteq> '''' \<and> keyFile \<noteq> '''' then LoadX509KeyPair K certFile keyFile = Inr cert
     else \<exists>priv der. GenerateKey K 2048 = Inr priv \<and>
       CreateCertificate K (selfSignedTemplate now1 now2) (selfSignedTemplate now1 now2) (PublicKey K priv) priv = Inr der \<and>
       X509KeyPair K (EncodeToMemory K ''CERTIFICATE'' der)
         (EncodeToMemory K ''RSA PRIVATE KEY'' (MarshalPKCS1PrivateKey K priv)) = Inr cert))"
  using assms
  by (auto simp: CreateTLSConfig_def GenerateSelfSignedTLSConfig_def Let_def split: if_splits sum.splits)

end
