(* ===== verification/Server.thy ===== *)
theory Server
  imports Connection Broker_Data Cleaner Tls
begin

text \<open>
  \<open>src/internal/server/tcp_server.go\<close> and what runs beside it: the accept loop starts one
  connection loop per client, all on one \<open>Handler\<close>, and the cleaner works on the handler's
  open partitions (\<open>GetPartitions\<close>). The goroutines are modelled by a step relation: any
  connection may serve its next frame, the cleaner may clean any partition, clients may
  connect at any time. A step serves a whole request or cleans a whole partition; the code
  interleaves at the finer granularity of component calls.
\<close>

section \<open>State and steps\<close>

datatype listener_state = Unbound | Listening | ListenerClosed

record TCPServer =
  addr :: string
  srv_handler :: Handler
  listener :: listener_state
  tlsConfig :: "tls_Config option"
  quit :: bool
  conns :: "(nat, ConnectionHandler) gomap"
  crashed :: bool

definition NewTCPServer :: "string \<Rightarrow> Handler \<Rightarrow> TCPServer" where
  "NewTCPServer a h = \<lparr>addr = a, srv_handler = h, listener = Unbound, tlsConfig = None, quit = False, conns = [], crashed = False\<rparr>"

definition SetTLSConfig :: "TCPServer \<Rightarrow> tls_Config \<Rightarrow> TCPServer" where
  "SetTLSConfig S cfg = S\<lparr>tlsConfig := Some cfg\<rparr>"

text \<open>
  \<open>Start\<close> up to its accept loop; \<open>bind\<close> is what the operating system answers to \<open>tls.Listen\<close>
  (\<open>True\<close>) and to \<open>net.Listen\<close>.
\<close>

definition Start :: "(tls_Config option \<Rightarrow> string option) \<Rightarrow> TCPServer \<Rightarrow> TCPServer \<times> go_error option" where
  "Start bind S =
     (if listener S \<noteq> Unbound then (S, None)
      else case bind (tlsConfig S) of
             Some err \<Rightarrow> (S, Some (ErrText (''failed to bind to TCP address '' @ addr S @ '': '' @ err)))
           | None \<Rightarrow> (S\<lparr>listener := Listening\<rparr>, None))"

text \<open>\<open>Stop\<close> up to its wait; closing \<open>quit\<close> a second time panics.\<close>

definition Stop :: "TCPServer \<Rightarrow> TCPServer \<times> go_error option" where
  "Stop S =
     (if quit S then (S\<lparr>crashed := True\<rparr>, Some Panic)
      else (S\<lparr>quit := True, listener := (if listener S = Unbound then Unbound else ListenerClosed)\<rparr>, None))"

definition GetPartitions :: "Handler \<Rightarrow> (string, PartitionLog) gomap" where
  "GetPartitions h = partitions h"

text \<open>Offsets stay below \<open>2 ^ 64\<close> when a step appends up to \<open>n\<close> records to a partition.\<close>

definition room :: "nat \<Rightarrow> Handler \<Rightarrow> bool" where
  "room n h \<longleftrightarrow> n < 2 ^ 64 \<and>
     (\<forall>k p. mget (partitions h) k = Some p \<longrightarrow> unat (LEO p) + n < 2 ^ 64) \<and>
     (\<forall>path p. log_inv p \<longrightarrow> pl_dir p = h_disk h path \<longrightarrow> unat (LEO p) + n < 2 ^ 64)"

definition next_appends :: "env \<Rightarrow> ConnectionHandler \<Rightarrow> nat" where
  "next_appends e c =
     (case requestsOf (conn_in c) of
        [] \<Rightarrow> 0
      | r # _ \<Rightarrow> request_appends e (ApiKey (fst r)) (snd r) (handler c))"

text \<open>
  Steps of the accept loop and the connections. \<open>env_ok\<close> is what Go and the file system guarantee about what the
  request reads from outside.
\<close>

inductive conn_step :: "TCPServer \<Rightarrow> TCPServer \<Rightarrow> bool" where
  accept: "\<not> crashed S \<Longrightarrow> listener S = Listening \<Longrightarrow> mget (conns S) i = None \<Longrightarrow>
    conn_step S (S\<lparr>conns := mput i (NewConnectionHandler input (srv_handler S)) (conns S)\<rparr>)"
| serve: "\<not> crashed S \<Longrightarrow> mget (conns S) i = Some c0 \<Longrightarrow> c = c0\<lparr>handler := srv_handler S\<rparr> \<Longrightarrow>
    env_ok e (srv_handler S) \<Longrightarrow> room (next_appends e c) (srv_handler S) \<Longrightarrow> serveOne e w c = (None, c') \<Longrightarrow>
    conn_step S (S\<lparr>srv_handler := handler c', conns := mput i c' (conns S)\<rparr>)"
| close: "\<not> crashed S \<Longrightarrow> mget (conns S) i = Some c0 \<Longrightarrow> c = c0\<lparr>handler := srv_handler S\<rparr> \<Longrightarrow>
    env_ok e (srv_handler S) \<Longrightarrow> room (next_appends e c) (srv_handler S) \<Longrightarrow> serveOne e w c = (Some Closed, c') \<Longrightarrow>
    conn_step S (S\<lparr>srv_handler := handler c', conns := mdel i (conns S)\<rparr>)"
| crash: "\<not> crashed S \<Longrightarrow> mget (conns S) i = Some c0 \<Longrightarrow> c = c0\<lparr>handler := srv_handler S\<rparr> \<Longrightarrow>
    env_ok e (srv_handler S) \<Longrightarrow> room (next_appends e c) (srv_handler S) \<Longrightarrow> serveOne e w c = (Some Crashed, c') \<Longrightarrow>
    conn_step S (S\<lparr>srv_handler := handler c', crashed := True\<rparr>)"

text \<open>The network side: connections, and a call of \<open>Stop\<close> at any time.\<close>

inductive net_step :: "TCPServer \<Rightarrow> TCPServer \<Rightarrow> bool" where
  conn: "conn_step S S' \<Longrightarrow> net_step S S'"
| stop: "\<not> crashed S \<Longrightarrow> net_step S (fst (Stop S))"

text \<open>One partition in a cycle of the cleaner.\<close>

inductive clean_step :: "TCPServer \<Rightarrow> TCPServer \<Rightarrow> bool" where
  clean: "\<not> crashed S \<Longrightarrow> mget (GetPartitions (srv_handler S)) k = Some p \<Longrightarrow>
    RunCleanCycle mtime now cfg [(k, p)] = [(k, p')] \<Longrightarrow>
    clean_step S (S\<lparr>srv_handler := (srv_handler S)\<lparr>partitions := mput k p' (partitions (srv_handler S))\<rparr>\<rparr>)"

definition server_step :: "TCPServer \<Rightarrow> TCPServer \<Rightarrow> bool" where
  "server_step S S' \<longleftrightarrow> net_step S S' \<or> clean_step S S'"


section \<open>One frame\<close>

lemma room_keeps:
  assumes "broker_inv 0 h" and "env_ok e h" and "room n h" and "grown L h"
  shows "keeps L e n h"
proof -
  have "dir_ok n d" if "dir_ok 0 d" "d = h_disk h path" for d path
    using that assms(3) unfolding dir_ok_def room_def by auto
  then have "logs_inv n h"
    using assms(1,3) unfolding broker_inv_def logs_inv_def room_def by (metis (no_types, lifting))
  with assms show ?thesis by (simp add: keeps_def served_def broker_inv_def)
qed

lemma serveOne_keeps:
  assumes "keeps L e (next_appends e c) (handler c)" and "session_inv (saslSession c)"
    and "serveOne e w c = (f, c')"
  shows "keeps L e 0 (handler c') \<and> session_inv (saslSession c')"
proof (cases rule: serveOne_cases [of e w c])
  case (stop c1)
  with assms keeps_none show ?thesis by (auto simp: next_appends_def)
next
  case (skip rest)
  with assms keeps_none show ?thesis by auto
next
  case (request frame header msg rest)
  obtain res s' h' where hr: "HandleRequest e header msg (Some (saslSession c)) (handler c) = (res, Some s', h')"
    by (rule HandleRequest_session)
  have "r \<in> set (requestsOf (conn_in c)) \<Longrightarrow> length (snd r) < 2 ^ 31" for r
    using requestsOf_bounded [of r "conn_in c"] by (simp add: maxRequestFrameBytes_def)
  then have len: "length msg < 2 ^ 31" using request(3) by (metis list.set_intros(1) snd_conv)
  have "keeps L e (request_appends e (ApiKey header) msg (handler c) + 0) (handler c)"
    using assms(1) request(3) by (simp add: next_appends_def)
  from HandleRequest_keeps [OF this len assms(2) hr] have "keeps L e 0 h'" "session_inv s'" by auto
  moreover have "handler c' = h'" "saslSession c' = s'"
    using serveRequest_run [of frame header msg "c\<lparr>conn_in := rest\<rparr>", OF request(2) _ _ hr, simplified, of _ w]
      assms(3) request(1)
    by (cases res; auto)+
  ultimately show ?thesis by simp
qed


section \<open>Reachable servers\<close>

definition server_inv :: "TCPServer \<Rightarrow> bool" where
  "server_inv S \<longleftrightarrow>
     broker_inv 0 (srv_handler S) \<and> (\<forall>i c. mget (conns S) i = Some c \<longrightarrow> session_inv (saslSession c))"

lemma served_frame_step:
  assumes "server_inv S" and "grown L (srv_handler S)" and "mget (conns S) i = Some c0"
    and "c = c0\<lparr>handler := srv_handler S\<rparr>" and "env_ok e (srv_handler S)"
    and "room (next_appends e c) (srv_handler S)" and "serveOne e w c = (f, c')"
  shows "broker_inv 0 (handler c') \<and> grown L (handler c') \<and> session_inv (saslSession c')"
proof -
  have "keeps L e (next_appends e c) (handler c)" "session_inv (saslSession c)"
    using assms room_keeps [of "srv_handler S" e "next_appends e c" L] by (simp_all add: server_inv_def)
  from serveOne_keeps [OF this assms(7)] show ?thesis by (simp add: keeps_def served_def)
qed

lemma conn_step_inv:
  assumes "conn_step S S'" and "server_inv S" and "grown L (srv_handler S)"
  shows "server_inv S' \<and> grown L (srv_handler S')"
  using assms(1)
proof cases
  case (accept i input)
  with assms(2,3) show ?thesis by (auto simp: server_inv_def NewConnectionHandler_def mget_mput)
next
  case (serve i c0 c e w c')
  with served_frame_step [OF assms(2,3) serve(3-6)] assms(2) show ?thesis
    by (auto simp: server_inv_def mget_mput)
next
  case (close i c0 c e w c')
  with served_frame_step [OF assms(2,3) close(3-6)] assms(2) show ?thesis
    by (auto simp: server_inv_def mget_mdel split: if_splits)
next
  case (crash i c0 c e w c')
  with served_frame_step [OF assms(2,3) crash(3-6)] assms(2) show ?thesis
    by (auto simp: server_inv_def)
qed

lemma net_step_inv:
  assumes "net_step S S'" and "server_inv S" and "grown L (srv_handler S)"
  shows "server_inv S' \<and> grown L (srv_handler S')"
  using assms(1)
proof cases
  case conn
  with conn_step_inv assms(2,3) show ?thesis by blast
next
  case stop
  with assms(2,3) show ?thesis by (auto simp: server_inv_def Stop_def)
qed

lemma clean_step_inv:
  assumes "clean_step S S'" and "server_inv S"
  shows "server_inv S'"
  using assms(1)
proof cases
  case (clean k p mtime now cfg p')
  have p: "mget (partitions (srv_handler S)) k = Some p" using clean(3) by (simp add: GetPartitions_def)
  then have "log_inv p" using assms(2) by (auto simp: server_inv_def broker_inv_def logs_inv_def)
  then have "log_inv p'" "LEO p' = LEO p"
    using RunCleanCycle_safe [of "[(k, p)]" mtime now cfg] clean(4) by auto
  moreover have "length (mput k p' (partitions (srv_handler S))) = length (partitions (srv_handler S))"
    using p by (intro length_mput_old) simp
  ultimately show ?thesis
    using assms(2) p clean(1)
    by (auto simp: server_inv_def broker_inv_def logs_inv_def mget_mput split: if_splits)
qed

lemma net_steps_inv:
  assumes "net_step\<^sup>*\<^sup>* S S'" and "server_inv S" and "grown L (srv_handler S)"
  shows "server_inv S' \<and> grown L (srv_handler S')"
  using assms by (induction rule: rtranclp_induct) (auto dest: net_step_inv)

lemma server_steps_inv:
  assumes "server_step\<^sup>*\<^sup>* S S'" and "server_inv S"
  shows "server_inv S'"
  using assms
proof (induction rule: rtranclp_induct)
  case (step T U)
  have "grown Map.empty (srv_handler T)" by (simp add: grown_def)
  with step net_step_inv [of T U Map.empty] clean_step_inv show ?case by (auto simp: server_step_def)
qed

text \<open>Records once in a log stay its first records, whatever the network side does.\<close>

lemma net_steps_append_only:
  assumes "net_step\<^sup>*\<^sup>* S S'" and "server_inv S" and "log_of (srv_handler S) k = Some p"
  shows "\<exists>p'. log_of (srv_handler S') k = Some p' \<and> log_inv p' \<and> prefix (log_records p) (log_records p')"
proof -
  have "grown [k \<mapsto> log_records p] (srv_handler S)" using assms(3) by (auto simp: grown_def log_of_def)
  from net_steps_inv [OF assms(1,2) this] have inv: "server_inv S'"
    and gr: "grown [k \<mapsto> log_records p] (srv_handler S')" by blast+
  from gr obtain p' where p': "log_of (srv_handler S') k = Some p'" "prefix (log_records p) (log_records p')"
    unfolding grown_def log_of_def by (metis fun_upd_same)
  moreover have "log_inv p'"
    using inv p'(1) unfolding server_inv_def broker_inv_def logs_inv_def log_of_def by blast
  ultimately show ?thesis by blast
qed

lemma record_above_base:
  assumes "log_inv p" and "r \<in> set (log_records p)"
  shows "BaseOffset p \<le> Offset r"
proof -
  from assms(2) obtain s where s: "s \<in> set (segments p)" "r \<in> set (segment_records (pl_dir p) s)"
    by (auto simp: log_records_def)
  have ne: "segments p \<noteq> []" and srt: "sorted_wrt (\<lambda>a b. baseOffset a < baseOffset b \<and> nextOffset a \<le> baseOffset b) (segments p)"
    and inv: "segment_inv (pl_dir p) s"
    using assms(1) s(1) by (auto simp: log_inv_def)
  have "baseOffset (hd (segments p)) \<le> baseOffset s"
    using ne srt s(1) by (cases "segments p") (auto intro: less_imp_le)
  moreover have "baseOffset s \<le> Offset r" using segment_inv_bounds(1) [OF inv s(2)] .
  ultimately show ?thesis using ne by (simp add: BaseOffset_def)
qed

text \<open>
  The durability of acknowledged records: a batch that a Produce request stored is found by
  every later Fetch from its first offset, whatever other clients did in between.
\<close>

lemma batch_found_later:
  assumes inv: "server_inv S" and steps: "net_step\<^sup>*\<^sup>* S S'"
    and lg: "log_of (srv_handler S) (partitionKey t i) = Some p" "log_records p = old @ numbered start rs" "rs \<noteq> []"
    and below: "\<forall>r \<in> set old. Offset r < start"  "unat start + length rs < 2 ^ 64"
    and t: "isValidTopicName t" and au: "authorizeTopic (srv_handler S') s t ''Read''"
  shows "\<exists>p' out h' xs newer. log_of (srv_handler S') (partitionKey t i) = Some p' \<and>
    handleFetch e (client_FetchRequest (fetch_one t i start m)) s (srv_handler S') =
      (Inr (EncodeFetchResponse (fetched_one t i (LEO p') out)), h') \<and> int (length out) \<le> fetchMaxBytes m \<and>
    log_records p' = old @ numbered start rs @ newer \<and> ParseRecordStream out = Inr xs \<and>
    prefix (filter (\<lambda>r. start \<le> Offset r) xs) (numbered start rs @ filter (\<lambda>r. start \<le> Offset r) newer) \<and>
    (int (length (marshal_all (log_records p'))) \<le> fetchMaxBytes m \<longrightarrow>
       filter (\<lambda>r. start \<le> Offset r) xs = numbered start rs @ filter (\<lambda>r. start \<le> Offset r) newer)"
proof -
  from net_steps_append_only [OF steps inv lg(1)] obtain p' rest where
    p': "log_of (srv_handler S') (partitionKey t i) = Some p'" "log_inv p'" "log_records p' = log_records p @ rest"
    by (auto simp: prefix_def)
  let ?r0 = "hd (numbered start rs)"
  have r0: "?r0 \<in> set (numbered start rs)" "Offset ?r0 = start" using lg(3) by (cases rs; simp)+
  then have "?r0 \<in> set (log_records p')" using p'(3) lg(2) by simp
  from record_above_base [OF p'(2) this] r0(2) have base: "BaseOffset p' \<le> start" by simp
  from handleFetch_run [OF p'(1,2) base t au, of e m] obtain out h' where
    2: "handleFetch e (client_FetchRequest (fetch_one t i start m)) s (srv_handler S') =
        (Inr (EncodeFetchResponse (fetched_one t i (LEO p') out)), h')" "fetch_answer p' start m out"
      "int (length out) \<le> fetchMaxBytes m"
    by blast
  have "filter (\<lambda>r. start \<le> Offset r) old = []" using below(1) by (auto simp: filter_empty_conv not_le)
  moreover have "filter (\<lambda>r. start \<le> Offset r) (numbered start rs) = numbered start rs"
    using numbered_ge [OF below(2)] by (simp add: filter_id_conv)
  ultimately have "filter (\<lambda>r. start \<le> Offset r) (log_records p') =
      numbered start rs @ filter (\<lambda>r. start \<le> Offset r) rest"
    using p'(3) lg(2) by simp
  with 2(2) obtain xs where "ParseRecordStream out = Inr xs"
    "prefix (filter (\<lambda>r. start \<le> Offset r) xs) (numbered start rs @ filter (\<lambda>r. start \<le> Offset r) rest)"
    "int (length (marshal_all (log_records p'))) \<le> fetchMaxBytes m \<longrightarrow>
       filter (\<lambda>r. start \<le> Offset r) xs = numbered start rs @ filter (\<lambda>r. start \<le> Offset r) rest"
    unfolding fetch_answer_def by auto
  moreover have "log_records p' = old @ numbered start rs @ rest" using p'(3) lg(2) by simp
  ultimately show ?thesis using p'(1) 2(1,3) by blast
qed

end
