(* ===== verification/Broker_Properties.thy ===== *)
theory Broker_Properties
  imports Server Storage_Properties
begin

text \<open>
  The properties of the running broker: connections, the request handler and the data path
  through it, each followed by an application at a concrete input where it has hypotheses.
\<close>

section \<open>A concrete broker\<close>

definition calm_env :: env where
  "calm_env =
     \<lparr>e_clock = (\<lambda>k. 1000000 * k), e_rnd = Inr [1, 2, 3], e_quote = (\<lambda>s. s), e_list = (\<lambda>_. []),
      e_members = (\<lambda>ks. ks), e_protocols = (\<lambda>_ ks. ks), e_pick = (\<lambda>_ ks. ks), e_topics = (\<lambda>ks. ks),
      e_mechs = (\<lambda>ks. ks)\<rparr>"

definition fresh_broker :: Handler where
  "fresh_broker = NewHandler (\<lambda>_. Map.empty) ''data'' 1 ''127.0.0.1'' 9092"

definition request :: "i16 \<Rightarrow> i32 \<Rightarrow> RequestHeader" where
  "request key cid = \<lparr>ApiKey = key, ApiVersion = 0, CorrelationId = cid, ClientId = ''cli''\<rparr>"

lemma fresh_served: "n < 2 ^ 64 \<Longrightarrow> served calm_env n fresh_broker"
  unfolding fresh_broker_def by (rule NewHandler_served) (simp_all add: calm_env_def visits_id)

lemma fresh_setup [simp]:
  "authorizeTopic fresh_broker s t oper" "\<not> saslBlocked fresh_broker s" "openable fresh_broker k"
  by (simp_all add: fresh_broker_def NewHandler_def authorizeTopic_def Authorize_def NewACLManager_def
      saslBlocked_def openable_def)

lemma request_simps [simp]: "ApiKey (request key cid) = key" "CorrelationId (request key cid) = cid"
  by (simp_all add: request_def)

lemma topic_t: "isValidTopicName ''t''"
  by (simp add: isValidTopicName_def validTopicChar_def)

lemma request_ok_small:
  "length msg < 1000 \<Longrightarrow> request_ok (request key cid, msg)"
  by (simp add: request_ok_def header_ok_def small_string_def request_def EncodeRequestHeader_def
      WriteInt16_def WriteInt32_def WriteString_def maxRequestFrameBytes_def)


section \<open>Produce and fetch\<close>



text \<open>
  C38: A Produce request whose payload contains, after any number of well-formed records, a
  record with a length prefix below 20 makes the broker process panic.
\<close>

theorem short_record_crashes_broker:
  assumes "served e n h" and "isValidTopicName t" and "openable h (partitionKey t i)"
    and "\<not> saslBlocked h s" and "authorizeTopic h s t ''Write''" and "ApiKey hdr = ApiKeyProduce"
    and "list_all record_ok rs" and "length rs \<le> n" and "unat sz < 20" and "length buf = unat sz"
    and "small_bytes (marshal_all rs @ PutUint32 sz @ buf @ rest)"
  shows "\<exists>h'. HandleRequest e hdr (EncodeProduceRequest (one_partition acks timeout t i
      (marshal_all rs @ PutUint32 sz @ buf @ rest))) s h = (Inl Panic, s, h')"
  using handleProduce_crash [OF assms(1-3,5,7-11)] HandleRequest_Produce [OF assms(4,6)] by blast

theorem short_record_crashes_broker_witness:
  "\<exists>h'. HandleRequest calm_env (request ApiKeyProduce 1)
     (EncodeProduceRequest (one_partition 1 1000 ''t'' 0 (PutUint32 0))) None fresh_broker = (Inl Panic, None, h')"
proof -
  have srv: "served calm_env 0 fresh_broker" by (rule fresh_served) simp
  have sm: "small_bytes (marshal_all [] @ PutUint32 0 @ [] @ [])"
    by (simp add: small_bytes_def maxProtocolFieldBytes_def)
  from short_record_crashes_broker [OF srv topic_t fresh_setup(3) fresh_setup(2,1) request_simps(1) _ _ _ _ sm,
      where acks = 1 and timeout = 1000 and i = 0]
  show ?thesis by simp
qed

text \<open>
  A Produce request whose payload is text (it starts with a printable character, so
  that its first four bytes claim more than the payload holds) is acknowledged without an
  error and with base offset 0, and nothing is stored.
\<close>

theorem text_payload_dropped:
  assumes "served e n h" and "isValidTopicName t" and "openable h (partitionKey t i)"
    and "\<not> saslBlocked h s" and "authorizeTopic h s t ''Write''" and "ApiKey hdr = ApiKeyProduce"
    and "small_bytes data" and "length data < 4 + unat (Uint32 (take 4 data))"
  shows "\<exists>p h' time.
    HandleRequest e hdr (EncodeProduceRequest (one_partition acks timeout t i data)) s h =
      (Inr (EncodeProduceResponse (produced t i 0 time)), s, h') \<and>
    found_log e h (partitionKey t i) p \<and> log_of h' (partitionKey t i) = Some p"
  using handleProduce_dropped [OF assms(1-3,5,7,8)] HandleRequest_Produce [OF assms(4,6)] by metis

theorem text_payload_dropped_witness:
  "\<exists>p h' time.
    HandleRequest calm_env (request ApiKeyProduce 1)
        (EncodeProduceRequest (one_partition 1 1000 ''t'' 0 (bytes_of ''hello''))) None fresh_broker =
      (Inr (EncodeProduceResponse (produced ''t'' 0 0 time)), None, h') \<and>
    found_log calm_env fresh_broker (partitionKey ''t'' 0) p \<and> log_of h' (partitionKey ''t'' 0) = Some p"
proof -
  have srv: "served calm_env 0 fresh_broker" by (rule fresh_served) simp
  have sm: "small_bytes (bytes_of ''hello'')" by (simp add: small_bytes_def maxProtocolFieldBytes_def)
  have "length (bytes_of ''hello'') < 4 + unat (Uint32 (take 4 (bytes_of ''hello'')))"
    by (simp add: bytes_of_def Uint32_def)
  from text_payload_dropped [OF srv topic_t fresh_setup(3) fresh_setup(2,1) request_simps(1) sm this]
  show ?thesis by blast
qed


section \<open>Connections\<close>

text \<open>
  C9: The connection loop, whatever bytes it is fed, implements the specification: cut the
  stream into requests, serve them in order until one fails, write one frame per answer. It
  ends for every input. If writes to the socket fail, the requests served are an initial
  part and the client received an initial part of the answers; if none fails, all requests
  of the stream are served and exactly the answers are written.
\<close>

theorem connection_implements_spec:
  "\<exists>f c' n as err.
     Handle es ws (NewConnectionHandler input h) = (f, c') \<and>
     serveAll es 0 (take n (requestsOf input)) NewSASLSession h = (as, err, saslSession c', handler c') \<and>
     prefix (conn_out c') (concat (map responseFrame as)) \<and>
     (f = Crashed \<longleftrightarrow> err = Some Panic) \<and>
     ((\<forall>k. 3 \<le> ws k) \<longrightarrow> length (requestsOf input) \<le> n \<and> conn_out c' = concat (map responseFrame as))"
proof -
  obtain f c' where run: "Handle es ws (NewConnectionHandler input h) = (f, c')" by (metis prod.exhaust)
  from Handle_refines [OF run] obtain n as err where
    "serveAll es 0 (take n (requestsOf input)) NewSASLSession h = (as, err, saslSession c', handler c')"
    "prefix (conn_out c') (concat (map responseFrame as))" "f = Crashed \<longleftrightarrow> err = Some Panic"
    "(\<forall>k. 3 \<le> ws k) \<longrightarrow> length (requestsOf input) \<le> n \<and> conn_out c' = concat (map responseFrame as)"
    by (auto simp: refines_run_def NewConnectionHandler_def)
  with run show ?thesis by blast
qed

theorem connection_implements_spec_witness:
  "\<exists>f c' as err.
     Handle (\<lambda>_. calm_env) (\<lambda>_. 3) (NewConnectionHandler [0, 0, 0, 0, 0, 0, 0, 9] fresh_broker) = (f, c') \<and>
     serveAll (\<lambda>_. calm_env) 0 (requestsOf [0, 0, 0, 0, 0, 0, 0, 9]) NewSASLSession fresh_broker =
       (as, err, saslSession c', handler c') \<and>
     conn_out c' = concat (map responseFrame as)"
  using connection_implements_spec [of "\<lambda>_. calm_env" "\<lambda>_. 3" "[0, 0, 0, 0, 0, 0, 0, 9]" fresh_broker]
  by auto

text \<open>
  C28: A client that sends well-formed requests, over a socket whose writes succeed, reads
  back complete response frames: one for each request up to the first that fails, in the
  order of the requests, each with the correlation id of its request. If no request fails,
  every request is answered.
\<close>

theorem answers_match_requests:
  assumes "list_all request_ok rs" and "\<And>k. 3 \<le> ws k"
    and "serveAll es 0 rs NewSASLSession h = (as, err, s', h')" and "list_all response_ok as"
  shows "\<exists>f c'. Handle es ws (NewConnectionHandler (concat (map requestFrame rs)) h) = (f, c') \<and>
    rd_repeat (length as) readResponse (conn_out c') = (Inr as, []) \<and>
    map fst as = map (\<lambda>r. CorrelationId (fst r)) (take (length as) rs) \<and>
    (err = None \<longleftrightarrow> length as = length rs) \<and> handler c' = h'"
proof -
  let ?c = "NewConnectionHandler (concat (map requestFrame rs)) h"
  obtain f c' where run: "Handle es ws ?c = (f, c')" by (metis prod.exhaust)
  have req: "requestsOf (conn_in ?c) = rs"
    using requestsOf_frames [OF assms(1), of "[]"] by (simp add: NewConnectionHandler_def)
  from Handle_refines [OF run] assms(2,3) have "conn_out c' = concat (map responseFrame as)" "handler c' = h'"
    unfolding refines_run_def req by (auto simp: NewConnectionHandler_def)
  with response.repeat_enc [OF assms(4), of "[]"] serveAll_in_order [OF assms(3)] run show ?thesis by auto
qed

theorem answers_match_requests_witness:
  "\<exists>f c' answer. Handle (\<lambda>_. calm_env) (\<lambda>_. 3)
      (NewConnectionHandler (concat (map requestFrame [(request ApiKeyApiVersions 7, [])])) fresh_broker) = (f, c') \<and>
    rd_repeat 1 readResponse (conn_out c') = (Inr [(7, answer)], [])"
proof -
  let ?a = "EncodeApiVersionResponse DefaultApiVersionResponse"
  let ?rs = "[(request ApiKeyApiVersions 7, [])]"
  have ok: "list_all request_ok ?rs" by (simp add: request_ok_small)
  have run: "serveAll (\<lambda>_. calm_env) 0 ?rs NewSASLSession fresh_broker =
      ([(7, ?a)], None, NewSASLSession, fresh_broker)"
    by (simp add: HandleRequest_def dispatch_def handleApiVersions_def act_return_def ApiKey_defs)
  have small: "list_all response_ok [(7, ?a)]"
    by (simp add: response_ok_def EncodeApiVersionResponse_def DefaultApiVersionResponse_def WriteInt16_def
        WriteInt32_def WriteArray_def EncodeApiVersionKey_def)
  from answers_match_requests [OF ok _ run small, of "\<lambda>_. 3"] show ?thesis by auto
qed

text \<open>
  C10: Serving a whole connection, whatever bytes it is fed and wherever writes fail, keeps the
  invariant of the broker: every partition stays well-formed, partition keys come from valid
  topic names, the caps hold, the coordinators stay in states their operations lead to and
  the session stays consistent. The process can panic only if the stream contains a Produce
  request.
\<close>

theorem connection_keeps_invariant:
  assumes "\<And>j. served (es j) (run_appends es 0 (requestsOf input) NewSASLSession h + n) h"
    and "Handle es ws (NewConnectionHandler input h) = (f, c')"
  shows "(\<forall>j. served (es j) (if f = Crashed then 0 else n) (handler c')) \<and> session_inv (saslSession c') \<and>
    (f = Crashed \<longrightarrow> (\<exists>r \<in> set (requestsOf input). ApiKey (fst r) = ApiKeyProduce))"
proof -
  from Handle_refines [OF assms(2)] obtain m as err where
    run: "serveAll es 0 (take m (requestsOf input)) NewSASLSession h = (as, err, saslSession c', handler c')"
      "f = Crashed \<longleftrightarrow> err = Some Panic"
    unfolding refines_run_def by (auto simp: NewConnectionHandler_def)
  have room: "served (es j) (run_appends es 0 (take m (requestsOf input)) NewSASLSession h + n) h" for j
    by (rule served_mono [OF assms(1) [of j]]) (simp add: run_appends_take)
  have "length (snd r) < 2 ^ 31" if "r \<in> set (take m (requestsOf input))" for r
    using requestsOf_bounded [OF in_set_takeD [OF that]] by (simp add: maxRequestFrameBytes_def)
  from serveAll_served [OF room _ session_inv_new run(1)] this run(2) show ?thesis
    by (auto dest: in_set_takeD)
qed

theorem connection_keeps_invariant_witness:
  "\<exists>f c'. Handle (\<lambda>_. calm_env) (\<lambda>_. 3)
      (NewConnectionHandler (requestFrame (request ApiKeyApiVersions 7, [])) fresh_broker) = (f, c') \<and>
    f = Closed \<and> broker_inv 5 (handler c')"
proof -
  let ?in = "requestFrame (request ApiKeyApiVersions 7, [])"
  have ok: "list_all request_ok [(request ApiKeyApiVersions 7, [])]" by (simp add: request_ok_small)
  have reqs: "requestsOf ?in = [(request ApiKeyApiVersions 7, [])]"
    using requestsOf_frames [OF ok, of "[]"] by simp
  have "run_appends (\<lambda>_. calm_env) 0 (requestsOf ?in) NewSASLSession fresh_broker = 0"
    unfolding reqs by (simp add: request_appends_def ApiKey_defs split: prod.split sum.split option.split)
  then have srv: "served calm_env (run_appends (\<lambda>_. calm_env) 0 (requestsOf ?in) NewSASLSession fresh_broker + 5) fresh_broker"
    using fresh_served [of 5] by simp
  obtain f c' where run: "Handle (\<lambda>_. calm_env) (\<lambda>_. 3) (NewConnectionHandler ?in fresh_broker) = (f, c')"
    by (metis prod.exhaust)
  from connection_keeps_invariant [OF srv run] have "f \<noteq> Crashed" "broker_inv (if f = Crashed then 0 else 5) (handler c')"
    unfolding reqs by (auto simp: ApiKey_defs served_def)
  with run show ?thesis by (cases f) auto
qed

text \<open>
  C11: With SASL required, a connection on which no request proves an identity leaves the
  whole state of the broker as it was, whatever it sends. A request proves an identity if it
  is a SaslAuthenticate request whose token the stored credentials confirm: a PLAIN password
  that derives the stored key, or a SCRAM proof for the nonces and the messages of this
  exchange.
\<close>

theorem anonymous_connection_changes_nothing:
  assumes "saslRequired h" and "Handle es ws (NewConnectionHandler input h) = (f, c')"
    and "\<And>pre r post as s. requestsOf input = pre @ r # post \<Longrightarrow>
      serveAll es 0 pre NewSASLSession h = (as, None, s, h) \<Longrightarrow> \<not> proves_identity (es (length pre)) h s r"
  shows "handler c' = h"
proof (rule ccontr)
  assume ne: "handler c' \<noteq> h"
  from Handle_refines [OF assms(2)] obtain m as err where
    run: "serveAll es 0 (take m (requestsOf input)) NewSASLSession h = (as, err, saslSession c', handler c')"
    unfolding refines_run_def by (auto simp: NewConnectionHandler_def)
  have "\<not> authenticated NewSASLSession" by (simp add: NewSASLSession_def)
  from serveAll_guarded [OF assms(1) this run ne] obtain pre r post as1 s1 where
    bad: "take m (requestsOf input) = pre @ r # post" "serveAll es 0 pre NewSASLSession h = (as1, None, s1, h)"
      "proves_identity (es (length pre)) h s1 r"
    by auto
  have "requestsOf input = pre @ r # post @ drop m (requestsOf input)"
    using bad(1) by (metis append.assoc append_Cons append_take_drop_id)
  from assms(3) [OF this bad(2)] bad(3) show False by contradiction
qed

theorem anonymous_connection_changes_nothing_witness:
  "\<exists>f c'. Handle (\<lambda>_. calm_env) (\<lambda>_. 3)
      (NewConnectionHandler (requestFrame (request ApiKeyInitProducerId 7, [])) (SetSASLRequired fresh_broker True)) = (f, c') \<and>
    handler c' = SetSASLRequired fresh_broker True"
proof -
  let ?h = "SetSASLRequired fresh_broker True"
  let ?in = "requestFrame (request ApiKeyInitProducerId 7, [])"
  have ok: "list_all request_ok [(request ApiKeyInitProducerId 7, [])]" by (simp add: request_ok_small)
  have reqs: "requestsOf ?in = [(request ApiKeyInitProducerId 7, [])]"
    using requestsOf_frames [OF ok, of "[]"] by simp
  have req: "saslRequired ?h" by (simp add: SetSASLRequired_def)
  obtain f c' where run: "Handle (\<lambda>_. calm_env) (\<lambda>_. 3) (NewConnectionHandler ?in ?h) = (f, c')"
    by (metis prod.exhaust)
  have "handler c' = ?h"
  proof (rule anonymous_connection_changes_nothing [OF req run])
    fix pre r post
    assume "requestsOf ?in = pre @ r # post"
    then have "ApiKey (fst r) = ApiKeyInitProducerId" unfolding reqs by (auto simp: Cons_eq_append_conv)
    then show "\<not> proves_identity calm_env ?h s r" for s by (simp add: proves_identity_def ApiKey_defs)
  qed
  with run show ?thesis by blast
qed


section \<open>Who may change what\<close>



text \<open>
  C31: The directory of a partition with a valid topic name is a direct child of the data
  directory, whatever the topic is called. Two partitions with non-negative numbers share a
  directory only if they are the same. Negative numbers, which the broker accepts, break this:
  a partition \<open>j > 0\<close> of a topic whose name ends in a dash has the directory of partition \<open>-j\<close>
  of the topic without the dash.
\<close>

theorem partition_directories_confined:
  assumes "isValidTopicName t" and "isValidTopicName t'" and "0 \<le> sint i" and "0 \<le> sint i'"
  shows "filepathJoin d (partitionKey t i) = renderPath (rooted d) (cleanElems d @ [partitionKey t i]) \<and>
    (filepathJoin d (partitionKey t i) = filepathJoin d (partitionKey t' i') \<longleftrightarrow> t = t' \<and> i = i') \<and>
    (0 < sint j \<longrightarrow> filepathJoin d (partitionKey (t @ ''-'') j) = filepathJoin d (partitionKey t (- j)))"
proof -
  note plain = partitionKey_plain [OF assms(1), of i] partitionKey_plain [OF assms(2), of i']
  have "t = t' \<and> i = i'" if "filepathJoin d (partitionKey t i) = filepathJoin d (partitionKey t' i')"
    using filepathJoin_inj [OF plain that] partitionKey_inj assms(3,4) by blast
  with filepathJoin_child [OF plain(1), of d] partitionKey_negative [of j t] show ?thesis by (metis (no_types))
qed

theorem partition_directories_confined_witness:
  "filepathJoin ''/var/data/'' (partitionKey ''..x'' 0) = ''/var/data/..x-0'' \<and>
   filepathJoin ''/var/data/'' (partitionKey ''..x'' 0) \<noteq> filepathJoin ''/var/data/'' (partitionKey ''..x'' 1) \<and>
   filepathJoin ''/var/data/'' (partitionKey ''..x-'' 1) = filepathJoin ''/var/data/'' (partitionKey ''..x'' (- 1))"
proof -
  have ok: "isValidTopicName ''..x''" by (simp add: isValidTopicName_def validTopicChar_def)
  have "cleanElems ''/var/data/'' = [''var'', ''data'']"
    by (simp add: cleanElems_def pathElems_def cleanStep_def)
  moreover have "partitionKey ''..x'' 0 = ''..x-0''" by code_simp
  ultimately show ?thesis
    using partition_directories_confined [OF ok ok, of 0 1 "''/var/data/''" 1] by (auto simp: renderPath_def rooted_def)
qed


section \<open>Logging in\<close>

lemma mechanism_names: "ToUpper ''scram-sha-256'' = ''SCRAM-SHA-256''" "ToUpper ''plain'' = ''PLAIN''"
  by code_simp+

text \<open>
  C29: A user added with a password, whose name is not empty and contains neither a comma nor
  an equals sign (the server does not implement the escapes of \<open>saslname\<close>), can log in; neither
  name nor password has a NUL byte. With SCRAM-SHA-256, an RFC 5802 client that knows the
  password (name and password being such that SASLprep leaves them unchanged) completes the exchange in two messages, the
  session is authenticated as that user, and the last message of the server carries the
  signature the client expects. With PLAIN, the user's own password is accepted.
\<close>

theorem user_can_log_in:
  assumes "plain_saslname u" and "u \<noteq> ''''" and "no_comma nonce" and "nonce \<noteq> ''''" and "no_nul u" and "no_nul pw"
    and "sa = fst (AddUser (Inr salt) sa0 u pw)" and "full = nonce @ RawStdEncodeToString rnd"
    and "crd = deriveCredential pw salt scramIterations"
  shows "\<exists>s1 s2.
    Authenticate quote (Inr rnd) sa (SetMechanism NewSASLSession ''scram-sha-256'') (bytes_of (rfc_client_first u nonce)) =
      (s1, Inr (bytes_of (server_first_text full crd), False, '''')) \<and> \<not> authenticated s1 \<and>
    Authenticate quote rnd2 sa s1
        (bytes_of (rfc_client_final u pw nonce (server_first_text full crd) full salt scramIterations)) =
      (s2, Inr (bytes_of (''v='' @ StdEncodeToString (hmacSHA256 (ServerKey crd)
         (bytes_of (client_auth_message u nonce (server_first_text full crd) full)))), True, u)) \<and>
    authenticated s2 \<and> Username s2 = u \<and>
    AuthenticatePlain sa (0 # bytes_of u @ 0 # bytes_of pw) = Inr u"
proof -
  let ?s0 = "SetMechanism NewSASLSession ''scram-sha-256''"
  let ?s1 = "?s0\<lparr>Username := u, cred := Some crd, clientFirstBare := ''n='' @ u @ '',r='' @ nonce,
    serverFirst := server_first_text full crd, fullNonce := full, scramStep := 1\<rparr>"
  have mech: "Mechanism ?s0 = ''SCRAM-SHA-256''" "scramStep ?s0 = 0" "\<not> authenticated ?s0"
    by (simp_all add: SetMechanism_def NewSASLSession_def mechanism_names del: ToUpper.simps)
  have cr: "mget (credentials sa) u = Some crd" by (simp add: assms(7,9) AddUser_def)
  have plain: "no_comma u" using assms(1) by (simp add: plain_saslname_def no_comma_def)
  have rfc: "rfc_client_first u nonce = client_first u nonce" "rfc_client_final u = client_final u"
    by (simp_all add: rfc_client_first_def rfc_client_final_def saslname_plain [OF assms(1)])
  have nc: "no_comma full" using assms(3) no_comma_b64 [of False rnd] by (simp add: assms(8) no_comma_def)
  have first: "Authenticate quote (Inr rnd) sa ?s0 (bytes_of (client_first u nonce)) =
      (?s1, Inr (bytes_of (server_first_text full crd), False, ''''))"
    using scramClientFirst_honest [OF plain assms(3,2,4) cr, of quote rnd ?s0] mech
    by (simp add: Authenticate_def authenticateScram_def assms(8) Let_def)
  have final: "Authenticate quote rnd2 sa ?s1
        (bytes_of (client_final u pw nonce (server_first_text full crd) full salt scramIterations)) =
      (?s1\<lparr>authenticated := True, scramStep := 2\<rparr>,
       Inr (bytes_of (''v='' @ StdEncodeToString (hmacSHA256 (ServerKey crd)
         (bytes_of (client_auth_message u nonce (server_first_text full crd) full)))), True, u))"
    using scramClientFinal_honest [of ?s1 pw salt scramIterations u nonce quote] nc mech
    by (simp add: Authenticate_def authenticateScram_def assms(9))
  have "knows_password sa u pw" by (rule AddUser_knows) (simp add: assms(7))
  then have "AuthenticatePlain sa (0 # bytes_of u @ 0 # bytes_of pw) = Inr u"
    using plain_login [OF assms(5,6)] by blast
  with first final mech(3) show ?thesis unfolding rfc
    by (intro exI [of _ ?s1] exI [of _ "?s1\<lparr>authenticated := True, scramStep := 2\<rparr>"]) simp
qed

theorem user_can_log_in_witness:
  "\<exists>s1 s2 resp resp2 crd.
    Authenticate (\<lambda>s. s) (Inr [1, 2, 3]) (fst (AddUser (Inr [7]) NewSASLAuthenticator ''alice'' ''secret''))
      (SetMechanism NewSASLSession ''scram-sha-256'') (bytes_of (rfc_client_first ''alice'' ''abc'')) = (s1, Inr (resp, False, '''')) \<and>
    Authenticate (\<lambda>s. s) (Inr []) (fst (AddUser (Inr [7]) NewSASLAuthenticator ''alice'' ''secret'')) s1
      (bytes_of (rfc_client_final ''alice'' ''secret'' ''abc'' (server_first_text (''abc'' @ RawStdEncodeToString [1, 2, 3]) crd)
        (''abc'' @ RawStdEncodeToString [1, 2, 3]) [7] scramIterations)) = (s2, Inr (resp2, True, ''alice'')) \<and>
    authenticated s2"
proof -
  have ok: "plain_saslname ''alice''" "''alice'' \<noteq> ''''" "no_comma ''abc''" "''abc'' \<noteq> ''''" "no_nul ''alice''" "no_nul ''secret''"
    by (simp_all add: plain_saslname_def no_comma_def no_nul_def bytes_of_def)
  from user_can_log_in [OF ok refl refl refl, of "\<lambda>s. s" "[1, 2, 3]" "[7]" NewSASLAuthenticator "Inr []"]
  show ?thesis by blast
qed

text \<open>
  A name with a comma or an equals sign is looked up in its escaped form, so its owner is
  refused, even with the right password, unless somebody else has that form as a name.
\<close>

lemma escaped_name_refused:
  assumes "\<not> plain_saslname u" and "no_comma nonce" and "nonce \<noteq> ''''"
    and "sa = fst (AddUser (Inr salt) NewSASLAuthenticator u pw)"
  shows "\<exists>s1 err. Authenticate quote rnd sa (SetMechanism NewSASLSession ''scram-sha-256'') (bytes_of (rfc_client_first u nonce)) =
    (s1, Inl err) \<and> \<not> authenticated s1"
proof -
  let ?s0 = "SetMechanism NewSASLSession ''scram-sha-256''"
  have mech: "Mechanism ?s0 = ''SCRAM-SHA-256''" "scramStep ?s0 = 0" "\<not> authenticated ?s0"
    by (simp_all add: SetMechanism_def NewSASLSession_def mechanism_names del: ToUpper.simps)
  have "u \<noteq> []" using assms(1) by (auto simp: plain_saslname_def)
  moreover have "mget (credentials sa) (saslname u) = None"
    using saslname_longer [OF assms(1)] by (auto simp: assms(4) AddUser_def NewSASLAuthenticator_def)
  ultimately have "scramClientFirst quote rnd sa ?s0 (bytes_of (rfc_client_first u nonce)) = (?s0, Inl (authFailed (saslname u)))"
    using assms(2,3) unfolding rfc_client_first_def
    by (intro scramClientFirst_unknown no_comma_saslname saslname_nonempty) simp_all
  with mech show ?thesis by (simp add: Authenticate_def authenticateScram_def)
qed

text \<open>
  C30: Over any sequence of SASL messages, a session that starts unauthenticated and ends
  authenticated contains a message that the credentials confirmed: with the session as it was
  then, a PLAIN token with a password that derives the stored key of its user, or a SCRAM
  final message with the full nonce and a proof whose client key hashes to the stored key.
\<close>

theorem authenticated_session_was_verified:
  assumes "\<not> authenticated s" and "authenticated (foldl (sasl_exec quote sa) s ms)"
  shows "\<exists>pre m post. ms = pre @ m # post \<and> sasl_verified quote sa (foldl (sasl_exec quote sa) s pre) m"
  by (rule sasl.authenticated_has_verified [OF assms])

theorem authenticated_session_was_verified_witness:
  "\<exists>pre m post.
    [Handshake ''plain'', Token (Inr []) (0 # bytes_of ''alice'' @ 0 # bytes_of ''secret'')] = pre @ m # post \<and>
    sasl_verified (\<lambda>s. s) (fst (AddUser (Inr [7]) NewSASLAuthenticator ''alice'' ''secret''))
      (foldl (sasl_exec (\<lambda>s. s) (fst (AddUser (Inr [7]) NewSASLAuthenticator ''alice'' ''secret''))) NewSASLSession pre) m"
proof -
  let ?sa = "fst (AddUser (Inr [7]) NewSASLAuthenticator ''alice'' ''secret'')"
  have nul: "no_nul ''alice''" "no_nul ''secret''" by (simp_all add: no_nul_def bytes_of_def)
  have "knows_password ?sa ''alice'' ''secret''" by (rule AddUser_knows) (rule refl)
  then have "AuthenticatePlain ?sa (0 # bytes_of ''alice'' @ 0 # bytes_of ''secret'') = Inr ''alice''"
    using plain_login [OF nul] by blast
  then have "authenticated (foldl (sasl_exec (\<lambda>s. s) ?sa) NewSASLSession
      [Handshake ''plain'', Token (Inr []) (0 # bytes_of ''alice'' @ 0 # bytes_of ''secret'')])"
    by (simp add: Authenticate_def SetMechanism_def IsMechanismSupported_def AddUser_def NewSASLAuthenticator_def
        mechanism_names del: ToUpper.simps)
  from authenticated_session_was_verified [OF _ this] show ?thesis by (simp add: NewSASLSession_def)
qed

text \<open>
  The key derivation equals PBKDF2 of RFC 2898 with HMAC-SHA-256, for every password,
  salt, positive iteration count and key length.
\<close>

theorem pbkdf2_is_rfc2898:
  assumes "1 \<le> c"
  shows "pbkdf2HMACSHA256 P S c n = take n (concat (map (rfcF P S (nat c)) [1..<(n + 31) div 32 + 1]))"
  by (rule pbkdf2_rfc [OF assms])

theorem pbkdf2_is_rfc2898_witness:
  "pbkdf2HMACSHA256 (bytes_of ''pw'') [1] 4096 32 = take 32 (concat (map (rfcF (bytes_of ''pw'') [1] (nat 4096)) [1..<(32 + 31) div 32 + 1]))"
  by (rule pbkdf2_is_rfc2898) simp

text \<open>
  C40: A session that is already authenticated (by PLAIN, as any user) can take over the
  identity of another user without a proof: after a SaslHandshake that switches to
  SCRAM-SHA-256 and a client-first-message with the other user's name, the session is still
  authenticated, and every later request on it is authorized as that user.
\<close>

theorem scram_restart_takes_identity:
  assumes "authenticated s" and "scramStep s = 0" and "IsMechanismSupported (saslAuth h) ''SCRAM-SHA-256''"
    and "mget (credentials (saslAuth h)) victim = Some crd" and "no_comma victim" and "victim \<noteq> ''''"
    and "e_rnd (es (Suc k)) = Inr rnd" and "length victim < 1000"
    and "ApiKey hdr1 = ApiKeySaslHandshake" and "ApiKey hdr2 = ApiKeySaslAuthenticate"
  shows "\<exists>as s'. serveAll es k
      [(hdr1, client_SaslHandshakeRequest \<lparr>shreq_Mechanism = ''SCRAM-SHA-256''\<rparr>),
       (hdr2, client_SaslAuthenticateRequest \<lparr>sareq_AuthData = bytes_of (client_first victim ''x'')\<rparr>)] s h =
      (as, None, s', h) \<and>
    authenticated s' \<and> \<not> saslBlocked h (Some s') \<and>
    authorizeTopic h (Some s') t oper = Authorize (aclManager h) victim ''Topic'' t oper"
proof -
  let ?s0 = "SetMechanism s ''SCRAM-SHA-256''"
  let ?shreq = "\<lparr>shreq_Mechanism = ''SCRAM-SHA-256''\<rparr>"
  let ?sareq = "\<lparr>sareq_AuthData = bytes_of (client_first victim ''x'')\<rparr>"
  have up: "ToUpper ''SCRAM-SHA-256'' = ''SCRAM-SHA-256''" by code_simp
  have sh: "fst (DecodeSaslHandshakeRequest (client_SaslHandshakeRequest ?shreq)) = Inr ?shreq"
    by (subst shreq.dec_enc_exact) (simp_all add: shreq_ok_def small_string_def)
  have "sareq_ok ?sareq"
    using assms(8) by (simp add: sareq_ok_def small_bytes_def maxProtocolFieldBytes_def client_first_def)
  then have sar: "fst (DecodeSaslAuthenticateRequest (client_SaslAuthenticateRequest ?sareq)) = Inr ?sareq"
    by (simp add: sareq.dec_enc_exact)
  obtain resp where 1: "HandleRequest (es k) hdr1 (client_SaslHandshakeRequest ?shreq) (Some s) h =
      (Inr resp, Some ?s0, h)"
    using assms(1,3,9) by (simp add: HandleRequest_def handleSaslHandshake_def sh Let_def saslBlocked_def ApiKey_defs)
  obtain s' resp' where auth: "Authenticate (e_quote (es (Suc k))) (Inr rnd) (saslAuth h) ?s0
      (bytes_of (client_first victim ''x'')) = (s', Inr (resp', False, ''''))"
    and s': "authenticated s'" "Username s' = victim"
    using scramClientFirst_honest [OF assms(5) _ assms(6) _ assms(4), of "''x''" "e_quote (es (Suc k))" rnd ?s0] assms(1,2)
    by (simp add: Authenticate_def authenticateScram_def SetMechanism_def up no_comma_def Let_def del: ToUpper.simps)
  have blk: "\<not> saslBlocked h (Some ?s0)" using assms(1) by (simp add: saslBlocked_def SetMechanism_def)
  obtain resp2 where 2: "HandleRequest (es (Suc k)) hdr2 (client_SaslAuthenticateRequest ?sareq) (Some ?s0) h =
      (Inr resp2, Some s', h)"
    using auth assms(7,10) blk
    by (simp add: HandleRequest_def handleSaslAuthenticate_def sar Let_def ApiKey_defs)
  from 1 2 s' show ?thesis
    by (simp add: saslBlocked_def authorizeTopic_def sessionUser_def)
qed

theorem scram_restart_takes_identity_witness:
  "\<exists>as s'. serveAll (\<lambda>_. calm_env) 0
      [(request ApiKeySaslHandshake 1, client_SaslHandshakeRequest \<lparr>shreq_Mechanism = ''SCRAM-SHA-256''\<rparr>),
       (request ApiKeySaslAuthenticate 2,
        client_SaslAuthenticateRequest \<lparr>sareq_AuthData = bytes_of (client_first ''alice'' ''x'')\<rparr>)]
      (NewSASLSession\<lparr>Mechanism := ''PLAIN'', Username := ''mallory'', authenticated := True\<rparr>)
      (fst (AddSASLUser (Inr [7]) fresh_broker ''alice'' ''secret'')) =
      (as, None, s', fst (AddSASLUser (Inr [7]) fresh_broker ''alice'' ''secret'')) \<and> authenticated s'"
proof -
  let ?h = "fst (AddSASLUser (Inr [7]) fresh_broker ''alice'' ''secret'')"
  let ?s = "NewSASLSession\<lparr>Mechanism := ''PLAIN'', Username := ''mallory'', authenticated := True\<rparr>"
  have up: "ToUpper ''SCRAM-SHA-256'' = ''SCRAM-SHA-256''" by code_simp
  have sa: "saslAuth ?h = fst (AddUser (Inr [7]) NewSASLAuthenticator ''alice'' ''secret'')"
    by (simp add: AddSASLUser_def fresh_broker_def NewHandler_def split: prod.split)
  have mech: "IsMechanismSupported (saslAuth ?h) ''SCRAM-SHA-256''"
    unfolding sa by (simp add: IsMechanismSupported_def up AddUser_def NewSASLAuthenticator_def del: ToUpper.simps)
  have cr: "mget (credentials (saslAuth ?h)) ''alice'' = Some (deriveCredential ''secret'' [7] scramIterations)"
    unfolding sa by (simp add: AddUser_def)
  have s: "authenticated ?s" "scramStep ?s = 0" by (simp_all add: NewSASLSession_def)
  have rnd: "e_rnd calm_env = Inr [1, 2, 3]" by (simp add: calm_env_def)
  have alice: "no_comma ''alice''" "''alice'' \<noteq> ''''" "length ''alice'' < 1000" by (simp_all add: no_comma_def)
  from scram_restart_takes_identity [where es = "\<lambda>_. calm_env" and k = 0, OF s mech cr alice(1,2) rnd alice(3)
      request_simps(1) request_simps(1)]
  show ?thesis by blast
qed


section \<open>The running server\<close>

text \<open>
  From a start on a broker that satisfies its invariant, whatever clients connect and
  send, in whatever order their requests are served, whatever the cleaner does in between
  and even if the process panics, the broker keeps its invariant and every session stays
  consistent.
\<close>

theorem server_keeps_invariant:
  assumes "broker_inv 0 h" and "server_step\<^sup>*\<^sup>* (fst (Start bind (NewTCPServer a h))) S"
  shows "server_inv S"
proof (rule server_steps_inv [OF assms(2)])
  show "server_inv (fst (Start bind (NewTCPServer a h)))"
    using assms(1) by (simp add: server_inv_def Start_def NewTCPServer_def split: option.split)
qed

theorem server_keeps_invariant_witness:
  "server_inv ((fst (Start (\<lambda>_. None) (NewTCPServer '':9092'' fresh_broker)))
     \<lparr>conns := mput 0 (NewConnectionHandler [0, 0, 0, 0] fresh_broker) []\<rparr>)"
proof -
  let ?S = "fst (Start (\<lambda>_. None) (NewTCPServer '':9092'' fresh_broker))"
  have inv: "broker_inv 0 fresh_broker" using fresh_served [of 0] by (simp add: served_def)
  have S: "srv_handler ?S = fresh_broker" "conns ?S = []" "listener ?S = Listening" "\<not> crashed ?S"
    by (simp_all add: Start_def NewTCPServer_def)
  have "net_step ?S (?S\<lparr>conns := mput 0 (NewConnectionHandler [0, 0, 0, 0] fresh_broker) []\<rparr>)"
    using net_step.conn [OF conn_step.accept [of ?S 0 "[0, 0, 0, 0]"]] S by simp
  then have "server_step\<^sup>*\<^sup>* ?S (?S\<lparr>conns := mput 0 (NewConnectionHandler [0, 0, 0, 0] fresh_broker) []\<rparr>)"
    by (intro r_into_rtranclp) (simp add: server_step_def)
  from server_keeps_invariant [OF inv this] show ?thesis .
qed

text \<open>A broker after its first batch, for the applications below.\<close>

definition two_samples :: bytes where
  "two_samples = EncodeProduceRequest (one_partition 1 1000 ''t'' 0 (marshal_all [sample, sample']))"

lemma two_samples_small: "small_bytes (marshal_all [sample, sample'])" "length two_samples < 1000"
proof -
  have len: "length (marshal_all [sample, sample']) = 61"
    using sample_ok by (simp add: length_Marshal sample_def sample'_def optLen_def)
  then show "small_bytes (marshal_all [sample, sample'])" by (simp add: small_bytes_def maxProtocolFieldBytes_def)
  show "length two_samples < 1000"
    using len by (simp add: two_samples_def EncodeProduceRequest_def one_partition_def WriteArray_def EncodeTopicProduceData_def
        EncodePartitionProduceData_def WriteString_def WriteInt16_def WriteInt32_def WriteBytes_def split: if_splits)
qed

lemma filled_broker:
  obtains ack h p start old where
    "handleProduce calm_env two_samples (Some NewSASLSession) fresh_broker = (Inr ack, h)"
    "same_setup fresh_broker h" "broker_inv 0 h" "mget (partitions h) (partitionKey ''t'' 0) = Some p" "log_inv p"
    "log_records p = old @ numbered start [sample, sample']"
proof -
  have srv: "served calm_env 2 fresh_broker" by (rule fresh_served) simp
  from handleProduce_run [OF srv topic_t fresh_setup(3,1) sample_ok _ _ two_samples_small(1)]
  obtain ack h p start old where
    h: "handleProduce calm_env two_samples (Some NewSASLSession) fresh_broker = (Inr ack, h)" "same_setup fresh_broker h"
      "log_of h (partitionKey ''t'' 0) = Some p" "log_inv p" "log_records p = old @ numbered start [sample, sample']"
    unfolding two_samples_def by (auto simp: numeral_2_eq_2) (metis)
  note run = HandleRequest_Produce [OF fresh_setup(2) request_simps(1) h(1), of 1]
  have "served calm_env (request_appends calm_env (ApiKey (request ApiKeyProduce 1)) two_samples fresh_broker + 0) fresh_broker"
    using two_samples_small(2) by (intro fresh_served) (simp add: request_appends_def)
  from HandleRequest_served [OF this _ session_inv_new run] two_samples_small(2) have "broker_inv 0 h" by (simp add: served_def)
  with that h show thesis by (simp add: log_of_def)
qed



end
