(* ===== verification/Log_Calls.thy ===== *)
theory Log_Calls
  imports Commit_Log Cleaner
begin

text \<open>
  A partition under the calls of all goroutines at once: the produce handlers, the fetch
  handlers, the dashboard and the cleaner (\<open>src/internal/storage/partition_log.go\<close>). The methods
  that write take the write lock, so the calls of a partition happen one after the other, in
  an order that no caller controls; in particular the cleaner's decisions (\<open>Stats\<close>, then
  \<open>RemoveOldestSegment\<close>) may be overtaken by appends. \<open>Read\<close> holds only the read lock;
  \<open>Concurrent_Reads\<close> is about several of them at once.
\<close>

section \<open>Calls\<close>

datatype log_call =
    CallAppend Record
  | CallRead u64
  | CallZeroCopy u64 int
  | CallRemoveOldest
  | CallCompact

fun log_do :: "log_call \<Rightarrow> PartitionLog \<Rightarrow> PartitionLog" where
  "log_do (CallAppend r) p = fst (Append p r)"
| "log_do (CallRead start) p = snd (Read p start)"
| "log_do (CallZeroCopy start maxB) p = p"
| "log_do CallRemoveOldest p = fst (RemoveOldestSegment p)"
| "log_do CallCompact p = fst (CompactSegments p)"

fun appended :: "log_call list \<Rightarrow> Record list" where
  "appended [] = []"
| "appended (CallAppend r # cs) = r # appended cs"
| "appended (_ # cs) = appended cs"

lemma appended_Cons: "appended (c # cs) = appended [c] @ appended cs"
  by (cases c) simp_all


section \<open>One call\<close>

lemma table_append:
  "table (xs @ ys) k = (case lastRecord k ys of None \<Rightarrow> table xs k | Some r \<Rightarrow> Value r)"
  by (simp add: table_def lastRecord_append split: option.split)

lemma CompactSegments_table:
  assumes "log_inv p" and "k \<noteq> []"
  shows "kept_value (table (log_records (fst (CompactSegments p))) k) (table (log_records p) k)"
proof (cases "length (segments p) \<le> 1")
  case True
  then show ?thesis by (simp add: CompactSegments_def kept_value_refl)
next
  case False
  let ?xs = "concat (map (segment_records (pl_dir p)) (butlast (segments p)))"
  let ?ys = "segment_records (pl_dir p) (activeSegment p)"
  have split: "log_records p = ?xs @ ?ys" using log_records_active [of p] assms(1) by (simp add: log_inv_def)
  obtain p' n where "CompactSegments p = (p', Inr n)" "log_records p' = filter (kept (latestOffsets (?xs @ ?ys))) ?xs @ ?ys"
    using CompactSegments_correct [OF assms(1)] False unfolding split by auto
  moreover have "sorted_wrt (<) (map Offset (?xs @ ?ys))" using log_inv_offsets [OF assms(1)] unfolding split .
  ultimately show ?thesis using table_compacted [OF _ assms(2), of ?xs ?ys] split
    by (auto simp: kept_value_def table_def empty_latest_def lastRecord_append)
qed

lemma CompactSegments_subseq:
  assumes "log_inv p"
  shows "subseq (log_records (fst (CompactSegments p))) (log_records p)"
proof -
  have "log_records p = concat (map (segment_records (pl_dir p)) (butlast (segments p))) @
      segment_records (pl_dir p) (activeSegment p)"
    using log_records_active [of p] assms by (simp add: log_inv_def)
  moreover from CompactSegments_correct [OF assms] obtain p' n where
    "CompactSegments p = (p', Inr n)"
    "log_records p' =
      (if length (segments p) \<le> 1 then log_records p
       else filter (kept (latestOffsets (log_records p)))
              (concat (map (segment_records (pl_dir p)) (butlast (segments p)))) @
            segment_records (pl_dir p) (activeSegment p))"
    by blast
  ultimately show ?thesis by (auto intro: list_emb_append_mono)
qed

text \<open>What a call may do to the log of a partition.\<close>

definition call_effect :: "log_call list \<Rightarrow> PartitionLog \<Rightarrow> PartitionLog \<Rightarrow> bool" where
  "call_effect cs p p' \<longleftrightarrow>
     (let new = numbered (LEO p) (appended cs)
      in log_inv p' \<and> LEO p' = LEO p + of_nat (length (appended cs)) \<and>
         subseq (log_records p') (log_records p @ new) \<and>
         (CallRemoveOldest \<notin> set cs \<longrightarrow> (\<forall>k. k \<noteq> [] \<longrightarrow> kept_value (table (log_records p') k) (table (log_records p @ new) k))) \<and>
         (CallRemoveOldest \<notin> set cs \<longrightarrow> CallCompact \<notin> set cs \<longrightarrow> log_records p' = log_records p @ new))"

lemma log_do_effect:
  assumes "log_inv p" and "list_all record_ok (appended [c])" and "unat (LEO p) + length (appended [c]) < 2 ^ 64"
  shows "call_effect [c] p (log_do c p)"
proof (cases c)
  case (CallAppend r)
  with plog.app_law [of p r] assms show ?thesis by (auto simp: call_effect_def)
next
  case (CallRead start)
  obtain p' where "snd (Read p start) = p'" "log_inv p'" "log_records p' = log_records p" "LEO p' = LEO p"
    using plog.rd_law [OF assms(1), of start] by auto
  with CallRead show ?thesis by (simp add: call_effect_def)
next
  case (CallZeroCopy start maxB)
  with assms(1) show ?thesis by (simp add: call_effect_def)
next
  case CallRemoveOldest
  from RemoveOldestSegment_purged [OF assms(1)] obtain old where
    "log_records p = old @ log_records (fst (RemoveOldestSegment p))" "log_inv (fst (RemoveOldestSegment p))"
    "LEO (fst (RemoveOldestSegment p)) = LEO p"
    by (auto simp: purged_def)
  moreover from this(1) have "subseq (log_records (fst (RemoveOldestSegment p))) (log_records p)"
    by (metis suffixI suffix_imp_subseq)
  ultimately show ?thesis using CallRemoveOldest by (simp add: call_effect_def)
next
  case CallCompact
  with CompactSegments_correct [OF assms(1)] CompactSegments_subseq [OF assms(1)] CompactSegments_table [OF assms(1)]
  show ?thesis by (auto simp: call_effect_def)
qed


section \<open>Any sequence of calls\<close>

lemma call_effect_trans:
  assumes "call_effect [c] p q" and "call_effect cs q r"
  shows "call_effect (c # cs) p r"
proof -
  let ?a = "numbered (LEO p) (appended [c])" and ?b = "numbered (LEO q) (appended cs)"
  have q: "LEO q = LEO p + of_nat (length (appended [c]))" "subseq (log_records q) (log_records p @ ?a)"
    using assms(1) by (simp_all add: call_effect_def Let_def)
  have r: "log_inv r" "LEO r = LEO q + of_nat (length (appended cs))" "subseq (log_records r) (log_records q @ ?b)"
    using assms(2) by (simp_all add: call_effect_def Let_def)
  have new: "numbered (LEO p) (appended (c # cs)) = ?a @ ?b"
    by (subst appended_Cons) (simp add: numbered_append q(1))
  have "subseq (log_records q @ ?b) ((log_records p @ ?a) @ ?b)"
    using q(2) by (intro list_emb_append_mono) simp_all
  with r(3) have "subseq (log_records r) (log_records p @ ?a @ ?b)" by (simp add: subseq_order.order_trans)
  moreover have "LEO r = LEO p + of_nat (length (appended (c # cs)))"
    using q(1) r(2) by (subst appended_Cons) (simp add: add.assoc)
  moreover have "kept_value (table (log_records r) k) (table (log_records p @ ?a @ ?b) k)"
    if "CallRemoveOldest \<notin> set (c # cs)" "k \<noteq> []" for k
  proof -
    have "kept_value (table (log_records r) k) (table (log_records q @ ?b) k)"
      and q: "kept_value (table (log_records q) k) (table (log_records p @ ?a) k)"
      using assms that by (simp_all add: call_effect_def Let_def)
    moreover from q have "kept_value (table (log_records q @ ?b) k) (table ((log_records p @ ?a) @ ?b) k)"
      unfolding table_append [of _ ?b] by (simp add: kept_value_refl split: option.split)
    ultimately show ?thesis by (auto intro: kept_value_trans)
  qed
  moreover have "log_records r = log_records p @ ?a @ ?b"
    if "CallRemoveOldest \<notin> set (c # cs)" "CallCompact \<notin> set (c # cs)"
    using assms that by (simp add: call_effect_def Let_def)
  ultimately show ?thesis using r(1) unfolding call_effect_def new Let_def by blast
qed

lemma calls_effect:
  assumes "log_inv p" and "list_all record_ok (appended cs)" and "unat (LEO p) + length (appended cs) < 2 ^ 64"
  shows "call_effect cs p (fold log_do cs p)"
  using assms
proof (induction cs arbitrary: p)
  case Nil
  then show ?case by (simp add: call_effect_def)
next
  case (Cons c cs)
  have ap: "appended (c # cs) = appended [c] @ appended cs" by (rule appended_Cons)
  have one: "call_effect [c] p (log_do c p)" using Cons.prems by (intro log_do_effect) (simp_all add: ap)
  then have q: "log_inv (log_do c p)" "LEO (log_do c p) = LEO p + of_nat (length (appended [c]))"
    by (simp_all add: call_effect_def Let_def)
  have "unat (LEO (log_do c p)) = unat (LEO p) + length (appended [c])"
    unfolding q(2) using Cons.prems(3) by (intro unat_add_of_nat) (simp add: ap)
  with Cons.prems q have "call_effect cs (log_do c p) (fold log_do cs (log_do c p))"
    by (intro Cons.IH) (simp_all add: ap)
  from call_effect_trans [OF one this] show ?case by simp
qed


section \<open>The cleaner is a sequence of calls\<close>

definition cleaning :: "PartitionLog \<Rightarrow> PartitionLog \<Rightarrow> bool" where
  "cleaning p p' \<longleftrightarrow> (\<exists>cs. set cs \<subseteq> {CallRemoveOldest, CallCompact} \<and> p' = fold log_do cs p)"

lemma cleaning_refl: "cleaning p p"
  unfolding cleaning_def by (intro exI [of _ "[]"]) simp

lemma cleaning_Remove: "cleaning (fst (RemoveOldestSegment p)) q \<Longrightarrow> cleaning p q"
  unfolding cleaning_def by clarify (rule_tac x = "CallRemoveOldest # cs" in exI, simp)

lemma cleaning_trans:
  assumes "cleaning p q" and "cleaning q r"
  shows "cleaning p r"
proof -
  obtain cs ds where "set cs \<subseteq> {CallRemoveOldest, CallCompact}" "q = fold log_do cs p"
    "set ds \<subseteq> {CallRemoveOldest, CallCompact}" "r = fold log_do ds q"
    using assms unfolding cleaning_def by blast
  then show ?thesis unfolding cleaning_def by (intro exI [of _ "cs @ ds"]) simp
qed

lemma cleaning_timeLoop: "cleaning p (timeLoop mtime now retention segs p)"
proof (induction segs arbitrary: p)
  case Nil
  then show ?case by (simp add: cleaning_refl)
next
  case (Cons s segs)
  have "cleaning p (timeLoop mtime now retention segs (fst (RemoveOldestSegment p)))"
    by (rule cleaning_Remove) (rule Cons.IH)
  with Cons.IH [of p] show ?case by (auto split: option.split)
qed

lemma cleaning_sizeLoop: "cleaning p (sizeLoop limit p)"
proof (induction limit p rule: sizeLoop.induct)
  case (1 limit p)
  obtain p' rem where run: "RemoveOldestSegment p = (p', rem)" by (cases "RemoveOldestSegment p")
  have step: "cleaning p p'" using cleaning_Remove [of p p'] run by (simp add: cleaning_refl)
  show ?case
  proof (cases "snd (Stats p) \<le> limit \<or> \<not> rem")
    case True
    with run step show ?thesis by (subst sizeLoop.simps) (auto simp: cleaning_refl)
  next
    case False
    with 1 [OF _ run [symmetric]] have "cleaning p' (sizeLoop limit p')" by simp
    with False run step show ?thesis by (subst sizeLoop.simps) (auto intro: cleaning_trans)
  qed
qed

lemma cleaning_compact: "cleaning p (compactPartition p)"
  unfolding cleaning_def compactPartition_def by (intro exI [of _ "[CallCompact]"]) simp

lemma RunCleanCycle_calls:
  assumes "RunCleanCycle mtime now cfg [(k, p)] = [(k, p')]"
  shows "cleaning p p'"
proof -
  let ?q = "cleanSizeRetention cfg (cleanTimeRetention (mtime k) now cfg p)"
  have "cleaning p (cleanTimeRetention (mtime k) now cfg p)"
    by (simp add: cleanTimeRetention_def Let_def cleaning_timeLoop cleaning_refl)
  moreover have "cleaning x (cleanSizeRetention cfg x)" for x
    by (simp add: cleanSizeRetention_def cleaning_sizeLoop cleaning_refl)
  ultimately have "cleaning p ?q" by (blast intro: cleaning_trans)
  then show ?thesis
    using assms cleaning_trans [OF _ cleaning_compact] by (auto simp: RunCleanCycle_def Let_def split: if_splits)
qed

end
