(* ===== verification/Concurrent_Reads.thy ===== *)
theory Concurrent_Reads
  imports Commit_Log
begin

text \<open>
  Several calls of \<open>Read\<close> on one segment at the same time (\<open>Segment.Read\<close> in
  \<open>src/internal/storage/segment.go\<close>). \<open>PartitionLog.Read\<close> takes the read lock, which any number
  of goroutines hold together, but \<open>Segment.Read\<close> seeks and reads through the one handle of
  the log file: the position is shared. Here a call is cut into its accesses to the file, the
  seek and the two reads of \<open>ReadRecord\<close>, and the calls are interleaved. The index is read
  with \<open>ReadAt\<close> and the zero-copy path through a \<open>SectionReader\<close>, so both stay out of this.
\<close>

section \<open>A call in steps\<close>

text \<open>
  Where a call is: before the seek, before the length of the next record, before its body
  (with the length), or at its end. The records are those collected so far.
\<close>

datatype read_call =
    Locating u64
  | AtLength u64 "Record list"
  | AtBody u64 "Record list" u32
  | Returned "go_error + Record list"

text \<open>\<open>io.ReadFull\<close> on the handle of the log file.\<close>

definition handleRead :: "dir \<Rightarrow> nat \<Rightarrow> Segment \<Rightarrow> (go_error + bytes) \<times> Segment" where
  "handleRead d n s =
     (let input = drop (logPos s) (contents d (logFile s))
      in case ReadFull n input of (r, rest) \<Rightarrow> (r, s\<lparr>logPos := logPos s + (length input - length rest)\<rparr>))"

definition endOfLoop :: "go_error \<Rightarrow> Record list \<Rightarrow> read_call" where
  "endOfLoop e records = Returned (if e = EOF \<or> e = ErrUnexpectedEOF then Inr records else Inl e)"

fun read_turn :: "dir \<Rightarrow> read_call \<Rightarrow> Segment \<Rightarrow> read_call \<times> Segment" where
  "read_turn d (Locating startOffset) s =
     (if nextOffset s \<le> startOffset then (Returned (Inr []), s)
      else let pos = Lookup d (seg_index s) startOffset
           in if pos < 0 then (Returned (Inl (ErrText ''seek: invalid argument'')), s)
              else (AtLength startOffset [], s\<lparr>logPos := nat pos\<rparr>))"
| "read_turn d (AtLength startOffset records) s =
     (case handleRead d 4 s of
        (Inl e, s') \<Rightarrow> (endOfLoop e records, s')
      | (Inr lenBuf, s') \<Rightarrow> (AtBody startOffset records (Uint32 lenBuf), s'))"
| "read_turn d (AtBody startOffset records sz) s =
     (case handleRead d (unat sz) s of
        (Inl e, s') \<Rightarrow> (endOfLoop e records, s')
      | (Inr recordBuf, s') \<Rightarrow>
          (case parseRecord sz recordBuf of
             Inl e \<Rightarrow> (endOfLoop e records, s')
           | Inr (rec, _) \<Rightarrow>
               (AtLength startOffset (if startOffset \<le> Offset rec then records @ [rec] else records), s')))"
| "read_turn d (Returned r) s = (Returned r, s)"

text \<open>A schedule says whose turn it is.\<close>

fun run_reads :: "dir \<Rightarrow> nat list \<Rightarrow> (nat \<Rightarrow> read_call) \<times> Segment \<Rightarrow> (nat \<Rightarrow> read_call) \<times> Segment" where
  "run_reads d [] st = st"
| "run_reads d (i # sched) (calls, s) =
     (case read_turn d (calls i) s of (c, s') \<Rightarrow> run_reads d sched (calls(i := c), s'))"


section \<open>One call at a time\<close>

text \<open>A call that nobody interrupts is the call of the sequential model.\<close>

inductive turns :: "dir \<Rightarrow> read_call \<times> Segment \<Rightarrow> (go_error + Record list) \<times> Segment \<Rightarrow> bool" for d where
  returned: "turns d (Returned r, s) (r, s)"
| turn: "(\<forall>r. c \<noteq> Returned r) \<Longrightarrow> read_turn d c s = (c', s') \<Longrightarrow> turns d (c', s') out \<Longrightarrow> turns d (c, s) out"

lemma turns_length:
  "read_turn d (AtLength start acc) s = (c', s') \<Longrightarrow> turns d (c', s') out \<Longrightarrow> turns d (AtLength start acc, s) out"
  by (rule turns.turn) simp_all

lemma turns_body:
  "read_turn d (AtBody start acc sz) s = (c', s') \<Longrightarrow> turns d (c', s') out \<Longrightarrow> turns d (AtBody start acc sz, s) out"
  by (rule turns.turn) simp_all

lemma turns_run:
  assumes "turns d (c, s) (r, s')" and "calls i = c"
  shows "\<exists>n. run_reads d (replicate n i) (calls, s) = (calls(i := Returned r), s')"
  using assms
proof (induction "(c, s)" "(r, s')" arbitrary: c s calls)
  case returned
  then show ?case by (intro exI [of _ 0]) (metis fun_upd_triv replicate_0 run_reads.simps(1))
next
  case (turn c s c' s1)
  from turn(4) [of "calls(i := c')"] obtain n where
    "run_reads d (replicate n i) (calls(i := c'), s1) = ((calls(i := c'))(i := Returned r), s')" by auto
  with turn(2) turn.prems show ?case by (intro exI [of _ "Suc n"]) simp
qed

lemma handleRead_at:
  assumes "contents d (logFile s) = pre @ input" and "logPos s = length pre"
  shows "handleRead d n s = (fst (ReadFull n input), s\<lparr>logPos := length pre + (length input - length (snd (ReadFull n input)))\<rparr>)"
  using assms by (simp add: handleRead_def split: prod.split)

lemma ReadFull_split: "ReadFull n bs = (Inr x, rest) \<Longrightarrow> bs = x @ rest \<and> length x = n"
  by (auto simp: ReadFull_def split: if_splits)

lemma ReadFull_fail: "ReadFull n bs = (Inl e, rest) \<Longrightarrow> rest = [] \<and> (e = EOF \<or> e = ErrUnexpectedEOF)"
  by (auto simp: ReadFull_def split: if_splits)

lemma ReadRecord_cases:
  obtains (no_length) e where "ReadFull 4 input = (Inl e, [])" "ReadRecord input = (Inl e, [])" "e = EOF \<or> e = ErrUnexpectedEOF"
  | (no_body) lenBuf mid e where "ReadFull 4 input = (Inr lenBuf, mid)" "ReadFull (unat (Uint32 lenBuf)) mid = (Inl e, [])"
      "ReadRecord input = (Inl e, [])" "e = EOF \<or> e = ErrUnexpectedEOF"
  | (parsed) lenBuf mid recordBuf rest where "ReadFull 4 input = (Inr lenBuf, mid)"
      "ReadFull (unat (Uint32 lenBuf)) mid = (Inr recordBuf, rest)"
      "ReadRecord input = (parseRecord (Uint32 lenBuf) recordBuf, rest)"
proof (cases "ReadFull 4 input")
  case (Pair r1 mid)
  show thesis
  proof (cases r1)
    case (Inl e)
    with Pair ReadFull_fail [of 4 input e mid] no_length [of e] show thesis by (auto simp: ReadRecord_def rd_bind_def)
  next
    case (Inr lenBuf)
    obtain r2 rest where 2: "ReadFull (unat (Uint32 lenBuf)) mid = (r2, rest)" by (metis prod.exhaust)
    show thesis
    proof (cases r2)
      case (Inl e)
      with Pair Inr 2 ReadFull_fail [of _ mid e rest] no_body [of lenBuf mid e] show thesis
        by (auto simp: ReadRecord_def rd_bind_def Let_def)
    next
      case buf: (Inr recordBuf)
      with Pair Inr 2 parsed [of lenBuf mid recordBuf rest] show thesis
        by (auto simp: ReadRecord_def rd_bind_def rd_lift_def Let_def)
    qed
  qed
qed

lemma ReadAll_shrinks: "length (snd (ReadAll bs)) \<le> length bs"
proof (induction bs rule: ReadAll.induct)
  case (1 bs)
  obtain r rest where rr: "ReadRecord bs = (r, rest)" by (metis prod.exhaust)
  have "length rest \<le> length bs"
    by (cases rule: ReadRecord_cases [of bs])
      (use rr in \<open>auto dest!: ReadFull_split\<close>)
  with 1 [OF rr [symmetric]] rr show ?case
    by (subst ReadAll.simps) (auto split: sum.split prod.split intro: le_trans)
qed

text \<open>A turn of each kind at a known position.\<close>

lemma turn_length:
  assumes "contents d (logFile s) = pre @ input" and "logPos s = length pre" and "ReadFull 4 input = (r, rest)"
  shows "read_turn d (AtLength start acc) s =
    ((case r of Inl e \<Rightarrow> endOfLoop e acc | Inr lenBuf \<Rightarrow> AtBody start acc (Uint32 lenBuf)),
     s\<lparr>logPos := length pre + (length input - length rest)\<rparr>)"
  using handleRead_at [OF assms(1,2), of 4] assms(3) by (cases r) simp_all

lemma turn_body:
  assumes "contents d (logFile s) = pre @ input" and "logPos s = length pre" and "ReadFull (unat sz) input = (r, rest)"
  shows "read_turn d (AtBody start acc sz) s =
    ((case r of
        Inl e \<Rightarrow> endOfLoop e acc
      | Inr recordBuf \<Rightarrow>
          (case parseRecord sz recordBuf of
             Inl e \<Rightarrow> endOfLoop e acc
           | Inr (rec, _) \<Rightarrow> AtLength start (if start \<le> Offset rec then acc @ [rec] else acc))),
     s\<lparr>logPos := length pre + (length input - length rest)\<rparr>)"
  using handleRead_at [OF assms(1,2), of "unat sz"] assms(3)
  by (cases r) (simp_all split: sum.split)

declare read_turn.simps [simp del]

text \<open>A record that is read in two turns, and one that cannot be read.\<close>

lemma record_turns:
  assumes "contents d (logFile s) = pre @ input" and "logPos s = length pre" and "ReadRecord input = (Inr x, rest)"
  shows "\<exists>front. input = front @ rest \<and>
    (\<forall>out. turns d (AtLength start (acc @ filter (\<lambda>r. start \<le> Offset r) [fst x]), s\<lparr>logPos := length (pre @ front)\<rparr>) out \<longrightarrow>
       turns d (AtLength start acc, s) out)"
proof (cases rule: ReadRecord_cases [of input])
  case (parsed lenBuf mid recordBuf rest')
  have io: "input = lenBuf @ mid" "mid = recordBuf @ rest'" "rest' = rest" "parseRecord (Uint32 lenBuf) recordBuf = Inr x"
    using ReadFull_split [OF parsed(1)] ReadFull_split [OF parsed(2)] parsed(3) assms(3) by simp_all
  let ?s = "s\<lparr>logPos := length (pre @ lenBuf)\<rparr>"
  have t1: "read_turn d (AtLength start acc) s = (AtBody start acc (Uint32 lenBuf), ?s)"
    using turn_length [OF assms(1,2) parsed(1), of start acc] io by simp
  have c2: "contents d (logFile ?s) = (pre @ lenBuf) @ mid" using assms(1) io by simp
  have t2: "read_turn d (AtBody start acc (Uint32 lenBuf)) ?s =
      (AtLength start (acc @ filter (\<lambda>r. start \<le> Offset r) [fst x]), s\<lparr>logPos := length (pre @ lenBuf @ recordBuf)\<rparr>)"
    using turn_body [OF c2 _ parsed(2), of start acc] io by (cases x) simp
  show ?thesis
  proof (intro exI [of _ "lenBuf @ recordBuf"] conjI allI impI)
    fix out
    assume "turns d (AtLength start (acc @ filter (\<lambda>r. start \<le> Offset r) [fst x]),
      s\<lparr>logPos := length (pre @ lenBuf @ recordBuf)\<rparr>) out"
    then show "turns d (AtLength start acc, s) out" by (rule turns_length [OF t1 turns_body [OF t2]])
  qed (simp add: io)
qed (use assms(3) in simp_all)

lemma parseRecord_error: "parseRecord sz recordBuf = Inl e \<Longrightarrow> e \<noteq> EOF \<and> e \<noteq> ErrUnexpectedEOF"
  by (auto simp: parseRecord_def readValue_def Let_def split: option.splits if_splits sum.splits)

lemma failed_turns:
  assumes "contents d (logFile s) = pre @ input" and "logPos s = length pre" and "ReadRecord input = (Inl e, rest)"
  shows "turns d (AtLength start acc, s)
    (if e = EOF \<or> e = ErrUnexpectedEOF then Inr acc else Inl e, s\<lparr>logPos := length pre + (length input - length rest)\<rparr>)"
proof (cases rule: ReadRecord_cases [of input])
  case (no_length e')
  with turn_length [OF assms(1,2) no_length(1), of start acc] assms(3) show ?thesis
    by (intro turns_length [OF _ turns.returned]) (auto simp: endOfLoop_def)
next
  case (no_body lenBuf mid e')
  have io: "input = lenBuf @ mid" using ReadFull_split [OF no_body(1)] by simp
  let ?s = "s\<lparr>logPos := length (pre @ lenBuf)\<rparr>"
  have t1: "read_turn d (AtLength start acc) s = (AtBody start acc (Uint32 lenBuf), ?s)"
    using turn_length [OF assms(1,2) no_body(1), of start acc] io by simp
  have "contents d (logFile ?s) = (pre @ lenBuf) @ mid" using assms(1) io by simp
  from turn_body [OF this _ no_body(2), of start acc] no_body assms(3) io show ?thesis
    by (intro turns_length [OF t1] turns_body [OF _ turns.returned]) (auto simp: endOfLoop_def)
next
  case (parsed lenBuf mid recordBuf rest')
  have io: "input = lenBuf @ mid" "mid = recordBuf @ rest'" "rest' = rest" "parseRecord (Uint32 lenBuf) recordBuf = Inl e"
    using ReadFull_split [OF parsed(1)] ReadFull_split [OF parsed(2)] parsed(3) assms(3) by simp_all
  let ?s = "s\<lparr>logPos := length (pre @ lenBuf)\<rparr>"
  have t1: "read_turn d (AtLength start acc) s = (AtBody start acc (Uint32 lenBuf), ?s)"
    using turn_length [OF assms(1,2) parsed(1), of start acc] io by simp
  have "contents d (logFile ?s) = (pre @ lenBuf) @ mid" using assms(1) io by simp
  from turn_body [OF this _ parsed(2), of start acc] io parseRecord_error [OF io(4)] show ?thesis
    by (intro turns_length [OF t1] turns_body [OF _ turns.returned]) (auto simp: endOfLoop_def)
qed

lemma loop_turns:
  assumes "contents d (logFile s) = pre @ input" and "logPos s = length pre"
  shows "turns d (AtLength start acc, s)
    (case fst (ReadAll input) of Inl e \<Rightarrow> Inl e | Inr xs \<Rightarrow> Inr (acc @ filter (\<lambda>rec. start \<le> Offset rec) (map fst xs)),
     s\<lparr>logPos := length pre + (length input - length (snd (ReadAll input)))\<rparr>)"
  using assms
proof (induction input arbitrary: s pre acc rule: ReadAll.induct)
  case (1 input)
  obtain r rest where rr: "ReadRecord input = (r, rest)" by (metis prod.exhaust)
  show ?case
  proof (cases r)
    case (Inl e)
    with failed_turns [OF 1(2,3), of e rest start acc] rr show ?thesis
      by (subst (1 2) ReadAll.simps) auto
  next
    case (Inr x)
    with record_turns [OF 1(2,3), of x rest start acc] rr obtain front where
      io: "input = front @ rest" and go: "\<And>out. turns d (AtLength start (acc @ filter (\<lambda>r. start \<le> Offset r) [fst x]),
        s\<lparr>logPos := length (pre @ front)\<rparr>) out \<Longrightarrow> turns d (AtLength start acc, s) out"
      by blast
    let ?s = "s\<lparr>logPos := length (pre @ front)\<rparr>"
    have le: "length (snd (ReadAll rest)) \<le> length rest" by (rule ReadAll_shrinks)
    have "contents d (logFile ?s) = (pre @ front) @ rest" using 1(2) io by simp
    from go [OF 1(1) [OF rr [symmetric] Inr this]] show ?thesis
      using rr Inr io le by (subst (1 2) ReadAll.simps) (auto simp: add.assoc split: sum.split prod.split)
  qed
qed

text \<open>So one call after the other behaves as \<open>Segment_Read\<close>.\<close>

lemma read_alone:
  assumes "segment_rep d s rs es" and "calls i = Locating start"
  shows "\<exists>n. run_reads d (replicate n i) (calls, s) =
    (calls(i := Returned (fst (Segment_Read d s start))), snd (Segment_Read d s start))"
proof -
  let ?c = "contents d (logFile s)"
  obtain xs ys where pos: "Lookup d (seg_index s) start = int (length (marshal_all xs))" and "rs = xs @ ys"
    using Lookup_rep [OF assms(1), of start] by blast
  then have c: "?c = marshal_all xs @ marshal_all ys"
    using segment_repD(1,2) [OF assms(1)] by (simp add: segment_names_def)
  obtain r s' where rd: "Segment_Read d s start = (r, s')" by (metis prod.exhaust)
  have "turns d (Locating start, s) (r, s')"
  proof (cases "nextOffset s \<le> start")
    case True
    with rd show ?thesis
      by (auto intro!: turns.turn [OF _ _ turns.returned] simp: read_turn.simps Segment_Read_def)
  next
    case False
    let ?s = "s\<lparr>logPos := length (marshal_all xs)\<rparr>"
    have t: "read_turn d (Locating start) s = (AtLength start [], ?s)"
      using False pos by (simp add: read_turn.simps Let_def)
    have "turns d (AtLength start [], ?s) (r, s')"
      using loop_turns [of d ?s "marshal_all xs" "marshal_all ys" start "[]", unfolded append_Nil] c rd False pos
      by (auto simp: Segment_Read_def Let_def split: prod.splits)
    then show ?thesis by (rule turns.turn [OF _ t, rotated]) simp
  qed
  then show ?thesis using turns_run assms(2) rd by (metis fst_conv snd_conv)
qed


section \<open>Two calls at once\<close>

lemma run_two:
  "run_reads d [0, 1, 0, 1, 1, 0] (calls, s) =
     (let (a1, s1) = read_turn d (calls 0) s; (b1, s2) = read_turn d (calls 1) s1;
          (a2, s3) = read_turn d a1 s2; (b2, s4) = read_turn d b1 s3; (b3, s5) = read_turn d b2 s4;
          (a3, s6) = read_turn d a2 s5
      in (calls(0 := a3, 1 := b3), s6))"
  by (auto simp: fun_upd_twist split: prod.split)

text \<open>The upper half of a small 64-bit number, and a length made of text.\<close>

lemma be_digits_high: "x < 256 ^ n \<Longrightarrow> be_digits (m + n) x = replicate m 0 @ be_digits n x"
proof (induction m)
  case (Suc m)
  have "(256 :: nat) ^ n \<le> 256 ^ (m + n)" by (intro power_increasing) simp_all
  with Suc.prems have "x div 256 ^ (m + n) = 0" by (intro div_less) linarith
  with Suc show ?case by simp
qed simp

lemma PutUint64_high:
  assumes "unat v < 2 ^ 32"
  shows "PutUint64 v = [0, 0, 0, 0] @ be_digits 4 (unat v)"
proof -
  have "be_digits (4 + 4) (unat v) = replicate 4 0 @ be_digits 4 (unat v)"
    by (rule be_digits_high) (use assms in simp)
  moreover have "replicate 4 (0 :: byte) = [0, 0, 0, 0]" by (simp add: numeral_eq_Suc)
  ultimately show ?thesis by (simp add: PutUint64_def del: be_digits.simps)
qed

lemma Uint32_text:
  assumes "4 \<le> length k" and "0 < unat (hd k)" and "unat (hd k) < 128"
  shows "2 ^ 24 \<le> sint (Uint32 (take 4 k))"
proof -
  obtain a b c e ks where k: "k = a # b # c # e # ks"
    using assms(1) by (auto simp: Suc_le_length_iff eval_nat_numeral)
  have lt: "unat b < 256" "unat c < 256" "unat e < 256" using unat_bound [of b] unat_bound [of c] unat_bound [of e] by simp_all
  have v: "be_value (take 4 k) = unat a * 2 ^ 24 + unat b * 2 ^ 16 + unat c * 2 ^ 8 + unat e"
    by (simp add: k)
  have bounds: "2 ^ 24 \<le> be_value (take 4 k)" "be_value (take 4 k) < 2 ^ 31"
    unfolding v using assms(2,3) lt k by simp_all
  then have "sint (Uint32 (take 4 k)) = int (be_value (take 4 k))"
    by (simp add: Uint32_def sint_of_nat32)
  with bounds(1) show ?thesis by simp
qed

text \<open>
  The records this is about: a key that starts with four characters of ASCII, an offset below
  \<open>2 ^ 32\<close>, less than 16 megabytes. Every record of the producer command is of this kind.
\<close>

definition text_keyed :: "Record \<Rightarrow> bool" where
  "text_keyed r \<longleftrightarrow> record_ok r \<and> unat (Offset r) < 2 ^ 32 \<and> recordSize r < 2 ^ 24 \<and>
     (case Key r of None \<Rightarrow> False | Some k \<Rightarrow> 4 \<le> length k \<and> 0 < unat (hd k) \<and> unat (hd k) < 128)"

text \<open>The second half of the offset, the rest of the body and the length of the next record do not parse.\<close>

lemma misaligned_body:
  assumes "text_keyed r"
  shows "\<exists>low. length low + 4 = recordSize r \<and> body r = [0, 0, 0, 0] @ low \<and>
    (\<forall>w sz. length w = 4 \<longrightarrow> parseRecord sz (low @ w) = Inl Panic)"
proof -
  obtain k where k: "Key r = Some k" "4 \<le> length k" "0 < unat (hd k)" "unat (hd k) < 128"
    and ok: "record_ok r" "unat (Offset r) < 2 ^ 32" "recordSize r < 2 ^ 24"
    using assms by (auto simp: text_keyed_def split: option.splits)
  let ?tail = "PutUint32 (fieldLen (Value r)) @ payload (Value r)"
  let ?low = "be_digits 4 (unat (Offset r)) @ PutUint64 (Timestamp r) @ PutUint32 (fieldLen (Key r)) @ k @ ?tail"
  have pk: "payload (Key r) = k" using k(1) ok(1) by (simp add: payload_small record_ok_def)
  have b: "body r = [0, 0, 0, 0] @ ?low" by (simp add: body_def PutUint64_high [OF ok(2)] pk)
  have len: "length ?low + 4 = recordSize r" using length_body [OF ok(1)] unfolding b by simp
  have "parseRecord sz (?low @ w) = Inl Panic" if "length w = 4" for w sz
  proof -
    let ?buf = "?low @ w"
    have n: "length ?buf = recordSize r" using len that by simp
    have "20 \<le> recordSize r" using recordSize_small [OF ok(1)] by simp
    moreover have "take 4 (drop 16 ?buf) = take 4 k" using k(2) by simp
    ultimately have "go_slice ?buf 16 20 = Some (take 4 k)" using n by (simp add: go_slice_def del: append_assoc length_append drop_append)
    moreover have "2 ^ 24 \<le> sint (Uint32 (take 4 k))" by (rule Uint32_text [OF k(2-4)])
    moreover from this have "go_slice ?buf 20 (20 + nat (sint (Uint32 (take 4 k)))) = None"
      using n ok(3) by (simp add: go_slice_def del: append_assoc length_append)
    ultimately show ?thesis
      by (auto simp: parseRecord_def Let_def simp del: append_assoc split: option.split)
  qed
  with b len show ?thesis by blast
qed

text \<open>
  Two calls that start together: the second reads the length of the first record out of its
  offset, both panic, and the handle is left inside the second record.
\<close>

lemma ReadFull_exact: "length xs = n \<Longrightarrow> 0 < n \<Longrightarrow> ReadFull n (xs @ ys) = (Inr xs, ys)"
  by (auto simp: ReadFull_def)

lemma overlapping_reads:
  assumes rep: "segment_rep d s (r1 # r2 # rs) es" and keyed: "text_keyed r1"
    and calls: "calls 0 = Locating (baseOffset s)" "calls 1 = Locating (baseOffset s)"
  shows "run_reads d [0, 1, 0, 1, 1, 0] (calls, s) =
    (calls(0 := Returned (Inl Panic), 1 := Returned (Inl Panic)), s\<lparr>logPos := length (Marshal r1) + 4\<rparr>)"
proof -
  let ?n1 = "of_nat (recordSize r1) :: u32" and ?b = "baseOffset s"
  obtain low where low: "length low + 4 = recordSize r1" "body r1 = [0, 0, 0, 0] @ low"
    "\<And>w sz. length w = 4 \<Longrightarrow> parseRecord sz (low @ w) = Inl Panic"
    using misaligned_body [OF keyed] by blast
  define tl2 where "tl2 = body r2 @ marshal_all rs"
  let ?len2 = "PutUint32 (of_nat (recordSize r2))"
  have c: "contents d (logFile s) = PutUint32 ?n1 @ [0, 0, 0, 0] @ low @ ?len2 @ tl2"
    using segment_repD(1,2) [OF rep] low(2) by (simp add: segment_names_def Marshal_body tl2_def)
  have n1: "unat ?n1 = length low + 4" "0 < length low + 4" using keyed low(1) by (simp_all add: text_keyed_def unat_of_nat)
  obtain xs ys where xs: "r1 # r2 # rs = xs @ ys" "Lookup d (seg_index s) ?b = int (length (marshal_all xs))"
    "\<forall>x \<in> set xs. Offset x < ?b" using Lookup_rep [OF rep, of ?b] by blast
  have "xs = []" using xs segment_repD(6) [OF rep] by (cases xs) (auto simp: not_less)
  then have lk: "Lookup d (seg_index t) ?b = 0" "\<not> nextOffset t \<le> ?b" if "t = s\<lparr>logPos := q\<rparr>" for t q
    using xs(2) that segment_repD(6) [OF rep] by auto
  have l0: "read_turn d (Locating ?b) (s\<lparr>logPos := q\<rparr>) = (AtLength ?b [], s\<lparr>logPos := 0\<rparr>)" for q
    using lk [OF refl, of q] by (simp add: read_turn.simps Let_def)
  have l1: "read_turn d (Locating ?b) s = (AtLength ?b [], s\<lparr>logPos := 0\<rparr>)"
    using l0 [of "logPos s"] by simp
  have a2: "read_turn d (AtLength ?b []) (s\<lparr>logPos := 0\<rparr>) = (AtBody ?b [] ?n1, s\<lparr>logPos := 4\<rparr>)"
    using turn_length [of d "s\<lparr>logPos := 0\<rparr>" "[]" _ "Inr (PutUint32 ?n1)", OF _ _ ReadFull_exact] c by simp
  have b2: "read_turn d (AtLength ?b []) (s\<lparr>logPos := 4\<rparr>) = (AtBody ?b [] 0, s\<lparr>logPos := 8\<rparr>)"
    using turn_length [of d "s\<lparr>logPos := 4\<rparr>" "PutUint32 ?n1" _ "Inr [0, 0, 0, 0]", OF _ _ ReadFull_exact] c
    by (simp add: Uint32_def)
  have b3: "read_turn d (AtBody ?b [] 0) (s\<lparr>logPos := 8\<rparr>) = (Returned (Inl Panic), s\<lparr>logPos := 8\<rparr>)"
    by (simp add: read_turn.simps handleRead_def ReadFull_def parseRecord_def go_slice_def endOfLoop_def)
  have "ReadFull (unat ?n1) (low @ ?len2 @ tl2) = (Inr (low @ ?len2), tl2)"
    using n1 ReadFull_exact [of "low @ ?len2" "unat ?n1" tl2] by simp
  from turn_body [of d "s\<lparr>logPos := 8\<rparr>" "PutUint32 ?n1 @ [0, 0, 0, 0]", OF _ _ this, of ?b "[]"] c low(3) [of ?len2]
  have a3: "read_turn d (AtBody ?b [] ?n1) (s\<lparr>logPos := 8\<rparr>) = (Returned (Inl Panic), s\<lparr>logPos := length low + 12\<rparr>)"
    by (simp add: endOfLoop_def)
  have "length (Marshal r1) + 4 = length low + 12" by (simp add: Marshal_body low(2))
  then show ?thesis unfolding run_two using calls l0 l1 a2 b2 b3 a3 by simp
qed

text \<open>An append writes at the position of the handle, wherever it is.\<close>

lemma Segment_Append_at:
  assumes "segment_names s" and "Segment_Append d s r = (d', s', r')"
  shows "r' = r\<lparr>Offset := nextOffset s\<rparr>" and "contents d' (logFile s) = fileWrite (contents d (logFile s)) (logPos s) (Marshal r')"
  using assms
  by (auto simp: Segment_Append_def Let_def WriteEntry_def segment_names_def contents_def split: if_splits prod.splits)

lemma misplaced_append:
  assumes rep: "segment_rep d s (r1 # r2 # rs) es" and "unat (Offset r2) < 2 ^ 32" and "record_ok r"
    and app: "Segment_Append d (s\<lparr>logPos := length (Marshal r1) + 4\<rparr>) r = (d', s', r')"
  shows "\<not> prefix (Marshal r1 @ Marshal r2) (contents d' (logFile s))"
proof
  let ?s = "s\<lparr>logPos := length (Marshal r1) + 4\<rparr>" and ?len2 = "PutUint32 (of_nat (recordSize r2))"
  assume pre: "prefix (Marshal r1 @ Marshal r2) (contents d' (logFile s))"
  have names: "segment_names ?s" using segment_repD(1) [OF rep] by (simp add: segment_names_def)
  have ok': "record_ok r'" using Segment_Append_at(1) [OF names app] assms(3) by (simp add: record_ok_def)
  have c: "contents d (logFile s) = Marshal r1 @ ?len2 @ body r2 @ marshal_all rs"
    using segment_repD(1,2) [OF rep] by (simp add: segment_names_def Marshal_body)
  have "\<exists>rest. contents d' (logFile s) = Marshal r1 @ ?len2 @ Marshal r' @ rest"
    using Segment_Append_at(2) [OF names app] c by (simp add: fileWrite_def)
  with pre have "prefix (body r2) (Marshal r' @ rest)" if "contents d' (logFile s) = Marshal r1 @ ?len2 @ Marshal r' @ rest" for rest
    using that by (simp add: Marshal_body [of r2])
  with \<open>\<exists>rest. _\<close> obtain rest where "prefix (body r2) (Marshal r' @ rest)" by blast
  then obtain ys where ys: "Marshal r' @ rest = body r2 @ ys" by (auto simp: prefix_def)
  have "take 4 (Marshal r' @ rest) = PutUint32 (of_nat (recordSize r'))" by (simp add: Marshal_body)
  moreover have "take 4 (body r2 @ ys) = [0, 0, 0, 0]" by (simp add: body_def PutUint64_high [OF assms(2)])
  ultimately have "PutUint32 (of_nat (recordSize r')) = [0, 0, 0, 0]" using ys by metis
  then have "Uint32 (PutUint32 (of_nat (recordSize r'))) = 0" by (simp only:) (simp add: Uint32_def)
  moreover have "24 \<le> recordSize r'" "recordSize r' < 2 ^ 32" using recordSize_small [OF ok'] ok' by (simp_all add: record_ok_def)
  ultimately show False by (auto simp: word_of_nat_eq_0_iff dest: nat_dvd_not_less)
qed

section \<open>Partitions of one segment\<close>

lemma fresh_single:
  assumes "0 < maxB" and "maxB \<le> 2 ^ 62"
  shows "\<exists>p s. log_inv p \<and> segments p = [s] \<and> maxBytes s = maxB \<and> log_records p = [] \<and> LEO p = 0"
proof -
  obtain p where p: "NewPartitionLog Map.empty [] maxB iv = Inr p" "log_inv p" "log_records p = []" "LEO p = 0"
    using NewPartitionLog_empty [OF assms, of iv] by blast
  obtain d r where new: "NewSegment Map.empty 0 maxB iv = (d, r)" by (cases "NewSegment Map.empty 0 maxB iv")
  from NewSegment_fresh [OF _ _ new] obtain s where s: "r = Inr s" "maxBytes s = maxB" by auto
  have "segments p = [s]"
    using p(1) new s(1) by (auto simp: NewPartitionLog_def loadSegments_def List.map_filter_simps)
  with p s show ?thesis by blast
qed

lemma single_size:
  assumes "log_inv p" and "segments p = [s]"
  shows "currentSize s = int (length (marshal_all (log_records p)))"
proof -
  obtain es where "segment_rep (pl_dir p) s (segment_records (pl_dir p) s) es"
    using assms by (auto simp: log_inv_def segment_inv_def)
  from segment_repD(4) [OF this] show ?thesis using assms(2) by (simp add: log_records_def)
qed

lemma single_append:
  assumes "log_inv p" and "segments p = [s]" and "int (length (marshal_all (log_records p))) < maxBytes s"
    and "record_ok r" and "unat (LEO p) + 1 < 2 ^ 64"
  shows "\<exists>p' s'. log_inv p' \<and> segments p' = [s'] \<and> maxBytes s' = maxBytes s \<and>
    log_records p' = log_records p @ [r\<lparr>Offset := LEO p\<rparr>] \<and> LEO p' = LEO p + 1"
proof -
  obtain p' where p': "Append p r = (p', Inr (r\<lparr>Offset := LEO p\<rparr>))" "log_inv p'"
    "log_records p' = log_records p @ [r\<lparr>Offset := LEO p\<rparr>]" "LEO p' = LEO p + 1"
    using plog.app_law [OF assms(1,4,5)] by blast
  have "\<not> IsFull s" using single_size [OF assms(1,2)] assms(3) by (simp add: IsFull_def)
  then obtain d' s' r' where "Segment_Append (pl_dir p) s r = (d', s', r')" "segments p' = [s']"
    using p'(1) assms(2) by (auto simp: Append_def appendActive_def activeSegment_def split: prod.splits)
  moreover from this(1) have "maxBytes s' = maxBytes s"
    by (auto simp: Segment_Append_def Let_def split: if_splits prod.splits)
  ultimately show ?thesis using p' by blast
qed

end
