(* ===== verification/Concurrent_Produce.thy ===== *)
theory Concurrent_Produce
  imports Broker_Data
begin

text \<open>
  Produce requests that run at the same time (\<open>src/internal/server/handler.go\<close>,
  \<open>handleProduce\<close>). Every connection has its own goroutine, and the lock of a partition is
  taken per record, not per batch: the loops over the payloads of different requests interleave
  iteration by iteration. \<open>produceIter\<close> is one iteration, and \<open>produceLoop\<close> is its repetition;
  a schedule says which goroutine runs its next iteration.
\<close>

section \<open>One iteration\<close>

text \<open>The unread payload and the first offset after the iteration; a \<open>break\<close> leaves no payload.\<close>

definition produceIter :: "env \<Rightarrow> string \<Rightarrow> bytes \<Rightarrow> i64 \<Rightarrow> (Handler, bytes \<times> i64) act" where
  "produceIter e key reader firstOffset h =
     (case ReadRecord reader of
        (Inr (rec, n), rest) \<Rightarrow>
          (case storeRecord key rec firstOffset h of
             (Inl err, h') \<Rightarrow> (if err = Panic then (Inl Panic, h') else (Inr ([], firstOffset), h'))
           | (Inr first', h') \<Rightarrow> (Inr (rest, first'), h'))
      | (Inl err, rest) \<Rightarrow>
          if err = Panic then (Inl Panic, h)
          else if rest = [] then (Inr ([], firstOffset), h)
          else case readClock e h of
                 (Inl err', h') \<Rightarrow> (Inl err', h')
               | (Inr now, h') \<Rightarrow>
                   (case storeRecord key \<lparr>Offset = 0, Timestamp = of_nat now, Key = None, Value = Some rest\<rparr> firstOffset h' of
                      (Inl err, h'') \<Rightarrow> (if err = Panic then (Inl Panic, h'') else (Inr ([], firstOffset), h''))
                    | (Inr first', h'') \<Rightarrow> (Inr ([], first'), h'')))"

lemma produceLoop_iterates:
  "produceLoop e key reader f h =
     (if reader = [] then (Inr f, h)
      else case produceIter e key reader f h of
             (Inl err, h') \<Rightarrow> (Inl err, h')
           | (Inr (reader', f'), h') \<Rightarrow> produceLoop e key reader' f' h')"
proof (cases "reader = []")
  case True
  then show ?thesis by (simp add: produceLoop.simps)
next
  case False
  have stop: "produceLoop e key [] f' h' = (Inr f', h')" for f' h' by (simp add: produceLoop.simps)
  from False show ?thesis
    by (subst produceLoop.simps) (simp add: produceIter_def stop split: prod.split sum.split)
qed


section \<open>Schedules\<close>

text \<open>The broker and, for every goroutine, the payload not yet read and the first offset.\<close>

record conc =
  c_h :: Handler
  c_reader :: "nat \<Rightarrow> bytes"
  c_first :: "nat \<Rightarrow> i64"

definition conc_step :: "env \<Rightarrow> (nat \<Rightarrow> string) \<Rightarrow> nat \<Rightarrow> conc \<Rightarrow> go_error + conc" where
  "conc_step e key i c =
     (if c_reader c i = [] then Inr c
      else case produceIter e (key i) (c_reader c i) (c_first c i) (c_h c) of
             (Inl err, h') \<Rightarrow> Inl err
           | (Inr (r, f), h') \<Rightarrow>
               Inr \<lparr>c_h = h', c_reader = (c_reader c)(i := r), c_first = (c_first c)(i := f)\<rparr>)"

fun conc_run :: "env \<Rightarrow> (nat \<Rightarrow> string) \<Rightarrow> nat list \<Rightarrow> conc \<Rightarrow> go_error + conc" where
  "conc_run e key [] c = Inr c"
| "conc_run e key (i # sched) c =
     (case conc_step e key i c of Inl err \<Rightarrow> Inl err | Inr c' \<Rightarrow> conc_run e key sched c')"

text \<open>A goroutine alone runs the loop of the sequential model.\<close>

lemma conc_run_alone:
  "conc_run e key (replicate n i) c = Inr c' \<Longrightarrow> c_reader c' i = [] \<Longrightarrow>
   produceLoop e (key i) (c_reader c i) (c_first c i) (c_h c) = (Inr (c_first c' i), c_h c')"
proof (induction n arbitrary: c)
  case 0
  then show ?case by (simp add: produceLoop.simps)
next
  case (Suc n)
  show ?case
  proof (cases "c_reader c i = []")
    case True
    with Suc.prems have "conc_run e key (replicate n i) c = Inr c'" by (simp add: conc_step_def)
    from Suc.IH [OF this Suc.prems(2)] show ?thesis .
  next
    case False
    with Suc.prems(1) obtain r f h' where
      it: "produceIter e (key i) (c_reader c i) (c_first c i) (c_h c) = (Inr (r, f), h')"
      by (auto simp: conc_step_def split: prod.splits sum.splits)
    with Suc.prems(1) False
    have run: "conc_run e key (replicate n i) \<lparr>c_h = h', c_reader = (c_reader c)(i := r), c_first = (c_first c)(i := f)\<rparr> = Inr c'"
      by (simp add: conc_step_def)
    from Suc.IH [OF run Suc.prems(2)] it False show ?thesis
      by (subst produceLoop_iterates) simp
  qed
qed


section \<open>What a schedule appends\<close>

text \<open>The records that a schedule takes from batches, with the goroutine they come from.\<close>

fun taken :: "nat list \<Rightarrow> (nat \<Rightarrow> Record list) \<Rightarrow> (nat \<times> Record) list" where
  "taken [] b = []"
| "taken (i # sched) b =
     (case b i of [] \<Rightarrow> taken sched b | r # rs \<Rightarrow> (i, r) # taken sched (b(i := rs)))"

definition on_key :: "(nat \<Rightarrow> string) \<Rightarrow> string \<Rightarrow> (nat \<times> Record) list \<Rightarrow> (nat \<times> Record) list" where
  "on_key key k tr = filter (\<lambda>x. key (fst x) = k) tr"

text \<open>Every goroutine's records are taken in the order of its batch.\<close>

lemma taken_thread: "map snd (filter (\<lambda>x. fst x = i) (taken sched b)) = take (count_list sched i) (b i)"
proof (induction sched arbitrary: b)
  case (Cons j sched)
  show ?case
  proof (cases "b j")
    case Nil
    with Cons show ?thesis by auto
  next
    case bj: (Cons r rs)
    have "map snd (filter (\<lambda>x. fst x = i) (taken sched (b(j := rs)))) = take (count_list sched i) ((b(j := rs)) i)"
      by (rule Cons.IH)
    with bj show ?thesis by (cases "i = j") simp_all
  qed
qed simp

lemma taken_length: "length (taken sched b) \<le> length sched"
  by (induction sched arbitrary: b) (auto split: list.split intro: le_SucI)

section \<open>Any schedule\<close>

text \<open>The open logs are well-formed and have room for \<open>n\<close> more records.\<close>

definition logs_ready :: "nat \<Rightarrow> Handler \<Rightarrow> bool" where
  "logs_ready n h \<longleftrightarrow> (\<forall>k p. log_of h k = Some p \<longrightarrow> log_inv p \<and> unat (LEO p) + n < 2 ^ 64)"

text \<open>What records \<open>rs\<close> appended to the log of a key make of it.\<close>

definition extends :: "Handler \<Rightarrow> Handler \<Rightarrow> (string \<Rightarrow> Record list) \<Rightarrow> bool" where
  "extends h h' new \<longleftrightarrow>
     (\<forall>k. case log_of h k of
            None \<Rightarrow> log_of h' k = None
          | Some p \<Rightarrow> \<exists>p'. log_of h' k = Some p' \<and> log_inv p' \<and> log_records p' = log_records p @ numbered (LEO p) (new k) \<and>
                         LEO p' = LEO p + of_nat (length (new k)))"

lemma extends_refl: "logs_ready n h \<Longrightarrow> extends h h (\<lambda>_. [])"
  by (auto simp: extends_def logs_ready_def split: option.split)

lemma extends_None: "extends h h' new \<Longrightarrow> log_of h k = None \<Longrightarrow> log_of h' k = None"
  unfolding extends_def by (drule spec [of _ k]) simp

lemma extends_Some:
  assumes "extends h h' new" and "log_of h k = Some p"
  obtains p' where "log_of h' k = Some p'" "log_inv p'" "log_records p' = log_records p @ numbered (LEO p) (new k)"
    "LEO p' = LEO p + of_nat (length (new k))"
  using assms unfolding extends_def by (auto dest!: spec [of _ k])

lemma extends_trans:
  assumes "extends h h1 new1" and "extends h1 h2 new2"
  shows "extends h h2 (\<lambda>k. new1 k @ new2 k)"
  unfolding extends_def
proof
  fix k
  show "case log_of h k of None \<Rightarrow> log_of h2 k = None
    | Some p \<Rightarrow> \<exists>p'. log_of h2 k = Some p' \<and> log_inv p' \<and> log_records p' = log_records p @ numbered (LEO p) (new1 k @ new2 k) \<and>
        LEO p' = LEO p + of_nat (length (new1 k @ new2 k))"
  proof (cases "log_of h k")
    case None
    with extends_None assms show ?thesis by force
  next
    case (Some p)
    obtain p1 where 1: "log_of h1 k = Some p1" "log_records p1 = log_records p @ numbered (LEO p) (new1 k)"
      "LEO p1 = LEO p + of_nat (length (new1 k))"
      by (rule extends_Some [OF assms(1) Some]) blast
    obtain p2 where "log_of h2 k = Some p2" "log_inv p2" "log_records p2 = log_records p1 @ numbered (LEO p1) (new2 k)"
      "LEO p2 = LEO p1 + of_nat (length (new2 k))"
      by (rule extends_Some [OF assms(2) 1(1)]) blast
    with Some 1 show ?thesis by (simp add: numbered_append add.assoc)
  qed
qed

lemma storeRecord_extends:
  assumes "logs_ready (Suc n) h" and "log_of h key = Some p" and "record_ok r"
  shows "\<exists>h'. storeRecord key r f h = (Inr (if f = -1 then LEO p else f), h') \<and>
    extends h h' (\<lambda>k. if k = key then [r] else []) \<and> logs_ready n h'"
proof -
  have ok: "log_inv p" "unat (LEO p) + Suc n < 2 ^ 64" using assms(1,2) by (simp_all add: logs_ready_def)
  then have "unat (LEO p) + 1 < 2 ^ 64" by simp
  from plog.app_law [OF ok(1) assms(3) this] obtain p' where
    p': "Append p r = (p', Inr (r\<lparr>Offset := LEO p\<rparr>))" "log_inv p'"
      "log_records p' = log_records p @ [r\<lparr>Offset := LEO p\<rparr>]" "LEO p' = LEO p + 1"
    by blast
  let ?h = "tell (RecordMsgIn 1 (valueLen (r\<lparr>Offset := LEO p\<rparr>))) (h\<lparr>partitions := mput key p' (partitions h)\<rparr>)"
  have run: "storeRecord key r f h = (Inr (if f = -1 then LEO p else f), ?h)"
    using assms(2) p'(1) by (simp add: storeRecord_def appendTo_def act_bind_def act_run_def log_of_def)
  have at: "log_of ?h k = (if k = key then Some p' else log_of h k)" for k by (simp add: log_of_def tell_def)
  have leo: "unat (LEO p') = unat (LEO p) + 1" using unat_add_of_nat [of "LEO p" 1] ok(2) p'(4) by simp
  have ext: "extends h ?h (\<lambda>k. if k = key then [r] else [])"
    unfolding extends_def at using assms(1,2) p' by (auto simp: logs_ready_def split: option.split)
  have "log_inv q \<and> unat (LEO q) + n < 2 ^ 64" if "log_of ?h k = Some q" for k q
  proof (cases "k = key")
    case True
    with that at leo ok(2) p'(2) show ?thesis by simp
  next
    case False
    with that at assms(1) show ?thesis by (force simp: logs_ready_def)
  qed
  then have "logs_ready n ?h" unfolding logs_ready_def by blast
  with run ext show ?thesis by blast
qed

lemma produceIter_record:
  assumes "logs_ready (Suc n) h" and "log_of h key = Some p" and "record_ok r"
  shows "\<exists>h'. produceIter e key (marshal_all (r # rs)) f h = (Inr (marshal_all rs, if f = -1 then LEO p else f), h') \<and>
    extends h h' (\<lambda>k. if k = key then [r] else []) \<and> logs_ready n h'"
  using storeRecord_extends [OF assms, of f] ReadRecord_Marshal [OF assms(3), of "marshal_all rs"]
  by (auto simp: produceIter_def)

text \<open>The offset at which a goroutine's first record is stored.\<close>

definition firstAt :: "(nat \<Rightarrow> string) \<Rightarrow> Handler \<Rightarrow> (nat \<times> Record) list \<Rightarrow> nat \<Rightarrow> i64 \<Rightarrow> i64" where
  "firstAt key h tr i f =
     (if f = -1 \<and> i \<in> fst ` set tr
      then LEO (the (log_of h (key i))) + of_nat (length (takeWhile (\<lambda>x. fst x \<noteq> i) (on_key key (key i) tr)))
      else f)"

lemma room_no_max:
  assumes "unat (x :: 64 word) + n < 2 ^ 64" and "0 < n"
  shows "x \<noteq> -1"
proof
  assume "x = -1"
  moreover have "unat (x + 1) = unat x + 1" using unat_add_of_nat [of x 1] assms by simp
  ultimately show False by simp
qed

lemma firstAt_self:
  assumes "LEO p \<noteq> -1" and "log_of h (key i) = Some p"
  shows "firstAt key h1 tr i (if f = -1 then LEO p else f) = firstAt key h ((i, r) # tr) i f"
  using assms by (simp add: firstAt_def on_key_def)

lemma firstAt_other:
  assumes ext: "extends h h1 (\<lambda>k. if k = key j then [r] else [])" and "i \<noteq> j"
    and opn: "i \<in> fst ` set tr \<Longrightarrow> log_of h (key i) \<noteq> None"
  shows "firstAt key h1 tr i f = firstAt key h ((j, r) # tr) i f"
proof (cases "i \<in> fst ` set tr")
  case True
  with opn obtain p where p: "log_of h (key i) = Some p" by blast
  obtain p1 where p1: "log_of h1 (key i) = Some p1" "LEO p1 = LEO p + of_nat (length (if key i = key j then [r] else []))"
    by (rule extends_Some [OF ext p]) blast
  with True p assms(2) show ?thesis by (cases "key j = key i") (simp_all add: firstAt_def on_key_def)
next
  case False
  with assms(2) show ?thesis by (auto simp: firstAt_def)
qed

lemma taken_from: "i \<in> fst ` set (taken sched b) \<Longrightarrow> b i \<noteq> []"
proof (induction sched arbitrary: b)
  case (Cons j sched)
  show ?case
  proof (cases "b j")
    case Nil
    with Cons show ?thesis by simp
  next
    case bj: (Cons r rs)
    show ?thesis
    proof (cases "i = j")
      case False
      with Cons.prems bj have "i \<in> fst ` set (taken sched (b(j := rs)))" by auto
      then have "(b(j := rs)) i \<noteq> []" by (rule Cons.IH)
      with False show ?thesis by simp
    qed (simp add: bj)
  qed
qed simp

text \<open>The goroutines run the batches \<open>b\<close>: what is unread, that it is well-formed, that its log is open.\<close>

definition runs_batches :: "(nat \<Rightarrow> string) \<Rightarrow> (nat \<Rightarrow> Record list) \<Rightarrow> conc \<Rightarrow> bool" where
  "runs_batches key b c \<longleftrightarrow>
     (\<forall>i. c_reader c i = marshal_all (b i) \<and> list_all record_ok (b i) \<and> (b i \<noteq> [] \<longrightarrow> log_of (c_h c) (key i) \<noteq> None))"

lemma conc_step_done: "runs_batches key b c \<Longrightarrow> b j = [] \<Longrightarrow> conc_step e key j c = Inr c"
  by (simp add: runs_batches_def conc_step_def)

lemma conc_step_record:
  assumes run: "runs_batches key b c" and rdy: "logs_ready (Suc n) (c_h c)" and bj: "b j = r # rs"
  shows "\<exists>c1. conc_step e key j c = Inr c1 \<and> runs_batches key (b(j := rs)) c1 \<and> logs_ready n (c_h c1) \<and>
    extends (c_h c) (c_h c1) (\<lambda>k. if k = key j then [r] else []) \<and>
    c_first c1 = (c_first c)(j := if c_first c j = -1 then LEO (the (log_of (c_h c) (key j))) else c_first c j)"
proof -
  from run bj obtain p where p: "log_of (c_h c) (key j) = Some p" by (force simp: runs_batches_def)
  have ok: "record_ok r" and oks: "list_all record_ok rs"
    using run bj unfolding runs_batches_def by (metis list.pred_inject(2))+
  from produceIter_record [OF rdy p ok, of e rs "c_first c j"] obtain h1 where
    it: "produceIter e (key j) (marshal_all (b j)) (c_first c j) (c_h c) =
        (Inr (marshal_all rs, if c_first c j = -1 then LEO p else c_first c j), h1)"
    and grow: "extends (c_h c) h1 (\<lambda>k. if k = key j then [r] else [])" and rdy1: "logs_ready n h1"
    unfolding bj by blast
  let ?c1 = "\<lparr>c_h = h1, c_reader = (c_reader c)(j := marshal_all rs),
      c_first = (c_first c)(j := if c_first c j = -1 then LEO p else c_first c j)\<rparr>"
  have "marshal_all (b j) \<noteq> []" using bj by (simp add: Marshal_nonempty)
  then have "conc_step e key j c = Inr ?c1" using it run by (simp add: conc_step_def runs_batches_def)
  moreover have "log_of h1 (key i) \<noteq> None" if "(b(j := rs)) i \<noteq> []" for i
  proof -
    have "b i \<noteq> []" using that bj by (cases "i = j") auto
    with run obtain q where "log_of (c_h c) (key i) = Some q" by (force simp: runs_batches_def)
    then show ?thesis by (rule extends_Some [OF grow]) simp
  qed
  then have "runs_batches key (b(j := rs)) ?c1" using run oks by (simp add: runs_batches_def)
  ultimately show ?thesis using grow rdy1 p by auto
qed

lemma conc_run_spec:
  assumes "logs_ready (length sched) (c_h c)" and "runs_batches key b c"
  shows "\<exists>c'. conc_run e key sched c = Inr c' \<and>
    extends (c_h c) (c_h c') (\<lambda>k. map snd (on_key key k (taken sched b))) \<and>
    (\<forall>i. c_reader c' i = marshal_all (drop (count_list sched i) (b i))) \<and>
    (\<forall>i. c_first c' i = firstAt key (c_h c) (taken sched b) i (c_first c i))"
  using assms
proof (induction sched arbitrary: c b)
  case Nil
  then show ?case using extends_refl [of 0 "c_h c"] by (simp add: on_key_def firstAt_def runs_batches_def)
next
  case (Cons j sched)
  show ?case
  proof (cases "b j")
    case Nil
    have "logs_ready (length sched) (c_h c)" using Cons.prems(1) by (force simp: logs_ready_def)
    from Cons.IH [OF this Cons.prems(2)] conc_step_done [OF Cons.prems(2) Nil] Nil show ?thesis by auto
  next
    case bj: (Cons r rs)
    define b' where "b' = b(j := rs)"
    have tk: "taken (j # sched) b = (j, r) # taken sched b'" using bj by (simp add: b'_def)
    obtain p where p: "log_of (c_h c) (key j) = Some p" using Cons.prems(2) bj by (force simp: runs_batches_def)
    have leo: "LEO p \<noteq> -1"
      by (rule room_no_max [of _ "Suc (length sched)"]) (use Cons.prems(1) p in \<open>auto simp: logs_ready_def\<close>)
    from conc_step_record [where n = "length sched" and e = e, OF Cons.prems(2) _ bj] Cons.prems(1) p obtain c1 where
      st: "conc_step e key j c = Inr c1" and run: "runs_batches key b' c1" and rdy: "logs_ready (length sched) (c_h c1)"
      and grow: "extends (c_h c) (c_h c1) (\<lambda>k. if k = key j then [r] else [])"
      and first: "c_first c1 = (c_first c)(j := if c_first c j = -1 then LEO p else c_first c j)"
      unfolding b'_def by auto
    obtain c' where c': "conc_run e key sched c1 = Inr c'"
      "extends (c_h c1) (c_h c') (\<lambda>k. map snd (on_key key k (taken sched b')))"
      "\<And>i. c_reader c' i = marshal_all (drop (count_list sched i) (b' i))"
      "\<And>i. c_first c' i = firstAt key (c_h c1) (taken sched b') i (c_first c1 i)"
      using Cons.IH [OF rdy run] by blast
    have "(\<lambda>k. map snd (on_key key k (taken (j # sched) b))) =
        (\<lambda>k. (if k = key j then [r] else []) @ map snd (on_key key k (taken sched b')))"
      unfolding tk by (rule ext) (simp add: on_key_def)
    then have "extends (c_h c) (c_h c') (\<lambda>k. map snd (on_key key k (taken (j # sched) b)))"
      using extends_trans [OF grow c'(2)] by simp
    moreover have "c_reader c' i = marshal_all (drop (count_list (j # sched) i) (b i))" for i
      unfolding c'(3) using bj by (cases "i = j") (simp_all add: b'_def)
    moreover have "c_first c' i = firstAt key (c_h c) (taken (j # sched) b) i (c_first c i)" for i
    proof (cases "i = j")
      case True
      with leo p show ?thesis unfolding c'(4) tk first by (simp add: firstAt_self)
    next
      case False
      have "log_of (c_h c) (key i) \<noteq> None" if "i \<in> fst ` set (taken sched b')"
        using taken_from [OF that] False Cons.prems(2) by (simp add: runs_batches_def b'_def)
      from firstAt_other [OF grow False this] False show ?thesis unfolding c'(4) tk first by simp
    qed
    ultimately show ?thesis using st c'(1) by auto
  qed
qed

section \<open>A fetch between appends\<close>

text \<open>
  The fetch handler calls \<open>ReadZeroCopy\<close> and later \<open>LEO\<close>, each under the partition's lock:
  producers may append before, between and after the two.
\<close>

definition fetchBytes :: "string \<Rightarrow> u64 \<Rightarrow> int \<Rightarrow> Handler \<Rightarrow> bytes option" where
  "fetchBytes key start maxB h =
     (case log_of h key of
        None \<Rightarrow> None
      | Some pl \<Rightarrow> (case ReadZeroCopy pl start maxB of (out, Some err) \<Rightarrow> None | (out, None) \<Rightarrow> Some out))"

definition fetchWatermark :: "string \<Rightarrow> Handler \<Rightarrow> u64 option" where
  "fetchWatermark key h = map_option LEO (log_of h key)"

text \<open>With nothing in between this is the read of the sequential handler.\<close>

lemma readFrom_two_calls:
  "fetchBytes key start maxB h = Some out \<Longrightarrow> fetchWatermark key h = Some hw \<Longrightarrow>
   readFrom key start maxB h = (Inr (out, hw), h)"
  by (auto simp: fetchBytes_def fetchWatermark_def readFrom_def log_of_def split: option.splits prod.splits)

lemma conc_run_append:
  "conc_run e key (s1 @ s2) c = (case conc_run e key s1 c of Inl err \<Rightarrow> Inl err | Inr c' \<Rightarrow> conc_run e key s2 c')"
  by (induction s1 arbitrary: c) (simp_all split: sum.split)

lemma taken_append:
  "taken (s1 @ s2) b = taken s1 b @ taken s2 (\<lambda>i. drop (count_list s1 i) (b i))"
proof (induction s1 arbitrary: b)
  case (Cons j s1)
  show ?case
  proof (cases "b j")
    case Nil
    then have "(\<lambda>i. drop (count_list (j # s1) i) (b i)) = (\<lambda>i. drop (count_list s1 i) (b i))"
      by (intro ext) auto
    with Nil Cons.IH [of b] show ?thesis by simp
  next
    case bj: (Cons r rs)
    have eq: "(\<lambda>i. drop (count_list (j # s1) i) (b i)) = (\<lambda>i. drop (count_list s1 i) ((b(j := rs)) i))"
      using bj by (intro ext) auto
    have "taken ((j # s1) @ s2) b = (j, r) # taken (s1 @ s2) (b(j := rs))" using bj by simp
    also have "\<dots> = taken (j # s1) b @ taken s2 (\<lambda>i. drop (count_list s1 i) ((b(j := rs)) i))"
      unfolding Cons.IH using bj by simp
    finally show ?thesis unfolding eq .
  qed
qed simp

lemma ReadZeroCopy_sound:
  assumes "log_inv p" and "0 < maxB"
  shows "\<exists>out xs. ReadZeroCopy p start maxB = (out, None) \<and> ParseRecordStream out = Inr xs \<and>
    prefix (filter (\<lambda>r. start \<le> Offset r) xs) (filter (\<lambda>r. start \<le> Offset r) (log_records p))"
proof (cases "BaseOffset p \<le> start")
  case True
  with ReadZeroCopy_records [OF assms] show ?thesis by blast
next
  case False
  then have "ReadZeroCopy p start maxB = ([], None)"
    using findSegmentIndex_correct [OF assms(1), of start] by (simp add: ReadZeroCopy_def not_le)
  then show ?thesis using ParseRecordStream_marshal_all [of "[]"] by simp
qed

lemma fetch_between:
  assumes rdy: "logs_ready (length (s1 @ s2)) (c_h c)" and run: "runs_batches key b c"
    and p: "log_of (c_h c) k = Some p" and "0 < maxB"
  shows "\<exists>c1 c2 out hw xs p2. conc_run e key s1 c = Inr c1 \<and> conc_run e key s2 c1 = Inr c2 \<and>
    fetchBytes k start maxB (c_h c1) = Some out \<and> fetchWatermark k (c_h c2) = Some hw \<and>
    log_of (c_h c2) k = Some p2 \<and> log_inv p2 \<and> LEO p2 = hw \<and> ParseRecordStream out = Inr xs \<and>
    prefix (filter (\<lambda>r. start \<le> Offset r) xs) (filter (\<lambda>r. start \<le> Offset r) (log_records p2))"
proof -
  have "logs_ready (length s1) (c_h c)" using rdy by (force simp: logs_ready_def)
  from conc_run_spec [OF this run, of e] obtain c1 where
    1: "conc_run e key s1 c = Inr c1" "extends (c_h c) (c_h c1) (\<lambda>k. map snd (on_key key k (taken s1 b)))"
    by blast
  from conc_run_spec [OF rdy run, of e] obtain c2 where
    2: "conc_run e key s2 c1 = Inr c2" "extends (c_h c) (c_h c2) (\<lambda>k. map snd (on_key key k (taken (s1 @ s2) b)))"
    using 1(1) by (auto simp: conc_run_append)
  obtain p1 where p1: "log_of (c_h c1) k = Some p1" "log_inv p1"
    "log_records p1 = log_records p @ numbered (LEO p) (map snd (on_key key k (taken s1 b)))"
    by (rule extends_Some [OF 1(2) p]) blast
  obtain p2 where p2: "log_of (c_h c2) k = Some p2" "log_inv p2"
    "log_records p2 = log_records p @ numbered (LEO p) (map snd (on_key key k (taken (s1 @ s2) b)))"
    by (rule extends_Some [OF 2(2) p]) blast
  have "prefix (log_records p1) (log_records p2)"
    unfolding p1(3) p2(3) taken_append by (simp add: on_key_def numbered_append)
  then have pre: "prefix (filter (\<lambda>r. start \<le> Offset r) (log_records p1)) (filter (\<lambda>r. start \<le> Offset r) (log_records p2))"
    by (auto simp: prefix_def)
  obtain out xs where "ReadZeroCopy p1 start maxB = (out, None)" "ParseRecordStream out = Inr xs"
    "prefix (filter (\<lambda>r. start \<le> Offset r) xs) (filter (\<lambda>r. start \<le> Offset r) (log_records p1))"
    using ReadZeroCopy_sound [OF p1(2) assms(4), of start] by blast
  with 1(1) 2(1) p1(1) p2 prefix_order.trans [OF _ pre] show ?thesis
    by (intro exI [of _ c1] exI [of _ c2] exI [of _ out] exI [of _ "LEO p2"] exI [of _ xs] exI [of _ p2])
      (simp add: fetchBytes_def fetchWatermark_def)
qed

end
