(* ===== verification/Concurrency_Properties.thy ===== *)
theory Concurrency_Properties
  imports Log_Calls Concurrent_Reads Concurrent_Produce Broker_Properties
begin

text \<open>
  Properties of goroutines that work on the same partitions: produce requests interleaved
  record by record, fetches between their appends, any sequence of locked calls of all
  goroutines including the cleaner, and calls of \<open>Read\<close> that overlap.
\<close>

section \<open>Requests that run at the same time\<close>

text \<open>
  C3: Produce requests whose loops interleave record by record, under any schedule that gives
  every goroutine as many turns as its batch has records: every loop ends, no request crashes,
  and there is one order \<open>tr\<close> of all records that keeps the order within every batch and loses
  and duplicates nothing, such that every log has grown by exactly the records sent to it in
  this order, with consecutive offsets; the base offset a request reports is the one at which
  its first record is stored. The records of one batch need not be neighbours.
\<close>

theorem concurrent_batches_kept:
  assumes "served e (length sched) h" and "\<And>i. list_all record_ok (b i)" and "\<And>i. length (b i) \<le> count_list sched i"
    and "\<And>i. b i \<noteq> [] \<Longrightarrow> log_of h (key i) \<noteq> None"
  shows "\<exists>c tr. conc_run e key sched \<lparr>c_h = h, c_reader = (\<lambda>i. marshal_all (b i)), c_first = (\<lambda>_. -1)\<rparr> = Inr c \<and>
    (\<forall>i. c_reader c i = [] \<and> map snd (filter (\<lambda>x. fst x = i) tr) = b i) \<and>
    (\<forall>k p. log_of h k = Some p \<longrightarrow> (\<exists>p'. log_of (c_h c) k = Some p' \<and> log_inv p' \<and>
       log_records p' = log_records p @ numbered (LEO p) (map snd (on_key key k tr)))) \<and>
    (\<forall>i p. b i \<noteq> [] \<longrightarrow> log_of h (key i) = Some p \<longrightarrow>
       c_first c i = LEO p + of_nat (length (takeWhile (\<lambda>x. fst x \<noteq> i) (on_key key (key i) tr))))"
proof -
  let ?c = "\<lparr>c_h = h, c_reader = (\<lambda>i. marshal_all (b i)), c_first = (\<lambda>_. -1 :: i64)\<rparr>" and ?tr = "taken sched b"
  have rdy: "logs_ready (length sched) (c_h ?c)"
    using assms(1) by (auto simp: logs_ready_def served_def broker_inv_def logs_inv_def log_of_def)
  have run: "runs_batches key b ?c" using assms(2,4) by (simp add: runs_batches_def)
  obtain c where c: "conc_run e key sched ?c = Inr c"
    "extends h (c_h c) (\<lambda>k. map snd (on_key key k ?tr))"
    "\<And>i. c_reader c i = marshal_all (drop (count_list sched i) (b i))" "\<And>i. c_first c i = firstAt key h ?tr i (-1)"
    using conc_run_spec [OF rdy run, of e] by auto
  have thread: "map snd (filter (\<lambda>x. fst x = i) ?tr) = b i" for i using taken_thread [of i sched b] assms(3) by simp
  have taken: "i \<in> fst ` set ?tr" if "b i \<noteq> []" for i
  proof (rule ccontr)
    assume "i \<notin> fst ` set ?tr"
    then have "filter (\<lambda>x. fst x = i) ?tr = []" by (force simp: filter_empty_conv)
    with thread [of i] that show False by simp
  qed
  have "c_first c i = LEO p + of_nat (length (takeWhile (\<lambda>x. fst x \<noteq> i) (on_key key (key i) ?tr)))"
    if "b i \<noteq> []" "log_of h (key i) = Some p" for i p
    using c(4) [of i] taken that by (simp add: firstAt_def)
  moreover have "\<exists>p'. log_of (c_h c) k = Some p' \<and> log_inv p' \<and>
      log_records p' = log_records p @ numbered (LEO p) (map snd (on_key key k ?tr))" if "log_of h k = Some p" for k p
    by (rule extends_Some [OF c(2) that]) blast
  moreover have "c_reader c i = []" for i using c(3) [of i] assms(3) by simp
  ultimately show ?thesis using c(1) thread by blast
qed

definition two_batches :: "nat \<Rightarrow> Record list" where
  "two_batches i = (if i = 0 then [sample, sample'] else if i = 1 then [sample'] else [])"

theorem concurrent_batches_kept_witness:
  "\<exists>h p c p'. log_of h (partitionKey ''t'' 0) = Some p \<and>
    conc_run calm_env (\<lambda>_. partitionKey ''t'' 0) [0, 1, 0]
      \<lparr>c_h = h, c_reader = (\<lambda>i. marshal_all (two_batches i)), c_first = (\<lambda>_. -1)\<rparr> = Inr c \<and>
    log_of (c_h c) (partitionKey ''t'' 0) = Some p' \<and> length (log_records p') = length (log_records p) + 3"
proof -
  let ?k = "partitionKey ''t'' 0"
  have srv: "served calm_env 3 fresh_broker" by (rule fresh_served) simp
  obtain h p where h: "log_of h ?k = Some p" "served calm_env 3 h"
    using getOrCreate_run [OF srv topic_t fresh_setup(3), of 0] by blast
  have srv': "served calm_env (length [0 :: nat, 1, 0]) h" using h(2) by (simp add: numeral_3_eq_3)
  have ok: "list_all record_ok (two_batches i)" "length (two_batches i) \<le> count_list [0, 1, 0] i" for i
    using sample_ok by (simp_all add: two_batches_def)
  have opn: "log_of h ?k \<noteq> None" using h(1) by simp
  obtain c tr where
    c: "conc_run calm_env (\<lambda>_. ?k) [0, 1, 0] \<lparr>c_h = h, c_reader = (\<lambda>i. marshal_all (two_batches i)), c_first = (\<lambda>_. -1)\<rparr> = Inr c"
      "\<forall>i. c_reader c i = [] \<and> map snd (filter (\<lambda>x. fst x = i) tr) = two_batches i"
      "\<forall>k p. log_of h k = Some p \<longrightarrow> (\<exists>p'. log_of (c_h c) k = Some p' \<and> log_inv p' \<and>
        log_records p' = log_records p @ numbered (LEO p) (map snd (on_key (\<lambda>_. ?k) k tr)))"
    using concurrent_batches_kept [where key = "\<lambda>_. ?k" and b = two_batches, OF srv' ok opn] by blast
  obtain p' where p': "log_of (c_h c) ?k = Some p'" "log_records p' = log_records p @ numbered (LEO p) (map snd tr)"
    using c(3) [rule_format, OF h(1)] by (auto simp: on_key_def)
  have "set (map fst tr) \<subseteq> {0, 1}"
  proof
    fix i
    assume "i \<in> set (map fst tr)"
    then have "filter (\<lambda>x. fst x = i) tr \<noteq> []" by (auto simp: filter_empty_conv)
    with c(2) have "two_batches i \<noteq> []" by (metis map_is_Nil_conv)
    then show "i \<in> {0, 1}" by (auto simp: two_batches_def split: if_splits)
  qed
  then have "filter (\<lambda>x. fst x \<noteq> 0) tr = filter (\<lambda>x. fst x = 1) tr" by (intro filter_cong) auto
  moreover have "length tr = length (filter (\<lambda>x. fst x = 0) tr) + length (filter (\<lambda>x. fst x \<noteq> 0) tr)"
    by (rule sum_length_filter_compl [symmetric])
  moreover have "length (filter (\<lambda>x. fst x = i) tr) = length (two_batches i)" for i
    using c(2) by (metis length_map)
  ultimately have "length tr = 3" by (simp add: two_batches_def)
  then have "length (log_records p') = length (log_records p) + 3" using p'(2) by simp
  with c(1) p'(1) h(1) show ?thesis by blast
qed

text \<open>
  C4: A consumer fetches while producers append, its read falling between any two appends
  and its look at the log end offset between any later two. It gets bytes that parse to
  records; those from the requested offset on are an initial part of what the log holds from
  there in the end, so it sees no gap, nothing out of order and nothing that is not stored,
  and the high watermark it is told lies above all of them.
\<close>

theorem fetch_during_produce:
  assumes "served e (length (sched1 @ sched2)) h" and "\<And>i. list_all record_ok (b i)"
    and "\<And>i. b i \<noteq> [] \<Longrightarrow> log_of h (key i) \<noteq> None" and "log_of h k = Some p" and "0 < maxB"
    and "c = \<lparr>c_h = h, c_reader = (\<lambda>i. marshal_all (b i)), c_first = (\<lambda>_. -1)\<rparr>"
  shows "\<exists>c1 c2 out hw xs p2. conc_run e key sched1 c = Inr c1 \<and> conc_run e key sched2 c1 = Inr c2 \<and>
    fetchBytes k start maxB (c_h c1) = Some out \<and> fetchWatermark k (c_h c2) = Some hw \<and>
    log_of (c_h c2) k = Some p2 \<and> ParseRecordStream out = Inr xs \<and>
    prefix (filter (\<lambda>r. start \<le> Offset r) xs) (filter (\<lambda>r. start \<le> Offset r) (log_records p2)) \<and>
    (\<forall>r \<in> set xs. start \<le> Offset r \<longrightarrow> Offset r < hw)"
proof -
  have "logs_ready (length (sched1 @ sched2)) (c_h c)"
    using assms(1,6) by (auto simp: logs_ready_def served_def broker_inv_def logs_inv_def log_of_def)
  moreover have "runs_batches key b c" using assms(2,3,6) by (simp add: runs_batches_def)
  moreover have "log_of (c_h c) k = Some p" using assms(4,6) by simp
  ultimately obtain c1 c2 out hw xs p2 where
    f: "conc_run e key sched1 c = Inr c1" "conc_run e key sched2 c1 = Inr c2"
      "fetchBytes k start maxB (c_h c1) = Some out" "fetchWatermark k (c_h c2) = Some hw"
      "log_of (c_h c2) k = Some p2" "log_inv p2" "LEO p2 = hw" "ParseRecordStream out = Inr xs"
    and pre: "prefix (filter (\<lambda>r. start \<le> Offset r) xs) (filter (\<lambda>r. start \<le> Offset r) (log_records p2))"
    using fetch_between [OF _ _ _ assms(5)] by metis
  have "Offset r < hw" if "r \<in> set xs" "start \<le> Offset r" for r
    using set_mono_prefix [OF pre] that below_LEO [OF f(6)] f(7) by auto
  with f pre show ?thesis by blast
qed

theorem fetch_during_produce_witness:
  "\<exists>h c1 out xs. conc_run calm_env (\<lambda>_. partitionKey ''t'' 0) [0, 1]
      \<lparr>c_h = h, c_reader = (\<lambda>i. marshal_all (two_batches i)), c_first = (\<lambda>_. -1)\<rparr> = Inr c1 \<and>
    fetchBytes (partitionKey ''t'' 0) 0 1000 (c_h c1) = Some out \<and> ParseRecordStream out = Inr xs"
proof -
  let ?k = "partitionKey ''t'' 0"
  have srv: "served calm_env 3 fresh_broker" by (rule fresh_served) simp
  obtain h p where h: "log_of h ?k = Some p" "served calm_env 3 h"
    using getOrCreate_run [OF srv topic_t fresh_setup(3), of 0] by blast
  have srv': "served calm_env (length ([0 :: nat, 1] @ [0])) h" using h(2) by (simp add: numeral_3_eq_3)
  have ok: "list_all record_ok (two_batches i)" for i using sample_ok by (simp add: two_batches_def)
  have opn: "log_of h ?k \<noteq> None" using h(1) by simp
  from fetch_during_produce [where key = "\<lambda>_. ?k" and b = two_batches and start = 0 and maxB = 1000,
      OF srv' ok opn h(1) _ refl] show ?thesis by auto
qed

section \<open>Any calls on one partition\<close>

text \<open>
  C5: A partition under any sequence of calls that produce handlers, fetch handlers, the
  dashboard and the cleaner make on it, one call after the other (the calls that write take
  the write lock; dashboard reads hold only a read lock and can overlap each other, which
  \<open>overlapping_reads_destroy_record\<close> is about and this theorem excludes): the
  invariant holds; the log end offset counts exactly the appended records; what is on disk is
  a subsequence of the old records and the appended ones, each with the offset it was given;
  as long as no segment is removed, every non-empty key keeps its latest value in the
  key-value table, except that compaction may drop a latest value that is present but empty;
  and as long as none is compacted either, nothing is missing. A read afterwards succeeds and
  returns records from the requested offset on in order.
\<close>

theorem interleaved_calls_safe:
  assumes "log_inv p" and "list_all record_ok (appended cs)" and "unat (LEO p) + length (appended cs) < 2 ^ 64"
    and "p' = fold log_do cs p" and "new = numbered (LEO p) (appended cs)"
  shows "log_inv p' \<and> LEO p' = LEO p + of_nat (length (appended cs)) \<and>
    subseq (log_records p') (log_records p @ new) \<and>
    (CallRemoveOldest \<notin> set cs \<longrightarrow> (\<forall>k. k \<noteq> [] \<longrightarrow> kept_value (table (log_records p') k) (table (log_records p @ new) k))) \<and>
    (CallRemoveOldest \<notin> set cs \<longrightarrow> CallCompact \<notin> set cs \<longrightarrow> log_records p' = log_records p @ new) \<and>
    (\<exists>rs. fst (Read p' start) = Inr rs \<and> subseq rs (log_records p @ new) \<and> (\<forall>r \<in> set rs. start \<le> Offset r))"
proof -
  have eff: "call_effect cs p p'" using calls_effect [OF assms(1-3)] assms(4) by simp
  then have inv: "log_inv p'" and sub: "subseq (log_records p') (log_records p @ new)"
    by (simp_all add: call_effect_def Let_def assms(5))
  define rs where "rs = (if start < BaseOffset p' then [] else filter (\<lambda>r. start \<le> Offset r) (log_records p'))"
  have rs: "fst (Read p' start) = Inr rs" using plog.rd_law [OF inv, of start] unfolding rs_def by fastforce
  have "subseq rs (log_records p')" "\<forall>r \<in> set rs. start \<le> Offset r" by (simp_all add: rs_def)
  then have "subseq rs (log_records p @ new)" using sub by (blast intro: subseq_order.order_trans)
  with rs eff \<open>\<forall>r \<in> set rs. _\<close> show ?thesis unfolding call_effect_def Let_def assms(5) by blast
qed

text \<open>An append, a cleaning cycle's removal and compaction, and another append, from an empty partition.\<close>

theorem interleaved_calls_safe_witness:
  "\<exists>p. NewPartitionLog Map.empty [] 1024 4096 = Inr p \<and>
    log_inv (fold log_do [CallAppend sample, CallRemoveOldest, CallRead 0, CallCompact, CallAppend sample'] p)"
proof -
  obtain p where p: "NewPartitionLog Map.empty [] 1024 4096 = Inr p" "log_inv p" "LEO p = 0"
    using NewPartitionLog_empty [of 1024 4096] by auto
  have "list_all record_ok (appended [CallAppend sample, CallRemoveOldest, CallRead 0, CallCompact, CallAppend sample'])"
    using sample_ok by simp
  with interleaved_calls_safe [OF p(2) this _ refl refl] p show ?thesis by simp
qed

section \<open>Reads that overlap\<close>

text \<open>
  C39: Calls of \<open>Read\<close> share the handle of the log file and hold only a read lock. On a
  partition of one segment with two records, the first with a textual key: a call that is not
  disturbed returns what the sequential model says; but there is an interleaving of two
  calls after which both have panicked (the HTTP server of the dashboard recovers from that),
  and the next append, which is acknowledged, overwrites the second record.
\<close>

theorem overlapping_reads_destroy_record:
  assumes "log_inv p" and "segments p = [s]" and "log_records p = r1 # r2 # rs" and "text_keyed r1"
    and "unat (Offset r2) < 2 ^ 32" and "record_ok r" and "\<not> IsFull s"
    and "calls = (\<lambda>_. Locating (BaseOffset p))"
  shows "(\<exists>n. fst (run_reads (pl_dir p) (replicate n 0) (calls, s)) 0 = Returned (fst (Segment_Read (pl_dir p) s (BaseOffset p)))) \<and>
    prefix (Marshal r1 @ Marshal r2) (contents (pl_dir p) (logFile s)) \<and>
    (\<exists>sched calls' s' p' r'. run_reads (pl_dir p) sched (calls, s) = (calls', s') \<and>
       calls' 0 = Returned (Inl Panic) \<and> calls' 1 = Returned (Inl Panic) \<and>
       Append (p\<lparr>segments := [s']\<rparr>) r = (p', Inr r') \<and>
       \<not> prefix (Marshal r1 @ Marshal r2) (contents (pl_dir p') (logFile s)))"
proof -
  let ?d = "pl_dir p"
  have "segment_inv ?d s" "segment_records ?d s = r1 # r2 # rs"
    using assms(1-3) by (simp_all add: log_inv_def log_records_def)
  then obtain es where rep: "segment_rep ?d s (r1 # r2 # rs) es" by (auto simp: segment_inv_def)
  have base: "BaseOffset p = baseOffset s" using assms(2) by (simp add: BaseOffset_def)
  let ?s = "s\<lparr>logPos := length (Marshal r1) + 4\<rparr>"
  have reads: "run_reads ?d [0, 1, 0, 1, 1, 0] (calls, s) =
      (calls(0 := Returned (Inl Panic), 1 := Returned (Inl Panic)), ?s)"
    using overlapping_reads [OF rep assms(4), of calls] assms(8) base by simp
  obtain d' s2 r' where sa: "Segment_Append ?d ?s r = (d', s2, r')" by (metis prod.exhaust)
  have "Append (p\<lparr>segments := [?s]\<rparr>) r = (p\<lparr>pl_dir := d', segments := [s2]\<rparr>, Inr r')"
    using sa assms(7) by (simp add: Append_def appendActive_def activeSegment_def IsFull_def)
  moreover have "\<not> prefix (Marshal r1 @ Marshal r2) (contents d' (logFile s))"
    by (rule misplaced_append [OF rep assms(5,6) sa])
  moreover have "prefix (Marshal r1 @ Marshal r2) (contents ?d (logFile s))"
    using segment_repD(1,2) [OF rep] by (simp add: segment_names_def)
  moreover have "\<exists>n. fst (run_reads ?d (replicate n 0) (calls, s)) 0 = Returned (fst (Segment_Read ?d s (BaseOffset p)))"
    using read_alone [OF rep, of calls 0 "BaseOffset p"] assms(8) by (metis fst_conv fun_upd_same)
  ultimately show ?thesis using reads
    by (intro conjI exI [of _ "[0, 1, 0, 1, 1, 0]"] exI [of _ "calls(0 := Returned (Inl Panic), 1 := Returned (Inl Panic))"]
        exI [of _ ?s] exI [of _ "p\<lparr>pl_dir := d', segments := [s2]\<rparr>"] exI [of _ r']) simp_all
qed

text \<open>Two messages of the producer command in a new partition.\<close>

definition chat :: "string \<Rightarrow> Record" where
  "chat msg = \<lparr>Offset = 0, Timestamp = 5, Key = Some (bytes_of ''cli-key''), Value = Some (bytes_of msg)\<rparr>"

lemma chat_log:
  obtains p s where "log_inv p" "segments p = [s]" "\<not> IsFull s"
    "log_records p = [(chat ''hi'')\<lparr>Offset := 0\<rparr>, (chat ''yo'')\<lparr>Offset := 1\<rparr>]"
proof -
  have ok: "record_ok (chat ''hi'')" "record_ok (chat ''yo'')" by (simp_all add: chat_def record_ok_def optLen_def)
  have len: "length (Marshal ((chat m)\<lparr>Offset := n\<rparr>)) = 35 + length m" if "length m < 100" for m n
    using that by (subst length_Marshal) (auto simp: chat_def record_ok_def optLen_def)
  obtain p0 s0 where p0: "log_inv p0" "segments p0 = [s0]" "maxBytes s0 = 1024" "log_records p0 = []" "LEO p0 = 0"
    using fresh_single [of 1024] by auto
  have room: "unat (LEO p0) + 1 < 2 ^ 64" using p0(5) by simp
  obtain p1 s1 where p1: "log_inv p1" "segments p1 = [s1]" "maxBytes s1 = 1024"
    "log_records p1 = [(chat ''hi'')\<lparr>Offset := 0\<rparr>]" "LEO p1 = 1"
    using single_append [OF p0(1,2) _ ok(1) room] p0 by auto
  have room1: "unat (LEO p1) + 1 < 2 ^ 64" using p1(5) by simp
  obtain p2 s2 where p2: "log_inv p2" "segments p2 = [s2]" "maxBytes s2 = 1024"
    "log_records p2 = [(chat ''hi'')\<lparr>Offset := 0\<rparr>, (chat ''yo'')\<lparr>Offset := 1\<rparr>]"
    using single_append [OF p1(1,2) _ ok(2) room1] p1 len [of "''hi''" 0] by auto
  have "\<not> IsFull s2" using single_size [OF p2(1,2)] p2(3,4) len [of "''hi''" 0] len [of "''yo''" 1] by (simp add: IsFull_def)
  with that p2 show thesis by blast
qed

theorem overlapping_reads_destroy_record_witness:
  "\<exists>p s sched calls' s' p' r'. segments p = [s] \<and>
     prefix (Marshal ((chat ''hi'')\<lparr>Offset := 0\<rparr>) @ Marshal ((chat ''yo'')\<lparr>Offset := 1\<rparr>)) (contents (pl_dir p) (logFile s)) \<and>
     run_reads (pl_dir p) sched (\<lambda>_. Locating (BaseOffset p), s) = (calls', s') \<and>
     Append (p\<lparr>segments := [s']\<rparr>) (chat ''no'') = (p', Inr r') \<and>
     \<not> prefix (Marshal ((chat ''hi'')\<lparr>Offset := 0\<rparr>) @ Marshal ((chat ''yo'')\<lparr>Offset := 1\<rparr>)) (contents (pl_dir p') (logFile s))"
proof -
  obtain p s where p: "log_inv p" "segments p = [s]" "\<not> IsFull s"
    "log_records p = [(chat ''hi'')\<lparr>Offset := 0\<rparr>, (chat ''yo'')\<lparr>Offset := 1\<rparr>]"
    by (rule chat_log)
  have ok: "record_ok (chat m)" if "length m < 100" for m using that by (simp add: chat_def record_ok_def optLen_def)
  have "record_ok ((chat ''hi'')\<lparr>Offset := 0\<rparr>)" using ok [of "''hi''"] by (simp add: record_ok_def)
  then have "text_keyed ((chat ''hi'')\<lparr>Offset := 0\<rparr>)"
    by (simp add: text_keyed_def recordSize_small) (simp add: chat_def optLen_def bytes_of_def)
  from overlapping_reads_destroy_record [OF p(1,2,4) this _ ok [of "''no''"] p(3) refl] p(2) show ?thesis by simp blast
qed

end
