(* ===== verification/Go_Text.thy ===== *)
theory Go_Text
  imports Go_Base
begin

text \<open>
  Functions of \<open>strings\<close> and \<open>strconv\<close> that the command line programs and the dashboard use
  on text: \<open>Atoi\<close>, \<open>TrimSpace\<close>, \<open>SplitN\<close> into two parts, and the conversion of a rune.
\<close>

section \<open>Numbers\<close>

text \<open>\<open>strconv.Atoi\<close> on a 64-bit system.\<close>

definition Atoi :: "string \<Rightarrow> int option" where
  "Atoi s =
     (let neg = (take 1 s = ''-''); ds = (if neg \<or> take 1 s = ''+'' then drop 1 s else s)
      in if ds = '''' \<or> \<not> list_all is_digit ds then None
         else let v = int (digits_value 0 ds)
              in if neg then (if v \<le> 2 ^ 63 then Some (- v) else None)
                 else if v < 2 ^ 63 then Some v else None)"

lemma take1_digit: "is_digit c \<Longrightarrow> [c] \<noteq> ''-'' \<and> [c] \<noteq> ''+''"
  by (auto simp: is_digit_def)

lemma Atoi_show_int:
  assumes "- (2 ^ 63) \<le> i" and "i < 2 ^ 63"
  shows "Atoi (show_int i) = Some i"
proof (cases "0 \<le> i")
  case True
  have d: "list_all is_digit (show_nat (nat i))" "show_nat (nat i) \<noteq> []" by (simp_all add: show_nat_digits)
  then obtain c cs where "show_nat (nat i) = c # cs" "is_digit c" by (cases "show_nat (nat i)") auto
  then have "take 1 (show_nat (nat i)) \<noteq> ''-'' \<and> take 1 (show_nat (nat i)) \<noteq> ''+''"
    using take1_digit [of c] by simp
  with d True assms show ?thesis by (simp add: Atoi_def show_int_def Let_def digits_value_show_nat)
next
  case False
  with assms show ?thesis
    by (simp add: Atoi_def show_int_def Let_def digits_value_show_nat show_nat_digits)
qed


section \<open>Runes\<close>

text \<open>\<open>string(rune(r))\<close>: the UTF-8 encoding, of U+FFFD if \<open>r\<close> is not a code point.\<close>

definition utf8 :: "nat list \<Rightarrow> string" where
  "utf8 bs = map char_of bs"

definition runeString :: "int \<Rightarrow> string" where
  "runeString r =
     (if r < 0 \<or> 0x10FFFF < r \<or> 0xD800 \<le> r \<and> r \<le> 0xDFFF then utf8 [0xEF, 0xBF, 0xBD]
      else let n = nat r
           in if n < 0x80 then utf8 [n]
              else if n < 0x800 then utf8 [0xC0 + n div 64, 0x80 + n mod 64]
              else if n < 0x10000 then utf8 [0xE0 + n div 4096, 0x80 + n div 64 mod 64, 0x80 + n mod 64]
              else utf8 [0xF0 + n div 262144, 0x80 + n div 4096 mod 64, 0x80 + n div 64 mod 64, 0x80 + n mod 64])"


section \<open>White space\<close>

text \<open>
  \<open>strings.TrimSpace\<close> removes the characters with the Unicode property White Space, here in
  their UTF-8 encoding, from both ends.
\<close>

definition spaceCodes :: "nat list list" where
  "spaceCodes =
     [[9], [10], [11], [12], [13], [32], [0xC2, 0x85], [0xC2, 0xA0], [0xE1, 0x9A, 0x80]] @
     map (\<lambda>b. [0xE2, 0x80, b]) ([0x80..<0x8B] @ [0xA8, 0xA9, 0xAF]) @ [[0xE2, 0x81, 0x9F], [0xE3, 0x80, 0x80]]"

definition spaces :: "string list" where
  "spaces = map (map char_of) spaceCodes"

function dropWords :: "string list \<Rightarrow> string \<Rightarrow> string" where
  "dropWords ws s =
     (case find (\<lambda>w. w \<noteq> [] \<and> take (length w) s = w) ws of
        None \<Rightarrow> s
      | Some w \<Rightarrow> dropWords ws (drop (length w) s))"
  by pat_completeness auto
termination
proof (relation "measure (\<lambda>(ws, s). length s)", goal_cases)
  case (2 ws s w)
  then have "w \<noteq> []" "take (length w) s = w" by (auto simp: find_Some_iff)
  then have "s \<noteq> []" "0 < length w" by auto
  then show ?case by simp
qed simp

declare dropWords.simps [simp del]

definition TrimSpace :: "string \<Rightarrow> string" where
  "TrimSpace s = rev (dropWords (map rev spaces) (rev (dropWords spaces s)))"

text \<open>Text whose first and last characters are printable ASCII is left as it is.\<close>

definition solid :: "char \<Rightarrow> bool" where
  "solid c \<longleftrightarrow> 32 < (of_char c :: nat) \<and> (of_char c :: nat) < 128"

lemma spaces_ends: "\<forall>w \<in> set spaces. w \<noteq> [] \<and> \<not> solid (hd w) \<and> \<not> solid (last w)"
proof -
  have "\<forall>w \<in> set spaceCodes. w \<noteq> [] \<and> (hd w \<le> 32 \<or> 128 \<le> hd w) \<and> (last w \<le> 32 \<or> 128 \<le> last w) \<and> (\<forall>b \<in> set w. b < 256)"
    by (simp add: spaceCodes_def upt_rec)
  then show ?thesis by (auto simp: spaces_def solid_def hd_map last_map)
qed

lemma dropWords_solid:
  assumes "\<forall>w \<in> set ws. w \<noteq> [] \<longrightarrow> \<not> solid (hd w)" and "s = [] \<or> solid (hd s)"
  shows "dropWords ws s = s"
proof -
  have "find (\<lambda>w. w \<noteq> [] \<and> take (length w) s = w) ws = None"
    unfolding find_None_iff
  proof
    assume "\<exists>w. w \<in> set ws \<and> w \<noteq> [] \<and> take (length w) s = w"
    then obtain w where w: "w \<in> set ws" "w \<noteq> []" "take (length w) s = w" by blast
    then have "s \<noteq> []" "hd s = hd w" by (auto simp: hd_take [symmetric]) (metis hd_take length_greater_0_conv)
    with assms w show False by auto
  qed
  then show ?thesis by (simp add: dropWords.simps)
qed

lemma TrimSpace_solid:
  assumes "s = [] \<or> solid (hd s) \<and> solid (last s)"
  shows "TrimSpace s = s"
proof -
  have "dropWords spaces s = s" using spaces_ends assms by (intro dropWords_solid) auto
  moreover have "dropWords (map rev spaces) (rev s) = rev s"
    using spaces_ends assms by (intro dropWords_solid) (auto simp: hd_rev)
  ultimately show ?thesis by (simp add: TrimSpace_def)
qed


section \<open>Splitting\<close>

text \<open>\<open>strings.SplitN(s, sep, 2)\<close> for a separator of one character.\<close>

definition SplitN2 :: "char \<Rightarrow> string \<Rightarrow> string list" where
  "SplitN2 sep s =
     (let a = takeWhile (\<lambda>c. c \<noteq> sep) s
      in if length a = length s then [s] else [a, drop (length a + 1) s])"

lemma SplitN2_sep: "sep \<notin> set a \<Longrightarrow> SplitN2 sep (a @ sep # b) = [a, b]"
proof -
  assume "sep \<notin> set a"
  then have "takeWhile (\<lambda>c. c \<noteq> sep) (a @ sep # b) = a" by (induction a) auto
  then show ?thesis by (simp add: SplitN2_def)
qed

end
