(* ===== verification/Ui_Metrics.thy ===== *)
theory Ui_Metrics
  imports Go_Text Server
begin

text \<open>
  \<open>src/internal/ui/metrics.go\<close>: the counters of the telemetry collector and the summaries of
  topics and consumer groups that the dashboard shows. The quotient of a rate is kept as its
  two operands (the code divides them as \<open>float64\<close>); the orders of the maps and the text of a
  commit time are arguments.
\<close>

section \<open>Telemetry\<close>

type_synonym rate = "(u64 \<times> int) option"

record TelemetryCollector =
  startTime :: int
  totalMsgIn :: u64
  totalBytesIn :: u64
  totalBytesOut :: u64
  msgInRate :: rate
  bytesInRate :: rate
  bytesOutRate :: rate
  lastMsgIn :: u64
  lastBytesIn :: u64
  lastBytesOut :: u64
  lastCalcTime :: int

definition NewTelemetryCollector :: "int \<Rightarrow> int \<Rightarrow> TelemetryCollector" where
  "NewTelemetryCollector now1 now2 =
     \<lparr>startTime = now1, totalMsgIn = 0, totalBytesIn = 0, totalBytesOut = 0, msgInRate = None, bytesInRate = None,
      bytesOutRate = None, lastMsgIn = 0, lastBytesIn = 0, lastBytesOut = 0, lastCalcTime = now2\<rparr>"

text \<open>The two methods of a telemetry listener.\<close>

fun record_event :: "TelemetryCollector \<Rightarrow> tel_event \<Rightarrow> TelemetryCollector" where
  "record_event tc (RecordMsgIn n bs) = tc\<lparr>totalMsgIn := totalMsgIn tc + n, totalBytesIn := totalBytesIn tc + bs\<rparr>"
| "record_event tc (RecordBytesOut bs) = tc\<lparr>totalBytesOut := totalBytesOut tc + bs\<rparr>"

text \<open>One tick of \<open>rateLoop\<close>.\<close>

definition rateTick :: "int \<Rightarrow> TelemetryCollector \<Rightarrow> TelemetryCollector" where
  "rateTick now tc =
     (let elapsed = now - lastCalcTime tc
      in if 0 < elapsed
         then tc\<lparr>msgInRate := Some (totalMsgIn tc - lastMsgIn tc, elapsed),
                 bytesInRate := Some (totalBytesIn tc - lastBytesIn tc, elapsed),
                 bytesOutRate := Some (totalBytesOut tc - lastBytesOut tc, elapsed),
                 lastMsgIn := totalMsgIn tc, lastBytesIn := totalBytesIn tc, lastBytesOut := totalBytesOut tc,
                 lastCalcTime := now\<rparr>
         else tc)"

text \<open>What the run time reports about the process; the memory figures in bytes.\<close>

record runtime_stats =
  rt_uptime :: int
  rt_goroutines :: nat
  rt_alloc :: u64
  rt_sys :: u64
  rt_numGC :: u32

record MetricsSnapshot =
  UptimeSeconds :: int
  TotalMsgIn :: u64
  TotalBytesIn :: u64
  TotalBytesOut :: u64
  MsgInRate :: rate
  BytesInRate :: rate
  BytesOutRate :: rate
  Goroutines :: nat
  AllocHeap :: u64
  SysMem :: u64
  NumGC :: u32

definition GetSnapshot :: "runtime_stats \<Rightarrow> TelemetryCollector \<Rightarrow> MetricsSnapshot" where
  "GetSnapshot rt tc =
     \<lparr>UptimeSeconds = rt_uptime rt, TotalMsgIn = totalMsgIn tc, TotalBytesIn = totalBytesIn tc,
      TotalBytesOut = totalBytesOut tc, MsgInRate = msgInRate tc, BytesInRate = bytesInRate tc,
      BytesOutRate = bytesOutRate tc, Goroutines = rt_goroutines rt, AllocHeap = rt_alloc rt, SysMem = rt_sys rt,
      NumGC = rt_numGC rt\<rparr>"


section \<open>Topics\<close>

record TopicPartitionInfo =
  tpi_PartitionID :: i32
  tpi_LEO :: u64
  tpi_BaseOffset :: u64
  tpi_SegmentsCount :: nat
  tpi_SizeBytes :: int

record TopicInfo =
  ti_TopicName :: string
  ti_PartitionsCount :: nat
  ti_TotalMessages :: u64
  ti_TotalSizeBytes :: int
  ti_Partitions :: "TopicPartitionInfo list"

fun parseDigits :: "i32 \<Rightarrow> string \<Rightarrow> i32" where
  "parseDigits val [] = val"
| "parseDigits val (c # cs) =
     (if of_char c < (48 :: nat) \<or> (57 :: nat) < of_char c then val
      else parseDigits (val * 10 + of_nat (of_char c - 48)) cs)"

definition parsePartitionID :: "string \<Rightarrow> i32" where
  "parsePartitionID s = parseDigits 0 s"

definition mgetd :: "'v \<Rightarrow> ('k, 'v) gomap \<Rightarrow> 'k \<Rightarrow> 'v" where
  "mgetd d m k = (case mget m k of None \<Rightarrow> d | Some v \<Rightarrow> v)"

definition partInfo :: "i32 \<Rightarrow> PartitionLog \<Rightarrow> TopicPartitionInfo" where
  "partInfo partID pl =
     (case Stats pl of (segCount, sizeBytes) \<Rightarrow>
        \<lparr>tpi_PartitionID = partID, tpi_LEO = LEO pl, tpi_BaseOffset = BaseOffset pl,
         tpi_SegmentsCount = segCount, tpi_SizeBytes = sizeBytes\<rparr>)"

type_synonym topic_maps =
  "(string, TopicPartitionInfo list) gomap \<times> (string, u64) gomap \<times> (string, int) gomap"

definition topicStep :: "(string, PartitionLog) gomap \<Rightarrow> string \<Rightarrow> topic_maps \<Rightarrow> topic_maps" where
  "topicStep parts key acc =
     (case (acc, mget parts key) of
        ((topicMap, topicMsgMap, topicSizeMap), Some pl) \<Rightarrow>
          let lastDashIdx = LastIndex key ''-''
          in if lastDashIdx = -1 then acc
             else let topicName = take (nat lastDashIdx) key;
                      info = partInfo (parsePartitionID (drop (nat lastDashIdx + 1) key)) pl
                  in (mput topicName (mgetd [] topicMap topicName @ [info]) topicMap,
                      mput topicName (mgetd 0 topicMsgMap topicName + tpi_LEO info) topicMsgMap,
                      mput topicName (mgetd 0 topicSizeMap topicName + tpi_SizeBytes info) topicSizeMap)
      | _ \<Rightarrow> acc)"

definition GetTopicsSummary ::
  "(string list \<Rightarrow> string list) \<Rightarrow> (string list \<Rightarrow> string list) \<Rightarrow> Handler \<Rightarrow> TopicInfo list" where
  "GetTopicsSummary order torder h =
     (let parts = GetPartitions h
      in case fold (topicStep parts) (order (mkeys parts)) ([], [], []) of
           (topicMap, topicMsgMap, topicSizeMap) \<Rightarrow>
             map (\<lambda>tName. \<lparr>ti_TopicName = tName, ti_PartitionsCount = length (mgetd [] topicMap tName),
                            ti_TotalMessages = mgetd 0 topicMsgMap tName,
                            ti_TotalSizeBytes = mgetd 0 topicSizeMap tName,
                            ti_Partitions = mgetd [] topicMap tName\<rparr>)
                 (torder (mkeys topicMap)))"


section \<open>Consumer groups\<close>

record ConsumerLagInfo =
  cl_Topic :: string
  cl_Partition :: i32
  cl_CommittedOffset :: i64
  cl_LogEndOffset :: u64
  cl_Lag :: i64
  cl_CommitTime :: string

record ConsumerGroupUI =
  cgu_GroupID :: string
  cgu_State :: GroupState
  cgu_ProtocolType :: string
  cgu_LeaderID :: string
  cgu_GenerationID :: i32
  cgu_MembersCount :: nat
  cgu_Members :: "GroupMember list"
  cgu_LagInfo :: "ConsumerLagInfo list"

definition lagKey :: "string \<Rightarrow> i32 \<Rightarrow> string" where
  "lagKey topic p = topic @ ''-'' @ runeString (sint (48 + p))"

definition lagInfo ::
  "(int \<Rightarrow> string) \<Rightarrow> (string, PartitionLog) gomap \<Rightarrow> TopicPartition \<Rightarrow> OffsetCommitMetadata \<Rightarrow> ConsumerLagInfo" where
  "lagInfo fmtTime parts tp meta =
     (let leo = (case mget parts (lagKey (tp_Topic tp) (tp_Partition tp)) of None \<Rightarrow> 0 | Some pl \<Rightarrow> LEO pl)
      in \<lparr>cl_Topic = tp_Topic tp, cl_Partition = tp_Partition tp, cl_CommittedOffset = ocm_Offset meta,
          cl_LogEndOffset = leo,
          cl_Lag = (if sint (ocm_Offset meta) \<le> sint leo then leo - ocm_Offset meta else 0),
          cl_CommitTime = fmtTime (ocm_CommitTime meta)\<rparr>)"

text \<open>
  \<open>gorder\<close> walks the groups, \<open>morder\<close> the members of a group, \<open>oorder\<close> its committed offsets.
\<close>

definition groupUI ::
  "(string \<Rightarrow> string list \<Rightarrow> string list) \<Rightarrow> (string \<Rightarrow> TopicPartition list \<Rightarrow> TopicPartition list) \<Rightarrow>
   (int \<Rightarrow> string) \<Rightarrow> Handler \<Rightarrow> ConsumerGroup \<Rightarrow> ConsumerGroupUI" where
  "groupUI morder oorder fmtTime h g =
     (let members = List.map_filter (mget (Members g)) (morder (GroupID g) (mkeys (Members g)));
          groupOffsets = FetchGroupOffsets (offsetManager h) (GroupID g);
          lagList = List.map_filter
            (\<lambda>tp. map_option (lagInfo fmtTime (GetPartitions h) tp) (mget groupOffsets tp))
            (oorder (GroupID g) (mkeys groupOffsets))
      in \<lparr>cgu_GroupID = GroupID g, cgu_State = State g, cgu_ProtocolType = cg_ProtocolType g,
          cgu_LeaderID = LeaderID g, cgu_GenerationID = GenerationID g, cgu_MembersCount = length members,
          cgu_Members = members, cgu_LagInfo = lagList\<rparr>)"

definition GetGroupsSummary ::
  "(string list \<Rightarrow> string list) \<Rightarrow> (string \<Rightarrow> string list \<Rightarrow> string list) \<Rightarrow>
   (string \<Rightarrow> TopicPartition list \<Rightarrow> TopicPartition list) \<Rightarrow> (int \<Rightarrow> string) \<Rightarrow> Handler \<Rightarrow> ConsumerGroupUI list" where
  "GetGroupsSummary gorder morder oorder fmtTime h =
     map (groupUI morder oorder fmtTime h) (GetAllGroups gorder (groupCoordinator h))"


section \<open>Counters and rates\<close>

text \<open>A history of the collector: events from the handler and ticks of the rate loop.\<close>

datatype tel_step = Event tel_event | Tick int

fun tel_exec :: "TelemetryCollector \<Rightarrow> tel_step \<Rightarrow> TelemetryCollector" where
  "tel_exec tc (Event ev) = record_event tc ev"
| "tel_exec tc (Tick now) = rateTick now tc"

fun msgs_of :: "tel_step \<Rightarrow> u64" where
  "msgs_of (Event (RecordMsgIn n bs)) = n"
| "msgs_of _ = 0"

text \<open>The messages that a tick reports: the numerator of the rate it computes.\<close>

fun reported :: "TelemetryCollector \<Rightarrow> tel_step list \<Rightarrow> u64" where
  "reported tc [] = 0"
| "reported tc (Event ev # ss) = reported (record_event tc ev) ss"
| "reported tc (Tick now # ss) =
     (if 0 < now - lastCalcTime tc then fst (the (msgInRate (rateTick now tc))) else 0) + reported (rateTick now tc) ss"

lemma totals_sum: "totalMsgIn (foldl tel_exec tc ss) = totalMsgIn tc + sum_list (map msgs_of ss)"
proof (induction ss arbitrary: tc)
  case (Cons s ss)
  have "totalMsgIn (tel_exec tc s) = totalMsgIn tc + msgs_of s"
    by (cases s rule: msgs_of.cases) (simp_all add: rateTick_def Let_def)
  with Cons show ?case by (simp add: add.assoc)
qed simp

lemma record_event_last [simp]: "lastMsgIn (record_event tc ev) = lastMsgIn tc"
  by (cases ev) simp_all

lemma reported_sum: "lastMsgIn (foldl tel_exec tc ss) = lastMsgIn tc + reported tc ss"
  by (induction tc ss rule: reported.induct)
    (auto simp: rateTick_def Let_def)


section \<open>Partition keys read back\<close>

lemma LastIndex_char:
  assumes "c \<notin> set rst"
  shows "LastIndex (pre @ c # rst) [c] = int (length pre)"
proof -
  let ?s = "pre @ c # rst"
  have hit: "take (length [c]) (drop i ?s) = [c] \<longleftrightarrow> i < length ?s \<and> ?s ! i = c" for i
  proof (cases "i < length ?s")
    case True
    then have "drop i ?s = ?s ! i # drop (Suc i) ?s" by (rule Cons_nth_drop_Suc [symmetric])
    with True show ?thesis by (simp only: length_Cons list.size(3) take_Suc_Cons take_0 list.inject simp_thms)
  qed simp
  have "\<not> (i < length ?s \<and> ?s ! i = c)" if "length pre < i" for i
  proof
    assume "i < length ?s \<and> ?s ! i = c"
    then have "rst ! (i - length pre - 1) = c" "i - length pre - 1 < length rst"
      using that by (auto simp: nth_append nth_Cons')
    then show False using assms nth_mem by metis
  qed
  then have miss: "filter (\<lambda>i. i < length ?s \<and> ?s ! i = c) [Suc (length pre)..<length ?s] = []"
    by (intro filter_False) (metis Suc_le_eq atLeastLessThan_iff set_upt)
  have "[0..<length ?s] = [0..<length pre] @ length pre # [Suc (length pre)..<length ?s]"
    by (metis add_0 le_add1 length_append less_add_same_cancel1 length_Cons upt_add_eq_append upt_conv_Cons zero_less_Suc)
  with miss have "rev (filter (\<lambda>i. i < length ?s \<and> ?s ! i = c) [0..<length ?s]) =
      length pre # rev (filter (\<lambda>i. i < length ?s \<and> ?s ! i = c) [0..<length pre])"
    by simp
  then show ?thesis unfolding LastIndex_def hit by simp
qed

lemma parseDigits_value: "list_all is_digit s \<Longrightarrow> parseDigits (of_nat a) s = of_nat (digits_value a s)"
proof (induction s arbitrary: a)
  case (Cons c s)
  then have "parseDigits (of_nat a) (c # s) = parseDigits (of_nat (a * 10 + (of_char c - 48))) s"
    by (auto simp: is_digit_def algebra_simps)
  with Cons show ?case by (simp only: digits_value.simps list.pred_inject)
qed simp

lemma parse_shown:
  assumes "0 \<le> sint i"
  shows "parsePartitionID (show_int (sint i)) = i"
proof -
  have "parsePartitionID (show_int (sint i)) = of_nat (digits_value 0 (show_nat (nat (sint i))))"
    using parseDigits_value [of "show_nat (nat (sint i))" 0] show_nat_digits assms
    by (simp add: parsePartitionID_def show_int_def)
  also have "\<dots> = of_int (sint i)" using assms by (simp add: digits_value_show_nat)
  finally show ?thesis by simp
qed

definition keyTopic :: "string \<Rightarrow> string" where
  "keyTopic key = take (nat (LastIndex key ''-'')) key"

definition keyPart :: "string \<Rightarrow> i32" where
  "keyPart key = parsePartitionID (drop (nat (LastIndex key ''-'') + 1) key)"

lemma key_parts:
  assumes "0 \<le> sint i"
  shows "keyTopic (partitionKey t i) = t" and "keyPart (partitionKey t i) = i"
proof -
  have "LastIndex (partitionKey t i) ''-'' = int (length t)"
    using LastIndex_char [OF dash_not_in_show_int [OF assms], of t] by (simp add: partitionKey_def)
  then show "keyTopic (partitionKey t i) = t" "keyPart (partitionKey t i) = i"
    using parse_shown [OF assms] by (simp_all add: keyTopic_def keyPart_def partitionKey_def)
qed

lemma key_has_dash: "LastIndex (partitionKey t i) ''-'' \<noteq> -1"
proof -
  have "CHR ''-'' \<in> set (partitionKey t i)" by (simp add: partitionKey_def)
  then obtain pre rst where "partitionKey t i = pre @ CHR ''-'' # rst" "CHR ''-'' \<notin> set rst"
    by (metis split_list_last)
  then show ?thesis using LastIndex_char by simp
qed


section \<open>The summary of topics\<close>

definition infoOf :: "(string, PartitionLog) gomap \<Rightarrow> string \<Rightarrow> TopicPartitionInfo" where
  "infoOf parts k = partInfo (keyPart k) (the (mget parts k))"

definition of_topic :: "string \<Rightarrow> string list \<Rightarrow> string list" where
  "of_topic t ks = filter (\<lambda>k. keyTopic k = t) ks"

text \<open>The keys the loop works on: open partitions with a dash in their name.\<close>

definition good_keys :: "(string, PartitionLog) gomap \<Rightarrow> string list \<Rightarrow> bool" where
  "good_keys parts ks \<longleftrightarrow> (\<forall>k \<in> set ks. mget parts k \<noteq> None \<and> LastIndex k ''-'' \<noteq> -1)"

lemma topics_fold:
  assumes "good_keys parts ks" and "fold (topicStep parts) ks ([], [], []) = (tm, mm, sm)"
  shows "gomap_ok tm \<and> set (mkeys tm) = keyTopic ` set ks \<and>
    (\<forall>t. mgetd [] tm t = map (infoOf parts) (of_topic t ks)) \<and>
    (\<forall>t. mgetd 0 mm t = sum_list (map (\<lambda>k. tpi_LEO (infoOf parts k)) (of_topic t ks))) \<and>
    (\<forall>t. mgetd 0 sm t = sum_list (map (\<lambda>k. tpi_SizeBytes (infoOf parts k)) (of_topic t ks)))"
  using assms
proof (induction ks arbitrary: tm mm sm rule: rev_induct)
  case Nil
  then show ?case by (auto simp: mgetd_def of_topic_def)
next
  case (snoc k ks)
  obtain tm1 mm1 sm1 where acc: "fold (topicStep parts) ks ([], [], []) = (tm1, mm1, sm1)" by (metis prod.exhaust)
  have gk: "good_keys parts ks" "LastIndex k ''-'' \<noteq> -1" using snoc.prems(1) by (auto simp: good_keys_def)
  obtain pl where pl: "mget parts k = Some pl" using snoc.prems(1) by (auto simp: good_keys_def)
  note ih = snoc.IH [OF gk(1) acc]
  let ?t = "keyTopic k"
  let ?i = "infoOf parts k"
  have "topicStep parts k (tm1, mm1, sm1) = (tm, mm, sm)" using snoc.prems(2) acc by simp
  then have step: "tm = mput ?t (mgetd [] tm1 ?t @ [?i]) tm1" "mm = mput ?t (mgetd 0 mm1 ?t + tpi_LEO ?i) mm1"
    "sm = mput ?t (mgetd 0 sm1 ?t + tpi_SizeBytes ?i) sm1"
    using gk(2) pl
    by (simp_all add: topicStep_def Let_def keyTopic_def keyPart_def infoOf_def)
  show ?case
    using ih by (auto simp: step mgetd_def of_topic_def mkeys_mput)
qed

text \<open>Every key belongs to exactly one topic.\<close>

lemma sum_list_indicator:
  "distinct ts \<Longrightarrow> x \<in> set ts \<Longrightarrow> sum_list (map (\<lambda>t. if x = t then 1 else 0) ts) = (1 :: nat)"
proof (induction ts)
  case (Cons a ts)
  have "sum_list (map (\<lambda>t. if x = t then 1 else 0) ts) = (0 :: nat)" if "x \<notin> set ts"
    using that by (induction ts) auto
  with Cons show ?case by auto
qed simp

lemma sum_over_classes:
  "distinct ts \<Longrightarrow> \<forall>k \<in> set ks. f k \<in> set ts \<Longrightarrow> sum_list (map (\<lambda>t. length (filter (\<lambda>k. f k = t) ks)) ts) = length ks"
proof (induction ks)
  case (Cons k ks)
  have one: "sum_list (map (\<lambda>t. if f k = t then 1 else 0) ts) = (1 :: nat)"
    by (rule sum_list_indicator) (use Cons.prems in auto)
  have "sum_list (map (\<lambda>t. length (filter (\<lambda>k. f k = t) (k # ks))) ts) =
      sum_list (map (\<lambda>t. (if f k = t then 1 else 0) + length (filter (\<lambda>k. f k = t) ks)) ts)"
    by (rule arg_cong [of _ _ sum_list]) auto
  also have "\<dots> = 1 + length ks" using Cons one by (simp add: sum_list_addf)
  finally show ?case by simp
qed simp

lemma broker_keys_good:
  assumes "broker_inv n h" and "visits order"
  shows "good_keys (GetPartitions h) (order (mkeys (partitions h)))" and "distinct (order (mkeys (partitions h)))"
    and "set (order (mkeys (partitions h))) = fst ` set (partitions h)"
proof -
  have dist: "distinct (mkeys (partitions h))"
    using assms(1) by (simp add: broker_inv_def logs_inv_def gomap_ok_def)
  with assms(2) show "distinct (order (mkeys (partitions h)))" "set (order (mkeys (partitions h))) = fst ` set (partitions h)"
    by (auto simp: visits_def)
  moreover have "mget (partitions h) k \<noteq> None \<and> LastIndex k ''-'' \<noteq> -1" if mem: "k \<in> fst ` set (partitions h)" for k
  proof -
    obtain p where p: "mget (partitions h) k = Some p" using mem mget_iff_keys [of "partitions h" k] by blast
    then obtain t i where "k = partitionKey t i"
      using assms(1) unfolding broker_inv_def logs_inv_def topic_key_def by blast
    with p key_has_dash show ?thesis by simp
  qed
  ultimately show "good_keys (GetPartitions h) (order (mkeys (partitions h)))"
    by (simp add: good_keys_def GetPartitions_def)
qed

text \<open>
  The summary of a broker: one entry per topic, each partition in exactly one of them, the
  totals those of the partitions listed.
\<close>

definition topic_entry_ok :: "TopicInfo \<Rightarrow> bool" where
  "topic_entry_ok ti \<longleftrightarrow>
     ti_PartitionsCount ti = length (ti_Partitions ti) \<and> 0 < ti_PartitionsCount ti \<and>
     ti_TotalMessages ti = sum_list (map tpi_LEO (ti_Partitions ti)) \<and>
     ti_TotalSizeBytes ti = sum_list (map tpi_SizeBytes (ti_Partitions ti))"

lemma GetTopicsSummary_correct:
  assumes "broker_inv n h" and "visits order" and "visits torder"
  defines "res \<equiv> GetTopicsSummary order torder h"
  shows "distinct (map ti_TopicName res)" and "list_all topic_entry_ok res"
    and "sum_list (map ti_PartitionsCount res) = length (partitions h)"
    and "mget (partitions h) k = Some p \<Longrightarrow>
      \<exists>ti \<in> set res. ti_TopicName ti = keyTopic k \<and> partInfo (keyPart k) p \<in> set (ti_Partitions ti)"
proof -
  let ?ks = "order (mkeys (partitions h))"
  note keys = broker_keys_good [OF assms(1,2)]
  obtain tm mm sm where acc: "fold (topicStep (GetPartitions h)) ?ks ([], [], []) = (tm, mm, sm)" by (metis prod.exhaust)
  note fld = topics_fold [OF keys(1) acc]
  let ?ts = "torder (mkeys tm)"
  have ts: "distinct ?ts" "set ?ts = keyTopic ` set ?ks"
    using fld assms(3) by (auto simp: visits_def gomap_ok_def)
  let ?e = "\<lambda>t. \<lparr>ti_TopicName = t, ti_PartitionsCount = length (of_topic t ?ks),
      ti_TotalMessages = sum_list (map (\<lambda>k. tpi_LEO (infoOf (GetPartitions h) k)) (of_topic t ?ks)),
      ti_TotalSizeBytes = sum_list (map (\<lambda>k. tpi_SizeBytes (infoOf (GetPartitions h) k)) (of_topic t ?ks)),
      ti_Partitions = map (infoOf (GetPartitions h)) (of_topic t ?ks)\<rparr>"
  have acc': "fold (topicStep (partitions h)) ?ks ([], [], []) = (tm, mm, sm)" using acc by (simp add: GetPartitions_def)
  have res: "res = map ?e ?ts"
    using fld acc' by (simp add: res_def GetTopicsSummary_def GetPartitions_def Let_def)
  then have names: "map ti_TopicName res = ?ts" by (simp add: comp_def)
  with ts(1) show "distinct (map ti_TopicName res)" by simp
  have "of_topic t ?ks \<noteq> []" if "t \<in> set ?ts" for t
    using that ts(2) by (auto simp: of_topic_def filter_empty_conv)
  then have "\<forall>t \<in> set ?ts. topic_entry_ok (?e t)" by (simp add: topic_entry_ok_def comp_def)
  then show "list_all topic_entry_ok res" by (simp add: res list_all_iff)
  have "sum_list (map ti_PartitionsCount res) = sum_list (map (\<lambda>t. length (filter (\<lambda>k. keyTopic k = t) ?ks)) ?ts)"
    by (simp add: res comp_def of_topic_def)
  also have "\<dots> = length ?ks" using ts by (intro sum_over_classes) auto
  also have "\<dots> = length (partitions h)"
    using keys(2,3) assms(1) distinct_card [of ?ks] distinct_card [of "mkeys (partitions h)"]
    by (simp add: broker_inv_def logs_inv_def gomap_ok_def)
  finally show "sum_list (map ti_PartitionsCount res) = length (partitions h)" .
  show "\<exists>ti \<in> set res. ti_TopicName ti = keyTopic k \<and> partInfo (keyPart k) p \<in> set (ti_Partitions ti)"
    if open_k: "mget (partitions h) k = Some p"
  proof -
    have "k \<in> set ?ks" using keys(3) mget_in_keys [OF open_k] by simp
    then have "?e (keyTopic k) \<in> set res" "k \<in> set (of_topic (keyTopic k) ?ks)"
      using res ts(2) by (auto simp: of_topic_def)
    moreover have "infoOf (GetPartitions h) k = partInfo (keyPart k) p"
      using open_k by (simp add: infoOf_def GetPartitions_def)
    ultimately show ?thesis by force
  qed
qed


section \<open>The lag of a consumer\<close>

lemma sint_of_small: "0 \<le> sint (p :: i32) \<Longrightarrow> sint p < 1000 \<Longrightarrow> sint (48 + p) = 48 + sint p"
  by (simp add: signed_take_bit_int_eq_self sint_word_ariths)

lemma lagKey_digit:
  assumes "0 \<le> sint p" and "sint p < 10"
  shows "lagKey t p = partitionKey t p"
proof -
  have "runeString (48 + sint p) = show_int (sint p)"
    using assms by (simp add: runeString_def show_int_def show_nat.simps Let_def utf8_def digit_char_def nat_add_distrib)
  then show ?thesis using sint_of_small [OF assms(1)] assms by (simp add: lagKey_def partitionKey_def)
qed

text \<open>For every other partition number the key ends in a character that is not a digit.\<close>

lemma is_digit_char_of: "n < 256 \<Longrightarrow> is_digit (char_of n) \<longleftrightarrow> 48 \<le> n \<and> n \<le> (57 :: nat)"
  by (simp add: is_digit_def)

lemma runeString_last:
  assumes "r < 48 \<or> 57 < r"
  shows "runeString r \<noteq> []" and "\<not> is_digit (last (runeString r))"
proof -
  have hi: "\<not> is_digit (char_of (128 + m mod 64))" for m :: nat
  proof -
    have "m mod 64 < 64" by simp
    then have "128 + m mod 64 < 256" by linarith
    from is_digit_char_of [OF this] show ?thesis by simp
  qed
  have bd: "\<not> is_digit (char_of (189 :: nat))" by (subst is_digit_char_of) simp_all
  have one: "\<not> is_digit (char_of (nat r))" if "0 \<le> r" "r < 128"
    using that assms by (subst is_digit_char_of) auto
  show "runeString r \<noteq> []" by (simp add: runeString_def utf8_def Let_def)
  show "\<not> is_digit (last (runeString r))"
    using hi bd one by (auto simp: runeString_def utf8_def Let_def)
qed

lemma show_int_last: "is_digit (last (show_int i))"
proof -
  have "is_digit (last (show_nat n))" for n
    using show_nat_digits [of n] last_in_set [OF show_nat_not_Nil [of n]] by (auto simp: list_all_iff)
  then show ?thesis by (simp add: show_int_def)
qed

lemma show_int_not_Nil: "show_int i \<noteq> []"
  by (simp add: show_int_def)

lemma sum48_outside:
  fixes p :: i32
  assumes "sint p < 0 \<or> 9 < sint p"
  shows "sint (48 + p) < 48 \<or> 57 < sint (48 + p)"
proof (rule ccontr)
  assume "\<not> ?thesis"
  then have b: "48 \<le> sint (48 + p)" "sint (48 + p) \<le> 57" by simp_all
  have "sint ((48 + p) - 48) = signed_take_bit 31 (sint (48 + p) - sint (48 :: i32))"
    unfolding sint_word_ariths(2) by simp
  moreover have "sint (48 :: i32) = 48" by simp
  ultimately have "sint p = signed_take_bit 31 (sint (48 + p) - 48)" by simp
  also have "\<dots> = sint (48 + p) - 48" using b by (intro signed_take_bit_int_eq_self) simp_all
  finally have "sint p = sint (48 + p) - 48" .
  with b assms show False by linarith
qed

lemma lagKey_other:
  assumes "sint p < 0 \<or> 9 < sint p"
  shows "lagKey t p \<noteq> partitionKey t' i"
proof
  assume "lagKey t p = partitionKey t' i"
  then have "last (lagKey t p) = last (partitionKey t' i)" by simp
  moreover have "last (lagKey t p) = last (runeString (sint (48 + p)))"
    using runeString_last(1) [OF sum48_outside [OF assms]] by (simp add: lagKey_def)
  moreover have "last (partitionKey t' i) = last (show_int (sint i))"
    using show_int_not_Nil by (simp add: partitionKey_def)
  ultimately show False
    using runeString_last(2) [OF sum48_outside [OF assms]] show_int_last [of "sint i"] by simp
qed

lemma lag_unknown:
  assumes "broker_inv n h" and "sint (tp_Partition tp) < 0 \<or> 9 < sint (tp_Partition tp)"
  shows "cl_LogEndOffset (lagInfo fmtTime (GetPartitions h) tp meta) = 0"
proof -
  have "mget (partitions h) (lagKey (tp_Topic tp) (tp_Partition tp)) = None"
  proof (cases "mget (partitions h) (lagKey (tp_Topic tp) (tp_Partition tp))")
    case (Some p)
    then obtain t i where "lagKey (tp_Topic tp) (tp_Partition tp) = partitionKey t i"
      using assms(1) unfolding broker_inv_def logs_inv_def topic_key_def by blast
    with lagKey_other [OF assms(2)] show ?thesis by blast
  qed
  then show ?thesis by (simp add: lagInfo_def GetPartitions_def Let_def)
qed

end
