(* ===== verification/Ui_Websocket.thy ===== *)
theory Ui_Websocket
  imports Handler
begin

text \<open>
  \<open>src/internal/ui/websocket.go\<close>: the handshake of RFC 6455, the hub that keeps the
  connections of dashboards and broadcasts to them, and the frames it writes. SHA-1
  (\<open>crypto/sha1\<close>, FIPS 180-4) and the case folding of \<open>strings.EqualFold\<close> against an ASCII
  word are defined here; whether the server can hand over a connection and which writes
  succeed are arguments. Sockets are numbered; the hub's record also holds what was written
  to each socket and which were closed.
\<close>

section \<open>SHA-1\<close>

definition rotl32 :: "nat \<Rightarrow> u32 \<Rightarrow> u32" where
  "rotl32 n x = push_bit n x OR drop_bit (32 - n) x"

fun sha1_extend :: "nat \<Rightarrow> u32 list \<Rightarrow> u32 list" where
  "sha1_extend 0 w = w"
| "sha1_extend (Suc n) w =
     (let t = length w
      in sha1_extend n (w @ [rotl32 1 (w ! (t - 3) XOR w ! (t - 8) XOR w ! (t - 14) XOR w ! (t - 16))]))"

datatype sha1_state = Sha1 u32 u32 u32 u32 u32

text \<open>Round \<open>t\<close>: the Boolean function and the constant change every twenty rounds.\<close>

fun sha1_round :: "sha1_state \<Rightarrow> nat \<times> u32 \<Rightarrow> sha1_state" where
  "sha1_round (Sha1 a b c d e) (t, w) =
     (let (f, k) = (if t < 20 then ((b AND c) OR (NOT b AND d), 0x5A827999)
                    else if t < 40 then (b XOR c XOR d, 0x6ED9EBA1)
                    else if t < 60 then ((b AND c) OR (b AND d) OR (c AND d), 0x8F1BBCDC)
                    else (b XOR c XOR d, 0xCA62C1D6))
      in Sha1 (rotl32 5 a + f + e + w + k) a (rotl32 30 b) c d)"

fun sha1_add :: "sha1_state \<Rightarrow> sha1_state \<Rightarrow> sha1_state" where
  "sha1_add (Sha1 a b c d e) (Sha1 a' b' c' d' e') = Sha1 (a + a') (b + b') (c + c') (d + d') (e + e')"

definition sha1_block :: "sha1_state \<Rightarrow> bytes \<Rightarrow> sha1_state" where
  "sha1_block st blk = sha1_add st (foldl sha1_round st (zip [0..<80] (sha1_extend 64 (words_of blk))))"

function sha1_blocks :: "sha1_state \<Rightarrow> bytes \<Rightarrow> sha1_state" where
  "sha1_blocks st bs =
     (if length bs < 64 then st else sha1_blocks (sha1_block st (take 64 bs)) (drop 64 bs))"
  by pat_completeness auto
termination
  by (relation "measure (\<lambda>(st, bs). length bs)") auto

declare sha1_blocks.simps [simp del]

fun sha1_bytes :: "sha1_state \<Rightarrow> bytes" where
  "sha1_bytes (Sha1 a b c d e) = PutUint32 a @ PutUint32 b @ PutUint32 c @ PutUint32 d @ PutUint32 e"

text \<open>The padding of a message is that of SHA-256.\<close>

definition Sum1 :: "bytes \<Rightarrow> bytes" where
  "Sum1 msg =
     sha1_bytes (sha1_blocks (Sha1 0x67452301 0xEFCDAB89 0x98BADCFE 0x10325476 0xC3D2E1F0) (sha256_pad msg))"

lemma length_Sum1 [simp]: "length (Sum1 msg) = 20"
  unfolding Sum1_def
  by (cases "sha1_blocks (Sha1 0x67452301 0xEFCDAB89 0x98BADCFE 0x10325476 0xC3D2E1F0) (sha256_pad msg)") simp


section \<open>Requests\<close>

text \<open>
  The part of \<open>http.Request\<close> that the code reads. A header or query field has the list of
  its values; \<open>Get\<close> returns the first, or the empty string.
\<close>

record http_request =
  rq_Method :: string
  rq_Path :: string
  rq_Query :: "(string, string list) gomap"
  rq_Header :: "(string, string list) gomap"

definition valueOf :: "(string, string list) gomap \<Rightarrow> string \<Rightarrow> string" where
  "valueOf vs k = (case mget vs k of Some (v # _) \<Rightarrow> v | _ \<Rightarrow> '''')"

definition lowerAscii :: "char \<Rightarrow> nat" where
  "lowerAscii c = (let n = of_char c in if 65 \<le> n \<and> n \<le> 90 then n + 32 else n)"

text \<open>
  \<open>strings.EqualFold(s, t)\<close> for an ASCII \<open>t\<close>: beside the other case of a letter only U+017F
  (long s) and U+212A (Kelvin sign) fold to an ASCII letter.
\<close>

fun EqualFold :: "string \<Rightarrow> string \<Rightarrow> bool" where
  "EqualFold [] t = (t = [])"
| "EqualFold s [] = False"
| "EqualFold (c # s) (d # t) =
     (if of_char c < (128 :: nat) then lowerAscii c = lowerAscii d \<and> EqualFold s t
      else if take 2 (c # s) = [CHR 0xC5, CHR 0xBF] then lowerAscii d = 115 \<and> EqualFold (drop 1 s) t
      else if take 3 (c # s) = [CHR 0xE2, CHR 0x84, CHR 0xAA] then lowerAscii d = 107 \<and> EqualFold (drop 2 s) t
      else False)"


section \<open>The hub\<close>

definition magicGUID :: string where
  "magicGUID = ''258EAFA5-E914-47DA-95CA-C5AB0DC85B11''"

type_synonym sock = nat

record WSHub =
  ws_conns :: "(sock, unit) gomap"
  ws_out :: "sock \<Rightarrow> bytes"
  ws_closed :: "sock \<Rightarrow> bool"

definition NewWSHub :: WSHub where
  "NewWSHub = \<lparr>ws_conns = [], ws_out = (\<lambda>_. []), ws_closed = (\<lambda>_. False)\<rparr>"

definition acceptKeyOf :: "string \<Rightarrow> string" where
  "acceptKeyOf key = StdEncodeToString (Sum1 (bytes_of (key @ magicGUID)))"

definition crlf :: string where
  "crlf = [CHR 0x0D, CHR 0x0A]"

definition switchingProtocols :: "string \<Rightarrow> string" where
  "switchingProtocols acceptKey =
     ''HTTP/1.1 101 Switching Protocols'' @ crlf @
     ''Upgrade: websocket'' @ crlf @
     ''Connection: Upgrade'' @ crlf @
     ''Sec-WebSocket-Accept: '' @ acceptKey @ crlf @ crlf"

definition wsWrite :: "sock \<Rightarrow> bytes \<Rightarrow> WSHub \<Rightarrow> WSHub" where
  "wsWrite s bs h = h\<lparr>ws_out := (ws_out h)(s := ws_out h s @ bs)\<rparr>"

definition wsClose :: "sock \<Rightarrow> WSHub \<Rightarrow> WSHub" where
  "wsClose s h = h\<lparr>ws_closed := (ws_closed h)(s := True)\<rparr>"

text \<open>
  What \<open>Upgrade\<close> meets outside: \<open>w\<close> may not support \<open>Hijack\<close>, \<open>Hijack\<close> may fail or hand over
  a socket, and writing or flushing the response may fail. \<open>Header.Get\<close> looks up the canonical
  form of a field's name.
\<close>

datatype hijack = Unsupported | HijackFailed go_error | Hijacked sock

datatype upgrade_result = HttpError nat string | Silent go_error | Upgraded sock

definition Upgrade :: "hijack \<Rightarrow> go_error option \<Rightarrow> http_request \<Rightarrow> WSHub \<Rightarrow> upgrade_result \<times> WSHub" where
  "Upgrade hj writeErr r h =
     (if \<not> EqualFold (valueOf (rq_Header r) ''Upgrade'') ''websocket''
      then (HttpError 400 ''Not a websocket handshake'', h)
      else let key = valueOf (rq_Header r) ''Sec-Websocket-Key''
           in if key = '''' then (HttpError 400 ''Missing Sec-WebSocket-Key'', h)
              else case hj of
                     Unsupported \<Rightarrow> (HttpError 500 ''Webserver doesn't support hijacking'', h)
                   | HijackFailed err \<Rightarrow> (Silent err, h)
                   | Hijacked conn \<Rightarrow>
                       case writeErr of
                         Some err \<Rightarrow> (Silent err, wsClose conn h)
                       | None \<Rightarrow>
                           let h1 = wsWrite conn (bytes_of (switchingProtocols (acceptKeyOf key))) h
                           in (Upgraded conn, h1\<lparr>ws_conns := mput conn () (ws_conns h1)\<rparr>))"

definition encodeTextFrame :: "bytes \<Rightarrow> bytes" where
  "encodeTextFrame pay =
     (let len = length pay;
          hdr = (if len \<le> 125 then [0x81, of_nat len]
                 else if len \<le> 65535 then [0x81, 126, of_nat (len div 2 ^ 8), of_nat (len mod 256)]
                 else [0x81, 127,
                       of_nat (len div 2 ^ 56), of_nat (len div 2 ^ 48), of_nat (len div 2 ^ 40), of_nat (len div 2 ^ 32),
                       of_nat (len div 2 ^ 24), of_nat (len div 2 ^ 16), of_nat (len div 2 ^ 8), of_nat (len mod 256)])
      in hdr @ pay)"

definition removeConn :: "sock \<Rightarrow> WSHub \<Rightarrow> WSHub" where
  "removeConn conn h = wsClose conn (h\<lparr>ws_conns := mdel conn (ws_conns h)\<rparr>)"

definition sendFrame :: "(sock \<Rightarrow> bool) \<Rightarrow> bytes \<Rightarrow> sock \<Rightarrow> WSHub \<Rightarrow> WSHub" where
  "sendFrame ok frame conn h = (if ok conn then wsWrite conn frame h else removeConn conn h)"

definition Broadcast :: "(sock list \<Rightarrow> sock list) \<Rightarrow> (sock \<Rightarrow> bool) \<Rightarrow> bytes \<Rightarrow> WSHub \<Rightarrow> WSHub" where
  "Broadcast order ok pay h = fold (sendFrame ok (encodeTextFrame pay)) (order (mkeys (ws_conns h))) h"

definition ClientCount :: "WSHub \<Rightarrow> nat" where
  "ClientCount h = length (ws_conns h)"

text \<open>
  The loop that reads from a client drops every chunk; when a read fails the connection is
  removed.
\<close>

fun readLoop :: "sock \<Rightarrow> bytes list \<Rightarrow> WSHub \<Rightarrow> WSHub" where
  "readLoop conn [] h = removeConn conn h"
| "readLoop conn (chunk # rest) h = readLoop conn rest h"

section \<open>Frames read back\<close>

text \<open>
  A client's reading of one unmasked frame (RFC 6455, section 5.2): the final flag, the
  opcode, the payload and the rest of the stream. The length has to be encoded in the
  fewest bytes.
\<close>

definition takePayload :: "byte \<Rightarrow> nat \<Rightarrow> bytes \<Rightarrow> (bool \<times> byte \<times> bytes \<times> bytes) option" where
  "takePayload b0 len bs =
     (if length bs < len then None else Some (bit b0 7, b0 AND 0x0F, take len bs, drop len bs))"

definition decodeFrame :: "bytes \<Rightarrow> (bool \<times> byte \<times> bytes \<times> bytes) option" where
  "decodeFrame bs =
     (case bs of
        b0 # b1 # rest \<Rightarrow>
          if 128 \<le> unat b1 then None
          else if unat b1 \<le> 125 then takePayload b0 (unat b1) rest
          else let n = (if unat b1 = 126 then 2 else 8); len = be_value (take n rest)
               in if length rest < n \<or> len \<le> (if n = 2 then 125 else 65535) then None
                  else takePayload b0 len (drop n rest)
      | _ \<Rightarrow> None)"

lemma encodeTextFrame_header:
  "encodeTextFrame pay =
     0x81 # (if length pay \<le> 125 then [of_nat (length pay)]
             else if length pay \<le> 65535 then 126 # be_digits 2 (length pay)
             else 127 # be_digits 8 (length pay)) @ pay"
proof -
  have m: "(of_nat (n mod 256) :: byte) = of_nat n" for n :: nat
    by (rule word_unat_eq_iff [THEN iffD2]) (simp add: unat_of_nat take_bit_eq_mod)
  have e2: "be_digits 2 = be_digits (Suc (Suc 0))"
    and e8: "be_digits 8 = be_digits (Suc (Suc (Suc (Suc (Suc (Suc (Suc (Suc 0))))))))"
    by (simp_all only: numeral_2_eq_2) (simp add: eval_nat_numeral)
  have "be_digits 2 n = [of_nat (n div 2 ^ 8), of_nat (n mod 256)]" for n
    unfolding e2 be_digits.simps m by simp
  moreover have "be_digits 8 n =
      [of_nat (n div 2 ^ 56), of_nat (n div 2 ^ 48), of_nat (n div 2 ^ 40), of_nat (n div 2 ^ 32),
       of_nat (n div 2 ^ 24), of_nat (n div 2 ^ 16), of_nat (n div 2 ^ 8), of_nat (n mod 256)]" for n
    unfolding e8 be_digits.simps m by simp
  ultimately show ?thesis by (simp add: encodeTextFrame_def Let_def)
qed

lemma takePayload_all: "takePayload b0 (length pay) (pay @ rest) = Some (bit b0 7, b0 AND 0x0F, pay, rest)"
  by (simp add: takePayload_def)

lemma decode_encode:
  assumes "length pay < 2 ^ 63"
  shows "decodeFrame (encodeTextFrame pay @ rest) = Some (True, 1, pay, rest)"
proof -
  let ?n = "length pay"
  have flags: "bit (0x81 :: byte) 7" "(0x81 :: byte) AND 0x0F = 1" by simp_all
  consider "?n \<le> 125" | "125 < ?n" "?n \<le> 65535" | "65535 < ?n" by linarith
  then show ?thesis
  proof cases
    case 1
    then have "unat (of_nat ?n :: byte) = ?n" by (simp add: unat_of_nat take_bit_eq_mod)
    with 1 flags show ?thesis
      by (simp add: encodeTextFrame_header decodeFrame_def takePayload_all)
  next
    case 2
    have "be_value (be_digits 2 ?n) = ?n" using 2 by (simp add: be_value_be_digits)
    with 2 flags show ?thesis
      by (simp add: encodeTextFrame_header decodeFrame_def Let_def takePayload_all)
  next
    case 3
    have "be_value (be_digits 8 ?n) = ?n" using assms by (simp add: be_value_be_digits)
    with 3 flags show ?thesis
      by (simp add: encodeTextFrame_header decodeFrame_def Let_def takePayload_all)
  qed
qed

text \<open>Reading a whole stream of text messages.\<close>

lemma takePayload_shorter: "takePayload b0 n bs = Some (fin, opc, pay, rest) \<Longrightarrow> length rest \<le> length bs"
  by (auto simp: takePayload_def split: if_splits)

lemma decodeFrame_shorter: "decodeFrame bs = Some (fin, opc, pay, rest) \<Longrightarrow> length rest < length bs"
  by (auto simp: decodeFrame_def Let_def split: list.splits if_splits dest!: takePayload_shorter)

function readFrames :: "bytes \<Rightarrow> bytes list option" where
  "readFrames bs =
     (if bs = [] then Some []
      else case decodeFrame bs of
             Some (fin, opc, pay, rest) \<Rightarrow>
               if fin \<and> opc = 1 then map_option ((#) pay) (readFrames rest) else None
           | None \<Rightarrow> None)"
  by pat_completeness auto
termination
  by (relation "measure length") (auto dest: decodeFrame_shorter)

declare readFrames.simps [simp del]

lemma readFrames_encode:
  assumes "\<forall>p \<in> set pays. length p < 2 ^ 63"
  shows "readFrames (concat (map encodeTextFrame pays)) = Some pays"
  using assms
proof (induction pays)
  case Nil
  then show ?case by (simp add: readFrames.simps)
next
  case (Cons p ps)
  have "encodeTextFrame p \<noteq> []" by (simp add: encodeTextFrame_header)
  with Cons decode_encode [of p "concat (map encodeTextFrame ps)"] show ?case
    by (subst readFrames.simps) simp
qed


section \<open>Histories of the hub\<close>

lemma sendFrames:
  assumes "distinct ss"
  shows "ws_out (fold (sendFrame ok fr) ss h) s = ws_out h s @ (if s \<in> set ss \<and> ok s then fr else [])"
    and "mget (ws_conns (fold (sendFrame ok fr) ss h)) s = (if s \<in> set ss \<and> \<not> ok s then None else mget (ws_conns h) s)"
    and "ws_closed (fold (sendFrame ok fr) ss h) s \<longleftrightarrow> ws_closed h s \<or> s \<in> set ss \<and> \<not> ok s"
  using assms
  by (induction ss arbitrary: h) (auto simp: sendFrame_def wsWrite_def removeConn_def wsClose_def)

lemma Broadcast_effect:
  assumes "visits order" and "gomap_ok (ws_conns h)"
  shows "ws_out (Broadcast order ok pay h) s =
      ws_out h s @ (if mget (ws_conns h) s \<noteq> None \<and> ok s then encodeTextFrame pay else [])"
    and "mget (ws_conns (Broadcast order ok pay h)) s = (if ok s then mget (ws_conns h) s else None)"
    and "ws_closed (Broadcast order ok pay h) s \<longleftrightarrow> ws_closed h s \<or> mget (ws_conns h) s \<noteq> None \<and> \<not> ok s"
proof -
  have ks: "distinct (order (mkeys (ws_conns h)))" "set (order (mkeys (ws_conns h))) = set (mkeys (ws_conns h))"
    using assms by (auto simp: visits_def gomap_ok_def)
  have "s \<in> set (mkeys (ws_conns h)) \<longleftrightarrow> mget (ws_conns h) s \<noteq> None"
    using mget_iff_keys [of "ws_conns h" s] by auto
  with sendFrames [OF ks(1), of ok "encodeTextFrame pay" h s] ks(2)
  show "ws_out (Broadcast order ok pay h) s =
      ws_out h s @ (if mget (ws_conns h) s \<noteq> None \<and> ok s then encodeTextFrame pay else [])"
    and "mget (ws_conns (Broadcast order ok pay h)) s = (if ok s then mget (ws_conns h) s else None)"
    and "ws_closed (Broadcast order ok pay h) s \<longleftrightarrow> ws_closed h s \<or> mget (ws_conns h) s \<noteq> None \<and> \<not> ok s"
    by (auto simp: Broadcast_def)
qed

text \<open>What happens to a hub: handshakes, broadcasts, and clients whose input ends.\<close>

datatype ws_event =
    WsHandshake hijack "go_error option" http_request
  | WsSend "sock list \<Rightarrow> sock list" "sock \<Rightarrow> bool" bytes
  | WsLeave sock "bytes list"

fun ws_exec :: "WSHub \<Rightarrow> ws_event \<Rightarrow> WSHub" where
  "ws_exec h (WsHandshake hj err r) = snd (Upgrade hj err r h)"
| "ws_exec h (WsSend order ok pay) = Broadcast order ok pay h"
| "ws_exec h (WsLeave conn chunks) = readLoop conn chunks h"

fun ws_payload :: "ws_event \<Rightarrow> bytes list" where
  "ws_payload (WsSend order ok pay) = [pay]"
| "ws_payload _ = []"

text \<open>An event that leaves socket \<open>s\<close> connected: its writes succeed, and it is not handed out again.\<close>

fun ws_steady :: "sock \<Rightarrow> ws_event \<Rightarrow> bool" where
  "ws_steady s (WsHandshake hj err r) \<longleftrightarrow> hj \<noteq> Hijacked s"
| "ws_steady s (WsSend order ok pay) \<longleftrightarrow> visits order \<and> ok s \<and> length pay < 2 ^ 63"
| "ws_steady s (WsLeave conn chunks) \<longleftrightarrow> conn \<noteq> s"

lemma readLoop_removes: "readLoop conn chunks h = removeConn conn h"
  by (induction chunks) simp_all

lemma hub_ok_sent: "gomap_ok (ws_conns h) \<Longrightarrow> gomap_ok (ws_conns (fold (sendFrame ok fr) ss h))"
  by (induction ss arbitrary: h) (simp_all add: sendFrame_def wsWrite_def removeConn_def wsClose_def)

lemma ws_exec_ok:
  assumes "gomap_ok (ws_conns h)"
  shows "gomap_ok (ws_conns (ws_exec h ev))"
proof (cases ev)
  case (WsHandshake hj err r)
  with assms show ?thesis
    by (simp add: Upgrade_def Let_def wsWrite_def wsClose_def split: hijack.split option.split)
next
  case (WsSend order ok pay)
  with hub_ok_sent [OF assms] show ?thesis by (simp add: Broadcast_def)
next
  case (WsLeave conn chunks)
  with assms show ?thesis by (simp add: readLoop_removes removeConn_def wsClose_def)
qed

lemma ws_exec_steady:
  assumes "gomap_ok (ws_conns h)" and "mget (ws_conns h) s \<noteq> None" and "ws_steady s ev"
  shows "mget (ws_conns (ws_exec h ev)) s \<noteq> None \<and>
    ws_out (ws_exec h ev) s = ws_out h s @ concat (map encodeTextFrame (ws_payload ev)) \<and>
    ws_closed (ws_exec h ev) s = ws_closed h s"
proof (cases ev)
  case (WsHandshake hj err r)
  with assms show ?thesis
    by (auto simp: Upgrade_def Let_def wsWrite_def wsClose_def split: hijack.split option.split)
next
  case (WsSend order ok pay)
  with assms Broadcast_effect [of order h ok pay s] show ?thesis by simp
next
  case (WsLeave conn chunks)
  with assms show ?thesis by (simp add: readLoop_removes removeConn_def wsClose_def)
qed

lemma subscriber_stream:
  assumes "gomap_ok (ws_conns h)" and "mget (ws_conns h) s \<noteq> None" and "list_all (ws_steady s) evs"
  defines "h' \<equiv> foldl ws_exec h evs" and "pays \<equiv> concat (map ws_payload evs)"
  shows "mget (ws_conns h') s \<noteq> None \<and> ws_out h' s = ws_out h s @ concat (map encodeTextFrame pays) \<and>
    ws_closed h' s = ws_closed h s"
  using assms(1-3) unfolding h'_def pays_def
proof (induction evs arbitrary: h)
  case (Cons ev evs)
  with ws_exec_steady [of h s ev] ws_exec_ok [of h ev] show ?case by simp
qed simp

lemma steady_payloads: "list_all (ws_steady s) evs \<Longrightarrow> \<forall>p \<in> set (concat (map ws_payload evs)). length p < 2 ^ 63"
proof (induction evs)
  case (Cons ev evs)
  then show ?case by (cases ev) auto
qed simp

text \<open>A successful handshake subscribes the socket.\<close>

lemma Upgrade_subscribes:
  assumes "EqualFold (valueOf (rq_Header r) ''Upgrade'') ''websocket''"
    and "valueOf (rq_Header r) ''Sec-Websocket-Key'' = key" and "key \<noteq> ''''"
  shows "\<exists>h'. Upgrade (Hijacked s) None r h = (Upgraded s, h') \<and> mget (ws_conns h') s = Some () \<and>
    ws_out h' s = ws_out h s @ bytes_of (switchingProtocols (acceptKeyOf key)) \<and> ws_closed h' = ws_closed h"
  using assms by (simp add: Upgrade_def Let_def wsWrite_def)

end
