(* ===== verification/Ui_Server.thy ===== *)
theory Ui_Server
  imports Go_Text Ui_Metrics Ui_Websocket
begin

text \<open>
  \<open>src/internal/ui/server.go\<close>: the routes of the dashboard, its login, the REST handlers and
  the telemetry stream. A response keeps the value that \<open>writeJSON\<close> encodes; its text is the
  subject of \<open>Ui_Json\<close>. The embedded files behind \<open>/\<close> are not modelled. Paths
  are those that need no percent-encoding. Of the answer to a failed read the status is kept,
  not the text of the error.
\<close>

section \<open>Standard library\<close>

text \<open>\<open>http.Request.BasicAuth\<close>: the word \<open>Basic\<close> in any case, then base64 of user, colon, password.\<close>

definition BasicAuth :: "http_request \<Rightarrow> (string \<times> string) option" where
  "BasicAuth r =
     (let auth = valueOf (rq_Header r) ''Authorization''
      in if length auth < 6 \<or> map lowerAscii (take 6 auth) \<noteq> map lowerAscii ''Basic '' then None
         else case StdDecodeString (drop 6 auth) of
                None \<Rightarrow> None
              | Some bs \<Rightarrow>
                  let cs = string_of bs; user = takeWhile (\<lambda>c. c \<noteq> CHR '':'') cs
                  in if length user = length cs then None else Some (user, drop (length user + 1) cs))"

text \<open>
  \<open>http.ServeMux\<close>: a path that is not clean is redirected (except for \<open>CONNECT\<close>), an exact
  pattern wins over the subtree patterns, the longest of which wins.
\<close>

definition cleanPath :: "string \<Rightarrow> string" where
  "cleanPath p =
     (if p = '''' then ''/''
      else let p' = (if take 1 p = ''/'' then p else ''/'' @ p); np = filepathClean p'
           in if last p' = CHR ''/'' \<and> np \<noteq> ''/'' then np @ ''/'' else np)"

definition topicsPrefix :: string where
  "topicsPrefix = ''/api/v1/topics/''"

datatype ui_route = Cluster | Topics | TopicMessages | Groups | Metrics | Stream | Assets | Moved string | NoRoute

definition route :: "http_request \<Rightarrow> ui_route" where
  "route r =
     (let p = rq_Path r
      in if rq_Method r \<noteq> ''CONNECT'' \<and> cleanPath p \<noteq> p then Moved (cleanPath p)
         else if p = ''/api/v1/cluster'' then Cluster
         else if p = ''/api/v1/topics'' then Topics
         else if p = ''/api/v1/groups'' then Groups
         else if p = ''/api/v1/metrics'' then Metrics
         else if p = ''/ws/stream'' then Stream
         else if take 15 p = topicsPrefix then TopicMessages
         else if take 1 p = ''/'' then Assets
         else NoRoute)"


section \<open>State and responses\<close>

record UIServer =
  ui_port :: int
  ui_handler :: Handler
  collector :: TelemetryCollector
  wsHub :: WSHub

definition NewServer :: "int \<Rightarrow> int \<Rightarrow> Handler \<Rightarrow> int \<Rightarrow> UIServer" where
  "NewServer now1 now2 h prt =
     \<lparr>ui_port = prt, ui_handler = SetTelemetryListener h, collector = NewTelemetryCollector now1 now2, wsHub = NewWSHub\<rparr>"

definition IsSASLRequired :: "Handler \<Rightarrow> bool" where "IsSASLRequired h = saslRequired h"
definition GetNodeID :: "Handler \<Rightarrow> i32" where "GetNodeID h = nodeId h"
definition GetHost :: "Handler \<Rightarrow> string" where "GetHost h = host h"
definition GetPort :: "Handler \<Rightarrow> i32" where "GetPort h = port h"
definition GetDataDir :: "Handler \<Rightarrow> string" where "GetDataDir h = dataDir h"

text \<open>What a request meets outside: map orders, the run time's figures, time formatting, the connection.\<close>

record ui_env =
  u_parts :: "string list \<Rightarrow> string list"
  u_topics :: "string list \<Rightarrow> string list"
  u_groups :: "string list \<Rightarrow> string list"
  u_members :: "string \<Rightarrow> string list \<Rightarrow> string list"
  u_offsets :: "string \<Rightarrow> TopicPartition list \<Rightarrow> TopicPartition list"
  u_time :: "int \<Rightarrow> string"
  u_runtime :: runtime_stats
  u_hijack :: hijack
  u_writeErr :: "go_error option"

record cluster_info =
  ci_node_id :: i32
  ci_host :: string
  ci_port :: i32
  ci_data_dir :: string
  ci_total_topics :: nat
  ci_total_partitions :: nat
  ci_total_messages :: u64
  ci_total_bytes :: int
  ci_ws_subscribers :: nat
  ci_metrics :: MetricsSnapshot

record MessageDTO =
  dto_Offset :: u64
  dto_Timestamp :: i64
  dto_Key :: string
  dto_Value :: string
  dto_Size :: nat

record PaginatedMessagesResponse =
  pm_Topic :: string
  pm_Partition :: i32
  pm_Offset :: u64
  pm_Limit :: int
  pm_LEO :: u64
  pm_Messages :: "MessageDTO list"

datatype ui_json =
    ClusterJson cluster_info
  | TopicsJson "TopicInfo list"
  | MessagesJson PaginatedMessagesResponse
  | GroupsJson "ConsumerGroupUI list"
  | MetricsJson MetricsSnapshot

datatype http_response =
    Json ui_json
  | Failure nat string
  | LoginRequired
  | MovedPermanently string
  | StaticFile string
  | SwitchedProtocols sock
  | NoResponse


section \<open>Handlers\<close>

definition onlyGet :: "http_request \<Rightarrow> (UIServer \<Rightarrow> http_response \<times> UIServer) \<Rightarrow> UIServer \<Rightarrow> http_response \<times> UIServer" where
  "onlyGet r m ui = (if rq_Method r \<noteq> ''GET'' then (Failure 405 ''Method Not Allowed'', ui) else m ui)"

definition topicsOf :: "ui_env \<Rightarrow> UIServer \<Rightarrow> TopicInfo list" where
  "topicsOf e ui = GetTopicsSummary (u_parts e) (u_topics e) (ui_handler ui)"

definition groupsOf :: "ui_env \<Rightarrow> UIServer \<Rightarrow> ConsumerGroupUI list" where
  "groupsOf e ui = GetGroupsSummary (u_groups e) (u_members e) (u_offsets e) (u_time e) (ui_handler ui)"

definition handleCluster :: "ui_env \<Rightarrow> http_request \<Rightarrow> UIServer \<Rightarrow> http_response \<times> UIServer" where
  "handleCluster e r = onlyGet r (\<lambda>ui.
     let topics = topicsOf e ui;
         (totalPartitions, totalMessages, totalBytes) =
           foldl (\<lambda>(np, nm, nb) t. (np + ti_PartitionsCount t, nm + ti_TotalMessages t, nb + ti_TotalSizeBytes t))
             (0, 0, 0) topics;
         snapshot = GetSnapshot (u_runtime e) (collector ui); h = ui_handler ui
     in (Json (ClusterJson \<lparr>ci_node_id = GetNodeID h, ci_host = GetHost h, ci_port = GetPort h,
           ci_data_dir = GetDataDir h, ci_total_topics = length topics, ci_total_partitions = totalPartitions,
           ci_total_messages = totalMessages, ci_total_bytes = totalBytes,
           ci_ws_subscribers = ClientCount (wsHub ui), ci_metrics = snapshot\<rparr>), ui))"

definition handleTopics :: "ui_env \<Rightarrow> http_request \<Rightarrow> UIServer \<Rightarrow> http_response \<times> UIServer" where
  "handleTopics e r = onlyGet r (\<lambda>ui. (Json (TopicsJson (topicsOf e ui)), ui))"

definition partitionParam :: "http_request \<Rightarrow> i32" where
  "partitionParam r =
     (let s = valueOf (rq_Query r) ''partition''
      in if s = '''' then 0 else case Atoi s of Some p \<Rightarrow> of_int p | None \<Rightarrow> 0)"

definition offsetParam :: "http_request \<Rightarrow> u64" where
  "offsetParam r =
     (let s = valueOf (rq_Query r) ''offset''
      in if s = '''' then 0 else case ParseUint64 s of Some o' \<Rightarrow> o' | None \<Rightarrow> 0)"

definition limitParam :: "http_request \<Rightarrow> int" where
  "limitParam r =
     (let s = valueOf (rq_Query r) ''limit''
      in if s = '''' then 50
         else case Atoi s of Some l \<Rightarrow> if 0 < l \<and> l \<le> 200 then l else 50 | None \<Rightarrow> 50)"

definition goString :: "bytes option \<Rightarrow> string" where
  "goString b = (case b of None \<Rightarrow> '''' | Some bs \<Rightarrow> string_of bs)"

definition messageDTO :: "Record \<Rightarrow> MessageDTO" where
  "messageDTO rec = \<lparr>dto_Offset = Offset rec, dto_Timestamp = Timestamp rec, dto_Key = goString (Key rec),
     dto_Value = goString (Value rec), dto_Size = length (goString (Value rec))\<rparr>"

fun messageLoop :: "int \<Rightarrow> int \<Rightarrow> Record list \<Rightarrow> MessageDTO list" where
  "messageLoop limit i [] = []"
| "messageLoop limit i (rec # recs) =
     (if limit \<le> i then [] else messageDTO rec # messageLoop limit (i + 1) recs)"

definition handleTopicMessages :: "http_request \<Rightarrow> UIServer \<Rightarrow> http_response \<times> UIServer" where
  "handleTopicMessages r = onlyGet r (\<lambda>ui.
     let parts = splitOn CHR ''/'' (drop 15 (rq_Path r))
     in if length parts < 2 \<or> parts ! 1 \<noteq> ''messages'' then (Failure 400 ''Invalid topic messages path'', ui)
        else let topicName = parts ! 0; partitionID = partitionParam r; startOffset = offsetParam r;
                 limit = limitParam r; key = partitionKey topicName partitionID; h = ui_handler ui;
                 page = \<lparr>pm_Topic = topicName, pm_Partition = partitionID, pm_Offset = startOffset,
                         pm_Limit = limit, pm_LEO = 0, pm_Messages = []\<rparr>
             in case mget (GetPartitions h) key of
                  None \<Rightarrow> (Json (MessagesJson page), ui)
                | Some pl \<Rightarrow>
                    case Read pl startOffset of
                      (res, pl') \<Rightarrow>
                        let ui' = ui\<lparr>ui_handler := h\<lparr>partitions := mput key pl' (partitions h)\<rparr>\<rparr>
                        in case res of
                             Inl err \<Rightarrow> (Failure 500 ''Error reading records'', ui')
                           | Inr records \<Rightarrow>
                               (Json (MessagesJson (page\<lparr>pm_LEO := LEO pl, pm_Messages := messageLoop limit 0 records\<rparr>)), ui'))"

definition handleGroups :: "ui_env \<Rightarrow> http_request \<Rightarrow> UIServer \<Rightarrow> http_response \<times> UIServer" where
  "handleGroups e r = onlyGet r (\<lambda>ui. (Json (GroupsJson (groupsOf e ui)), ui))"

definition handleMetrics :: "ui_env \<Rightarrow> http_request \<Rightarrow> UIServer \<Rightarrow> http_response \<times> UIServer" where
  "handleMetrics e r = onlyGet r (\<lambda>ui. (Json (MetricsJson (GetSnapshot (u_runtime e) (collector ui))), ui))"

definition handleWebSocket :: "ui_env \<Rightarrow> http_request \<Rightarrow> UIServer \<Rightarrow> http_response \<times> UIServer" where
  "handleWebSocket e r ui =
     (case Upgrade (u_hijack e) (u_writeErr e) r (wsHub ui) of
        (res, hub) \<Rightarrow>
          ((case res of HttpError code txt \<Rightarrow> Failure code txt | Silent err \<Rightarrow> NoResponse | Upgraded s \<Rightarrow> SwitchedProtocols s),
           ui\<lparr>wsHub := hub\<rparr>))"

definition mux :: "ui_env \<Rightarrow> http_request \<Rightarrow> UIServer \<Rightarrow> http_response \<times> UIServer" where
  "mux e r ui =
     (case route r of
        Cluster \<Rightarrow> handleCluster e r ui
      | Topics \<Rightarrow> handleTopics e r ui
      | TopicMessages \<Rightarrow> handleTopicMessages r ui
      | Groups \<Rightarrow> handleGroups e r ui
      | Metrics \<Rightarrow> handleMetrics e r ui
      | Stream \<Rightarrow> handleWebSocket e r ui
      | Assets \<Rightarrow> (StaticFile (rq_Path r), ui)
      | Moved p \<Rightarrow> (MovedPermanently p, ui)
      | NoRoute \<Rightarrow> (Failure 404 ''404 page not found'', ui))"

definition requireAuthIfSASLEnabled ::
  "(http_request \<Rightarrow> UIServer \<Rightarrow> http_response \<times> UIServer) \<Rightarrow> http_request \<Rightarrow> UIServer \<Rightarrow> http_response \<times> UIServer" where
  "requireAuthIfSASLEnabled nxt r ui =
     (if \<not> IsSASLRequired (ui_handler ui) then nxt r ui
      else case BasicAuth r of
             None \<Rightarrow> (LoginRequired, ui)
           | Some (username, password) \<Rightarrow>
               if AuthenticateBasic (ui_handler ui) username password then nxt r ui else (LoginRequired, ui))"

definition ServeHTTP :: "ui_env \<Rightarrow> http_request \<Rightarrow> UIServer \<Rightarrow> http_response \<times> UIServer" where
  "ServeHTTP e = requireAuthIfSASLEnabled (mux e)"

text \<open>One tick of \<open>wsStreamLoop\<close>; \<open>marshal\<close> is \<open>json.Marshal\<close> of the assembled payload (\<open>tickData\<close>).\<close>

definition wsStreamTick ::
  "(MetricsSnapshot \<times> TopicInfo list \<times> ConsumerGroupUI list \<Rightarrow> bytes option) \<Rightarrow> ui_env \<Rightarrow>
   (sock list \<Rightarrow> sock list) \<Rightarrow> (sock \<Rightarrow> bool) \<Rightarrow> UIServer \<Rightarrow> UIServer" where
  "wsStreamTick marshal e order ok ui =
     (if ClientCount (wsHub ui) = 0 then ui
      else case marshal (GetSnapshot (u_runtime e) (collector ui), topicsOf e ui, groupsOf e ui) of
             None \<Rightarrow> ui
           | Some data \<Rightarrow> ui\<lparr>wsHub := Broadcast order ok data (wsHub ui)\<rparr>)"

section \<open>Login\<close>

lemma BasicAuth_header:
  assumes "valueOf (rq_Header r) ''Authorization'' = ''Basic '' @ StdEncodeToString (bytes_of (u @ '':'' @ pw))"
    and "CHR '':'' \<notin> set u"
  shows "BasicAuth r = Some (u, pw)"
proof -
  have "takeWhile (\<lambda>c. c \<noteq> CHR '':'') (u @ CHR '':'' # pw) = u"
    using assms(2) by (induction u) auto
  with assms(1) show ?thesis
    by (simp add: BasicAuth_def Let_def StdDecode_Encode)
qed

lemma AuthenticateBasic_iff:
  "AuthenticateBasic h cu cp \<longleftrightarrow>
     (\<exists>u p rest. splitOn 0 (bytes_of cu @ 0 # bytes_of cp) = bytes_of u # bytes_of p # rest \<and> knows_password (saslAuth h) u p)"
proof -
  have sp: "splitOn 0 (0 # bs) = [] # splitOn 0 bs" for bs :: bytes by simp
  have "AuthenticateBasic h cu cp \<longleftrightarrow> (\<exists>u. AuthenticatePlain (saslAuth h) (0 # bytes_of cu @ 0 # bytes_of cp) = Inr u)"
    by (auto simp: AuthenticateBasic_def split: sum.splits)
  also have "\<dots> \<longleftrightarrow> (\<exists>u p rest. splitOn 0 (bytes_of cu @ 0 # bytes_of cp) = bytes_of u # p # rest \<and>
      knows_password (saslAuth h) u (string_of p))"
    unfolding AuthenticatePlain_iff sp by auto
  also have "\<dots> \<longleftrightarrow> (\<exists>u p rest. splitOn 0 (bytes_of cu @ 0 # bytes_of cp) = bytes_of u # bytes_of p # rest \<and>
      knows_password (saslAuth h) u p)"
    by (metis bytes_of_string_of string_of_bytes_of)
  finally show ?thesis .
qed

lemma login_passes:
  assumes "knows_password (saslAuth (ui_handler ui)) u pw" and "no_nul u" and "no_nul pw" and "CHR '':'' \<notin> set u"
    and "valueOf (rq_Header r) ''Authorization'' = ''Basic '' @ StdEncodeToString (bytes_of (u @ '':'' @ pw))"
  shows "ServeHTTP e r ui = mux e r ui"
proof -
  have "AuthenticatePlain (saslAuth (ui_handler ui)) (0 # bytes_of u @ 0 # bytes_of pw) = Inr u"
    using plain_login [OF assms(2,3)] assms(1) by blast
  then have "AuthenticateBasic (ui_handler ui) u pw" by (simp add: AuthenticateBasic_def)
  with BasicAuth_header [OF assms(5,4)] show ?thesis by (simp add: ServeHTTP_def requireAuthIfSASLEnabled_def)
qed

lemma login_needed:
  assumes "saslRequired (ui_handler ui)" and "ServeHTTP e r ui \<noteq> (LoginRequired, ui)"
  shows "\<exists>cu cp u p rest. BasicAuth r = Some (cu, cp) \<and>
    splitOn 0 (bytes_of cu @ 0 # bytes_of cp) = bytes_of u # bytes_of p # rest \<and> knows_password (saslAuth (ui_handler ui)) u p"
proof -
  obtain cu cp where "BasicAuth r = Some (cu, cp)" "AuthenticateBasic (ui_handler ui) cu cp"
    using assms by (auto simp: ServeHTTP_def requireAuthIfSASLEnabled_def IsSASLRequired_def split: option.splits if_splits)
  then show ?thesis unfolding AuthenticateBasic_iff by blast
qed


section \<open>Requests only read\<close>

text \<open>\<open>h'\<close> is \<open>h\<close> with the file handles of some partitions moved.\<close>

definition only_read :: "Handler \<Rightarrow> Handler \<Rightarrow> bool" where
  "only_read h h' \<longleftrightarrow>
     (\<exists>ps. h' = h\<lparr>partitions := ps\<rparr> \<and> (gomap_ok (partitions h) \<longrightarrow> gomap_ok ps) \<and> length ps = length (partitions h) \<and>
        (\<forall>k. case mget (partitions h) k of
               None \<Rightarrow> mget ps k = None
             | Some p \<Rightarrow> \<exists>p'. mget ps k = Some p' \<and> log_inv p' \<and> log_records p' = log_records p \<and> LEO p' = LEO p))"

lemma only_read_refl:
  assumes "broker_inv n h"
  shows "only_read h h"
proof -
  have "mget (partitions h) k = Some p \<Longrightarrow> log_inv p" for k p
    using assms unfolding broker_inv_def logs_inv_def by blast
  then show ?thesis
    unfolding only_read_def by (intro exI [of _ "partitions h"]) (auto split: option.split)
qed

lemma only_read_inv:
  assumes "only_read h h'" and "broker_inv n h"
  shows "broker_inv n h'"
proof -
  from assms(1) obtain ps where ps: "h' = h\<lparr>partitions := ps\<rparr>" "gomap_ok (partitions h) \<longrightarrow> gomap_ok ps"
      "length ps = length (partitions h)"
    and at: "\<And>k. case mget (partitions h) k of None \<Rightarrow> mget ps k = None
             | Some p \<Rightarrow> \<exists>p'. mget ps k = Some p' \<and> log_inv p' \<and> log_records p' = log_records p \<and> LEO p' = LEO p"
    unfolding only_read_def by blast
  have none: "mget ps k = None \<longleftrightarrow> mget (partitions h) k = None" for k
    using at [of k] by (auto split: option.splits)
  have some: "\<exists>p. mget (partitions h) k = Some p \<and> log_inv p' \<and> LEO p' = LEO p" if "mget ps k = Some p'" for k p'
    using at [of k] that by (auto split: option.splits)
  have lg: "logs_inv n h" using assms(2) by (simp add: broker_inv_def)
  then have "topic_key k \<and> log_inv p' \<and> unat (LEO p') + n < 2 ^ 64" if "mget ps k = Some p'" for k p'
    using some [OF that] unfolding logs_inv_def by auto
  with lg ps none have "logs_inv n h'" unfolding logs_inv_def by simp
  with assms(2) ps(1) show ?thesis by (simp add: broker_inv_def)
qed

lemma only_read_grown:
  assumes "only_read h h'" and "grown L h"
  shows "grown L h'"
  unfolding grown_def
proof (intro allI impI)
  fix k rs
  assume "L k = Some rs"
  then obtain p where "mget (partitions h) k = Some p" "prefix rs (log_records p)"
    using assms(2) unfolding grown_def by blast
  then show "\<exists>p. mget (partitions h') k = Some p \<and> prefix rs (log_records p)"
    using assms(1) unfolding only_read_def by (auto dest!: spec [of _ k])
qed

lemma messages_handler:
  obtains "ui_handler (snd (handleTopicMessages r ui)) = ui_handler ui"
  | k p start where "mget (partitions (ui_handler ui)) k = Some p"
      "ui_handler (snd (handleTopicMessages r ui)) =
         (ui_handler ui)\<lparr>partitions := mput k (snd (Read p start)) (partitions (ui_handler ui))\<rparr>"
proof -
  let ?parts = "splitOn CHR ''/'' (drop 15 (rq_Path r))"
  let ?k = "partitionKey (?parts ! 0) (partitionParam r)"
  consider "rq_Method r \<noteq> ''GET'' \<or> length ?parts < 2 \<or> ?parts ! 1 \<noteq> ''messages''"
    | "rq_Method r = ''GET''" "\<not> (length ?parts < 2 \<or> ?parts ! 1 \<noteq> ''messages'')"
    by blast
  then show thesis
  proof cases
    case 1
    then show thesis by (intro that(1)) (auto simp: handleTopicMessages_def onlyGet_def)
  next
    case 2
    show thesis
    proof (cases "mget (partitions (ui_handler ui)) ?k")
      case None
      with 2 show thesis
        by (intro that(1)) (simp add: handleTopicMessages_def onlyGet_def GetPartitions_def Let_def)
    next
      case (Some p)
      obtain res p' where rd: "Read p (offsetParam r) = (res, p')" by (metis prod.exhaust)
      from Some 2 show thesis
        by (intro that(2) [of ?k p "offsetParam r"])
          (simp_all add: handleTopicMessages_def onlyGet_def GetPartitions_def Let_def rd split: sum.split)
    qed
  qed
qed

lemma messages_only_read:
  assumes "broker_inv n (ui_handler ui)"
  shows "only_read (ui_handler ui) (ui_handler (snd (handleTopicMessages r ui)))"
proof (cases rule: messages_handler [of r ui])
  case 1
  with only_read_refl [OF assms] show ?thesis by simp
next
  case (2 k p start)
  let ?ps = "mput k (snd (Read p start)) (partitions (ui_handler ui))"
  have logs: "mget (partitions (ui_handler ui)) j = Some q \<Longrightarrow> log_inv q" for j q
    using assms unfolding broker_inv_def logs_inv_def by blast
  from Read_correct [OF logs [OF 2(1)], of start]
  have "log_inv (snd (Read p start))" "log_records (snd (Read p start)) = log_records p" "LEO (snd (Read p start)) = LEO p"
    by auto
  moreover have "length ?ps = length (partitions (ui_handler ui))" using 2(1) by (simp add: length_mput_old)
  ultimately show ?thesis using 2 logs unfolding only_read_def
    by (intro exI [of _ ?ps]) (auto split: option.split)
qed

lemma mux_only_read:
  assumes "broker_inv n (ui_handler ui)"
  shows "only_read (ui_handler ui) (ui_handler (snd (mux e r ui)))"
  using only_read_refl [OF assms] messages_only_read [OF assms]
  by (cases "route r")
    (auto simp: mux_def handleCluster_def handleTopics_def handleGroups_def handleMetrics_def handleWebSocket_def
      onlyGet_def Let_def split: prod.split)

lemma ServeHTTP_only_read:
  assumes "broker_inv n (ui_handler ui)"
  shows "only_read (ui_handler ui) (ui_handler (snd (ServeHTTP e r ui)))"
  using only_read_refl [OF assms] mux_only_read [OF assms]
  by (auto simp: ServeHTTP_def requireAuthIfSASLEnabled_def split: option.split)

text \<open>
  Requests to the dashboard beside the steps of the network side. A request is one step: its
  reads of a log do not overlap those of another request. \<open>net/http\<close> does serve requests at the
  same time, and \<open>Read\<close> holds only a read lock; \<open>Concurrent_Reads\<close> shows what can happen then.
\<close>

definition ui_step :: "TCPServer \<Rightarrow> TCPServer \<Rightarrow> bool" where
  "ui_step S S' \<longleftrightarrow> \<not> crashed S \<and>
     (\<exists>e r ui. ui_handler ui = srv_handler S \<and> S' = S\<lparr>srv_handler := ui_handler (snd (ServeHTTP e r ui))\<rparr>)"

definition node_step :: "TCPServer \<Rightarrow> TCPServer \<Rightarrow> bool" where
  "node_step S S' \<longleftrightarrow> net_step S S' \<or> ui_step S S'"

lemma node_step_inv:
  assumes "node_step S S'" and "server_inv S" and "grown L (srv_handler S)"
  shows "server_inv S' \<and> grown L (srv_handler S')"
proof (cases "net_step S S'")
  case True
  with net_step_inv assms show ?thesis by blast
next
  case False
  then obtain e r ui where ui: "ui_handler ui = srv_handler S" "S' = S\<lparr>srv_handler := ui_handler (snd (ServeHTTP e r ui))\<rparr>"
    using assms(1) unfolding node_step_def ui_step_def by blast
  have inv: "broker_inv 0 (ui_handler ui)" using assms(2) ui(1) by (simp add: server_inv_def)
  note rd = ServeHTTP_only_read [OF inv, of e r]
  from only_read_inv [OF rd inv] only_read_grown [OF rd] assms(2,3) ui show ?thesis
    by (simp add: server_inv_def)
qed

lemma node_steps_inv:
  assumes "node_step\<^sup>*\<^sup>* S S'" and "server_inv S" and "grown L (srv_handler S)"
  shows "server_inv S' \<and> grown L (srv_handler S')"
  using assms by (induction rule: rtranclp_induct) (auto dest: node_step_inv)

section \<open>Pages of messages\<close>

lemma messageLoop_take: "messageLoop limit i recs = map messageDTO (take (nat (limit - i)) recs)"
proof (induction recs arbitrary: i)
  case (Cons rec recs)
  show ?case
  proof (cases "limit \<le> i")
    case False
    then have "nat (limit - i) = Suc (nat (limit - (i + 1)))" by simp
    with False Cons show ?thesis by simp
  qed simp
qed simp

lemma limitParam_range: "1 \<le> limitParam r \<and> limitParam r \<le> 200"
  by (simp add: limitParam_def Let_def split: option.split)

lemma clean_messages_path:
  assumes "plain_name t"
  shows "cleanPath (topicsPrefix @ t @ ''/messages'') = topicsPrefix @ t @ ''/messages''"
proof -
  have base: "cleanElems ''/api/v1/topics'' = [''api'', ''v1'', ''topics'']" by code_simp
  have m: "plain_name ''messages''" by (simp add: plain_name_def)
  have "cleanElems (''/api/v1/topics'' @ ''/'' @ t) = [''api'', ''v1'', ''topics'', t]"
    using cleanElems_child [OF assms, of "''/api/v1/topics''"] base by simp
  then have "cleanElems ((''/api/v1/topics'' @ ''/'' @ t) @ ''/'' @ ''messages'') = [''api'', ''v1'', ''topics'', t, ''messages'']"
    using cleanElems_child [OF m, of "''/api/v1/topics'' @ ''/'' @ t"] by simp
  then show ?thesis by (simp add: cleanPath_def topicsPrefix_def filepathClean_def)
qed

lemma route_messages:
  assumes "rq_Path r = topicsPrefix @ t @ ''/messages''" and "plain_name t"
  shows "route r = TopicMessages"
  using clean_messages_path [OF assms(2)] assms by (simp add: route_def topicsPrefix_def)

lemma valid_plain: "isValidTopicName t \<Longrightarrow> plain_name t"
  by (auto simp: isValidTopicName_def plain_name_def list_all_iff validTopicChar_def Let_def)

lemma messages_page:
  assumes "log_inv p" and "mget (partitions (ui_handler ui)) (partitionKey t (partitionParam r)) = Some p"
    and "plain_name t" and "rq_Method r = ''GET''" and "rq_Path r = topicsPrefix @ t @ ''/messages''"
  shows "fst (mux e r ui) =
    Json (MessagesJson \<lparr>pm_Topic = t, pm_Partition = partitionParam r, pm_Offset = offsetParam r, pm_Limit = limitParam r,
      pm_LEO = LEO p,
      pm_Messages = map messageDTO (take (nat (limitParam r))
        (if offsetParam r < BaseOffset p then [] else filter (\<lambda>x. offsetParam r \<le> Offset x) (log_records p)))\<rparr>)"
proof -
  let ?xs = "if offsetParam r < BaseOffset p then [] else filter (\<lambda>x. offsetParam r \<le> Offset x) (log_records p)"
  obtain p' where rd: "Read p (offsetParam r) = (Inr ?xs, p')" using Read_correct [OF assms(1)] by blast
  have parts: "splitOn CHR ''/'' (drop 15 (rq_Path r)) = [t, ''messages'']"
    using assms(3,5) by (simp add: topicsPrefix_def splitOn_join splitOn_plain plain_name_def)
  show ?thesis
    unfolding mux_def route_messages [OF assms(5,3)] ui_route.case handleTopicMessages_def onlyGet_def parts
    using assms(2,4) rd by (simp add: GetPartitions_def Let_def messageLoop_take)
qed

end
