(* ===== verification/Ui_Properties.thy ===== *)
theory Ui_Properties
  imports Ui_Server Broker_Properties
begin

text \<open>
  Properties of the dashboard (\<open>src/internal/ui\<close>): its login, what its pages show against the
  state of the broker, that its requests only read, and the telemetry stream.
\<close>

section \<open>Sample requests\<close>

definition calm_ui :: ui_env where
  "calm_ui = \<lparr>u_parts = (\<lambda>ks. ks), u_topics = (\<lambda>ks. ks), u_groups = (\<lambda>ks. ks), u_members = (\<lambda>_ ks. ks),
     u_offsets = (\<lambda>_ ks. ks), u_time = (\<lambda>_. ''''), u_runtime = \<lparr>rt_uptime = 0, rt_goroutines = 1, rt_alloc = 0, rt_sys = 0, rt_numGC = 0\<rparr>,
     u_hijack = Unsupported, u_writeErr = None\<rparr>"

definition dashboard :: "Handler \<Rightarrow> UIServer" where
  "dashboard h = \<lparr>ui_port = 8080, ui_handler = h, collector = NewTelemetryCollector 0 0, wsHub = NewWSHub\<rparr>"

definition get_request :: "string \<Rightarrow> (string, string list) gomap \<Rightarrow> (string, string list) gomap \<Rightarrow> http_request" where
  "get_request path query hdrs = \<lparr>rq_Method = ''GET'', rq_Path = path, rq_Query = query, rq_Header = hdrs\<rparr>"

lemma sample_simps [simp]:
  "ui_handler (dashboard h) = h" "rq_Method (get_request path query hdrs) = ''GET''"
  "rq_Path (get_request path query hdrs) = path" "rq_Query (get_request path query hdrs) = query"
  "rq_Header (get_request path query hdrs) = hdrs"
  by (simp_all add: dashboard_def get_request_def)


section \<open>Login\<close>

text \<open>
  C32: With SASL required, the dashboard answers every request, on every route, with a demand
  to log in and changes nothing, unless the request carries Basic credentials that contain a
  user and a password deriving that user's stored key. A user added to the broker with a
  password passes with the header built from them, whatever was configured before.
\<close>

theorem ui_login_required:
  assumes "saslRequired (ui_handler ui)"
  shows "(ServeHTTP e r ui = (LoginRequired, ui) \<or>
      (\<exists>cu cp u p rest. BasicAuth r = Some (cu, cp) \<and>
         splitOn 0 (bytes_of cu @ 0 # bytes_of cp) = bytes_of u # bytes_of p # rest \<and>
         knows_password (saslAuth (ui_handler ui)) u p)) \<and>
    (ui_handler ui' = fst (AddSASLUser (Inr salt) h user pw) \<longrightarrow> no_nul user \<longrightarrow> no_nul pw \<longrightarrow> CHR '':'' \<notin> set user \<longrightarrow>
      valueOf (rq_Header r') ''Authorization'' = ''Basic '' @ StdEncodeToString (bytes_of (user @ '':'' @ pw)) \<longrightarrow>
      ServeHTTP e r' ui' = mux e r' ui')"
proof (intro conjI impI)
  show "ServeHTTP e r ui = (LoginRequired, ui) \<or>
      (\<exists>cu cp u p rest. BasicAuth r = Some (cu, cp) \<and>
         splitOn 0 (bytes_of cu @ 0 # bytes_of cp) = bytes_of u # bytes_of p # rest \<and>
         knows_password (saslAuth (ui_handler ui)) u p)"
    using login_needed [OF assms] by blast
next
  assume h: "ui_handler ui' = fst (AddSASLUser (Inr salt) h user pw)"
    and rest: "no_nul user" "no_nul pw" "CHR '':'' \<notin> set user"
      "valueOf (rq_Header r') ''Authorization'' = ''Basic '' @ StdEncodeToString (bytes_of (user @ '':'' @ pw))"
  have "saslAuth (ui_handler ui') = fst (AddUser (Inr salt) (saslAuth h) user pw)"
    by (simp add: h AddSASLUser_def split_def)
  then have "knows_password (saslAuth (ui_handler ui')) user pw" using AddUser_knows by metis
  from login_passes [OF this rest] show "ServeHTTP e r' ui' = mux e r' ui'" .
qed

theorem ui_login_required_witness:
  "ServeHTTP calm_ui (get_request ''/api/v1/topics'' [] []) (dashboard (SetSASLRequired fresh_broker True)) =
     (LoginRequired, dashboard (SetSASLRequired fresh_broker True)) \<and>
   ServeHTTP calm_ui (get_request ''/api/v1/topics'' [] [(''Authorization'', [''Basic '' @ StdEncodeToString (bytes_of ''al:pw'')])])
     (dashboard (fst (AddSASLUser (Inr [7]) (SetSASLRequired fresh_broker True) ''al'' ''pw''))) =
   mux calm_ui (get_request ''/api/v1/topics'' [] [(''Authorization'', [''Basic '' @ StdEncodeToString (bytes_of ''al:pw'')])])
     (dashboard (fst (AddSASLUser (Inr [7]) (SetSASLRequired fresh_broker True) ''al'' ''pw'')))"
proof -
  let ?r = "get_request ''/api/v1/topics'' [] [(''Authorization'', [''Basic '' @ StdEncodeToString (bytes_of ''al:pw'')])]"
  have req: "saslRequired (ui_handler (dashboard (SetSASLRequired fresh_broker True)))" by (simp add: SetSASLRequired_def)
  have none: "BasicAuth (get_request ''/api/v1/topics'' [] []) = None" by (simp add: BasicAuth_def valueOf_def)
  have nul: "no_nul ''al''" "no_nul ''pw''" by (simp_all add: no_nul_def bytes_of_def)
  have hd: "valueOf (rq_Header ?r) ''Authorization'' = ''Basic '' @ StdEncodeToString (bytes_of (''al'' @ '':'' @ ''pw''))"
    by (simp add: valueOf_def)
  note login = ui_login_required [OF req, of calm_ui "get_request ''/api/v1/topics'' [] []"
      "dashboard (fst (AddSASLUser (Inr [7]) (SetSASLRequired fresh_broker True) ''al'' ''pw''))" "[7]"
      "SetSASLRequired fresh_broker True" "''al''" "''pw''" ?r]
  have "ServeHTTP calm_ui ?r (dashboard (fst (AddSASLUser (Inr [7]) (SetSASLRequired fresh_broker True) ''al'' ''pw''))) =
      mux calm_ui ?r (dashboard (fst (AddSASLUser (Inr [7]) (SetSASLRequired fresh_broker True) ''al'' ''pw'')))"
    using conjunct2 [OF login] nul hd by (simp only: sample_simps) simp
  with conjunct1 [OF login] none show ?thesis by simp
qed


section \<open>What the pages show\<close>

text \<open>
  On a broker in its invariant, the page of messages of an open partition, asked for at an
  offset, shows the partition's log end offset and the first records of the log at or above
  that offset (none below the base offset), in order and with their content, as many as the
  limit says; the limit is between 1 and 200. Numbers written in decimal are read back.
\<close>

theorem ui_messages_page:
  assumes "broker_inv n (ui_handler ui)" and "\<not> saslRequired (ui_handler ui)" and "isValidTopicName t"
    and "mget (partitions (ui_handler ui)) (partitionKey t i) = Some p"
    and "rq_Method r = ''GET''" and "rq_Path r = topicsPrefix @ t @ ''/messages''"
    and "valueOf (rq_Query r) ''partition'' = show_int (sint i)" and "valueOf (rq_Query r) ''offset'' = show_nat (unat off)"
  shows "fst (ServeHTTP e r ui) =
      Json (MessagesJson \<lparr>pm_Topic = t, pm_Partition = i, pm_Offset = off, pm_Limit = limitParam r, pm_LEO = LEO p,
        pm_Messages = map messageDTO (take (nat (limitParam r))
          (if off < BaseOffset p then [] else filter (\<lambda>x. off \<le> Offset x) (log_records p)))\<rparr>)
    \<and> 1 \<le> limitParam r \<and> limitParam r \<le> 200"
proof -
  have inv: "log_inv p" using assms(1,4) unfolding broker_inv_def logs_inv_def by blast
  have "- (2 ^ 31) \<le> sint i" "sint i < 2 ^ 31" using sint_greater_eq [of i] sint_less [of i] by simp_all
  then have "Atoi (show_int (sint i)) = Some (sint i)" by (intro Atoi_show_int) simp_all
  then have pt: "partitionParam r = i" using show_int_not_Nil by (simp add: partitionParam_def assms(7) Let_def)
  have "ParseUint64 (show_nat (unat off)) = Some off"
    using unat_bound [of off] by (simp add: ParseUint64_def show_nat_digits digits_value_show_nat)
  then have of: "offsetParam r = off" by (simp add: offsetParam_def assms(8) Let_def)
  have "ServeHTTP e r ui = mux e r ui" using assms(2) by (simp add: ServeHTTP_def requireAuthIfSASLEnabled_def IsSASLRequired_def)
  with messages_page [OF inv _ valid_plain [OF assms(3)] assms(5,6), of ui e] limitParam_range [of r] assms(4)
  show ?thesis by (simp add: pt of)
qed

theorem ui_messages_page_witness:
  "\<exists>h p start. handleProduce calm_env two_samples (Some NewSASLSession) fresh_broker = (Inr start, h) \<and>
    fst (ServeHTTP calm_ui (get_request (topicsPrefix @ ''t/messages'') [(''partition'', [''0'']), (''offset'', [''0''])] []) (dashboard h)) =
      Json (MessagesJson \<lparr>pm_Topic = ''t'', pm_Partition = 0, pm_Offset = 0, pm_Limit = 50, pm_LEO = LEO p,
        pm_Messages = map messageDTO (take 50 (if 0 < BaseOffset p then [] else filter (\<lambda>x. 0 \<le> Offset x) (log_records p)))\<rparr>)"
proof -
  obtain ack h p where h: "handleProduce calm_env two_samples (Some NewSASLSession) fresh_broker = (Inr ack, h)"
    "same_setup fresh_broker h" "broker_inv 0 h" "mget (partitions h) (partitionKey ''t'' 0) = Some p"
    by (rule filled_broker) blast
  let ?r = "get_request (topicsPrefix @ ''t/messages'') [(''partition'', [''0'']), (''offset'', [''0''])] []"
  have sasl: "\<not> saslRequired h" using h(2) by (simp add: same_setup_def fresh_broker_def NewHandler_def)
  have zero: "show_nat 0 = ''0''" by code_simp
  have q: "valueOf (rq_Query ?r) ''partition'' = show_int (sint (0 :: i32))" "valueOf (rq_Query ?r) ''offset'' = show_nat (unat (0 :: u64))"
    by (simp_all add: valueOf_def show_int_def zero)
  have lim: "limitParam ?r = 50" by (simp add: limitParam_def valueOf_def)
  from ui_messages_page [of 0 "dashboard h" "''t''" 0 p ?r, OF _ _ topic_t _ _ _ q, of calm_ui] h sasl lim show ?thesis
    by (intro exI [of _ h] exI [of _ p] exI [of _ ack]) simp
qed

text \<open>
  On a broker in its invariant, the topics page lists every topic once, with as many
  partitions as it gives details of, at least one, and totals of messages and bytes that are
  the sums of the details; over all topics there are as many partitions as the broker has
  open; and every open partition is listed under its topic with its log end offset, base
  offset, number of segments and size. Partition numbers that are not negative are read back
  from the key.
\<close>

theorem ui_topics_exact:
  assumes "broker_inv n (ui_handler ui)" and "visits (u_parts e)" and "visits (u_topics e)"
    and "rq_Method r = ''GET''" and "route r = Topics"
  shows "\<exists>topics. mux e r ui = (Json (TopicsJson topics), ui) \<and>
    distinct (map ti_TopicName topics) \<and> list_all topic_entry_ok topics \<and>
    sum_list (map ti_PartitionsCount topics) = length (partitions (ui_handler ui)) \<and>
    (\<forall>t i p. 0 \<le> sint i \<longrightarrow> mget (partitions (ui_handler ui)) (partitionKey t i) = Some p \<longrightarrow>
       (\<exists>ti \<in> set topics. ti_TopicName ti = t \<and> partInfo i p \<in> set (ti_Partitions ti)))"
proof -
  let ?ts = "GetTopicsSummary (u_parts e) (u_topics e) (ui_handler ui)"
  note c = GetTopicsSummary_correct [OF assms(1-3)]
  have "\<exists>ti \<in> set ?ts. ti_TopicName ti = t \<and> partInfo i p \<in> set (ti_Partitions ti)"
    if "0 \<le> sint i" "mget (partitions (ui_handler ui)) (partitionKey t i) = Some p" for t i p
    using c(4) [OF that(2)] key_parts [OF that(1), of t] by simp
  then show ?thesis
    using c(1-3) assms(4,5) by (intro exI [of _ ?ts]) (auto simp: mux_def handleTopics_def onlyGet_def topicsOf_def)
qed

theorem ui_topics_exact_witness:
  "\<exists>ack h p topics. handleProduce calm_env two_samples (Some NewSASLSession) fresh_broker = (Inr ack, h) \<and>
    mux calm_ui (get_request ''/api/v1/topics'' [] []) (dashboard h) = (Json (TopicsJson topics), dashboard h) \<and>
    (\<exists>ti \<in> set topics. ti_TopicName ti = ''t'' \<and> partInfo 0 p \<in> set (ti_Partitions ti))"
proof -
  obtain ack h p where h: "handleProduce calm_env two_samples (Some NewSASLSession) fresh_broker = (Inr ack, h)"
    "broker_inv 0 h" "mget (partitions h) (partitionKey ''t'' 0) = Some p"
    by (rule filled_broker) blast
  let ?r = "get_request ''/api/v1/topics'' [] []"
  have clean: "cleanPath ''/api/v1/topics'' = ''/api/v1/topics''" by code_simp
  have v: "visits (u_parts calm_ui)" "visits (u_topics calm_ui)" "route ?r = Topics" "rq_Method ?r = ''GET''"
    by (simp_all add: calm_ui_def visits_id route_def clean)
  from ui_topics_exact [of 0 "dashboard h" calm_ui ?r, OF _ v(1,2,4,3)] h(2) obtain topics where
    t: "mux calm_ui ?r (dashboard h) = (Json (TopicsJson topics), dashboard h)"
      "\<forall>t i p. 0 \<le> sint i \<longrightarrow> mget (partitions h) (partitionKey t i) = Some p \<longrightarrow>
         (\<exists>ti \<in> set topics. ti_TopicName ti = t \<and> partInfo i p \<in> set (ti_Partitions ti))"
    by auto
  have "\<exists>ti \<in> set topics. ti_TopicName ti = ''t'' \<and> partInfo 0 p \<in> set (ti_Partitions ti)"
    using t(2) h(3) by simp
  with h(1) t(1) show ?thesis by blast
qed

text \<open>
  C36: The lag the dashboard shows for a committed offset of a consumer group is right for the
  partitions 0 to 9 (the distance from the committed offset to the log end offset, or zero),
  while for every other partition it shows a log end offset of zero: the key it looks up ends
  in a character that no partition's key ends in.
\<close>

theorem ui_lag_single_digit_only:
  assumes "broker_inv n h" and "info = lagInfo fmt (GetPartitions h) tp meta"
  shows "(0 \<le> sint (tp_Partition tp) \<and> sint (tp_Partition tp) < 10 \<longrightarrow>
      mget (partitions h) (partitionKey (tp_Topic tp) (tp_Partition tp)) = Some p \<longrightarrow>
      cl_LogEndOffset info = LEO p \<and>
      cl_Lag info = (if sint (ocm_Offset meta) \<le> sint (LEO p) then LEO p - ocm_Offset meta else 0)) \<and>
    (sint (tp_Partition tp) < 0 \<or> 9 < sint (tp_Partition tp) \<longrightarrow> cl_LogEndOffset info = 0)"
  using lag_unknown [OF assms(1), of tp fmt meta] lagKey_digit [of "tp_Partition tp" "tp_Topic tp"]
  by (auto simp: assms(2) lagInfo_def GetPartitions_def Let_def)

theorem ui_lag_single_digit_only_witness:
  "\<exists>ack h p. handleProduce calm_env two_samples (Some NewSASLSession) fresh_broker = (Inr ack, h) \<and>
    cl_LogEndOffset (lagInfo (\<lambda>_. '''') (GetPartitions h) \<lparr>tp_Topic = ''t'', tp_Partition = 0\<rparr>
      \<lparr>ocm_Offset = 0, ocm_Metadata = '''', ocm_CommitTime = 0\<rparr>) = LEO p \<and>
    cl_LogEndOffset (lagInfo (\<lambda>_. '''') (GetPartitions h) \<lparr>tp_Topic = ''t'', tp_Partition = 10\<rparr>
      \<lparr>ocm_Offset = 0, ocm_Metadata = '''', ocm_CommitTime = 0\<rparr>) = 0"
proof -
  obtain ack h p where h: "handleProduce calm_env two_samples (Some NewSASLSession) fresh_broker = (Inr ack, h)"
    "broker_inv 0 h" "mget (partitions h) (partitionKey ''t'' 0) = Some p"
    by (rule filled_broker) blast
  let ?m = "\<lparr>ocm_Offset = 0, ocm_Metadata = '''', ocm_CommitTime = 0\<rparr>"
  from ui_lag_single_digit_only [OF h(2) refl, of "\<lparr>tp_Topic = ''t'', tp_Partition = 0\<rparr>" p "\<lambda>_. ''''" ?m]
    ui_lag_single_digit_only [OF h(2) refl, of "\<lparr>tp_Topic = ''t'', tp_Partition = 10\<rparr>" p "\<lambda>_. ''''" ?m] h
  show ?thesis by auto
qed


section \<open>Requests only read\<close>

text \<open>
  C33: Whatever requests the dashboard serves, one at a time, in any order with the requests of Kafka clients
  on any connections, the broker's invariant holds and every partition's log still starts
  with the records it had.
\<close>

theorem dashboard_only_reads:
  assumes "node_step\<^sup>*\<^sup>* S S'" and "server_inv S" and "mget (partitions (srv_handler S)) k = Some p"
  shows "server_inv S' \<and>
    (\<exists>p'. mget (partitions (srv_handler S')) k = Some p' \<and> log_inv p' \<and> prefix (log_records p) (log_records p'))"
proof -
  have "grown [k \<mapsto> log_records p] (srv_handler S)" using assms(3) by (simp add: grown_def)
  from node_steps_inv [OF assms(1,2) this] have S': "server_inv S'" "grown [k \<mapsto> log_records p] (srv_handler S')" by blast+
  then obtain p' where "mget (partitions (srv_handler S')) k = Some p'" "prefix (log_records p) (log_records p')"
    unfolding grown_def by (metis fun_upd_same)
  with S'(1) show ?thesis unfolding server_inv_def broker_inv_def logs_inv_def by blast
qed

theorem dashboard_only_reads_witness:
  "\<exists>ack h p'. handleProduce calm_env two_samples (Some NewSASLSession) fresh_broker = (Inr ack, h) \<and>
    mget (partitions (ui_handler (snd (ServeHTTP calm_ui
      (get_request (topicsPrefix @ ''t/messages'') [] []) (dashboard h))))) (partitionKey ''t'' 0) = Some p' \<and> log_records p' \<noteq> []"
proof -
  obtain ack h p start old where h: "handleProduce calm_env two_samples (Some NewSASLSession) fresh_broker = (Inr ack, h)"
    "broker_inv 0 h" "mget (partitions h) (partitionKey ''t'' 0) = Some p"
    "log_records p = old @ numbered start [sample, sample']"
    by (rule filled_broker) blast
  let ?S = "NewTCPServer '':9092'' h" and ?r = "get_request (topicsPrefix @ ''t/messages'') [] []"
  let ?S' = "?S\<lparr>srv_handler := ui_handler (snd (ServeHTTP calm_ui ?r (dashboard h)))\<rparr>"
  have S: "srv_handler ?S = h" "\<not> crashed ?S" "conns ?S = []" by (simp_all add: NewTCPServer_def)
  have inv: "server_inv ?S" using h(2) S by (simp add: server_inv_def)
  have "ui_step ?S ?S'" unfolding ui_step_def using S by (intro conjI exI [of _ calm_ui] exI [of _ ?r] exI [of _ "dashboard h"]) auto
  then have "node_step\<^sup>*\<^sup>* ?S ?S'" by (intro r_into_rtranclp) (simp add: node_step_def)
  from dashboard_only_reads [OF this inv, of "partitionKey ''t'' 0" p] h(3) S(1) obtain p' where
    "mget (partitions (srv_handler ?S')) (partitionKey ''t'' 0) = Some p'" "prefix (log_records p) (log_records p')"
    by auto
  moreover from this(2) have "log_records p' \<noteq> []" using h(4) by (auto simp: prefix_def)
  ultimately show ?thesis using h(1) by auto
qed

section \<open>Telemetry\<close>

text \<open>
  C35: A dashboard that completes the WebSocket handshake receives, after the handshake's
  answer, exactly the payloads broadcast from then on, each complete and in order, when it
  reads the stream as RFC 6455 says: whatever other clients connect, fail or leave in
  between, as long as its own writes succeed.
\<close>

theorem subscriber_receives_broadcasts:
  assumes "gomap_ok (ws_conns hub)" and "EqualFold (valueOf (rq_Header r) ''Upgrade'') ''websocket''"
    and "valueOf (rq_Header r) ''Sec-Websocket-Key'' = key" and "key \<noteq> ''''"
    and "list_all (ws_steady s) evs"
  shows "\<exists>hub1 stream. Upgrade (Hijacked s) None r hub = (Upgraded s, hub1) \<and>
    ws_out (foldl ws_exec hub1 evs) s = ws_out hub s @ bytes_of (switchingProtocols (acceptKeyOf key)) @ stream \<and>
    readFrames stream = Some (concat (map ws_payload evs)) \<and>
    mget (ws_conns (foldl ws_exec hub1 evs)) s = Some () \<and> ws_closed (foldl ws_exec hub1 evs) s = ws_closed hub s"
proof -
  from Upgrade_subscribes [OF assms(2-4)] obtain hub1 where
    up: "Upgrade (Hijacked s) None r hub = (Upgraded s, hub1)" "mget (ws_conns hub1) s = Some ()"
      "ws_out hub1 s = ws_out hub s @ bytes_of (switchingProtocols (acceptKeyOf key))" "ws_closed hub1 = ws_closed hub"
    by blast
  have "gomap_ok (ws_conns hub1)" using ws_exec_ok [OF assms(1), of "WsHandshake (Hijacked s) None r"] up(1) by simp
  from subscriber_stream [OF this _ assms(5)] up(2-4) readFrames_encode [OF steady_payloads [OF assms(5)]] show ?thesis
    using up(1) by (intro exI [of _ hub1] exI [of _ "concat (map encodeTextFrame (concat (map ws_payload evs)))"]) auto
qed

theorem subscriber_receives_broadcasts_witness:
  "\<exists>hub1 stream.
    Upgrade (Hijacked 0) None (get_request ''/ws/stream'' [] [(''Upgrade'', [''WebSocket'']), (''Sec-Websocket-Key'', [''k''])]) NewWSHub =
      (Upgraded 0, hub1) \<and>
    readFrames stream = Some [[104, 105]] \<and>
    ws_out (foldl ws_exec hub1 [WsLeave 1 [[1]], WsSend (\<lambda>ks. ks) (\<lambda>_. True) [104, 105]]) 0 =
      bytes_of (switchingProtocols (acceptKeyOf ''k'')) @ stream"
proof -
  let ?r = "get_request ''/ws/stream'' [] [(''Upgrade'', [''WebSocket'']), (''Sec-Websocket-Key'', [''k''])]"
  have r: "EqualFold (valueOf (rq_Header ?r) ''Upgrade'') ''websocket''" "valueOf (rq_Header ?r) ''Sec-Websocket-Key'' = ''k''"
    "''k'' \<noteq> ''''"
    by (simp_all add: valueOf_def lowerAscii_def)
  have hub: "gomap_ok (ws_conns NewWSHub)" "ws_out NewWSHub 0 = []" by (simp_all add: NewWSHub_def)
  have ev: "list_all (ws_steady 0) [WsLeave 1 [[1]], WsSend (\<lambda>ks. ks) (\<lambda>_. True) [104, 105]]"
    by (simp add: visits_id)
  have pay: "concat (map ws_payload [WsLeave 1 [[1]], WsSend (\<lambda>ks. ks) (\<lambda>_. True) [104, 105]]) = [[104, 105]]" by simp
  from subscriber_receives_broadcasts [OF hub(1) r ev] pay hub(2) show ?thesis by auto
qed

text \<open>
  C7: Over any history of telemetry events and ticks of the rate loop, the total of incoming
  messages a snapshot shows is the sum of the reported events modulo 2^64, and the messages
  that the computed rates account for, together with those since the last tick, are that total:
  no message is counted twice or lost between ticks.
\<close>

theorem telemetry_conserved:
  "TotalMsgIn (GetSnapshot rt (foldl tel_exec (NewTelemetryCollector now1 now2) ss)) = sum_list (map msgs_of ss) \<and>
   reported (NewTelemetryCollector now1 now2) ss +
     (totalMsgIn (foldl tel_exec (NewTelemetryCollector now1 now2) ss) - lastMsgIn (foldl tel_exec (NewTelemetryCollector now1 now2) ss)) =
   sum_list (map msgs_of ss)"
  using totals_sum [of "NewTelemetryCollector now1 now2" ss] reported_sum [of "NewTelemetryCollector now1 now2" ss]
  by (simp add: GetSnapshot_def NewTelemetryCollector_def)

end
