(* ===== verification/Go_Json.thy ===== *)
theory Go_Json
  imports Go_Text "HOL-Library.Char_ord" "HOL-Library.List_Lexorder"
begin

text \<open>
  \<open>encoding/json\<close> as the dashboard uses it: the text that \<open>json.Marshal\<close> makes of a value (HTML
  characters escaped, the default), and a reader for JSON text after RFC 8259, which stands for
  the browser. Reading a marshalled value gives the value back, with every byte that is not
  part of valid UTF-8 replaced by U+FFFD, as the encoder does.
\<close>

section \<open>Values\<close>

text \<open>
  Numbers are kept as their text: the dashboard sends integers and \<open>float64\<close>. The members of
  an object are in the order they are written; \<open>jmap\<close> is a Go map, whose keys the encoder
  sorts.
\<close>

datatype json =
    JNull
  | JBool bool
  | JNum string
  | JStr string
  | JArr "json list"
  | JObj "(string \<times> json) list"

definition jint :: "int \<Rightarrow> json" where
  "jint i = JNum (show_int i)"

definition jmap :: "(string \<times> json) list \<Rightarrow> json" where
  "jmap ms = JObj (sort_key fst ms)"


section \<open>UTF-8\<close>

abbreviation code :: "char \<Rightarrow> nat" where
  "code \<equiv> of_char"

text \<open>
  \<open>utf8.DecodeRuneInString\<close>: the length of the encoding a first byte announces, with the range
  of the second byte; 0 if the byte starts none.
\<close>

definition leadByte :: "nat \<Rightarrow> nat \<times> nat \<times> nat" where
  "leadByte b =
     (if b < 0x80 then (1, 0, 0)
      else if 0xC2 \<le> b \<and> b \<le> 0xDF then (2, 0x80, 0xBF)
      else if b = 0xE0 then (3, 0xA0, 0xBF)
      else if b = 0xED then (3, 0x80, 0x9F)
      else if 0xE1 \<le> b \<and> b \<le> 0xEF then (3, 0x80, 0xBF)
      else if b = 0xF0 then (4, 0x90, 0xBF)
      else if b = 0xF4 then (4, 0x80, 0x8F)
      else if 0xF1 \<le> b \<and> b \<le> 0xF3 then (4, 0x80, 0xBF)
      else (0, 0, 0))"

definition runeSize :: "string \<Rightarrow> nat" where
  "runeSize s =
     (case s of
        [] \<Rightarrow> 0
      | c # cs \<Rightarrow>
          (case leadByte (code c) of
             (n, lo, hi) \<Rightarrow>
               if n \<le> 1 then n
               else if n \<le> length s \<and> lo \<le> code (s ! 1) \<and> code (s ! 1) \<le> hi \<and>
                       list_all (\<lambda>d. 0x80 \<le> code d \<and> code d \<le> 0xBF) (take (n - 2) (drop 2 s))
               then n else 0))"

text \<open>A Go string with the bytes outside valid UTF-8 replaced by U+FFFD.\<close>

fun toValid :: "string \<Rightarrow> string" where
  "toValid [] = []"
| "toValid (c # cs) =
     (let n = runeSize (c # cs)
      in if n = 0 then runeString 0xFFFD @ toValid cs else take n (c # cs) @ toValid (drop (n - 1) cs))"

declare toValid.simps(2) [simp del]

lemma leadByte_le: "leadByte b = (n, lo, hi) \<Longrightarrow> n \<noteq> 0 \<Longrightarrow> 128 \<le> b \<Longrightarrow> 2 \<le> n \<and> 128 \<le> lo"
  by (auto simp: leadByte_def split: if_splits)

lemma runeSize_ascii: "code c < 128 \<Longrightarrow> runeSize (c # cs) = 1"
  by (simp add: runeSize_def leadByte_def)

lemma runeSize_multi:
  assumes "128 \<le> code c" and "runeSize (c # cs) = n" and "n \<noteq> 0"
  shows "n \<le> Suc (length cs)" and "2 \<le> n" and "list_all (\<lambda>d. 128 \<le> code d) (take n (c # cs))"
proof -
  obtain m lo hi where m: "leadByte (code c) = (m, lo, hi)" by (metis prod_cases3)
  have "m \<noteq> 0" using m assms(2,3) by (cases m) (simp_all add: runeSize_def)
  moreover from leadByte_le [OF m this assms(1)] have "m \<noteq> 1" by simp
  ultimately have n: "m = n" "n \<le> Suc (length cs)" "lo \<le> code ((c # cs) ! 1)"
    "list_all (\<lambda>d. 128 \<le> code d \<and> code d \<le> 191) (take (n - 2) (drop 2 (c # cs)))"
    using m assms(2,3) by (auto simp: runeSize_def split: if_splits)
  show "n \<le> Suc (length cs)" "2 \<le> n" using n leadByte_le [OF m _ assms(1)] assms(3) by simp_all
  have two: "2 \<le> n" "128 \<le> lo" using leadByte_le [OF m _ assms(1)] n(1) assms(3) by auto
  then obtain d ds where cs: "cs = d # ds" using n(2) by (cases cs) auto
  have "take n (c # cs) = c # d # take (n - 2) ds" using two(1) cs by (cases n; cases "n - 1") auto
  with n(3,4) two(2) assms(1) cs show "list_all (\<lambda>d. 128 \<le> code d) (take n (c # cs))" by (auto simp: list_all_iff)
qed

lemma toValid_ascii: "code c < 128 \<Longrightarrow> toValid (c # cs) = c # toValid cs"
  by (simp add: toValid.simps runeSize_ascii)

lemma toValid_ascii_id: "list_all (\<lambda>c. code c < 128) s \<Longrightarrow> toValid s = s"
  by (induction s) (simp_all add: toValid_ascii)


section \<open>The encoder\<close>

definition hexDigit :: "nat \<Rightarrow> char" where
  "hexDigit n = (if n < 10 then char_of (48 + n) else char_of (87 + n))"

definition backslash :: char where "backslash = CHR 0x5C"

definition quoteMark :: char where "quoteMark = CHR 0x22"

text \<open>A byte below 0x80 in a JSON string.\<close>

definition escByte :: "char \<Rightarrow> string" where
  "escByte c =
     (if c = backslash \<or> c = quoteMark then [backslash, c]
      else if c = CHR 0x08 then [backslash, CHR ''b'']
      else if c = CHR 0x0C then [backslash, CHR ''f'']
      else if c = CHR 0x0A then [backslash, CHR ''n'']
      else if c = CHR 0x0D then [backslash, CHR ''r'']
      else if c = CHR 0x09 then [backslash, CHR ''t'']
      else if code c < 32 \<or> c = CHR ''<'' \<or> c = CHR ''>'' \<or> c = CHR ''&''
      then backslash # ''u00'' @ [hexDigit (code c div 16), hexDigit (code c mod 16)]
      else [c])"

text \<open>The separators U+2028 and U+2029 are escaped as well.\<close>

definition isSeparator :: "string \<Rightarrow> bool" where
  "isSeparator s \<longleftrightarrow> take 3 s = runeString 0x2028 \<or> take 3 s = runeString 0x2029"

fun jsonEscape :: "string \<Rightarrow> string" where
  "jsonEscape [] = []"
| "jsonEscape (c # cs) =
     (if code c < 128 then escByte c @ jsonEscape cs
      else let n = runeSize (c # cs)
           in if n = 0 then (backslash # ''ufffd'') @ jsonEscape cs
              else if isSeparator (c # cs)
              then (backslash # ''u202'') @ [hexDigit (code ((c # cs) ! 2) mod 16)] @ jsonEscape (drop (n - 1) cs)
              else take n (c # cs) @ jsonEscape (drop (n - 1) cs))"

declare jsonEscape.simps(2) [simp del]

definition jsonString :: "string \<Rightarrow> string" where
  "jsonString s = [quoteMark] @ jsonEscape s @ [quoteMark]"

fun commas :: "string list \<Rightarrow> string" where
  "commas [] = []"
| "commas [s] = s"
| "commas (s # ss) = s @ '','' @ commas ss"

definition memberText :: "string \<times> string \<Rightarrow> string" where
  "memberText m = jsonString (fst m) @ '':'' @ snd m"

primrec Marshal_json :: "json \<Rightarrow> string" where
  "Marshal_json JNull = ''null''"
| "Marshal_json (JBool b) = (if b then ''true'' else ''false'')"
| "Marshal_json (JNum t) = t"
| "Marshal_json (JStr s) = jsonString s"
| "Marshal_json (JArr vs) = ''['' @ commas (map Marshal_json vs) @ '']''"
| "Marshal_json (JObj ms) = ''{'' @ commas (map memberText (map (map_prod id Marshal_json) ms)) @ ''}''"


section \<open>The reader\<close>

subsection \<open>Strings\<close>

definition hexVal :: "char \<Rightarrow> nat option" where
  "hexVal c =
     (let n = code c
      in if 48 \<le> n \<and> n \<le> 57 then Some (n - 48)
         else if 97 \<le> n \<and> n \<le> 102 then Some (n - 87)
         else if 65 \<le> n \<and> n \<le> 70 then Some (n - 55)
         else None)"

fun hexNum :: "nat \<Rightarrow> string \<Rightarrow> nat option" where
  "hexNum acc [] = Some acc"
| "hexNum acc (c # cs) = (case hexVal c of None \<Rightarrow> None | Some d \<Rightarrow> hexNum (16 * acc + d) cs)"

text \<open>What follows a backslash; escaped surrogates, which the encoder never writes, are refused.\<close>

fun unescape :: "string \<Rightarrow> (string \<times> string) option" where
  "unescape [] = None"
| "unescape (c # cs) =
     (if c = quoteMark \<or> c = backslash \<or> c = CHR ''/'' then Some ([c], cs)
      else if c = CHR ''b'' then Some ([CHR 0x08], cs)
      else if c = CHR ''f'' then Some ([CHR 0x0C], cs)
      else if c = CHR ''n'' then Some ([CHR 0x0A], cs)
      else if c = CHR ''r'' then Some ([CHR 0x0D], cs)
      else if c = CHR ''t'' then Some ([CHR 0x09], cs)
      else if c = CHR ''u'' \<and> 4 \<le> length cs
      then (case hexNum 0 (take 4 cs) of
              None \<Rightarrow> None
            | Some n \<Rightarrow>
                if 0xD800 \<le> n \<and> n \<le> 0xDFFF then None else Some (runeString (int n), drop 4 cs))
      else None)"

lemma unescape_shorter: "unescape cs = Some (u, rest) \<Longrightarrow> length rest < length cs"
  by (cases cs) (auto split: if_splits option.splits)

text \<open>The string up to its closing quotation mark.\<close>

function scanString :: "string \<Rightarrow> (string \<times> string) option" where
  "scanString [] = None"
| "scanString (c # cs) =
     (if c = quoteMark then Some ([], cs)
      else if c = backslash
      then (case unescape cs of
              None \<Rightarrow> None
            | Some (u, rest) \<Rightarrow> map_option (\<lambda>(s, more). (u @ s, more)) (scanString rest))
      else if code c < 32 then None
      else map_option (\<lambda>(s, more). (c # s, more)) (scanString cs))"
  by pat_completeness auto

termination
  by (relation "measure length") (auto dest: unescape_shorter)

declare scanString.simps(2) [simp del]

lemma scanString_shorter: "scanString cs = Some (s, rest) \<Longrightarrow> length rest < length cs"
proof (induction cs arbitrary: s rest rule: scanString.induct)
  case (2 c cs)
  then show ?case
    by (auto simp: scanString.simps split: if_splits option.splits dest!: unescape_shorter) fastforce+
qed simp


subsection \<open>Numbers and tokens\<close>

definition digits1 :: "string \<Rightarrow> bool" where
  "digits1 s \<longleftrightarrow> s \<noteq> [] \<and> list_all is_digit s"

definition isExponent :: "string \<Rightarrow> bool" where
  "isExponent s \<longleftrightarrow> s = [] \<or>
     (take 1 s = ''e'' \<or> take 1 s = ''E'') \<and>
     digits1 (if take 1 (drop 1 s) = ''+'' \<or> take 1 (drop 1 s) = ''-'' then drop 2 s else drop 1 s)"

definition isFraction :: "string \<Rightarrow> bool" where
  "isFraction s \<longleftrightarrow>
     (if take 1 s = ''.''
      then digits1 (takeWhile is_digit (drop 1 s)) \<and> isExponent (dropWhile is_digit (drop 1 s))
      else isExponent s)"

definition isNumber :: "string \<Rightarrow> bool" where
  "isNumber s =
     (let t = (if take 1 s = ''-'' then drop 1 s else s); ds = takeWhile is_digit t
      in ds \<noteq> [] \<and> (take 1 ds = ''0'' \<longrightarrow> ds = ''0'') \<and> isFraction (dropWhile is_digit t))"

definition numChar :: "char \<Rightarrow> bool" where
  "numChar c \<longleftrightarrow> is_digit c \<or> c \<in> {CHR ''-'', CHR ''+'', CHR ''.'', CHR ''e'', CHR ''E''}"

datatype token = TOpen | TClose | TBegin | TEnd | TComma | TColon | TNull | TBool bool | TNum string | TStr string

definition blank :: "char \<Rightarrow> bool" where
  "blank c \<longleftrightarrow> c \<in> {CHR 0x20, CHR 0x09, CHR 0x0A, CHR 0x0D}"

function tokens :: "string \<Rightarrow> token list option" where
  "tokens [] = Some []"
| "tokens (c # cs) =
     (if blank c then tokens cs
      else if c = CHR ''['' then map_option ((#) TOpen) (tokens cs)
      else if c = CHR '']'' then map_option ((#) TClose) (tokens cs)
      else if c = CHR ''{'' then map_option ((#) TBegin) (tokens cs)
      else if c = CHR ''}'' then map_option ((#) TEnd) (tokens cs)
      else if c = CHR '','' then map_option ((#) TComma) (tokens cs)
      else if c = CHR '':'' then map_option ((#) TColon) (tokens cs)
      else if c = quoteMark
      then (case scanString cs of
              None \<Rightarrow> None
            | Some (s, rest) \<Rightarrow> map_option ((#) (TStr s)) (tokens rest))
      else if is_digit c \<or> c = CHR ''-''
      then if isNumber (takeWhile numChar (c # cs))
           then map_option ((#) (TNum (takeWhile numChar (c # cs)))) (tokens (dropWhile numChar cs))
           else None
      else if take 4 (c # cs) = ''null'' then map_option ((#) TNull) (tokens (drop 3 cs))
      else if take 4 (c # cs) = ''true'' then map_option ((#) (TBool True)) (tokens (drop 3 cs))
      else if take 5 (c # cs) = ''false'' then map_option ((#) (TBool False)) (tokens (drop 4 cs))
      else None)"
  by pat_completeness auto

termination
  by (relation "measure length") (auto simp: le_imp_less_Suc length_dropWhile_le dest: scanString_shorter)

declare tokens.simps(2) [simp del]


subsection \<open>Structure\<close>

text \<open>
  A machine with a stack: the arrays and objects around the current place. An object waits
  with the name of the member whose value comes next.
\<close>

datatype frame = InArr "json list" | InObj "(string \<times> json) list" string

datatype place =
    Want
  | WantFirst
  | Have json
  | KeyOrEnd
  | KeyNext "(string \<times> json) list"
  | NeedColon "(string \<times> json) list" string

fun startValue :: "token \<Rightarrow> frame list \<Rightarrow> (place \<times> frame list) option" where
  "startValue TNull st = Some (Have JNull, st)"
| "startValue (TBool b) st = Some (Have (JBool b), st)"
| "startValue (TNum t) st = Some (Have (JNum t), st)"
| "startValue (TStr s) st = Some (Have (JStr s), st)"
| "startValue TOpen st = Some (WantFirst, InArr [] # st)"
| "startValue TBegin st = Some (KeyOrEnd, st)"
| "startValue _ st = None"

fun readToken :: "token \<Rightarrow> place \<times> frame list \<Rightarrow> (place \<times> frame list) option" where
  "readToken t (Want, st) = startValue t st"
| "readToken t (WantFirst, st) =
     (case (t, st) of (TClose, InArr [] # more) \<Rightarrow> Some (Have (JArr []), more) | _ \<Rightarrow> startValue t st)"
| "readToken t (Have v, InArr vs # st) =
     (if t = TComma then Some (Want, InArr (vs @ [v]) # st)
      else if t = TClose then Some (Have (JArr (vs @ [v])), st) else None)"
| "readToken t (Have v, InObj ms k # st) =
     (if t = TComma then Some (KeyNext (ms @ [(k, v)]), st)
      else if t = TEnd then Some (Have (JObj (ms @ [(k, v)])), st) else None)"
| "readToken t (Have v, []) = None"
| "readToken t (KeyOrEnd, st) =
     (case t of TStr k \<Rightarrow> Some (NeedColon [] k, st) | TEnd \<Rightarrow> Some (Have (JObj []), st) | _ \<Rightarrow> None)"
| "readToken t (KeyNext ms, st) = (case t of TStr k \<Rightarrow> Some (NeedColon ms k, st) | _ \<Rightarrow> None)"
| "readToken t (NeedColon ms k, st) = (if t = TColon then Some (Want, InObj ms k # st) else None)"

fun readTokens :: "token list \<Rightarrow> place \<times> frame list \<Rightarrow> (place \<times> frame list) option" where
  "readTokens [] s = Some s"
| "readTokens (t # ts) s = (case readToken t s of None \<Rightarrow> None | Some s' \<Rightarrow> readTokens ts s')"

definition readJson :: "string \<Rightarrow> json option" where
  "readJson text =
     (case tokens text of
        None \<Rightarrow> None
      | Some ts \<Rightarrow> (case readTokens ts (Want, []) of Some (Have v, []) \<Rightarrow> Some v | _ \<Rightarrow> None))"


section \<open>Reading back a string\<close>

lemma code_char_of [simp]: "n < 256 \<Longrightarrow> code (char_of n) = n"
  by simp

lemma hexVal_hexDigit: "n < 16 \<Longrightarrow> hexVal (hexDigit n) = Some n"
  by (simp add: hexVal_def hexDigit_def Let_def)

lemma hexNum_digits: "a < 16 \<Longrightarrow> b < 16 \<Longrightarrow> hexNum 0 (''00'' @ [hexDigit a, hexDigit b]) = Some (16 * a + b)"
  using hexVal_hexDigit [of a] hexVal_hexDigit [of b] by (simp add: hexVal_def [of "CHR ''0''"])

lemma runeString_ascii: "n < 128 \<Longrightarrow> runeString (int n) = [char_of n]"
  by (simp add: runeString_def utf8_def)

lemma unescape_hex:
  assumes "code c < 128"
  shows "unescape (''u00'' @ [hexDigit (code c div 16), hexDigit (code c mod 16)] @ t) = Some ([c], t)"
proof -
  have "hexNum 0 (''00'' @ [hexDigit (code c div 16), hexDigit (code c mod 16)]) = Some (code c)"
    using assms by (subst hexNum_digits) auto
  with assms runeString_ascii [OF assms] show ?thesis by (simp add: backslash_def quoteMark_def)
qed

lemma scan_escape:
  assumes "unescape (xs @ t) = Some (u, t)"
  shows "scanString (backslash # xs @ t) = map_option (\<lambda>(s, more). (u @ s, more)) (scanString t)"
  using assms by (simp add: scanString.simps backslash_def quoteMark_def)

lemma scan_escByte:
  assumes "code c < 128"
  shows "scanString (escByte c @ t) = map_option (\<lambda>(s, more). (c # s, more)) (scanString t)"
proof (cases "escByte c = [c]")
  case True
  then have "\<not> code c < 32" "c \<noteq> backslash" "c \<noteq> quoteMark" by (auto simp: escByte_def split: if_splits)
  with True show ?thesis by (simp add: scanString.simps)
next
  case False
  have "\<exists>xs. escByte c = backslash # xs \<and> unescape (xs @ t) = Some ([c], t)"
  proof (cases "escByte c = backslash # ''u00'' @ [hexDigit (code c div 16), hexDigit (code c mod 16)]")
    case True
    with unescape_hex [OF assms, of t] show ?thesis by simp
  next
    case hex: False
    with False show ?thesis by (auto simp: escByte_def backslash_def quoteMark_def split: if_splits)
  qed
  then obtain xs where "escByte c = backslash # xs" "unescape (xs @ t) = Some ([c], t)" by blast
  with scan_escape [of xs t "[c]"] show ?thesis by simp
qed

lemma scan_raw:
  assumes "list_all (\<lambda>d. 128 \<le> code d) xs"
  shows "scanString (xs @ t) = map_option (\<lambda>(s, more). (xs @ s, more)) (scanString t)"
  using assms
proof (induction xs)
  case Nil
  then show ?case by (cases "scanString t") auto
next
  case (Cons x xs)
  then have "x \<noteq> quoteMark" "x \<noteq> backslash" "\<not> code x < 32" by (auto simp: quoteMark_def backslash_def)
  with Cons show ?case by (cases "scanString t") (auto simp: scanString.simps)
qed

lemma separators:
  "runeString 0x2028 = map char_of [0xE2, 0x80, 0xA8 :: nat]" "runeString 0x2029 = map char_of [0xE2, 0x80, 0xA9 :: nat]"
  by (simp_all add: runeString_def utf8_def)

lemma separator_escaped:
  assumes "isSeparator s"
  shows "unescape (''u202'' @ [hexDigit (code (s ! 2) mod 16)] @ t) = Some (take 3 s, t)" and "runeSize s = 3"
proof -
  have d: "hexVal (CHR ''2'') = Some 2" "hexVal (CHR ''0'') = Some 0" by (simp_all add: hexVal_def)
  consider "take 3 s = runeString 0x2028" | "take 3 s = runeString 0x2029" using assms unfolding isSeparator_def by blast
  then have "unescape (''u202'' @ [hexDigit (code (s ! 2) mod 16)] @ t) = Some (take 3 s, t) \<and> runeSize s = 3"
  proof cases
    case 1
    then obtain u where s: "s = map char_of [0xE2, 0x80, 0xA8 :: nat] @ u" unfolding separators by (metis append_take_drop_id)
    have "hexDigit (code (s ! 2) mod 16) = hexDigit 8" unfolding s by simp
    then have "unescape (''u202'' @ [hexDigit (code (s ! 2) mod 16)] @ t) = Some (runeString 0x2028, t)"
      by (simp add: hexVal_hexDigit d backslash_def quoteMark_def)
    moreover have "runeSize s = 3" by (simp add: s runeSize_def leadByte_def)
    ultimately show ?thesis using 1 by simp 
  next
    case 2
    then obtain u where s: "s = map char_of [0xE2, 0x80, 0xA9 :: nat] @ u" unfolding separators by (metis append_take_drop_id)
    have "hexDigit (code (s ! 2) mod 16) = hexDigit 9" unfolding s by simp
    then have "unescape (''u202'' @ [hexDigit (code (s ! 2) mod 16)] @ t) = Some (runeString 0x2029, t)"
      by (simp add: hexVal_hexDigit d backslash_def quoteMark_def)
    moreover have "runeSize s = 3" by (simp add: s runeSize_def leadByte_def)
    ultimately show ?thesis using 2 by simp
  qed
  then show "unescape (''u202'' @ [hexDigit (code (s ! 2) mod 16)] @ t) = Some (take 3 s, t)" "runeSize s = 3" by blast+
qed

lemma replacement_escaped: "unescape (''ufffd'' @ t) = Some (runeString 0xFFFD, t)"
  by (simp add: hexVal_def backslash_def quoteMark_def)

lemma scanString_jsonEscape: "scanString (jsonEscape s @ quoteMark # rest) = Some (toValid s, rest)"
proof (induction s rule: jsonEscape.induct)
  case 1
  then show ?case by (simp add: scanString.simps)
next
  case (2 c cs)
  let ?n = "runeSize (c # cs)"
  show ?case
  proof (cases "code c < 128")
    case True
    with 2(1) show ?thesis by (simp add: jsonEscape.simps scan_escByte toValid_ascii)
  next
    case big: False
    show ?thesis
    proof (cases "?n = 0")
      case True
      have "scanString (backslash # ''ufffd'' @ jsonEscape cs @ quoteMark # rest) =
          Some (runeString 0xFFFD @ toValid cs, rest)"
        using scan_escape [OF replacement_escaped] 2(2) [OF big refl True] by simp
      with True big show ?thesis by (simp add: jsonEscape.simps toValid.simps)
    next
      case False
      have IH: "scanString (jsonEscape (drop (?n - 1) cs) @ quoteMark # rest) = Some (toValid (drop (?n - 1) cs), rest)"
        using 2(3,4) big False by (cases "isSeparator (c # cs)") simp_all
      have multi: "list_all (\<lambda>d. 128 \<le> code d) (take ?n (c # cs))" using runeSize_multi [OF _ refl False] big by simp
      have val: "toValid (c # cs) = take ?n (c # cs) @ toValid (drop (?n - 1) cs)" using False by (simp add: toValid.simps Let_def)
      show ?thesis
      proof (cases "isSeparator (c # cs)")
        case True
        let ?h = "[hexDigit (code ((c # cs) ! 2) mod 16)]"
        have "jsonEscape (c # cs) = backslash # (''u202'' @ ?h) @ jsonEscape (drop (?n - 1) cs)"
          using True False big by (simp add: jsonEscape.simps)
        moreover have "unescape ((''u202'' @ ?h) @ t) = Some (take ?n (c # cs), t)" for t
          using separator_escaped [OF True] by simp
        ultimately show ?thesis using scan_escape [of "''u202'' @ ?h"] IH val by simp
      next
        case sep: False
        then have "jsonEscape (c # cs) = take ?n (c # cs) @ jsonEscape (drop (?n - 1) cs)"
          using False big by (simp add: jsonEscape.simps Let_def)
        then show ?thesis using scan_raw [OF multi] IH val by simp
      qed
    qed
  qed
qed


section \<open>Reading back a value\<close>

primrec validJson :: "json \<Rightarrow> json" where
  "validJson JNull = JNull"
| "validJson (JBool b) = JBool b"
| "validJson (JNum t) = JNum t"
| "validJson (JStr s) = JStr (toValid s)"
| "validJson (JArr vs) = JArr (map validJson vs)"
| "validJson (JObj ms) = JObj (map (map_prod toValid validJson) ms)"

primrec numbers_ok :: "json \<Rightarrow> bool" where
  "numbers_ok JNull \<longleftrightarrow> True"
| "numbers_ok (JBool b) \<longleftrightarrow> True"
| "numbers_ok (JNum t) \<longleftrightarrow> isNumber t"
| "numbers_ok (JStr s) \<longleftrightarrow> True"
| "numbers_ok (JArr vs) \<longleftrightarrow> list_all id (map numbers_ok vs)"
| "numbers_ok (JObj ms) \<longleftrightarrow> list_all snd (map (map_prod id numbers_ok) ms)"

fun seps :: "token list list \<Rightarrow> token list" where
  "seps [] = []"
| "seps [ts] = ts"
| "seps (ts # tss) = ts @ TComma # seps tss"

definition memberTokens :: "string \<times> token list \<Rightarrow> token list" where
  "memberTokens m = TStr (fst m) # TColon # snd m"

primrec tokensOf :: "json \<Rightarrow> token list" where
  "tokensOf JNull = [TNull]"
| "tokensOf (JBool b) = [TBool b]"
| "tokensOf (JNum t) = [TNum t]"
| "tokensOf (JStr s) = [TStr s]"
| "tokensOf (JArr vs) = TOpen # seps (map tokensOf vs) @ [TClose]"
| "tokensOf (JObj ms) = TBegin # seps (map memberTokens (map (map_prod id tokensOf) ms)) @ [TEnd]"

subsection \<open>Numbers\<close>

lemma show_nat_leading: "take 1 (show_nat n) = ''0'' \<Longrightarrow> show_nat n = ''0''"
proof (induction n rule: show_nat.induct)
  case (1 n)
  show ?case
  proof (cases "n < 10")
    case True
    with 1(2) show ?thesis by (simp add: show_nat.simps)
  next
    case False
    have "take 1 (show_nat (n div 10)) = ''0''"
      using 1(2) False by (subst (asm) show_nat.simps) (cases "show_nat (n div 10)"; simp)
    with 1(1) False have "show_nat (n div 10) = ''0''" by simp
    then have "n div 10 = 0" using digits_value_show_nat [of "n div 10"] by simp
    with False show ?thesis by simp
  qed
qed

lemma isNumber_show_int: "isNumber (show_int i)"
proof -
  have tw: "takeWhile is_digit (show_nat n) = show_nat n" "dropWhile is_digit (show_nat n) = []" for n
    using show_nat_digits [of n] by (auto simp: takeWhile_eq_all_conv dropWhile_eq_Nil_conv list_all_iff)
  have "take 1 (show_nat n) \<noteq> ''-''" for n
    using show_nat_digits [of n] minus_not_digit by (cases "show_nat n") auto
  then show ?thesis
    using show_nat_leading [of "nat (- i)"] show_nat_leading [of "nat i"]
    by (simp add: isNumber_def show_int_def tw isFraction_def isExponent_def Let_def del: takeWhile_eq_all_conv dropWhile_eq_Nil_conv)
qed

lemma digits_numChars: "list_all is_digit s \<Longrightarrow> list_all numChar s"
  by (simp add: list_all_iff numChar_def)

lemma isExponent_numChars:
  assumes "isExponent s"
  shows "list_all numChar s"
proof (cases s)
  case (Cons c cs)
  have "digits1 cs \<or> (\<exists>d ds. cs = d # ds \<and> (d = CHR ''+'' \<or> d = CHR ''-'') \<and> digits1 ds)"
    using assms Cons by (cases cs) (auto simp: isExponent_def split: if_splits)
  moreover have "numChar c" using assms Cons by (auto simp: isExponent_def numChar_def)
  ultimately show ?thesis using Cons by (auto simp: digits1_def numChar_def dest: digits_numChars)
qed simp

lemma split_digits: "list_all numChar (dropWhile is_digit s) \<Longrightarrow> list_all numChar s"
  by (induction s) (auto simp: numChar_def split: if_splits)

lemma isFraction_numChars:
  assumes "isFraction s"
  shows "list_all numChar s"
proof (cases "take 1 s = ''.''")
  case True
  then obtain t where "s = CHR ''.'' # t" by (cases s) auto
  with assms show ?thesis
    using split_digits [of t] isExponent_numChars [of "dropWhile is_digit t"] by (simp add: isFraction_def numChar_def)
next
  case False
  with assms show ?thesis by (simp add: isFraction_def isExponent_numChars)
qed

lemma isNumber_numChars:
  assumes "isNumber s"
  shows "list_all numChar s" and "\<exists>c cs. s = c # cs \<and> (is_digit c \<or> c = CHR ''-'')"
proof -
  let ?t = "if take 1 s = ''-'' then drop 1 s else s"
  have f: "isFraction (dropWhile is_digit ?t)" "takeWhile is_digit ?t \<noteq> []" using assms by (simp_all add: isNumber_def Let_def)
  then have "list_all numChar ?t" by (blast intro: split_digits isFraction_numChars)
  then show "list_all numChar s" by (cases s) (auto simp: numChar_def split: if_splits)
  from f(2) show "\<exists>c cs. s = c # cs \<and> (is_digit c \<or> c = CHR ''-'')"
    by (cases s) (auto split: if_splits)
qed


subsection \<open>Tokens\<close>

definition delimited :: "string \<Rightarrow> bool" where
  "delimited rest \<longleftrightarrow> rest = [] \<or> \<not> numChar (hd rest)"

definition lexes :: "string \<Rightarrow> token list \<Rightarrow> bool" where
  "lexes s ts \<longleftrightarrow> (\<forall>rest. delimited rest \<longrightarrow> tokens (s @ rest) = map_option ((@) ts) (tokens rest))"

lemma map_option_append: "map_option ((@) xs) (map_option ((@) ys) m) = map_option ((@) (xs @ ys)) m"
  by (cases m) simp_all

lemma map_option_cons: "map_option ((#) x) m = map_option ((@) [x]) m"
  by (cases m) simp_all

lemma map_option_nil: "map_option ((@) []) m = m"
  by (cases m) simp_all

lemma lexes_sequence:
  assumes "lexes s ts" and "lexes s' ts'" and "s' \<noteq> []" and "\<not> numChar (hd s')"
  shows "lexes (s @ s') (ts @ ts')"
  using assms by (auto simp: lexes_def delimited_def map_option_append)

lemma lexes_before:
  assumes "\<And>rest. tokens (s @ rest) = map_option ((@) ts) (tokens rest)" and "lexes s' ts'"
  shows "lexes (s @ s') (ts @ ts')"
  using assms by (auto simp: lexes_def map_option_append)

lemma punctuation:
  "tokens (''['' @ rest) = map_option ((@) [TOpen]) (tokens rest)"
  "tokens ('']'' @ rest) = map_option ((@) [TClose]) (tokens rest)"
  "tokens (''{'' @ rest) = map_option ((@) [TBegin]) (tokens rest)"
  "tokens (''}'' @ rest) = map_option ((@) [TEnd]) (tokens rest)"
  "tokens ('','' @ rest) = map_option ((@) [TComma]) (tokens rest)"
  "tokens ('':'' @ rest) = map_option ((@) [TColon]) (tokens rest)"
  by (simp_all add: tokens.simps blank_def map_option_cons)

lemma tokens_string: "tokens (jsonString s @ rest) = map_option ((@) [TStr (toValid s)]) (tokens rest)"
  using scanString_jsonEscape [of s rest]
  by (simp add: tokens.simps jsonString_def quoteMark_def blank_def map_option_cons)

lemma lexes_number:
  assumes "isNumber t"
  shows "lexes t [TNum t]"
proof -
  obtain c cs where t: "t = c # cs" "is_digit c \<or> c = CHR ''-''" using isNumber_numChars(2) [OF assms] by blast
  have no: "\<not> blank c" "c \<notin> {CHR ''['', CHR '']'', CHR ''{'', CHR ''}'', CHR '','', CHR '':'', quoteMark}"
    using t(2) by (auto simp: is_digit_def blank_def quoteMark_def)
  have nc: "\<forall>x \<in> set t. numChar x" using isNumber_numChars(1) [OF assms] by (simp add: list_all_iff)
  have "tokens (t @ rest) = map_option ((@) [TNum t]) (tokens rest)" if "delimited rest" for rest
  proof -
    have "takeWhile numChar (t @ rest) = t" "dropWhile numChar (t @ rest) = rest"
      using nc that by (cases rest; simp add: delimited_def takeWhile_append dropWhile_append)+
    with nc have "takeWhile numChar (c # cs @ rest) = t" "dropWhile numChar (cs @ rest) = rest" unfolding t(1) by simp_all
    with t no assms show ?thesis by (simp add: tokens.simps map_option_cons)
  qed
  then show ?thesis by (simp add: lexes_def)
qed

lemma lexes_commas:
  assumes "list_all2 lexes ss tss"
  shows "lexes (commas ss) (seps tss)"
  using assms
proof (induction ss tss rule: list_all2_induct)
  case Nil
  then show ?case by (simp add: lexes_def map_option_nil)
next
  case (Cons s ss ts tss)
  show ?case
  proof (cases ss)
    case Nil
    with Cons show ?thesis by simp
  next
    case (Cons s2 ss2)
    then obtain t2 tss2 where tss: "tss = t2 # tss2" using \<open>list_all2 lexes ss tss\<close> by (cases tss) auto
    have "lexes ('','' @ commas ss) ([TComma] @ seps tss)" by (rule lexes_before [OF punctuation(5) Cons.IH])
    from lexes_sequence [OF \<open>lexes s ts\<close> this] show ?thesis unfolding \<open>ss = s2 # ss2\<close> tss by (simp add: numChar_def is_digit_def)
  qed
qed

lemma lexes_enclosed:
  assumes "\<And>rest. tokens (a @ rest) = map_option ((@) x) (tokens rest)" and "\<And>rest. tokens ([b] @ rest) = map_option ((@) y) (tokens rest)"
    and "\<not> numChar b" and "list_all2 lexes ss tss"
  shows "lexes (a @ commas ss @ [b]) (x @ seps tss @ y)"
proof -
  have "lexes ([b]) y" using assms(2) by (simp add: lexes_def)
  from lexes_sequence [OF lexes_commas [OF assms(4)] this] assms(3) have "lexes (commas ss @ [b]) (seps tss @ y)" by simp
  from lexes_before [OF assms(1) this] show ?thesis .
qed

lemma lexes_Marshal: "numbers_ok v \<Longrightarrow> lexes (Marshal_json v) (tokensOf (validJson v))"
proof (induction v)
  case (JArr vs)
  have "list_all2 lexes (map Marshal_json vs) (map tokensOf (map validJson vs))"
    using JArr by (auto simp: list_all2_conv_all_nth list_all_length)
  from lexes_enclosed [OF punctuation(1,2) _ this] show ?case by (simp add: numChar_def is_digit_def)
next
  case (JObj ms)
  have "lexes (memberText (map_prod id Marshal_json m)) (memberTokens (map_prod toValid (tokensOf \<circ> validJson) m))"
    if "m \<in> set ms" for m
  proof -
    obtain k v where m: "m = (k, v)" by (cases m)
    have "lexes (Marshal_json v) (tokensOf (validJson v))" using JObj.IH [OF that, of v] JObj.prems that m
      by (force simp: list_all_iff)
    from lexes_before [OF tokens_string lexes_before [OF punctuation(6) this], of k] show ?thesis
      by (simp add: m memberText_def memberTokens_def)
  qed
  then have "list_all2 lexes (map memberText (map (map_prod id Marshal_json) ms))
      (map memberTokens (map (map_prod id tokensOf) (map (map_prod toValid validJson) ms)))"
    by (simp add: list_all2_conv_all_nth prod.map_comp o_def)
  from lexes_enclosed [OF punctuation(3,4) _ this] show ?case by (simp add: numChar_def is_digit_def)
next
  case (JStr s)
  show ?case using tokens_string by (simp add: lexes_def)
qed (simp_all add: lexes_number, simp_all add: lexes_def tokens.simps blank_def quoteMark_def is_digit_def map_option_cons)


subsection \<open>Structure\<close>

lemma readTokens_append:
  "readTokens (xs @ ys) s = (case readTokens xs s of None \<Rightarrow> None | Some s' \<Rightarrow> readTokens ys s')"
  by (induction xs arbitrary: s) (simp_all split: option.split)

lemma read_elements:
  assumes "\<And>v st. v \<in> set vs \<Longrightarrow> readTokens (tokensOf v) (Want, st) = Some (Have v, st)" and "vs \<noteq> []"
  shows "readTokens (seps (map tokensOf vs) @ [TClose]) (Want, InArr us # st) = Some (Have (JArr (us @ vs)), st)"
  using assms
proof (induction vs arbitrary: us)
  case (Cons v vs)
  show ?case
  proof (cases vs)
    case Nil
    with Cons.prems(1) [of v] show ?thesis by (simp add: readTokens_append)
  next
    case vs: (Cons v2 vs2)
    have "readTokens (seps (map tokensOf vs) @ [TClose]) (Want, InArr (us @ [v]) # st) = Some (Have (JArr ((us @ [v]) @ vs)), st)"
      using Cons.prems vs by (intro Cons.IH) simp_all
    with Cons.prems(1) [of v] show ?thesis by (simp add: vs readTokens_append)
  qed
qed simp

lemma read_members:
  assumes "\<And>k v st. (k, v) \<in> set ms \<Longrightarrow> readTokens (tokensOf v) (Want, st) = Some (Have v, st)" and "ms \<noteq> []"
  shows "readTokens (seps (map memberTokens (map (map_prod id tokensOf) ms)) @ [TEnd]) (KeyNext us, st) =
    Some (Have (JObj (us @ ms)), st)"
  using assms
proof (induction ms arbitrary: us)
  case (Cons m ms)
  obtain k v where m: "m = (k, v)" by (cases m)
  have v: "readTokens (tokensOf v) (Want, st) = Some (Have v, st)" for st using Cons.prems(1) [of k v] m by simp
  show ?case
  proof (cases ms)
    case Nil
    with v show ?thesis by (simp add: m memberTokens_def readTokens_append)
  next
    case ms: (Cons m2 ms2)
    have "readTokens (seps (map memberTokens (map (map_prod id tokensOf) ms)) @ [TEnd]) (KeyNext (us @ [m]), st) =
        Some (Have (JObj ((us @ [m]) @ ms)), st)"
      using Cons.prems ms by (intro Cons.IH) auto
    moreover have eq: "seps (map memberTokens (map (map_prod id tokensOf) (m # ms))) =
        TStr k # TColon # tokensOf v @ TComma # seps (map memberTokens (map (map_prod id tokensOf) ms))"
      by (simp add: m ms memberTokens_def)
    ultimately show ?thesis unfolding eq using v by (simp add: readTokens_append m)
  qed
qed simp

lemma tokensOf_first: "\<exists>t ts. tokensOf v = t # ts \<and> t \<noteq> TClose"
  by (cases v) simp_all

lemma seps_first: "tss = (t # ts) # rest \<Longrightarrow> \<exists>more. seps tss = t # more"
  by (cases rest) simp_all

lemma readToken_first: "t \<noteq> TClose \<Longrightarrow> readToken t (WantFirst, st) = readToken t (Want, st)"
  by (auto split: token.split)

lemma read_value: "readTokens (tokensOf v) (Want, st) = Some (Have v, st)"
proof (induction v arbitrary: st)
  case (JArr vs)
  show ?case
  proof (cases vs)
    case (Cons v vs2)
    obtain t ts where t: "tokensOf v = t # ts" "t \<noteq> TClose" using tokensOf_first by blast
    with Cons obtain more where more: "seps (map tokensOf vs) = t # more" using seps_first [of "map tokensOf vs"] by auto
    have "readTokens (seps (map tokensOf vs) @ [TClose]) (Want, InArr [] # st) = Some (Have (JArr vs), st)"
      using read_elements [of vs "[]"] JArr Cons by simp
    then show ?thesis using readToken_first [OF t(2)] by (simp add: more)
  qed simp
next
  case (JObj ms)
  show ?case
  proof (cases ms)
    case (Cons m ms2)
    obtain more where more: "seps (map memberTokens (map (map_prod id tokensOf) ms)) = TStr (fst m) # more"
      using seps_first [of "map memberTokens (map (map_prod id tokensOf) ms)"] Cons by (auto simp: memberTokens_def)
    have "readTokens (tokensOf v) (Want, st) = Some (Have v, st)" if "(k, v) \<in> set ms" for k v st
      using JObj [OF that] by simp
    then have "readTokens (seps (map memberTokens (map (map_prod id tokensOf) ms)) @ [TEnd]) (KeyNext [], st) = Some (Have (JObj ms), st)"
      using read_members [of ms "[]"] Cons by simp
    then show ?thesis using more by (simp del: map_map)
  qed simp
qed simp_all

text \<open>A value and the line feed that \<open>json.Encoder\<close> adds.\<close>

lemma readJson_Marshal:
  assumes "numbers_ok v"
  shows "readJson (Marshal_json v) = Some (validJson v)" and "readJson (Marshal_json v @ [CHR 0x0A]) = Some (validJson v)"
proof -
  have "delimited [CHR 0x0A]" "delimited []" by (simp_all add: delimited_def numChar_def is_digit_def)
  moreover have "tokens [CHR 0x0A] = Some []" by (simp add: tokens.simps blank_def)
  ultimately have "tokens (Marshal_json v @ [CHR 0x0A]) = Some (tokensOf (validJson v))"
    "tokens (Marshal_json v @ []) = Some (tokensOf (validJson v))"
    using lexes_Marshal [OF assms] unfolding lexes_def by (metis append_Nil2 option.map(2) tokens.simps(1))+
  then show "readJson (Marshal_json v) = Some (validJson v)" "readJson (Marshal_json v @ [CHR 0x0A]) = Some (validJson v)"
    by (simp_all add: readJson_def read_value)
qed

end
