(* ===== verification/Ui_Json.thy ===== *)
theory Ui_Json
  imports Ui_Server Go_Json
begin

text \<open>
  The JSON the dashboard sends: the struct tags of \<open>src/internal/ui/metrics.go\<close>,
  \<open>src/internal/ui/server.go\<close> and \<open>src/internal/coordinator/group.go\<close>, \<open>writeJSON\<close>, and the
  payload of a telemetry tick. The text of a \<open>float64\<close> and of a \<open>time.Time\<close> are arguments. A
  reader of the messages page, which takes from the text what the page of the dashboard shows,
  states what a browser gets; like \<open>JSON.parse\<close> it reads every number as a double.
\<close>

section \<open>Structs\<close>

record json_env =
  j_rate :: "rate \<Rightarrow> string"
  j_megabytes :: "u64 \<Rightarrow> string"
  j_time :: "int \<Rightarrow> string"

definition snapshotJson :: "json_env \<Rightarrow> MetricsSnapshot \<Rightarrow> json" where
  "snapshotJson j m = JObj
     [(''uptime_seconds'', jint (UptimeSeconds m)),
      (''total_msg_in'', jint (uint (TotalMsgIn m))),
      (''total_bytes_in'', jint (uint (TotalBytesIn m))),
      (''total_bytes_out'', jint (uint (TotalBytesOut m))),
      (''msg_in_rate'', JNum (j_rate j (MsgInRate m))),
      (''bytes_in_rate'', JNum (j_rate j (BytesInRate m))),
      (''bytes_out_rate'', JNum (j_rate j (BytesOutRate m))),
      (''goroutines'', jint (int (Goroutines m))),
      (''alloc_heap_mb'', JNum (j_megabytes j (AllocHeap m))),
      (''sys_mem_mb'', JNum (j_megabytes j (SysMem m))),
      (''num_gc'', jint (uint (NumGC m)))]"

definition partitionJson :: "TopicPartitionInfo \<Rightarrow> json" where
  "partitionJson p = JObj
     [(''partition_id'', jint (sint (tpi_PartitionID p))),
      (''leo'', jint (uint (tpi_LEO p))),
      (''base_offset'', jint (uint (tpi_BaseOffset p))),
      (''segments_count'', jint (int (tpi_SegmentsCount p))),
      (''size_bytes'', jint (tpi_SizeBytes p))]"

definition topicJson :: "TopicInfo \<Rightarrow> json" where
  "topicJson t = JObj
     [(''topic_name'', JStr (ti_TopicName t)),
      (''partitions_count'', jint (int (ti_PartitionsCount t))),
      (''total_messages'', jint (uint (ti_TotalMessages t))),
      (''total_size_bytes'', jint (ti_TotalSizeBytes t)),
      (''partitions'', JArr (map partitionJson (ti_Partitions t)))]"

text \<open>A byte slice is base64, or \<open>null\<close> if it is nil; \<open>ReadBytes\<close> returns nil for no bytes.\<close>

definition bytesJson :: "bytes option \<Rightarrow> json" where
  "bytesJson b = (case b of None \<Rightarrow> JNull | Some bs \<Rightarrow> JStr (StdEncodeToString bs))"

definition sliceOf :: "bytes \<Rightarrow> bytes option" where
  "sliceOf bs = (if bs = [] then None else Some bs)"

definition memberJson :: "json_env \<Rightarrow> GroupMember \<Rightarrow> json" where
  "memberJson j m = JObj
     [(''member_id'', JStr (MemberID m)),
      (''client_id'', JStr (ClientID m)),
      (''client_host'', JStr (ClientHost m)),
      (''session_timeout'', jint (SessionTimeout m)),
      (''rebalance_timeout'', jint (RebalanceTimeout m)),
      (''protocol_type'', JStr (gm_ProtocolType m)),
      (''supported_protocols'', jmap (map (map_prod id (bytesJson \<circ> sliceOf)) (SupportedProtocols m))),
      (''assignment'', bytesJson (gm_Assignment m)),
      (''last_heartbeat'', JStr (j_time j (LastHeartbeat m)))]"

definition lagJson :: "ConsumerLagInfo \<Rightarrow> json" where
  "lagJson l = JObj
     [(''topic'', JStr (cl_Topic l)),
      (''partition'', jint (sint (cl_Partition l))),
      (''committed_offset'', jint (sint (cl_CommittedOffset l))),
      (''log_end_offset'', jint (uint (cl_LogEndOffset l))),
      (''lag'', jint (sint (cl_Lag l))),
      (''commit_time'', JStr (cl_CommitTime l))]"

fun stateText :: "GroupState \<Rightarrow> string" where
  "stateText GroupStateEmpty = ''Empty''"
| "stateText GroupStatePreparingRebalance = ''PreparingRebalance''"
| "stateText GroupStateCompletingRebalance = ''CompletingRebalance''"
| "stateText GroupStateStable = ''Stable''"
| "stateText GroupStateDead = ''Dead''"

definition groupJson :: "json_env \<Rightarrow> ConsumerGroupUI \<Rightarrow> json" where
  "groupJson j g = JObj
     [(''group_id'', JStr (cgu_GroupID g)),
      (''state'', JStr (stateText (cgu_State g))),
      (''protocol_type'', JStr (cgu_ProtocolType g)),
      (''leader_id'', JStr (cgu_LeaderID g)),
      (''generation_id'', jint (sint (cgu_GenerationID g))),
      (''members_count'', jint (int (cgu_MembersCount g))),
      (''members'', JArr (map (memberJson j) (cgu_Members g))),
      (''lag_info'', JArr (map lagJson (cgu_LagInfo g)))]"

definition dtoJson :: "MessageDTO \<Rightarrow> json" where
  "dtoJson m = JObj
     [(''offset'', jint (uint (dto_Offset m))),
      (''timestamp'', jint (sint (dto_Timestamp m))),
      (''key'', JStr (dto_Key m)),
      (''value'', JStr (dto_Value m)),
      (''size'', jint (int (dto_Size m)))]"

definition pageJson :: "PaginatedMessagesResponse \<Rightarrow> json" where
  "pageJson p = JObj
     [(''topic'', JStr (pm_Topic p)),
      (''partition'', jint (sint (pm_Partition p))),
      (''offset'', jint (uint (pm_Offset p))),
      (''limit'', jint (pm_Limit p)),
      (''leo'', jint (uint (pm_LEO p))),
      (''messages'', JArr (map dtoJson (pm_Messages p)))]"

definition clusterJson :: "json_env \<Rightarrow> cluster_info \<Rightarrow> json" where
  "clusterJson j c = jmap
     [(''node_id'', jint (sint (ci_node_id c))),
      (''host'', JStr (ci_host c)),
      (''port'', jint (sint (ci_port c))),
      (''data_dir'', JStr (ci_data_dir c)),
      (''total_topics'', jint (int (ci_total_topics c))),
      (''total_partitions'', jint (int (ci_total_partitions c))),
      (''total_messages'', jint (uint (ci_total_messages c))),
      (''total_bytes'', jint (ci_total_bytes c)),
      (''ws_subscribers'', jint (int (ci_ws_subscribers c))),
      (''metrics'', snapshotJson j (ci_metrics c))]"

fun uiJson :: "json_env \<Rightarrow> ui_json \<Rightarrow> json" where
  "uiJson j (ClusterJson c) = clusterJson j c"
| "uiJson j (TopicsJson ts) = JArr (map topicJson ts)"
| "uiJson j (MessagesJson p) = pageJson p"
| "uiJson j (GroupsJson gs) = JArr (map (groupJson j) gs)"
| "uiJson j (MetricsJson m) = snapshotJson j m"


section \<open>Texts\<close>

definition writeJSON :: "json \<Rightarrow> string" where
  "writeJSON v = Marshal_json v @ [CHR 0x0A]"

definition bodyText :: "json_env \<Rightarrow> http_response \<Rightarrow> string option" where
  "bodyText j resp = (case resp of Json v \<Rightarrow> Some (writeJSON (uiJson j v)) | _ \<Rightarrow> None)"

definition tickJson ::
  "json_env \<Rightarrow> int \<Rightarrow> MetricsSnapshot \<times> TopicInfo list \<times> ConsumerGroupUI list \<Rightarrow> json" where
  "tickJson j now = (\<lambda>(snapshot, topics, groups). jmap
     [(''type'', JStr ''telemetry_tick''),
      (''timestamp'', jint now),
      (''metrics'', snapshotJson j snapshot),
      (''topics'', JArr (map topicJson topics)),
      (''groups'', JArr (map (groupJson j) groups))])"

text \<open>\<open>json.Marshal\<close> of the tick; it cannot fail on these values.\<close>

definition tickData ::
  "json_env \<Rightarrow> int \<Rightarrow> MetricsSnapshot \<times> TopicInfo list \<times> ConsumerGroupUI list \<Rightarrow> bytes option" where
  "tickData j now tick = Some (bytes_of (Marshal_json (tickJson j now tick)))"


section \<open>The texts are JSON\<close>

text \<open>What \<open>encoding/json\<close> documents about a finite \<open>float64\<close>: its text is a JSON number.\<close>

definition json_env_ok :: "json_env \<Rightarrow> bool" where
  "json_env_ok j \<longleftrightarrow> (\<forall>r. isNumber (j_rate j r)) \<and> (\<forall>b. isNumber (j_megabytes j b))"

lemma numbers_jint [simp]: "numbers_ok (jint i)"
  by (simp add: jint_def isNumber_show_int)

lemma numbers_jmap: "numbers_ok (jmap ms) \<longleftrightarrow> (\<forall>(k, v) \<in> set ms. numbers_ok v)"
  by (auto simp: jmap_def list_all_iff)

lemma numbers_JObj: "numbers_ok (JObj ms) \<longleftrightarrow> (\<forall>(k, v) \<in> set ms. numbers_ok v)"
  by (auto simp: list_all_iff)

lemma numbers_JArr: "numbers_ok (JArr (map f xs)) \<longleftrightarrow> (\<forall>x \<in> set xs. numbers_ok (f x))"
  by (auto simp: list_all_iff)

lemma numbers_bytesJson: "numbers_ok (bytesJson b)"
  by (simp add: bytesJson_def split: option.split)

lemma numbers_page: "numbers_ok (pageJson p)"
  by (auto simp: pageJson_def dtoJson_def numbers_JObj numbers_JArr simp del: numbers_ok.simps(5,6))

lemma numbers_topics: "numbers_ok (JArr (map topicJson ts))"
  by (auto simp: topicJson_def partitionJson_def numbers_JObj numbers_JArr simp del: numbers_ok.simps(5,6))

lemma numbers_groups: "numbers_ok (JArr (map (groupJson j) gs))"
  by (auto simp: groupJson_def memberJson_def lagJson_def numbers_JObj numbers_JArr numbers_jmap numbers_bytesJson
      simp del: numbers_ok.simps(5,6))

lemma numbers_snapshot: "json_env_ok j \<Longrightarrow> numbers_ok (snapshotJson j m)"
  by (simp add: snapshotJson_def json_env_ok_def)

lemma numbers_uiJson: "json_env_ok j \<Longrightarrow> numbers_ok (uiJson j v)"
  by (cases v) (auto simp: numbers_page numbers_topics numbers_groups numbers_snapshot clusterJson_def numbers_jmap
      simp del: numbers_ok.simps(5,6))

lemma numbers_tick: "json_env_ok j \<Longrightarrow> numbers_ok (tickJson j now tick)"
  by (auto simp: tickJson_def numbers_jmap numbers_topics numbers_groups numbers_snapshot
      simp del: numbers_ok.simps(5,6) split: prod.split)

lemma bodyText_reads:
  assumes "json_env_ok j" and "bodyText j resp = Some page_text"
  shows "\<exists>v. resp = Json v \<and> readJson page_text = Some (validJson (uiJson j v))"
  using assms(2) readJson_Marshal(2) [OF numbers_uiJson [OF assms(1)]]
  by (cases resp) (auto simp: bodyText_def writeJSON_def)

lemma tickData_reads:
  assumes "json_env_ok j" and "tickData j now tick = Some data"
  shows "readJson (string_of data) = Some (validJson (tickJson j now tick))"
  using assms readJson_Marshal(1) [OF numbers_tick [OF assms(1), of now tick]] by (auto simp: tickData_def)


section \<open>The messages page in the browser\<close>

text \<open>
  The double nearest to an integer: 53 significant bits, a tie goes to the even neighbour.
  \<open>excess\<close> counts the bits to drop. (An integer of 64 bits never overflows a double.)
\<close>

fun excess :: "nat \<Rightarrow> nat" where
  "excess m = (if m < 2 ^ 53 then 0 else Suc (excess (m div 2)))"

declare excess.simps [simp del]

definition roundEven :: "nat \<Rightarrow> nat \<Rightarrow> nat" where
  "roundEven k m =
     (let q = m div 2 ^ k; r = m mod 2 ^ k
      in if 2 * r < 2 ^ k \<or> (2 * r = 2 ^ k \<and> even q) then q * 2 ^ k else (q + 1) * 2 ^ k)"

definition toDouble :: "int \<Rightarrow> int" where
  "toDouble i = sgn i * int (roundEven (excess (nat \<bar>i\<bar>)) (nat \<bar>i\<bar>))"

lemma excess_bound: "m < 2 ^ (53 + k) \<Longrightarrow> excess m \<le> k"
proof (induction k arbitrary: m)
  case 0
  then show ?case by (simp add: excess.simps [of m])
next
  case (Suc k)
  then have "m < 2 ^ (53 + k) * 2" by (simp only: add_Suc_right power_Suc mult.commute)
  then have "m div 2 < 2 ^ (53 + k)" by (rule less_mult_imp_div_less)
  from Suc.IH [OF this] show ?case by (subst excess.simps) simp
qed

lemma roundEven_error: "2 * roundEven k m \<le> 2 * m + 2 ^ k \<and> 2 * m \<le> 2 * roundEven k m + 2 ^ k"
proof -
  define a where "a = m div 2 ^ k * 2 ^ k"
  define r where "r = m mod 2 ^ k"
  have m: "m = a + r" unfolding a_def r_def by (rule div_mult_mod_eq [symmetric])
  have r: "r < 2 ^ k" by (simp add: r_def)
  have "roundEven k m = (if 2 * r < 2 ^ k \<or> (2 * r = 2 ^ k \<and> even (m div 2 ^ k)) then a else a + 2 ^ k)"
    by (simp add: roundEven_def Let_def a_def r_def)
  with m r show ?thesis by (cases "2 * r < 2 ^ k"; cases "2 * r = 2 ^ k \<and> even (m div 2 ^ k)"; simp)
qed

lemma toDouble_exact:
  assumes "\<bar>i\<bar> \<le> 2 ^ 53"
  shows "toDouble i = i"
proof (cases "\<bar>i\<bar> = 2 ^ 53")
  case True
  then have "nat \<bar>i\<bar> = 2 ^ 53" by simp
  then have "roundEven (excess (nat \<bar>i\<bar>)) (nat \<bar>i\<bar>) = 2 ^ 53" by (simp add: excess.simps roundEven_def)
  then have "toDouble i = sgn i * \<bar>i\<bar>" using True by (simp add: toDouble_def)
  then show ?thesis by (simp add: mult_sgn_abs)
next
  case False
  then have "excess (nat \<bar>i\<bar>) = 0" using assms by (subst excess.simps) auto
  then have "toDouble i = sgn i * \<bar>i\<bar>" by (simp add: toDouble_def roundEven_def)
  then show ?thesis by (simp add: mult_sgn_abs)
qed

lemma toDouble_error: "\<bar>2 * (toDouble i - i)\<bar> \<le> 2 ^ excess (nat \<bar>i\<bar>)"
proof -
  let ?m = "nat \<bar>i\<bar>"
  let ?r = "roundEven (excess ?m) ?m"
  have "int (2 * ?r) \<le> int (2 * ?m + 2 ^ excess ?m)" "int (2 * ?m) \<le> int (2 * ?r + 2 ^ excess ?m)"
    using roundEven_error [of "excess ?m" ?m] unfolding of_nat_le_iff by simp_all
  then have err: "\<bar>2 * (int ?r - \<bar>i\<bar>)\<bar> \<le> 2 ^ excess ?m" by (simp add: abs_le_iff)
  have "toDouble i - i = sgn i * (int ?r - \<bar>i\<bar>)"
    by (simp add: toDouble_def right_diff_distrib mult_sgn_abs)
  then have "i = 0 \<and> toDouble i - i = 0 \<or> \<bar>toDouble i - i\<bar> = \<bar>int ?r - \<bar>i\<bar>\<bar>"
    by (cases "i = 0") (simp_all add: abs_mult abs_sgn_eq)
  with err show ?thesis unfolding abs_mult by auto
qed

text \<open>A signed integer of 64 bits is off by at most 512.\<close>

lemma toDouble_close:
  assumes "\<bar>i\<bar> \<le> 2 ^ 63"
  shows "\<bar>toDouble i - i\<bar> \<le> 512"
proof (cases "\<bar>i\<bar> = 2 ^ 63")
  case True
  then have "nat \<bar>i\<bar> = 2 ^ 63" by simp
  then have "roundEven (excess (nat \<bar>i\<bar>)) (nat \<bar>i\<bar>) = 2 ^ 63" by (simp add: excess.simps roundEven_def)
  then have "toDouble i = sgn i * \<bar>i\<bar>" using True by (simp add: toDouble_def)
  then show ?thesis by (simp add: mult_sgn_abs)
next
  case False
  with assms have "nat \<bar>i\<bar> < 2 ^ (53 + 10)" by auto
  from excess_bound [OF this] have "(2 :: int) ^ excess (nat \<bar>i\<bar>) \<le> 2 ^ 10" by (rule power_increasing) simp
  with toDouble_error [of i] show ?thesis by simp
qed

fun field :: "string \<Rightarrow> json \<Rightarrow> json option" where
  "field k (JObj ms) = map_of ms k"
| "field k _ = None"

fun intOf :: "json \<Rightarrow> int option" where
  "intOf (JNum t) = map_option toDouble (Atoi t)"
| "intOf _ = None"

fun natOf :: "json \<Rightarrow> int option" where
  "natOf (JNum t) = map_option (\<lambda>x. toDouble (uint x)) (ParseUint64 t)"
| "natOf _ = None"

fun textOf :: "json \<Rightarrow> string option" where
  "textOf (JStr s) = Some s"
| "textOf _ = None"

fun arrayOf :: "json \<Rightarrow> json list option" where
  "arrayOf (JArr vs) = Some vs"
| "arrayOf _ = None"

record shown_message =
  sm_offset :: int
  sm_timestamp :: int
  sm_key :: string
  sm_value :: string
  sm_size :: int

definition shownMessage :: "json \<Rightarrow> shown_message option" where
  "shownMessage v =
     (case (Option.bind (field ''offset'' v) natOf, Option.bind (field ''timestamp'' v) intOf,
            Option.bind (field ''key'' v) textOf, Option.bind (field ''value'' v) textOf,
            Option.bind (field ''size'' v) intOf) of
        (Some offs, Some ts, Some k, Some val, Some sz) \<Rightarrow>
          Some \<lparr>sm_offset = offs, sm_timestamp = ts, sm_key = k, sm_value = val, sm_size = sz\<rparr>
      | _ \<Rightarrow> None)"

definition shownPage :: "string \<Rightarrow> (int \<times> shown_message list) option" where
  "shownPage page_text =
     (case readJson page_text of
        None \<Rightarrow> None
      | Some v \<Rightarrow>
          (case (Option.bind (field ''leo'' v) natOf, Option.bind (field ''messages'' v) arrayOf) of
             (Some leo, Some ms) \<Rightarrow> map_option (\<lambda>shown. (leo, shown)) (those (map shownMessage ms))
           | _ \<Rightarrow> None))"

text \<open>What a record looks like: numbers are doubles, bytes that are not UTF-8 are replaced.\<close>

definition shownRecord :: "Record \<Rightarrow> shown_message" where
  "shownRecord rec =
     \<lparr>sm_offset = toDouble (uint (Offset rec)), sm_timestamp = toDouble (sint (Timestamp rec)),
      sm_key = toValid (goString (Key rec)), sm_value = toValid (goString (Value rec)),
      sm_size = toDouble (int (length (goString (Value rec))))\<rparr>"

lemma natOf_jint: "natOf (jint (uint (x :: u64))) = Some (toDouble (uint x))"
proof -
  have "show_int (uint x) = show_nat (unat x)" by (simp add: show_int_def)
  then show ?thesis using unat_bound [of x]
    by (simp add: jint_def ParseUint64_def show_nat_digits digits_value_show_nat)
qed

lemma intOf_jint: "- (2 ^ 63) \<le> i \<Longrightarrow> i < 2 ^ 63 \<Longrightarrow> intOf (jint i) = Some (toDouble i)"
  by (simp add: jint_def Atoi_show_int)

lemma validJson_jint [simp]: "validJson (jint i) = jint i"
  by (simp add: jint_def)

lemma shownMessage_dto:
  assumes "length (goString (Value rec)) < 2 ^ 63"
  shows "shownMessage (validJson (dtoJson (messageDTO rec))) = Some (shownRecord rec)"
proof -
  have "intOf (jint (sint (Timestamp rec))) = Some (toDouble (sint (Timestamp rec)))"
    using sint_greater_eq [of "Timestamp rec"] sint_less [of "Timestamp rec"] by (intro intOf_jint) simp_all
  moreover have "intOf (jint (int (length (goString (Value rec))))) = Some (toDouble (int (length (goString (Value rec)))))"
    using assms by (intro intOf_jint) simp_all
  ultimately show ?thesis
    by (simp add: shownMessage_def dtoJson_def messageDTO_def shownRecord_def toValid_ascii_id natOf_jint)
qed

lemma those_map_Some: "(\<And>x. x \<in> set xs \<Longrightarrow> f x = Some (g x)) \<Longrightarrow> those (map f xs) = Some (map g xs)"
  by (induction xs) simp_all

lemma shownPage_records:
  assumes "\<forall>rec \<in> set recs. length (goString (Value rec)) < 2 ^ 63" and "pm_Messages page = map messageDTO recs"
  shows "shownPage (writeJSON (pageJson page)) = Some (toDouble (uint (pm_LEO page)), map shownRecord recs)"
proof -
  have "those (map shownMessage (map (validJson \<circ> dtoJson \<circ> messageDTO) recs)) = Some (map shownRecord recs)"
    unfolding map_map using assms(1) by (intro those_map_Some) (simp add: shownMessage_dto)
  moreover have "readJson (writeJSON (pageJson page)) = Some (validJson (pageJson page))"
    using readJson_Marshal(2) [OF numbers_page] by (simp add: writeJSON_def)
  ultimately show ?thesis
    using assms(2) by (simp add: shownPage_def pageJson_def toValid_ascii_id natOf_jint comp_assoc)
qed

end
