(* ===== verification/Json_Properties.thy ===== *)
theory Json_Properties
  imports Ui_Properties Ui_Json
begin

text \<open>
  What a browser gets to see: the pages of the dashboard and the telemetry stream down to the
  JSON text.
\<close>

section \<open>Pages\<close>

text \<open>
  C34: On a broker in its invariant that requires no login, the text of the messages page of
  an open partition, asked for at an offset, is JSON. If the offset is at or above the base
  offset of the log, a browser that reads it shows the first records of the log at or above
  the offset, as many as the limit says and at most 200; if the offset is below the base
  offset (offset 0 after retention, say), the page is empty, although such records exist. The
  log end offset is shown too. Keys and values are those of the record, with bytes that are
  not UTF-8 replaced by U+FFFD. A browser reads numbers as doubles: offsets and sizes are
  exact up to 2^53, times are off by at most 512 nanoseconds.
\<close>

theorem messages_page_shown:
  assumes "broker_inv n (ui_handler ui)" and "\<not> saslRequired (ui_handler ui)" and "isValidTopicName t"
    and "mget (partitions (ui_handler ui)) (partitionKey t i) = Some p"
    and "rq_Method r = ''GET''" and "rq_Path r = topicsPrefix @ t @ ''/messages''"
    and "valueOf (rq_Query r) ''partition'' = show_int (sint i)" and "valueOf (rq_Query r) ''offset'' = show_nat (unat off)"
  shows "\<exists>page_text. bodyText j (fst (ServeHTTP e r ui)) = Some page_text \<and>
      shownPage page_text = Some (toDouble (uint (LEO p)), map shownRecord (take (nat (limitParam r))
        (if off < BaseOffset p then [] else filter (\<lambda>x. off \<le> Offset x) (log_records p))))
    \<and> 1 \<le> limitParam r \<and> limitParam r \<le> 200
    \<and> (\<forall>rec \<in> set (log_records p).
         (uint (LEO p) \<le> 2 ^ 53 \<longrightarrow> sm_offset (shownRecord rec) = uint (Offset rec)) \<and>
         sm_size (shownRecord rec) = int (length (goString (Value rec))) \<and>
         \<bar>sm_timestamp (shownRecord rec) - sint (Timestamp rec)\<bar> \<le> 512)"
proof -
  let ?recs = "take (nat (limitParam r)) (if off < BaseOffset p then [] else filter (\<lambda>x. off \<le> Offset x) (log_records p))"
  have "log_inv p" using assms(1,4) unfolding broker_inv_def logs_inv_def by blast
  then have ok: "\<forall>rec \<in> set (log_records p). record_ok rec" using log_inv_records_ok by (simp add: list_all_iff)
  have len: "length (goString (Value rec)) < 2 ^ 53" if "record_ok rec" for rec
    using that by (simp add: record_ok_def optLen_def goString_def split: option.splits)
  have sub: "set ?recs \<subseteq> set (log_records p)" by (auto dest: in_set_takeD)
  have "\<forall>rec \<in> set ?recs. length (goString (Value rec)) < 2 ^ 63"
  proof
    fix rec
    assume "rec \<in> set ?recs"
    with sub have "rec \<in> set (log_records p)" by (rule subsetD)
    with ok have "record_ok rec" by (rule bspec)
    from len [OF this] show "length (goString (Value rec)) < 2 ^ 63" by (rule less_trans) simp
  qed
  note shown = shownPage_records [OF this]
  have "sm_offset (shownRecord rec) = uint (Offset rec)" if "rec \<in> set (log_records p)" "uint (LEO p) \<le> 2 ^ 53" for rec
  proof -
    have "uint (Offset rec) < uint (LEO p)" using below_LEO [OF \<open>log_inv p\<close> that(1)] by (simp add: word_less_def)
    with that(2) show ?thesis by (simp add: shownRecord_def toDouble_exact)
  qed
  moreover have "sm_size (shownRecord rec) = int (length (goString (Value rec)))" if "rec \<in> set (log_records p)" for rec
    using len [of rec] ok that by (simp add: shownRecord_def toDouble_exact)
  moreover have "\<bar>sm_timestamp (shownRecord rec) - sint (Timestamp rec)\<bar> \<le> 512" for rec
    using sint_greater_eq [of "Timestamp rec"] sint_less [of "Timestamp rec"]
    by (simp add: shownRecord_def toDouble_close)
  moreover note ui_messages_page [OF assms, of e] shown
  ultimately show ?thesis by (simp add: bodyText_def)
qed

text \<open>Some environment for the texts of floating point numbers and times.\<close>

definition plain_json :: json_env where
  "plain_json = \<lparr>j_rate = (\<lambda>_. ''0.5''), j_megabytes = (\<lambda>_. ''1.25e+02''), j_time = (\<lambda>_. ''1970-01-01T00:00:00Z'')\<rparr>"

lemma plain_json_ok: "json_env_ok plain_json"
  by (simp add: json_env_ok_def plain_json_def) code_simp

theorem messages_page_shown_witness:
  "\<exists>ack h p page_text. handleProduce calm_env two_samples (Some NewSASLSession) fresh_broker = (Inr ack, h) \<and>
    bodyText plain_json (fst (ServeHTTP calm_ui
      (get_request (topicsPrefix @ ''t/messages'') [(''partition'', [''0'']), (''offset'', [''0''])] []) (dashboard h))) =
      Some page_text \<and>
    shownPage page_text = Some (toDouble (uint (LEO p)), map shownRecord (take 50
      (if 0 < BaseOffset p then [] else filter (\<lambda>x. 0 \<le> Offset x) (log_records p))))"
proof -
  obtain ack h p where h: "handleProduce calm_env two_samples (Some NewSASLSession) fresh_broker = (Inr ack, h)"
    "same_setup fresh_broker h" "broker_inv 0 h" "mget (partitions h) (partitionKey ''t'' 0) = Some p"
    by (rule filled_broker) blast
  let ?r = "get_request (topicsPrefix @ ''t/messages'') [(''partition'', [''0'']), (''offset'', [''0''])] []"
  have sasl: "\<not> saslRequired h" using h(2) by (simp add: same_setup_def fresh_broker_def NewHandler_def)
  have zero: "show_nat 0 = ''0''" by code_simp
  have q: "valueOf (rq_Query ?r) ''partition'' = show_int (sint (0 :: i32))" "valueOf (rq_Query ?r) ''offset'' = show_nat (unat (0 :: u64))"
    by (simp_all add: valueOf_def show_int_def zero)
  have lim: "limitParam ?r = 50" by (simp add: limitParam_def valueOf_def)
  have inv: "broker_inv 0 (ui_handler (dashboard h))" "\<not> saslRequired (ui_handler (dashboard h))"
    "mget (partitions (ui_handler (dashboard h))) (partitionKey ''t'' 0) = Some p"
    using h sasl by simp_all
  from messages_page_shown [OF inv(1,2) topic_t inv(3) _ _ q, of plain_json calm_ui] lim
  obtain page_text where "bodyText plain_json (fst (ServeHTTP calm_ui ?r (dashboard h))) = Some page_text"
    "shownPage page_text = Some (toDouble (uint (LEO p)), map shownRecord (take 50
      (if 0 < BaseOffset p then [] else filter (\<lambda>x. 0 \<le> Offset x) (log_records p))))"
    by auto
  with h(1) show ?thesis by blast
qed


section \<open>The telemetry stream\<close>

text \<open>
  A tick of the stream loop reaches every connected dashboard as one WebSocket frame whose
  payload is JSON: the metrics, topics and groups of that moment.
\<close>

theorem tick_shown:
  assumes "visits order" and "gomap_ok (ws_conns (wsHub ui))" and "mget (ws_conns (wsHub ui)) s \<noteq> None" and "ok s"
    and "json_env_ok j" and "length (the (tickData j now tick)) < 2 ^ 63"
    and "tick = (GetSnapshot (u_runtime e) (collector ui), topicsOf e ui, groupsOf e ui)"
  shows "\<exists>stream data. ws_out (wsHub (wsStreamTick (tickData j now) e order ok ui)) s = ws_out (wsHub ui) s @ stream \<and>
    readFrames stream = Some [data] \<and> readJson (string_of data) = Some (validJson (tickJson j now tick))"
proof -
  obtain data where data: "tickData j now tick = Some data" by (simp add: tickData_def)
  have "ClientCount (wsHub ui) \<noteq> 0" using assms(3) by (auto simp: ClientCount_def)
  then have "wsHub (wsStreamTick (tickData j now) e order ok ui) = Broadcast order ok data (wsHub ui)"
    using data assms(7) by (simp add: wsStreamTick_def)
  with Broadcast_effect(1) [OF assms(1,2), of ok data s] assms(3,4)
  have "ws_out (wsHub (wsStreamTick (tickData j now) e order ok ui)) s = ws_out (wsHub ui) s @ encodeTextFrame data" by simp
  moreover have "readFrames (encodeTextFrame data) = Some [data]"
    using readFrames_encode [of "[data]"] assms(6) data by simp
  ultimately show ?thesis using tickData_reads [OF assms(5) data] by blast
qed

theorem tick_shown_witness:
  "\<exists>ui stream data. mget (ws_conns (wsHub ui)) 0 \<noteq> None \<and>
    ws_out (wsHub (wsStreamTick (tickData plain_json 5) calm_ui (\<lambda>ks. ks) (\<lambda>_. True) ui)) 0 = ws_out (wsHub ui) 0 @ stream \<and>
    readFrames stream = Some [data] \<and> Option.bind (readJson (string_of data)) (field ''timestamp'') = Some (JNum ''5'')"
proof -
  let ?ui = "(dashboard fresh_broker)\<lparr>wsHub := NewWSHub\<lparr>ws_conns := [(0, ())]\<rparr>\<rparr>"
  have empty: "topicsOf calm_ui ?ui = []" "groupsOf calm_ui ?ui = []"
    by (simp_all add: topicsOf_def groupsOf_def fresh_broker_def NewHandler_def calm_ui_def GetTopicsSummary_def GetPartitions_def
        GetGroupsSummary_def GetAllGroups_def NewGroupCoordinator_def)
  let ?tick = "(GetSnapshot (u_runtime calm_ui) (collector ?ui), topicsOf calm_ui ?ui, groupsOf calm_ui ?ui)"
  have five: "show_int 5 = ''5''" by code_simp
  have sorted: "field ''timestamp'' (validJson (tickJson plain_json 5 t)) = Some (JNum ''5'')" for t
    by (cases t) (simp add: tickJson_def jmap_def toValid_ascii_id jint_def five)
  have snap: "GetSnapshot (u_runtime calm_ui) (collector ?ui) =
      \<lparr>UptimeSeconds = 0, TotalMsgIn = 0, TotalBytesIn = 0, TotalBytesOut = 0, MsgInRate = None, BytesInRate = None,
       BytesOutRate = None, Goroutines = 1, AllocHeap = 0, SysMem = 0, NumGC = 0\<rparr>"
    by (simp add: GetSnapshot_def calm_ui_def dashboard_def NewTelemetryCollector_def)
  have "length (the (tickData plain_json 5 ?tick)) < 500"
    unfolding empty snap by code_simp
  then have len: "length (the (tickData plain_json 5 ?tick)) < 2 ^ 63" by simp
  have hub: "gomap_ok (ws_conns (wsHub ?ui))" "mget (ws_conns (wsHub ?ui)) 0 \<noteq> None" by (simp_all add: NewWSHub_def gomap_ok_def)
  obtain stream data where
    "ws_out (wsHub (wsStreamTick (tickData plain_json 5) calm_ui (\<lambda>ks. ks) (\<lambda>_. True) ?ui)) 0 = ws_out (wsHub ?ui) 0 @ stream"
    "readFrames stream = Some [data]" "readJson (string_of data) = Some (validJson (tickJson plain_json 5 ?tick))"
    using tick_shown [OF visits_id hub(1,2) _ plain_json_ok len refl, of "\<lambda>_. True"] by blast
  moreover from this(3) sorted [of ?tick] have "Option.bind (readJson (string_of data)) (field ''timestamp'') = Some (JNum ''5'')"
    by (simp only: bind.bind_lunit)
  ultimately show ?thesis using hub(2) by blast
qed

end
