(* ===== verification/Startup.thy ===== *)
theory Startup
  imports Go_Text Ui_Server
begin

text \<open>
  \<open>src/cmd/broker/main.go\<close> from the parsed flags to the running parts, and
  \<open>src/internal/config/config.go\<close>. \<open>log.Fatalf\<close> ends the program with a message. The random
  salts of the accounts, the text of \<open>%q\<close>, the cryptographic library behind TLS and the disk are
  arguments. The banner is left out; \<open>Process_Life\<close> goes on from here to the end of the process.
\<close>

section \<open>The program\<close>

record Config =
  cfg_DataDir :: string
  cfg_Port :: string
  cfg_MaxSegmentBytes :: int
  cfg_IndexIntervalBytes :: int

definition DefaultConfig :: Config where
  "DefaultConfig = \<lparr>cfg_DataDir = ''./data'', cfg_Port = ''9092'', cfg_MaxSegmentBytes = 10 * 1024 * 1024,
     cfg_IndexIntervalBytes = 4096\<rparr>"

record flags =
  f_port :: string
  f_dataDir :: string
  f_nodeId :: int
  f_host :: string
  f_uiPort :: int
  f_retentionHours :: int
  f_retentionBytes :: int
  f_cleanerIntervalSec :: int
  f_enableCompaction :: bool
  f_tls :: bool
  f_tlsCert :: string
  f_tlsKey :: string
  f_saslEnabled :: bool
  f_saslUsers :: string
  f_aclRules :: string
  f_maxPartitions :: int
  f_maxConsumerGroups :: int

definition defaultFlags :: flags where
  "defaultFlags = \<lparr>f_port = ''9092'', f_dataDir = ''./data'', f_nodeId = 1, f_host = ''127.0.0.1'', f_uiPort = 8080,
     f_retentionHours = 168, f_retentionBytes = -1, f_cleanerIntervalSec = 60, f_enableCompaction = False, f_tls = False, f_tlsCert = '''', f_tlsKey = '''',
     f_saslEnabled = False, f_saslUsers = '''', f_aclRules = '''', f_maxPartitions = 10000, f_maxConsumerGroups = 10000\<rparr>"

record start_env =
  s_salt :: "nat \<Rightarrow> random"
  s_quote :: "string \<Rightarrow> string"
  s_crypto :: crypto
  s_disk :: "string \<Rightarrow> dir"
  s_tlsNow1 :: int
  s_tlsNow2 :: int
  s_now1 :: int
  s_now2 :: int

fun addUsers :: "start_env \<Rightarrow> string list \<Rightarrow> Handler \<times> nat \<Rightarrow> string + Handler \<times> nat" where
  "addUsers e [] (h, saslUserCount) = Inr (h, saslUserCount)"
| "addUsers e (raw # pairs) (h, saslUserCount) =
     (let pair = TrimSpace raw
      in if pair = '''' then addUsers e pairs (h, saslUserCount)
         else let parts = SplitN2 CHR '':'' pair
              in if length parts \<noteq> 2 \<or> parts ! 0 = '''' \<or> parts ! 1 = ''''
                 then Inl (''Invalid -sasl-users entry '' @ s_quote e pair @ '': expected format user:password'')
                 else case AddSASLUser (s_salt e saslUserCount) h (parts ! 0) (parts ! 1) of
                        (h', Some err) \<Rightarrow>
                          Inl (''Failed to register SASL user '' @ s_quote e (parts ! 0) @ '': '' @ errorText err)
                      | (h', None) \<Rightarrow> addUsers e pairs (h', saslUserCount + 1))"

fun addRules :: "start_env \<Rightarrow> string list \<Rightarrow> Handler \<times> nat \<Rightarrow> string + Handler \<times> nat" where
  "addRules e [] (h, aclRuleCount) = Inr (h, aclRuleCount)"
| "addRules e (raw # entries) (h, aclRuleCount) =
     (let entry = TrimSpace raw
      in if entry = '''' then addRules e entries (h, aclRuleCount)
         else let fields = splitOn CHR ''|'' entry
              in if length fields \<noteq> 5
                 then Inl (''Invalid -acl-rules entry '' @ s_quote e entry @
                        '': expected principal|resourceType|resourceName|operation|permission'')
                 else addRules e entries
                        (AddACLRule h \<lparr>Principal = fields ! 0, ResourceType = fields ! 1, ResourceName = fields ! 2,
                           Operation = fields ! 3, PermissionType = fields ! 4\<rparr>, aclRuleCount + 1))"

text \<open>\<open>time.Duration\<close> is a 64-bit count of nanoseconds; products wrap.\<close>

definition duration :: "int \<Rightarrow> int \<Rightarrow> int" where
  "duration n unit_ns = sint (of_int n * of_int unit_ns :: i64)"

definition cleanerConfig :: "flags \<Rightarrow> CleanerConfig" where
  "cleanerConfig f =
     \<lparr>RetentionMs = (if 0 < f_retentionHours f then duration (f_retentionHours f) (3600 * nsPerSecond) else 0),
      RetentionBytes = f_retentionBytes f, CleanerInterval = duration (f_cleanerIntervalSec f) nsPerSecond,
      CompactionEnabled = f_enableCompaction f\<rparr>"

record broker_process =
  bp_server :: TCPServer
  bp_ui :: "UIServer option"
  bp_cleaner :: CleanerConfig
  bp_users :: nat
  bp_rules :: nat

text \<open>The caps on partitions and groups apply if positive.\<close>

definition limited :: "flags \<Rightarrow> Handler \<Rightarrow> Handler" where
  "limited f h =
     (let h1 = (if 0 < f_maxPartitions f then SetMaxPartitions h (f_maxPartitions f) else h)
      in if 0 < f_maxConsumerGroups f
         then h1\<lparr>groupCoordinator := SetMaxGroups (groupCoordinator h1) (f_maxConsumerGroups f)\<rparr>
         else h1)"

definition registerUsers :: "start_env \<Rightarrow> string \<Rightarrow> Handler \<Rightarrow> string + Handler \<times> nat" where
  "registerUsers e flag h = (if flag \<noteq> '''' then addUsers e (splitOn CHR '','' flag) (h, 0) else Inr (h, 0))"

definition registerRules :: "start_env \<Rightarrow> string \<Rightarrow> Handler \<Rightarrow> string + Handler \<times> nat" where
  "registerRules e flag h = (if flag \<noteq> '''' then addRules e (splitOn CHR '','' flag) (h, 0) else Inr (h, 0))"

definition listenerTLS :: "start_env \<Rightarrow> flags \<Rightarrow> TCPServer \<Rightarrow> string + TCPServer" where
  "listenerTLS e f srv =
     (case CreateTLSConfig (s_crypto e) (s_tlsNow1 e) (s_tlsNow2 e) (f_tlsCert f) (f_tlsKey f) of
        Inl err \<Rightarrow> Inl (''Failed to initialize TLS config: '' @ errorText err)
      | Inr cfg \<Rightarrow> Inr (SetTLSConfig srv cfg))"

text \<open>The listener, the dashboard and the cleaner around the configured handler.\<close>

definition assemble :: "start_env \<Rightarrow> flags \<Rightarrow> string \<Rightarrow> Handler \<Rightarrow> nat \<Rightarrow> nat \<Rightarrow> string + broker_process" where
  "assemble e f prt h saslUserCount aclRuleCount =
     (let srv = NewTCPServer ('':'' @ prt) (if 0 < f_uiPort f then SetTelemetryListener h else h)
      in case (if f_tls f then listenerTLS e f srv else Inr srv) of
           Inl fatal \<Rightarrow> Inl fatal
         | Inr srv' \<Rightarrow>
             Inr \<lparr>bp_server = srv',
                  bp_ui = (if 0 < f_uiPort f then Some (NewServer (s_now1 e) (s_now2 e) h (f_uiPort f)) else None),
                  bp_cleaner = NewCleanerWorker (cleanerConfig f), bp_users = saslUserCount, bp_rules = aclRuleCount\<rparr>)"

definition main :: "start_env \<Rightarrow> flags \<Rightarrow> string + broker_process" where
  "main e f =
     (let cfg = DefaultConfig\<lparr>cfg_Port := f_port f, cfg_DataDir := f_dataDir f\<rparr>
      in case Atoi (cfg_Port cfg) of
           None \<Rightarrow> Inl (''Invalid port number: '' @ cfg_Port cfg)
         | Some portInt \<Rightarrow>
             (case registerUsers e (f_saslUsers f)
                     (limited f (NewHandler (s_disk e) (cfg_DataDir cfg) (of_int (f_nodeId f)) (f_host f) (of_int portInt))) of
                Inl fatal \<Rightarrow> Inl fatal
              | Inr (h1, saslUserCount) \<Rightarrow>
                  (case registerRules e (f_aclRules f) (SetSASLRequired h1 (f_saslEnabled f)) of
                     Inl fatal \<Rightarrow> Inl fatal
                   | Inr (h3, aclRuleCount) \<Rightarrow> assemble e f (cfg_Port cfg) h3 saslUserCount aclRuleCount)))"


section \<open>What the flags mean\<close>

text \<open>The entries of a comma-separated flag, without the blank ones.\<close>

definition entriesOf :: "string \<Rightarrow> string list" where
  "entriesOf s = filter (\<lambda>x. x \<noteq> '''') (map TrimSpace (splitOn CHR '','' s))"

definition userOf :: "string \<Rightarrow> string \<times> string" where
  "userOf pair = (SplitN2 CHR '':'' pair ! 0, SplitN2 CHR '':'' pair ! 1)"

definition ruleOf :: "string \<Rightarrow> ACLRule" where
  "ruleOf entry =
     (let fields = splitOn CHR ''|'' entry
      in \<lparr>Principal = fields ! 0, ResourceType = fields ! 1, ResourceName = fields ! 2, Operation = fields ! 3,
          PermissionType = fields ! 4\<rparr>)"

text \<open>Accounts after registering the users of a list: the last entry of a name counts.\<close>

definition accounts :: "(string \<times> string) list \<Rightarrow> SASLAuthenticator \<Rightarrow> SASLAuthenticator \<Rightarrow> bool" where
  "accounts us sa sa' \<longleftrightarrow>
     (\<forall>u. case map_of (rev us) u of
            None \<Rightarrow> mget (credentials sa') u = mget (credentials sa) u
          | Some pw \<Rightarrow> knows_password sa' u pw)"

lemma accounts_Cons:
  assumes "accounts us sa1 sa2" and "sa1 = fst (AddUser (Inr salt) sa u pw)"
  shows "accounts ((u, pw) # us) sa sa2"
  unfolding accounts_def
proof
  fix v
  have one: "knows_password sa1 u pw" using AddUser_knows assms(2) by metis
  show "case map_of (rev ((u, pw) # us)) v of None \<Rightarrow> mget (credentials sa2) v = mget (credentials sa) v
        | Some p \<Rightarrow> knows_password sa2 v p"
  proof (cases "map_of (rev us) v")
    case None
    then have same: "mget (credentials sa2) v = mget (credentials sa1) v"
      using assms(1) unfolding accounts_def by (metis option.simps(4))
    show ?thesis
    proof (cases "v = u")
      case True
      with one same None show ?thesis by (simp add: map_add_def knows_password_def)
    next
      case False
      with same None AddUser_other [OF False, of "Inr salt" sa pw] assms(2) show ?thesis by (simp add: map_add_def)
    qed
  next
    case (Some p)
    then have "knows_password sa2 v p" using assms(1) unfolding accounts_def by (metis option.simps(5))
    with Some show ?thesis by (simp add: map_add_def)
  qed
qed

lemma addUsers_spec:
  assumes "addUsers e raws (h, n) = Inr (h', n')"
  shows "h' = h\<lparr>saslAuth := saslAuth h'\<rparr> \<and>
    accounts (map userOf (filter (\<lambda>x. x \<noteq> '''') (map TrimSpace raws))) (saslAuth h) (saslAuth h') \<and>
    n' = n + length (filter (\<lambda>x. x \<noteq> '''') (map TrimSpace raws))"
  using assms
proof (induction raws arbitrary: h n)
  case Nil
  then show ?case by (simp add: accounts_def)
next
  case (Cons raw raws)
  let ?p = "TrimSpace raw"
  show ?case
  proof (cases "?p = ''''")
    case True
    with Cons show ?thesis by simp
  next
    case False
    let ?u = "SplitN2 CHR '':'' ?p ! 0" and ?w = "SplitN2 CHR '':'' ?p ! 1"
    obtain sa err where au: "AddUser (s_salt e n) (saslAuth h) ?u ?w = (sa, err)" by (metis prod.exhaust)
    from Cons.prems False au have ok: "err = None" and rest: "addUsers e raws (h\<lparr>saslAuth := sa\<rparr>, n + 1) = Inr (h', n')"
      by (simp_all add: AddSASLUser_def Let_def split: if_splits option.splits)
    obtain salt where salt: "s_salt e n = Inr salt" using au ok by (cases "s_salt e n") (auto simp: AddUser_def)
    note ih = Cons.IH [OF rest]
    have "accounts (userOf ?p # map userOf (filter (\<lambda>x. x \<noteq> '''') (map TrimSpace raws))) (saslAuth h) (saslAuth h')"
      unfolding userOf_def [of ?p] using ih au salt by (intro accounts_Cons [of _ sa _ salt]) simp_all
    with ih False show ?thesis by simp
  qed
qed

lemma addRules_spec:
  assumes "addRules e raws (h, n) = Inr (h', n')"
  shows "h' = h\<lparr>aclManager := aclManager h'\<rparr> \<and>
    rules (aclManager h') = rules (aclManager h) @ map ruleOf (filter (\<lambda>x. x \<noteq> '''') (map TrimSpace raws)) \<and>
    n' = n + length (filter (\<lambda>x. x \<noteq> '''') (map TrimSpace raws))"
  using assms
proof (induction raws arbitrary: h n)
  case (Cons raw raws)
  show ?case
  proof (cases "TrimSpace raw = ''''")
    case False
    with Cons.prems have "addRules e raws (AddACLRule h (ruleOf (TrimSpace raw)), n + 1) = Inr (h', n')"
      by (simp add: Let_def ruleOf_def split: if_splits)
    from Cons.IH [OF this] False show ?thesis by (simp add: AddACLRule_def AddRule_def)
  qed (use Cons in simp)
qed simp

section \<open>A broker that has started\<close>

lemma limited_fields [simp]:
  "saslAuth (limited f h) = saslAuth h" "aclManager (limited f h) = aclManager h" "partitions (limited f h) = partitions h"
  "h_disk (limited f h) = h_disk h" "dataDir (limited f h) = dataDir h" "offsetManager (limited f h) = offsetManager h"
  by (simp_all add: limited_def SetMaxPartitions_def Let_def)

lemma limited_groups: "gc_reach (groupCoordinator h) \<Longrightarrow> gc_reach (groupCoordinator (limited f h))"
  by (auto simp: limited_def SetMaxPartitions_def Let_def intro: gc_reach.limit)

lemma registerUsers_spec:
  assumes "registerUsers e flag h = Inr (h', n)"
  shows "h' = h\<lparr>saslAuth := saslAuth h'\<rparr> \<and> accounts (map userOf (entriesOf flag)) (saslAuth h) (saslAuth h') \<and>
    n = length (entriesOf flag)"
proof (cases "flag = ''''")
  case True
  with assms show ?thesis by (simp add: registerUsers_def entriesOf_def accounts_def TrimSpace_solid)
next
  case False
  with assms addUsers_spec [of e "splitOn CHR '','' flag" h 0 h' n] show ?thesis
    by (simp add: registerUsers_def entriesOf_def)
qed

lemma registerRules_spec:
  assumes "registerRules e flag h = Inr (h', n)"
  shows "h' = h\<lparr>aclManager := aclManager h'\<rparr> \<and> rules (aclManager h') = rules (aclManager h) @ map ruleOf (entriesOf flag) \<and>
    n = length (entriesOf flag)"
proof (cases "flag = ''''")
  case True
  with assms show ?thesis by (simp add: registerRules_def entriesOf_def TrimSpace_solid)
next
  case False
  with assms addRules_spec [of e "splitOn CHR '','' flag" h 0 h' n] show ?thesis
    by (simp add: registerRules_def entriesOf_def)
qed

text \<open>What a run of \<open>main\<close> that does not stop puts together.\<close>

definition started :: "start_env \<Rightarrow> flags \<Rightarrow> Handler \<Rightarrow> bool" where
  "started e f h \<longleftrightarrow>
     (\<exists>prt sa am tel. h = (limited f (NewHandler (s_disk e) (f_dataDir f) (of_int (f_nodeId f)) (f_host f) prt))
          \<lparr>saslAuth := sa, saslRequired := f_saslEnabled f, aclManager := am, telemetry := tel\<rparr> \<and>
        accounts (map userOf (entriesOf (f_saslUsers f))) NewSASLAuthenticator sa \<and>
        rules am = map ruleOf (entriesOf (f_aclRules f)))"

lemma main_started:
  assumes "main e f = Inr bp"
  shows "started e f (srv_handler (bp_server bp)) \<and> conns (bp_server bp) = [] \<and> addr (bp_server bp) = '':'' @ f_port f \<and>
    bp_users bp = length (entriesOf (f_saslUsers f)) \<and> bp_rules bp = length (entriesOf (f_aclRules f)) \<and>
    (\<forall>ui. bp_ui bp = Some ui \<longrightarrow> ui_handler ui = srv_handler (bp_server bp))"
proof -
  from assms obtain prt h1 n1 h3 n3 where
    1: "registerUsers e (f_saslUsers f)
          (limited f (NewHandler (s_disk e) (f_dataDir f) (of_int (f_nodeId f)) (f_host f) prt)) = Inr (h1, n1)"
    and 3: "registerRules e (f_aclRules f) (SetSASLRequired h1 (f_saslEnabled f)) = Inr (h3, n3)"
    and bp: "assemble e f (f_port f) h3 n1 n3 = Inr bp"
    by (auto simp: main_def Let_def split: option.splits sum.splits)
  note u = registerUsers_spec [OF 1] and r = registerRules_spec [OF 3]
  obtain sa am where h1: "h1 = (limited f (NewHandler (s_disk e) (f_dataDir f) (of_int (f_nodeId f)) (f_host f) prt))\<lparr>saslAuth := sa\<rparr>"
    and h3: "h3 = (SetSASLRequired h1 (f_saslEnabled f))\<lparr>aclManager := am\<rparr>"
    using u r by blast
  let ?tel = "telemetry (srv_handler (bp_server bp))"
  have srv: "srv_handler (bp_server bp) = h3\<lparr>telemetry := ?tel\<rparr>"
    using bp by (auto simp: assemble_def listenerTLS_def Let_def NewTCPServer_def SetTLSConfig_def SetTelemetryListener_def split: if_splits sum.splits)
  have "started e f (h3\<lparr>telemetry := ?tel\<rparr>)"
    unfolding started_def using u r h1 h3
    by (intro exI [of _ prt] exI [of _ sa] exI [of _ am] exI [of _ ?tel])
      (simp add: SetSASLRequired_def NewHandler_def NewACLManager_def)
  with srv have "started e f (srv_handler (bp_server bp))" by simp
  with bp u r show ?thesis
    by (auto simp: assemble_def listenerTLS_def Let_def NewTCPServer_def SetTLSConfig_def NewServer_def split: if_splits sum.splits)
qed

lemma main_tls:
  assumes "main e f = Inr bp"
  shows "tlsConfig (bp_server bp) = (if f_tls f
    then (case CreateTLSConfig (s_crypto e) (s_tlsNow1 e) (s_tlsNow2 e) (f_tlsCert f) (f_tlsKey f) of Inr cfg \<Rightarrow> Some cfg | Inl _ \<Rightarrow> None)
    else None)"
  using assms
  by (auto simp: main_def assemble_def listenerTLS_def Let_def NewTCPServer_def SetTLSConfig_def
      split: option.splits sum.splits if_splits)

lemma started_inv:
  assumes "started e f h" and "\<And>path. dir_ok n (s_disk e path)"
  shows "broker_inv n h"
proof -
  from assms(1) obtain prt sa am tel where
    h: "h = (limited f (NewHandler (s_disk e) (f_dataDir f) (of_int (f_nodeId f)) (f_host f) prt))
      \<lparr>saslAuth := sa, saslRequired := f_saslEnabled f, aclManager := am, telemetry := tel\<rparr>"
    unfolding started_def by blast
  have "gc_reach (groupCoordinator (limited f (NewHandler (s_disk e) (f_dataDir f) (of_int (f_nodeId f)) (f_host f) prt)))"
    by (intro limited_groups) (simp add: NewHandler_def gc_reach.intros(1))
  then show ?thesis
    using assms(2) unfolding h broker_inv_def logs_inv_def
    by (simp add: NewHandler_def om_inv_def NewOffsetManager_def)
qed


section \<open>Flags written and read\<close>

fun commaJoin :: "string list \<Rightarrow> string" where
  "commaJoin [] = ''''"
| "commaJoin [x] = x"
| "commaJoin (x # y # rest) = x @ '','' @ commaJoin (y # rest)"

lemma splitOn_commaJoin:
  assumes "list_all (\<lambda>x. CHR '','' \<notin> set x) xs" and "xs \<noteq> []"
  shows "splitOn CHR '','' (commaJoin xs) = xs"
  using assms
  by (induction xs rule: commaJoin.induct) (simp_all add: splitOn_plain splitOn_join)

text \<open>An entry that the flag's reader leaves as it is.\<close>

definition clean_entry :: "string \<Rightarrow> bool" where
  "clean_entry x \<longleftrightarrow> x \<noteq> '''' \<and> CHR '','' \<notin> set x \<and> solid (hd x) \<and> solid (last x)"

lemma entriesOf_commaJoin:
  assumes "list_all clean_entry xs"
  shows "entriesOf (commaJoin xs) = xs"
proof (cases "xs = []")
  case True
  then show ?thesis by (simp add: entriesOf_def TrimSpace_solid)
next
  case False
  have "list_all (\<lambda>x. CHR '','' \<notin> set x) xs" using assms by (auto simp: list_all_iff clean_entry_def)
  moreover have "map TrimSpace xs = xs"
    using assms by (intro map_idI TrimSpace_solid) (auto simp: list_all_iff clean_entry_def)
  moreover have "filter (\<lambda>x. x \<noteq> '''') xs = xs"
    using assms by (intro filter_True) (auto simp: list_all_iff clean_entry_def)
  ultimately show ?thesis using False by (simp add: entriesOf_def splitOn_commaJoin)
qed

definition userText :: "string \<times> string \<Rightarrow> string" where
  "userText u = fst u @ '':'' @ snd u"

definition user_ok :: "string \<times> string \<Rightarrow> bool" where
  "user_ok u \<longleftrightarrow> clean_entry (userText u) \<and> fst u \<noteq> '''' \<and> snd u \<noteq> '''' \<and> CHR '':'' \<notin> set (fst u)"

definition ruleText :: "ACLRule \<Rightarrow> string" where
  "ruleText r = Principal r @ ''|'' @ ResourceType r @ ''|'' @ ResourceName r @ ''|'' @ Operation r @ ''|'' @ PermissionType r"

definition rule_ok :: "ACLRule \<Rightarrow> bool" where
  "rule_ok r \<longleftrightarrow> clean_entry (ruleText r) \<and>
     list_all (\<lambda>x. CHR ''|'' \<notin> set x) [Principal r, ResourceType r, ResourceName r, Operation r, PermissionType r]"

lemma userOf_text: "user_ok u \<Longrightarrow> SplitN2 CHR '':'' (userText u) = [fst u, snd u] \<and> userOf (userText u) = u"
  using SplitN2_sep [of "CHR '':''" "fst u" "snd u"] by (simp add: user_ok_def userText_def userOf_def)

lemma ruleOf_text:
  assumes "rule_ok r"
  shows "length (splitOn CHR ''|'' (ruleText r)) = 5 \<and> ruleOf (ruleText r) = r"
proof -
  have "splitOn CHR ''|'' (ruleText r) = [Principal r, ResourceType r, ResourceName r, Operation r, PermissionType r]"
    using assms by (simp add: rule_ok_def ruleText_def splitOn_join splitOn_plain)
  then show ?thesis by (simp add: ruleOf_def)
qed

lemma addUsers_runs:
  assumes "list_all user_ok us" and "\<And>k. \<exists>salt. s_salt e k = Inr salt"
  shows "\<exists>res. addUsers e (map userText us) (h, n) = Inr res"
  using assms(1)
proof (induction us arbitrary: h n)
  case (Cons u us)
  obtain salt where salt: "s_salt e n = Inr salt" using assms(2) by blast
  have trim: "TrimSpace (userText u) = userText u" "userText u \<noteq> ''''"
    using Cons.prems by (auto simp: user_ok_def clean_entry_def intro: TrimSpace_solid)
  have "\<exists>h'. AddSASLUser (s_salt e n) h (fst u) (snd u) = (h', None)" by (simp add: AddSASLUser_def AddUser_def salt)
  then show ?case
    using Cons userOf_text [of u] trim by (auto simp: Let_def user_ok_def)
qed simp

lemma addRules_runs:
  assumes "list_all rule_ok rs"
  shows "\<exists>res. addRules e (map ruleText rs) (h, n) = Inr res"
  using assms
proof (induction rs arbitrary: h n)
  case (Cons r rs)
  have "TrimSpace (ruleText r) = ruleText r" "ruleText r \<noteq> ''''"
    using Cons.prems by (auto simp: rule_ok_def clean_entry_def intro: TrimSpace_solid)
  with Cons ruleOf_text [of r] show ?case by (simp add: Let_def)
qed simp

lemma flag_split:
  assumes "list_all clean_entry xs" and "commaJoin xs \<noteq> ''''"
  shows "splitOn CHR '','' (commaJoin xs) = xs"
  using assms by (intro splitOn_commaJoin) (auto simp: list_all_iff clean_entry_def)

lemma registerUsers_runs:
  assumes "list_all user_ok us" and "\<And>k. \<exists>salt. s_salt e k = Inr salt"
  shows "\<exists>h' n. registerUsers e (commaJoin (map userText us)) h = Inr (h', n)"
proof (cases "commaJoin (map userText us) = ''''")
  case False
  have "list_all clean_entry (map userText us)" using assms(1) by (simp add: list_all_iff user_ok_def)
  from addUsers_runs [OF assms, of h 0] flag_split [OF this False] False show ?thesis by (auto simp: registerUsers_def)
qed (simp add: registerUsers_def)

lemma registerRules_runs:
  assumes "list_all rule_ok rs"
  shows "\<exists>h' n. registerRules e (commaJoin (map ruleText rs)) h = Inr (h', n)"
proof (cases "commaJoin (map ruleText rs) = ''''")
  case False
  have "list_all clean_entry (map ruleText rs)" using assms(1) by (simp add: list_all_iff rule_ok_def)
  from addRules_runs [OF assms, of e h 0] flag_split [OF this False] False show ?thesis by (auto simp: registerRules_def)
qed (simp add: registerRules_def)

lemma main_runs:
  assumes "Atoi (f_port f) = Some prt" and "list_all user_ok us" and "list_all rule_ok rs"
    and "f_saslUsers f = commaJoin (map userText us)" and "f_aclRules f = commaJoin (map ruleText rs)"
    and "\<And>k. \<exists>salt. s_salt e k = Inr salt"
    and "f_tls f \<Longrightarrow> \<exists>cfg. CreateTLSConfig (s_crypto e) (s_tlsNow1 e) (s_tlsNow2 e) (f_tlsCert f) (f_tlsKey f) = Inr cfg"
  shows "\<exists>bp. main e f = Inr bp"
proof -
  let ?h0 = "limited f (NewHandler (s_disk e) (f_dataDir f) (of_int (f_nodeId f)) (f_host f) (of_int prt))"
  obtain h1 n1 where 1: "registerUsers e (f_saslUsers f) ?h0 = Inr (h1, n1)"
    using registerUsers_runs [OF assms(2,6)] unfolding assms(4) by blast
  obtain h3 n3 where 3: "registerRules e (f_aclRules f) (SetSASLRequired h1 (f_saslEnabled f)) = Inr (h3, n3)"
    using registerRules_runs [OF assms(3)] unfolding assms(5) by blast
  obtain bp where "assemble e f (f_port f) h3 n1 n3 = Inr bp"
    using assms(7) by (cases "f_tls f") (auto simp: assemble_def listenerTLS_def Let_def)
  with 1 3 assms(1) show ?thesis by (simp add: main_def Let_def)
qed

end
