(* ===== verification/Process_Life.thy ===== *)
theory Process_Life
  imports Startup
begin

text \<open>
  The broker process from \<open>main\<close>'s last part to its end (\<open>src/cmd/broker/main.go\<close>), with the
  goroutine of the cleaner (\<open>Start\<close>, \<open>Stop\<close> and \<open>loop\<close> of \<open>src/internal/storage/cleaner.go\<close>).
  \<open>main\<close> starts the cleaner, the listener and the dashboard, waits for an error of the
  listener or a signal, and on a signal stops them in this order, waiting for the cleaner's
  goroutine and for the connections. Everything else runs meanwhile, in any order of steps; a
  request, a cleaning cycle of a partition and a dashboard request (\<open>ui_step\<close>) are one step each.
  A failing \<open>Accept\<close> of the operating system is left out.
\<close>

section \<open>The cleaner's goroutine\<close>

text \<open>\<open>stopChan\<close>: the channel is closed; \<open>cw_wg\<close>: the goroutines that run \<open>loop\<close>.\<close>

record CleanerWorker =
  cw_config :: CleanerConfig
  stopChan :: bool
  cw_wg :: nat

definition CleanerWorker_Start :: "CleanerWorker \<Rightarrow> CleanerWorker" where
  "CleanerWorker_Start cw = cw\<lparr>cw_wg := cw_wg cw + 1\<rparr>"

text \<open>\<open>Stop\<close> up to its wait; closing a closed channel panics.\<close>

definition CleanerWorker_Stop :: "CleanerWorker \<Rightarrow> go_error + CleanerWorker" where
  "CleanerWorker_Stop cw = (if stopChan cw then Inl Panic else Inr (cw\<lparr>stopChan := True\<rparr>))"

text \<open>
  One turn of \<open>loop\<close>: \<open>select\<close> takes a ready case, either one if both are. A tick runs a cycle
  of the cleaner; the closed channel ends the goroutine.
\<close>

inductive loop_turn :: "CleanerWorker \<times> TCPServer \<Rightarrow> CleanerWorker \<times> TCPServer \<Rightarrow> bool" where
  tick: "0 < cw_wg cw \<Longrightarrow> clean_step S S' \<Longrightarrow> loop_turn (cw, S) (cw, S')"
| stopped: "0 < cw_wg cw \<Longrightarrow> stopChan cw \<Longrightarrow> loop_turn (cw, S) (cw\<lparr>cw_wg := cw_wg cw - 1\<rparr>, S)"


section \<open>The process\<close>

datatype phase = Waiting | StoppingCleaner | StoppingServer | Exited "string option"

text \<open>
  \<open>pr_listen\<close>: the goroutine that calls \<open>tcpServer.Start\<close> has not yet done so; \<open>pr_ui\<close>: the
  dashboard is served.
\<close>

record process =
  pr_server :: TCPServer
  pr_cleaner :: CleanerWorker
  pr_ui :: bool
  pr_listen :: bool
  serverErrChan :: "go_error option"
  pr_phase :: phase

definition launch :: "broker_process \<Rightarrow> process" where
  "launch bp =
     \<lparr>pr_server = bp_server bp,
      pr_cleaner = CleanerWorker_Start \<lparr>cw_config = bp_cleaner bp, stopChan = False, cw_wg = 0\<rparr>,
      pr_ui = (bp_ui bp \<noteq> None), pr_listen = True, serverErrChan = None, pr_phase = Waiting\<rparr>"

definition alive :: "process \<Rightarrow> bool" where
  "alive P \<longleftrightarrow> \<not> crashed (pr_server P) \<and> (\<forall>c. pr_phase P \<noteq> Exited c)"

definition panics :: "process \<Rightarrow> process" where
  "panics P = P\<lparr>pr_server := (pr_server P)\<lparr>crashed := True\<rparr>\<rparr>"

inductive life_step :: "process \<Rightarrow> process \<Rightarrow> bool" where
  listen: "alive P \<Longrightarrow> pr_listen P \<Longrightarrow> Start bind (pr_server P) = (S, err) \<Longrightarrow>
    life_step P (P\<lparr>pr_server := S, pr_listen := False, serverErrChan := err\<rparr>)"
| conn: "alive P \<Longrightarrow> conn_step (pr_server P) S \<Longrightarrow> life_step P (P\<lparr>pr_server := S\<rparr>)"
| dashboard: "alive P \<Longrightarrow> pr_ui P \<Longrightarrow> ui_step (pr_server P) S \<Longrightarrow> life_step P (P\<lparr>pr_server := S\<rparr>)"
| cleaner: "alive P \<Longrightarrow> loop_turn (pr_cleaner P, pr_server P) (cw, S) \<Longrightarrow>
    life_step P (P\<lparr>pr_cleaner := cw, pr_server := S\<rparr>)"
| fatal: "alive P \<Longrightarrow> pr_phase P = Waiting \<Longrightarrow> serverErrChan P = Some err \<Longrightarrow>
    life_step P (P\<lparr>pr_phase := Exited (Some (''TCP Server error: '' @ errorText err))\<rparr>)"
| signal: "alive P \<Longrightarrow> pr_phase P = Waiting \<Longrightarrow>
    life_step P (case CleanerWorker_Stop (pr_cleaner P) of
                   Inl _ \<Rightarrow> panics P
                 | Inr cw \<Rightarrow> P\<lparr>pr_cleaner := cw, pr_phase := StoppingCleaner\<rparr>)"
| stop: "alive P \<Longrightarrow> pr_phase P = StoppingCleaner \<Longrightarrow> cw_wg (pr_cleaner P) = 0 \<Longrightarrow>
    life_step P (P\<lparr>pr_ui := False, pr_server := fst (Stop (pr_server P)), pr_phase := StoppingServer\<rparr>)"
| goodbye: "alive P \<Longrightarrow> pr_phase P = StoppingServer \<Longrightarrow> conns (pr_server P) = [] \<Longrightarrow>
    life_step P (P\<lparr>pr_phase := Exited None\<rparr>)"


section \<open>Every state of a process\<close>

text \<open>What each phase knows: the channels are closed once, in order, and nothing is served unbound.\<close>

fun phase_inv :: "process \<Rightarrow> phase \<Rightarrow> bool" where
  "phase_inv P Waiting \<longleftrightarrow> \<not> stopChan (pr_cleaner P) \<and> cw_wg (pr_cleaner P) = 1 \<and> \<not> quit (pr_server P)"
| "phase_inv P StoppingCleaner \<longleftrightarrow> stopChan (pr_cleaner P) \<and> \<not> quit (pr_server P)"
| "phase_inv P StoppingServer \<longleftrightarrow> quit (pr_server P) \<and> cw_wg (pr_cleaner P) = 0 \<and> \<not> pr_ui P"
| "phase_inv P (Exited None) \<longleftrightarrow>
     quit (pr_server P) \<and> cw_wg (pr_cleaner P) = 0 \<and> \<not> pr_ui P \<and> conns (pr_server P) = []"
| "phase_inv P (Exited (Some t)) \<longleftrightarrow>
     (\<exists>err. serverErrChan P = Some err \<and> t = ''TCP Server error: '' @ errorText err)"

definition life_inv :: "process \<Rightarrow> bool" where
  "life_inv P \<longleftrightarrow>
     server_inv (pr_server P) \<and> phase_inv P (pr_phase P) \<and>
     (pr_listen P \<longrightarrow> listener (pr_server P) = Unbound) \<and>
     (listener (pr_server P) = Unbound \<longrightarrow> conns (pr_server P) = []) \<and>
     (serverErrChan P \<noteq> None \<longrightarrow> listener (pr_server P) = Unbound \<and> \<not> pr_listen P)"

text \<open>What the goroutines of the running broker do to its server.\<close>

definition work_step :: "TCPServer \<Rightarrow> TCPServer \<Rightarrow> bool" where
  "work_step S S' \<longleftrightarrow> conn_step S S' \<or> ui_step S S' \<or> clean_step S S'"

lemma work_step_frame:
  assumes "work_step S S'"
  shows "listener S' = listener S" and "quit S' = quit S" and "listener S = Unbound \<Longrightarrow> conns S = [] \<Longrightarrow> conns S' = []"
  using assms by (auto simp: work_step_def ui_step_def elim!: conn_step.cases clean_step.cases)

lemma work_step_inv:
  assumes "work_step S S'" and "server_inv S"
  shows "server_inv S'"
proof -
  have "grown Map.empty (srv_handler S)" by (simp add: grown_def)
  with assms conn_step_inv [of S S'] node_step_inv [of S S'] clean_step_inv [of S S'] show ?thesis
    by (auto simp: node_step_def work_step_def)
qed

lemma life_inv_work:
  assumes "work_step (pr_server P) S" and "life_inv P" and "alive P"
  shows "life_inv (P\<lparr>pr_server := S\<rparr>)"
  using work_step_frame [OF assms(1)] work_step_inv [OF assms(1)] assms(2,3)
  by (cases "pr_phase P") (auto simp: life_inv_def alive_def)

lemma Start_frame:
  assumes "Start bind S = (S', err)" and "listener S = Unbound"
  shows "srv_handler S' = srv_handler S" and "conns S' = conns S" and "quit S' = quit S"
    and "err \<noteq> None \<longleftrightarrow> listener S' = Unbound"
  using assms by (auto simp: Start_def split: option.splits)

lemma life_step_inv:
  assumes "life_step P P'" and "life_inv P"
  shows "life_inv P'"
  using assms(1)
proof cases
  case (listen bind S err)
  then show ?thesis using assms(2) Start_frame [of bind "pr_server P" S err]
    by (cases "pr_phase P") (auto simp: life_inv_def alive_def server_inv_def)
next
  case (conn S)
  with assms(2) show ?thesis by (simp add: life_inv_work work_step_def)
next
  case (dashboard S)
  with assms(2) show ?thesis by (simp add: life_inv_work work_step_def)
next
  case (cleaner cw S)
  from cleaner(3) show ?thesis
  proof cases
    case tick
    with assms(2) cleaner show ?thesis by (simp add: life_inv_work work_step_def)
  next
    case stopped
    with cleaner assms(2) show ?thesis by (cases "pr_phase P") (auto simp: life_inv_def alive_def)
  qed
next
  case (fatal err)
  with assms(2) show ?thesis by (auto simp: life_inv_def)
next
  case signal
  with assms(2) show ?thesis by (auto simp: life_inv_def CleanerWorker_Stop_def)
next
  case stop
  with assms(2) show ?thesis by (auto simp: life_inv_def Stop_def server_inv_def)
next
  case goodbye
  with assms(2) show ?thesis by (auto simp: life_inv_def)
qed

lemma launch_inv:
  assumes "main e f = Inr bp" and "\<And>path. dir_ok 0 (s_disk e path)"
  shows "life_inv (launch bp)"
proof -
  have "broker_inv 0 (srv_handler (bp_server bp))" "conns (bp_server bp) = []"
    using main_started [OF assms(1)] started_inv [OF _ assms(2)] by blast+
  moreover have "listener (bp_server bp) = Unbound" "\<not> quit (bp_server bp)"
    using assms(1) by (auto simp: main_def assemble_def listenerTLS_def Let_def NewTCPServer_def SetTLSConfig_def
        split: option.splits sum.splits if_splits)
  ultimately show ?thesis by (simp add: launch_def life_inv_def server_inv_def CleanerWorker_Start_def)
qed

lemma life_steps_inv:
  assumes "main e f = Inr bp" and "\<And>path. dir_ok 0 (s_disk e path)" and "life_step\<^sup>*\<^sup>* (launch bp) P"
  shows "life_inv P"
  using assms(3) by (induction rule: rtranclp_induct) (auto intro: launch_inv [OF assms(1,2)] life_step_inv)

text \<open>A signal ends a process without open connections, and loses nothing.\<close>

lemma signal_exits:
  assumes "life_inv P" and "alive P" and "pr_phase P = Waiting" and "conns (pr_server P) = []"
  shows "\<exists>P'. life_step\<^sup>*\<^sup>* P P' \<and> pr_phase P' = Exited None \<and> srv_handler (pr_server P') = srv_handler (pr_server P)"
proof -
  let ?P1 = "P\<lparr>pr_cleaner := (pr_cleaner P)\<lparr>stopChan := True\<rparr>, pr_phase := StoppingCleaner\<rparr>"
  let ?P2 = "?P1\<lparr>pr_cleaner := (pr_cleaner P)\<lparr>stopChan := True, cw_wg := 0\<rparr>\<rparr>"
  let ?P3 = "?P2\<lparr>pr_ui := False, pr_server := fst (Stop (pr_server P)), pr_phase := StoppingServer\<rparr>"
  have w: "\<not> stopChan (pr_cleaner P)" "cw_wg (pr_cleaner P) = 1" "\<not> quit (pr_server P)"
    using assms(1,3) by (simp_all add: life_inv_def)
  have alive: "alive ?P1" "alive ?P2" "alive ?P3" using assms(2) w(3) by (auto simp: alive_def Stop_def)
  have 1: "life_step P ?P1" using life_step.signal [OF assms(2,3)] w(1) by (simp add: CleanerWorker_Stop_def)
  have "loop_turn (pr_cleaner ?P1, pr_server ?P1) ((pr_cleaner P)\<lparr>stopChan := True, cw_wg := 0\<rparr>, pr_server P)"
    using loop_turn.stopped [of "pr_cleaner ?P1" "pr_server P"] w(2) by simp
  from life_step.cleaner [OF alive(1) this] have 2: "life_step ?P1 ?P2" by simp
  have 3: "life_step ?P2 ?P3" using life_step.stop [OF alive(2)] by simp
  have 4: "life_step ?P3 (?P3\<lparr>pr_phase := Exited None\<rparr>)"
    using life_step.goodbye [OF alive(3)] assms(4) w(3) by (simp add: Stop_def)
  have "life_step\<^sup>*\<^sup>* P (?P3\<lparr>pr_phase := Exited None\<rparr>)"
    using 1 2 3 4 by (meson converse_rtranclp_into_rtranclp rtranclp.rtrancl_refl)
  then show ?thesis using w(3) by (intro exI [of _ "?P3\<lparr>pr_phase := Exited None\<rparr>"]) (simp add: Stop_def)
qed

text \<open>Shutting down never panics: only a request can end the process that way.\<close>

lemma crash_by_request:
  assumes "life_step P P'" and "life_inv P" and "crashed (pr_server P')"
  shows "conn_step (pr_server P) (pr_server P')"
  using assms(1)
proof cases
  case (listen bind S err)
  with assms(3) show ?thesis by (auto simp: alive_def Start_def split: if_splits option.splits)
next
  case (dashboard S)
  with assms(3) show ?thesis by (auto simp: alive_def ui_step_def)
next
  case (cleaner cw S)
  with assms(3) show ?thesis by (auto simp: alive_def elim!: loop_turn.cases clean_step.cases)
next
  case signal
  with assms(2,3) show ?thesis by (auto simp: alive_def life_inv_def CleanerWorker_Stop_def)
next
  case stop
  with assms(2,3) show ?thesis by (auto simp: alive_def life_inv_def Stop_def)
qed (use assms(3) in \<open>auto simp: alive_def\<close>)

end
