(* ===== verification/Producer_Client.thy ===== *)
theory Producer_Client
  imports Go_Text Connection Broker_Data
begin

text \<open>
  \<open>src/cmd/producer/main.go\<close>: the command line producer, which sends one record per
  connection. \<open>dial\<close> is the network: it fails or gives a connection, a function from the bytes
  written to an error of the write or to the bytes that can be read afterwards. Put
  together with the broker's connection loop, the client's success means a stored record.
\<close>

section \<open>The program\<close>

type_synonym connection = "bytes \<Rightarrow> go_error + bytes"

definition cliRecord :: "i64 \<Rightarrow> bytes \<Rightarrow> Record" where
  "cliRecord now pay = \<lparr>Offset = 0, Timestamp = now, Key = Some (bytes_of ''cli-key''), Value = Some pay\<rparr>"

definition cliHeader :: RequestHeader where
  "cliHeader = \<lparr>ApiKey = ApiKeyProduce, ApiVersion = 0, CorrelationId = 1001, ClientId = ''go-cli-producer''\<rparr>"

definition cliRequest :: "string \<Rightarrow> i32 \<Rightarrow> bytes \<Rightarrow> ProduceRequest" where
  "cliRequest topic partitionID recBytes =
     \<lparr>preq_Acks = 1, preq_Timeout = 5000,
      preq_Topics = [\<lparr>tpd_TopicName = topic,
                      tpd_Partitions = [\<lparr>ppd_PartitionId = partitionID, ppd_RecordsData = recBytes\<rparr>]\<rparr>]\<rparr>"

definition cliFrame :: "bytes \<Rightarrow> bytes" where
  "cliFrame bodyBuf =
     (let headerBuf = EncodeRequestHeader cliHeader; totalSize = of_nat (length headerBuf + length bodyBuf)
      in WriteInt32 totalSize @ headerBuf @ bodyBuf)"

definition cliReply :: "ProduceResponse reader" where
  "cliReply = rd_bind ReadInt32 (\<lambda>_. rd_bind ReadInt32 (\<lambda>_. decodeProduceResponse))"

definition cliVerdict :: "ProduceResponse \<Rightarrow> go_error option" where
  "cliVerdict resp =
     (case pres_Topics resp of
        [] \<Rightarrow> None
      | t # _ \<Rightarrow>
          (case tpr_Partitions t of
             [] \<Rightarrow> None
           | p # _ \<Rightarrow>
               if ppr_ErrorCode p \<noteq> 0
               then Some (ErrText (''broker returned error code '' @ show_int (sint (ppr_ErrorCode p))))
               else None))"

definition sendRecord ::
  "(string \<Rightarrow> go_error + connection) \<Rightarrow> i64 \<Rightarrow> string \<Rightarrow> string \<Rightarrow> i32 \<Rightarrow> bytes \<Rightarrow> go_error option" where
  "sendRecord dial now broker topic partitionID pay =
     (case dial broker of
        Inl err \<Rightarrow> Some (ErrText (''connect failed: '' @ errorText err))
      | Inr conn \<Rightarrow>
          (case conn (cliFrame (EncodeProduceRequest (cliRequest topic partitionID (Marshal (cliRecord now pay))))) of
             Inl err \<Rightarrow> Some err
           | Inr input \<Rightarrow>
               (case cliReply input of
                  (Inl err, _) \<Rightarrow> Some err
                | (Inr resp, _) \<Rightarrow> cliVerdict resp)))"

text \<open>
  The interactive mode: what is sent for a line of input (nothing for a blank line), and the
  outcome of each send. \<open>int32\<close> cuts the partition flag to 32 bits.
\<close>

fun interactive ::
  "(nat \<Rightarrow> string \<Rightarrow> go_error + connection) \<Rightarrow> (nat \<Rightarrow> i64) \<Rightarrow> string \<Rightarrow> string \<Rightarrow> int \<Rightarrow> nat \<Rightarrow> string list \<Rightarrow>
   go_error option list" where
  "interactive dial clock broker topic part k [] = []"
| "interactive dial clock broker topic part k (line # lines) =
     (let txt = TrimSpace line
      in if txt \<noteq> ''''
         then sendRecord (dial k) (clock k) broker topic (of_int part) (bytes_of txt) #
              interactive dial clock broker topic part (k + 1) lines
         else interactive dial clock broker topic part k lines)"

text \<open>\<open>main\<close> from the parsed flags: the fatal message, or the outcome of every send.\<close>

record cli_flags =
  c_broker :: string
  c_topic :: string
  c_partition :: int
  c_msg :: string

definition cliDefaults :: cli_flags where
  "cliDefaults = \<lparr>c_broker = ''127.0.0.1:9092'', c_topic = ''queuing.b2b.nvr.alarm'', c_partition = 0, c_msg = ''''\<rparr>"

definition producerMain ::
  "(nat \<Rightarrow> string \<Rightarrow> go_error + connection) \<Rightarrow> (nat \<Rightarrow> i64) \<Rightarrow> cli_flags \<Rightarrow> string list \<Rightarrow> string + go_error option list" where
  "producerMain dial clock f lines =
     (if c_msg f \<noteq> ''''
      then case sendRecord (dial 0) (clock 0) (c_broker f) (c_topic f) (of_int (c_partition f)) (bytes_of (c_msg f)) of
             Some err \<Rightarrow> Inl (''[Error] Failed to send message: '' @ errorText err)
           | None \<Rightarrow> Inr [None]
      else Inr (interactive dial clock (c_broker f) (c_topic f) (c_partition f) 0 lines))"

text \<open>One outcome for every line that is not blank.\<close>

lemma length_interactive:
  "length (interactive dial clock broker topic part k lines) = length (filter (\<lambda>l. TrimSpace l \<noteq> '''') lines)"
  by (induction lines arbitrary: k) (simp_all add: Let_def)


section \<open>Client and broker\<close>

text \<open>A connection to a broker whose socket writes succeed.\<close>

definition brokerConn :: "env \<Rightarrow> Handler \<Rightarrow> connection" where
  "brokerConn e h input = Inr (conn_out (snd (Handle (\<lambda>_. e) (\<lambda>_. 3) (NewConnectionHandler input h))))"

definition brokerAfter :: "env \<Rightarrow> Handler \<Rightarrow> bytes \<Rightarrow> Handler" where
  "brokerAfter e h input = handler (snd (Handle (\<lambda>_. e) (\<lambda>_. 3) (NewConnectionHandler input h)))"

lemma cliFrame_request:
  "cliFrame b = requestFrame (cliHeader, b)"
  by (simp add: cliFrame_def requestFrame_def WriteInt32_def Let_def)

lemma requests_served:
  assumes "list_all request_ok rs" and "serveAll (\<lambda>_. e) 0 rs NewSASLSession h = (as, err, s', h')"
  shows "brokerConn e h (concat (map requestFrame rs)) = Inr (concat (map responseFrame as))"
    and "brokerAfter e h (concat (map requestFrame rs)) = h'"
proof -
  let ?c = "NewConnectionHandler (concat (map requestFrame rs)) h"
  obtain f c' where run: "Handle (\<lambda>_. e) (\<lambda>_. 3) ?c = (f, c')" by (metis prod.exhaust)
  have req: "requestsOf (conn_in ?c) = rs"
    using requestsOf_frames [OF assms(1), of "[]"] by (simp add: NewConnectionHandler_def)
  from Handle_refines [OF run] assms(2) have "conn_out c' = concat (map responseFrame as)" "handler c' = h'"
    unfolding refines_run_def req by (auto simp: NewConnectionHandler_def)
  with run show "brokerConn e h (concat (map requestFrame rs)) = Inr (concat (map responseFrame as))"
    and "brokerAfter e h (concat (map requestFrame rs)) = h'"
    by (simp_all add: brokerConn_def brokerAfter_def)
qed

lemma one_request_served:
  assumes "request_ok (hdr, b)" and "HandleRequest e hdr b (Some NewSASLSession) h = (Inr ans, Some s', h')"
  shows "brokerConn e h (requestFrame (hdr, b)) = Inr (responseFrame (CorrelationId hdr, ans))"
    and "brokerAfter e h (requestFrame (hdr, b)) = h'"
  using requests_served [of "[(hdr, b)]" e h "[(CorrelationId hdr, ans)]" None s' h'] assms by simp_all

text \<open>A request that is refused before login: the broker closes the connection without an answer.\<close>

lemma one_request_refused:
  assumes "request_ok (hdr, b)" and "saslBlocked h (Some NewSASLSession)" and "ApiKey hdr = ApiKeyProduce"
  shows "brokerConn e h (requestFrame (hdr, b)) = Inr []" and "brokerAfter e h (requestFrame (hdr, b)) = h"
proof -
  obtain err where "HandleRequest e hdr b (Some NewSASLSession) h = (Inl err, Some NewSASLSession, h)"
    using assms(2,3) by (simp add: HandleRequest_def ApiKey_defs)
  then have "serveAll (\<lambda>_. e) 0 [(hdr, b)] NewSASLSession h = ([], Some err, NewSASLSession, h)" by simp
  from requests_served [OF _ this] assms(1)
  show "brokerConn e h (requestFrame (hdr, b)) = Inr []" and "brokerAfter e h (requestFrame (hdr, b)) = h" by simp_all
qed

lemma cliReply_nothing: "cliReply [] = (Inl EOF, [])"
  by (simp add: cliReply_def rd_bind_def ReadInt32_def ReadFull_def)

lemma cliReply_response:
  assumes "pres_ok resp"
  shows "cliReply (responseFrame (cid, EncodeProduceResponse resp) @ rest) = (Inr resp, rest)"
  using pres.dec_enc [OF assms, of rest]
  by (simp add: cliReply_def responseFrame_def codec_simps flip: WriteInt32_def)

text \<open>The limits of the protocol leave room for payloads up to a kilobyte below the field limit.\<close>

lemma cli_sizes:
  assumes "isValidTopicName t" and "length pay + 1024 \<le> maxProtocolFieldBytes"
  shows "record_ok (cliRecord now pay)" and "small_bytes (Marshal (cliRecord now pay))"
    and "request_ok (cliHeader, EncodeProduceRequest (cliRequest t i (Marshal (cliRecord now pay))))"
proof -
  let ?r = "cliRecord now pay"
  show ok: "record_ok ?r" using assms(2) by (simp add: record_ok_def cliRecord_def optLen_def maxProtocolFieldBytes_def)
  have len: "length (Marshal ?r) = 35 + length pay" using ok by (simp add: length_Marshal cliRecord_def optLen_def)
  then show "small_bytes (Marshal ?r)" using assms(2) by (simp add: small_bytes_def maxProtocolFieldBytes_def)
  have "length t \<le> 249" using assms(1) by (simp add: isValidTopicName_def)
  then show "request_ok (cliHeader, EncodeProduceRequest (cliRequest t i (Marshal ?r)))"
    using len assms(2)
    by (simp add: request_ok_def header_ok_def cliHeader_def EncodeRequestHeader_def EncodeProduceRequest_def cliRequest_def
        WriteArray_def EncodeTopicProduceData_def EncodePartitionProduceData_def WriteString_def WriteInt16_def WriteInt32_def
        WriteBytes_def maxProtocolFieldBytes_def maxRequestFrameBytes_def small_string_def split: if_splits)
qed

lemma cliRequest_one: "cliRequest t i data = one_partition 1 5000 t i data"
  by (simp add: cliRequest_def one_partition_def)

lemma cli_answered:
  assumes "isValidTopicName t" and "length pay + 1024 \<le> maxProtocolFieldBytes" and "\<not> saslBlocked h (Some NewSASLSession)"
    and "handleProduce e (EncodeProduceRequest (one_partition 1 5000 t i (Marshal (cliRecord now pay)))) (Some NewSASLSession) h =
      (Inr (EncodeProduceResponse resp), h')" and "pres_ok resp" and "dial broker = Inr (brokerConn e h)"
  shows "sendRecord dial now broker t i pay = cliVerdict resp"
    and "brokerAfter e h (cliFrame (EncodeProduceRequest (cliRequest t i (Marshal (cliRecord now pay))))) = h'"
proof -
  have key: "ApiKey cliHeader = ApiKeyProduce" by (simp add: cliHeader_def)
  note one = one_request_served [OF cli_sizes(3) [OF assms(1,2), of i now, unfolded cliRequest_one]
      HandleRequest_Produce [OF assms(3) key assms(4)]]
  from one cliReply_response [OF assms(5), of _ "[]"] assms(6)
  show "sendRecord dial now broker t i pay = cliVerdict resp"
    and "brokerAfter e h (cliFrame (EncodeProduceRequest (cliRequest t i (Marshal (cliRecord now pay))))) = h'"
    by (simp_all add: sendRecord_def cliFrame_request cliRequest_one)
qed

lemma cli_refused:
  assumes "isValidTopicName t" and "length pay + 1024 \<le> maxProtocolFieldBytes" and "saslBlocked h (Some NewSASLSession)"
    and "dial broker = Inr (brokerConn e h)"
  shows "sendRecord dial now broker t i pay = Some EOF"
    and "brokerAfter e h (cliFrame (EncodeProduceRequest (cliRequest t i (Marshal (cliRecord now pay))))) = h"
  unfolding sendRecord_def cliFrame_request
  using one_request_refused [OF cli_sizes(3) [OF assms(1,2), of i now] assms(3), of e] assms(4) cliReply_nothing
  by (simp_all add: cliHeader_def)

lemma handleProduce_refused:
  assumes "isValidTopicName t" and "small_bytes data" and "\<not> authorizeTopic h s t ''Write''"
  shows "handleProduce e (EncodeProduceRequest (one_partition acks timeout t i data)) s h =
    (Inr (EncodeProduceResponse \<lparr>pres_Topics = [\<lparr>tpr_TopicName = t, tpr_Partitions = [\<lparr>ppr_PartitionId = i,
       ppr_ErrorCode = errCodeTopicAuthorizationFailed, ppr_BaseOffset = -1, ppr_LogAppendTime = -1\<rparr>]\<rparr>]\<rparr>), h)"
  unfolding handleProduce_def decode_one_partition [OF assms(1,2)]
  using assms(3) by (simp add: one_partition_def produceTopic_def act_bind_def act_lift_def act_get_def act_return_def)

end
