(* ===== verification/Load_Generator.thy ===== *)
theory Load_Generator
  imports Producer_Client
begin

text \<open>
  \<open>src/cmd/stress_test/main.go\<close>: workers that send records over one connection each and
  count what happened. For a worker, which writes succeed, the bytes its connection returns,
  the clock and the measured latencies are arguments. The counters are atomic and only grow,
  so the order in which workers update them does not matter; the workers are run one after
  the other here. The positions of the percentiles, which the code computes with \<open>float64\<close>,
  are arguments; progress reports and printing are left out.
\<close>

section \<open>The program\<close>

record StressMetrics =
  sentCount :: u64
  failedCount :: u64
  bytesCount :: u64
  latencies :: "int list"

definition RecordSuccess :: "u64 \<Rightarrow> StressMetrics \<Rightarrow> StressMetrics" where
  "RecordSuccess bs m = m\<lparr>sentCount := sentCount m + 1, bytesCount := bytesCount m + bs\<rparr>"

definition RecordFailure :: "StressMetrics \<Rightarrow> StressMetrics" where
  "RecordFailure m = m\<lparr>failedCount := failedCount m + 1\<rparr>"

definition MergeWorkerLatencies :: "int list \<Rightarrow> StressMetrics \<Rightarrow> StressMetrics" where
  "MergeWorkerLatencies lats m = m\<lparr>latencies := latencies m @ lats\<rparr>"

definition stressRecord :: "i64 \<Rightarrow> int \<Rightarrow> nat \<Rightarrow> bytes \<Rightarrow> Record" where
  "stressRecord now workerID i pay =
     \<lparr>Offset = 0, Timestamp = now, Key = Some (bytes_of (''w'' @ show_int workerID @ ''-k'' @ show_int (int i))), Value = Some pay\<rparr>"

definition stressHeader :: "int \<Rightarrow> nat \<Rightarrow> RequestHeader" where
  "stressHeader workerID i =
     \<lparr>ApiKey = ApiKeyProduce, ApiVersion = 0, CorrelationId = of_int (workerID * 1000000 + int i), ClientId = ''stress-tester''\<rparr>"

definition stressRequest :: "string \<Rightarrow> bytes \<Rightarrow> ProduceRequest" where
  "stressRequest topic recBytes =
     \<lparr>preq_Acks = 1, preq_Timeout = 5000,
      preq_Topics = [\<lparr>tpd_TopicName = topic, tpd_Partitions = [\<lparr>ppd_PartitionId = 0, ppd_RecordsData = recBytes\<rparr>]\<rparr>]\<rparr>"

record worker_env =
  w_now :: "nat \<Rightarrow> i64"
  w_writeOk :: "nat \<Rightarrow> bool"
  w_lat :: "nat \<Rightarrow> int"

definition stressFrame :: "worker_env \<Rightarrow> string \<Rightarrow> int \<Rightarrow> bytes \<Rightarrow> nat \<Rightarrow> bytes" where
  "stressFrame e topic workerID pay i =
     (let bodyBuf = EncodeProduceRequest (stressRequest topic (Marshal (stressRecord (w_now e i) workerID i pay)));
          headerBuf = EncodeRequestHeader (stressHeader workerID i);
          totalSize = of_nat (length headerBuf + length bodyBuf)
      in WriteInt32 totalSize @ headerBuf @ bodyBuf)"

text \<open>One iteration: the metrics, the latencies so far and the unread input.\<close>

definition workerStep ::
  "worker_env \<Rightarrow> int \<Rightarrow> bytes \<Rightarrow> nat \<Rightarrow> StressMetrics \<times> int list \<times> bytes \<Rightarrow> StressMetrics \<times> int list \<times> bytes" where
  "workerStep e workerID pay i st =
     (case st of (m, localLats, input) \<Rightarrow>
        if \<not> w_writeOk e i then (RecordFailure m, localLats, input)
        else case cliReply input of
               (Inl err, rest) \<Rightarrow> (RecordFailure m, localLats, rest)
             | (Inr resp, rest) \<Rightarrow>
                 (RecordSuccess (of_nat (length (Marshal (stressRecord (w_now e i) workerID i pay)))) m,
                  localLats @ [w_lat e i], rest))"

text \<open>\<open>conn\<close> is the input of the connection, or nothing if it could not be opened.\<close>

definition runWorker :: "worker_env \<Rightarrow> bytes option \<Rightarrow> int \<Rightarrow> nat \<Rightarrow> bytes \<Rightarrow> StressMetrics \<Rightarrow> StressMetrics" where
  "runWorker e conn workerID n pay m =
     (case conn of
        None \<Rightarrow> (RecordFailure ^^ n) m
      | Some input \<Rightarrow>
          (case fold (workerStep e workerID pay) [0..<n] (m, [], input) of
             (m', localLats, _) \<Rightarrow> MergeWorkerLatencies localLats m'))"

text \<open>What the worker writes to the connection: it never waits for an answer to decide what to send.\<close>

definition workerOutput :: "worker_env \<Rightarrow> string \<Rightarrow> int \<Rightarrow> bytes \<Rightarrow> nat \<Rightarrow> bytes" where
  "workerOutput e topic workerID pay n = concat (map (stressFrame e topic workerID pay) (filter (w_writeOk e) [0..<n]))"

text \<open>Go's integer division truncates; division by zero panics.\<close>

definition msgsPerWorker :: "int \<Rightarrow> int \<Rightarrow> int option" where
  "msgsPerWorker countFlag workersFlag =
     (if workersFlag = 0 then None
      else let n = sgn countFlag * sgn workersFlag * (abs countFlag div abs workersFlag) in Some (if n \<le> 0 then 1 else n))"

definition noMetrics :: StressMetrics where
  "noMetrics = \<lparr>sentCount = 0, failedCount = 0, bytesCount = 0, latencies = []\<rparr>"

definition runWorkers ::
  "(nat \<Rightarrow> worker_env) \<Rightarrow> (nat \<Rightarrow> bytes option) \<Rightarrow> int \<Rightarrow> nat \<Rightarrow> bytes \<Rightarrow> StressMetrics" where
  "runWorkers es conns workersFlag n pay =
     fold (\<lambda>w. runWorker (es w) (conns w) (int w) n pay) [0..<nat workersFlag] noMetrics"

text \<open>Minimum, maximum, average and two percentiles of the latencies; the sum is a 64-bit integer.\<close>

record latency_stats =
  minLat :: int
  maxLat :: int
  avgLat :: int
  p95Lat :: int
  p99Lat :: int

definition latencyStats :: "(nat \<Rightarrow> nat) \<Rightarrow> (nat \<Rightarrow> nat) \<Rightarrow> int list \<Rightarrow> latency_stats" where
  "latencyStats idx95 idx99 ls =
     (if ls = [] then \<lparr>minLat = 0, maxLat = 0, avgLat = 0, p95Lat = 0, p99Lat = 0\<rparr>
      else let lats = sort ls; n = length lats; sumLat = sint (foldl (+) 0 (map of_int lats) :: i64)
           in \<lparr>minLat = lats ! 0, maxLat = lats ! (n - 1),
               avgLat = sgn sumLat * (abs sumLat div int n),
               p95Lat = lats ! idx95 n, p99Lat = lats ! idx99 n\<rparr>)"

text \<open>The progress report of a second: the increments and the time since the last report.\<close>

record progress =
  lastCount :: u64
  lastBytes :: u64
  lastTime :: int

definition progressTick :: "int \<Rightarrow> StressMetrics \<Rightarrow> progress \<Rightarrow> progress \<times> u64 \<times> u64 \<times> int" where
  "progressTick now m p =
     (let currCount = sentCount m; currBytes = bytesCount m; elapsed = now - lastTime p
      in (\<lparr>lastCount = currCount, lastBytes = currBytes, lastTime = now\<rparr>,
          currCount - lastCount p, currBytes - lastBytes p, elapsed))"

record stress_flags =
  sf_broker :: string
  sf_topic :: string
  sf_workers :: int
  sf_messages :: int
  sf_payloadSize :: int

definition stressDefaults :: stress_flags where
  "stressDefaults = \<lparr>sf_broker = ''127.0.0.1:9092'', sf_topic = ''stress.test.topic'', sf_workers = 20,
     sf_messages = 1000000, sf_payloadSize = 256\<rparr>"

record stress_report =
  totalSent :: u64
  totalFailed :: u64
  totalBytes :: u64
  latencyReport :: latency_stats

text \<open>
  \<open>main\<close> from the parsed flags to the report. \<open>bytes.Repeat\<close>, the division and \<open>make\<close> panic on
  a negative size, no workers and a negative count. The connection of a worker depends on the
  broker's address and what the worker writes.
\<close>

definition stressMain ::
  "(nat \<Rightarrow> worker_env) \<Rightarrow> (nat \<Rightarrow> string \<Rightarrow> bytes \<Rightarrow> bytes option) \<Rightarrow> (nat \<Rightarrow> nat) \<Rightarrow> (nat \<Rightarrow> nat) \<Rightarrow> stress_flags \<Rightarrow>
   stress_report option" where
  "stressMain es dial idx95 idx99 f =
     (if sf_payloadSize f < 0 then None
      else let payload = replicate (nat (sf_payloadSize f)) 65
           in case msgsPerWorker (sf_messages f) (sf_workers f) of
                None \<Rightarrow> None
              | Some n \<Rightarrow>
                  if sf_messages f < 0 then None
                  else let conns = (\<lambda>w. dial w (sf_broker f)
                             (workerOutput (es w) (sf_topic f) (int w) payload (nat n)));
                           metrics = runWorkers es conns (sf_workers f) (nat n) payload
                       in Some \<lparr>totalSent = sentCount metrics, totalFailed = failedCount metrics,
                                totalBytes = bytesCount metrics,
                                latencyReport = latencyStats idx95 idx99 (latencies metrics)\<rparr>)"


section \<open>Nothing is lost in the count\<close>

lemma workerStep_counts:
  assumes "workerStep e w pay i (m, ls, inp) = (m', ls', inp')"
  shows "sentCount m' + failedCount m' = sentCount m + failedCount m + 1 \<and>
    of_nat (length ls') - sentCount m' = (of_nat (length ls) - sentCount m :: u64) \<and> latencies m' = latencies m"
  using assms
  by (auto simp: workerStep_def RecordFailure_def RecordSuccess_def split: if_splits prod.splits sum.splits)

lemma workerSteps_counts:
  assumes "fold (workerStep e w pay) is (m, ls, inp) = (m', ls', inp')"
  shows "sentCount m' + failedCount m' = sentCount m + failedCount m + of_nat (length is) \<and>
    of_nat (length ls') - sentCount m' = (of_nat (length ls) - sentCount m :: u64) \<and> latencies m' = latencies m"
  using assms
proof (induction "is" arbitrary: m ls inp)
  case (Cons i "is")
  obtain m1 ls1 inp1 where st: "workerStep e w pay i (m, ls, inp) = (m1, ls1, inp1)" by (metis prod_cases3)
  with Cons.IH [of m1 ls1 inp1] Cons.prems workerStep_counts [OF st] show ?case by (simp add: add.assoc)
qed simp

lemma RecordFailure_times:
  "sentCount ((RecordFailure ^^ n) m) = sentCount m \<and> failedCount ((RecordFailure ^^ n) m) = failedCount m + of_nat n \<and>
   latencies ((RecordFailure ^^ n) m) = latencies m"
  by (induction n) (simp_all add: RecordFailure_def)

lemma runWorker_counts:
  defines "m' e conn w n pay m \<equiv> runWorker e conn w n pay m"
  shows "sentCount (m' e conn w n pay m) + failedCount (m' e conn w n pay m) = sentCount m + failedCount m + of_nat n \<and>
    of_nat (length (latencies (m' e conn w n pay m))) - sentCount (m' e conn w n pay m) =
      (of_nat (length (latencies m)) - sentCount m :: u64)"
proof (cases conn)
  case None
  then show ?thesis using RecordFailure_times [of n m] by (simp add: m'_def runWorker_def)
next
  case (Some inp)
  obtain m1 ls inp1 where st: "fold (workerStep e w pay) [0..<n] (m, [], inp) = (m1, ls, inp1)" by (metis prod_cases3)
  from workerSteps_counts [OF st] Some st show ?thesis
    by (simp add: m'_def runWorker_def MergeWorkerLatencies_def algebra_simps)
qed

lemma runWorkers_counts:
  "sentCount (runWorkers es conns workers n pay) + failedCount (runWorkers es conns workers n pay) = of_nat (nat workers * n) \<and>
   of_nat (length (latencies (runWorkers es conns workers n pay))) = sentCount (runWorkers es conns workers n pay)"
proof -
  have "sentCount m' + failedCount m' = sentCount m + failedCount m + of_nat (length ws * n) \<and>
      of_nat (length (latencies m')) - sentCount m' = (of_nat (length (latencies m)) - sentCount m :: u64)"
    if "fold (\<lambda>w. runWorker (es w) (conns w) (int w) n pay) ws m = m'" for ws m m'
    using that
  proof (induction ws arbitrary: m)
    case (Cons w ws)
    let ?m1 = "runWorker (es w) (conns w) (int w) n pay m"
    have ih: "sentCount m' + failedCount m' = sentCount ?m1 + failedCount ?m1 + of_nat (length ws * n)"
      "of_nat (length (latencies m')) - sentCount m' = (of_nat (length (latencies ?m1)) - sentCount ?m1 :: u64)"
      using Cons by simp_all
    note c = runWorker_counts [of "es w" "conns w" "int w" n pay m]
    have "sentCount m' + failedCount m' = sentCount m + failedCount m + of_nat n + of_nat (length ws * n)"
      using ih(1) c by simp
    with ih(2) c show ?case by simp
  qed simp
  from this [of "[0..<nat workers]" noMetrics, OF refl] show ?thesis
    by (simp add: runWorkers_def noMetrics_def)
qed

text \<open>
  The report accounts for every message a worker was given; this is the number asked for
  exactly if the workers divide it, and too many if there are more workers than messages.
\<close>

lemma stressMain_totals:
  assumes "stressMain es dial idx95 idx99 f = Some r" and "0 < sf_workers f"
  shows "totalSent r + totalFailed r = of_int (sf_workers f * max 1 (sf_messages f div sf_workers f))"
proof -
  have pos: "0 \<le> sf_messages f" using assms(1) by (auto simp: stressMain_def Let_def split: if_splits option.splits)
  then have n: "msgsPerWorker (sf_messages f) (sf_workers f) = Some (max 1 (sf_messages f div sf_workers f))"
    using assms(2) by (cases "sf_messages f = 0") (auto simp: msgsPerWorker_def Let_def sgn_if max_def)
  have "totalSent r + totalFailed r =
      of_nat (nat (sf_workers f) * nat (max 1 (sf_messages f div sf_workers f)))"
    using assms(1) n runWorkers_counts by (auto simp: stressMain_def Let_def split: if_splits)
  then show ?thesis using assms(2) by (simp add: nat_mult_distrib [symmetric] of_nat_nat)
qed

lemma stress_total_exact:
  assumes "0 < w" and "0 < m"
  shows "w * max 1 (m div w) = m \<longleftrightarrow> w dvd (m :: int)"
proof (cases "m < w")
  case True
  with assms show ?thesis by (auto simp: zdvd_not_zless)
next
  case False
  then have "1 \<le> m div w" using assms by (simp add: pos_imp_zdiv_pos_iff int_one_le_iff_zero_less)
  then show ?thesis by (simp add: max_def) (metis dvd_mult_div_cancel dvd_triv_left)
qed

section \<open>A worker and the broker\<close>

definition stressReq :: "worker_env \<Rightarrow> string \<Rightarrow> int \<Rightarrow> bytes \<Rightarrow> nat \<Rightarrow> RequestHeader \<times> bytes" where
  "stressReq e topic w pay i =
     (stressHeader w i, EncodeProduceRequest (one_partition 1 5000 topic 0 (Marshal (stressRecord (w_now e i) w i pay))))"

lemma stressFrame_request: "stressFrame e topic w pay i = requestFrame (stressReq e topic w pay i)"
  by (simp add: stressFrame_def stressReq_def requestFrame_def stressRequest_def one_partition_def WriteInt32_def Let_def)

text \<open>Answers of the broker are read one by one, whatever they say.\<close>

definition produce_answer :: "i32 \<times> bytes \<Rightarrow> bool" where
  "produce_answer a \<longleftrightarrow> (\<exists>resp. pres_ok resp \<and> snd a = EncodeProduceResponse resp)"

lemma worker_reads:
  assumes "list_all produce_answer as" and "\<And>i. w_writeOk e i"
  shows "\<exists>m' ls'. fold (workerStep e w pay) [k..<k + length as] (m, ls, concat (map responseFrame as) @ rest) = (m', ls', rest) \<and>
    sentCount m' = sentCount m + of_nat (length as) \<and> failedCount m' = failedCount m"
  using assms(1)
proof (induction as arbitrary: k m ls)
  case (Cons a as)
  then obtain resp where "pres_ok resp" "a = (fst a, EncodeProduceResponse resp)" by (auto simp: produce_answer_def) (metis prod.collapse)
  then have rd: "cliReply (responseFrame a @ concat (map responseFrame as) @ rest) = (Inr resp, concat (map responseFrame as) @ rest)"
    using cliReply_response by metis
  let ?m = "RecordSuccess (of_nat (length (Marshal (stressRecord (w_now e k) w k pay)))) m"
  have step: "workerStep e w pay k (m, ls, concat (map responseFrame (a # as)) @ rest) =
      (?m, ls @ [w_lat e k], concat (map responseFrame as) @ rest)"
    using rd assms(2) by (simp add: workerStep_def)
  have up: "[k..<k + length (a # as)] = k # [Suc k..<Suc k + length as]" by (simp add: upt_conv_Cons del: upt_Suc)
  from Cons.IH [of "Suc k" ?m "ls @ [w_lat e k]"] Cons.prems show ?case
    unfolding up using step by (auto simp: RecordSuccess_def)
qed simp

lemma runWorker_reads:
  assumes "list_all produce_answer as" and "\<And>i. w_writeOk e i" and "length as = n"
  shows "sentCount (runWorker e (Some (concat (map responseFrame as))) w n pay m) = sentCount m + of_nat n \<and>
    failedCount (runWorker e (Some (concat (map responseFrame as))) w n pay m) = failedCount m"
  using worker_reads [OF assms(1,2), where k = 0 and m = m and ls = "[]" and rest = "[]" and w = w and pay = pay] assms(3)
  by (auto simp: runWorker_def MergeWorkerLatencies_def)

text \<open>The sizes of a request: payloads up to a kilobyte below the field limit.\<close>

lemma length_show_int:
  assumes "0 \<le> i" and "i < 10 ^ 18"
  shows "length (show_int i) \<le> 18"
proof -
  have "n < 10 ^ Suc k \<Longrightarrow> length (show_nat n) \<le> Suc k" for n k
  proof (induction k arbitrary: n)
    case 0
    then show ?case by (simp add: show_nat.simps)
  next
    case (Suc k)
    then have "n div 10 < 10 ^ Suc k" by simp
    from Suc.IH [OF this] show ?case by (subst show_nat.simps) simp
  qed
  from this [of "nat i" 17] show ?thesis using assms by (simp add: show_int_def)
qed

lemma stress_sizes:
  assumes "isValidTopicName t" and "length pay + 1024 \<le> maxProtocolFieldBytes"
    and "0 \<le> w" and "w < 10 ^ 18" and "i < 10 ^ 18"
  shows "record_ok (stressRecord now w i pay)" and "small_bytes (Marshal (stressRecord now w i pay))"
    and "request_ok (stressHeader w i, EncodeProduceRequest (one_partition 1 5000 t 0 (Marshal (stressRecord now w i pay))))"
proof -
  let ?r = "stressRecord now w i pay"
  have k: "optLen (Key ?r) \<le> 39"
    using length_show_int [OF assms(3,4)] length_show_int [of "int i"] assms(5) by (simp add: stressRecord_def optLen_def)
  have v: "optLen (Value ?r) = length pay" by (simp add: stressRecord_def optLen_def)
  show ok: "record_ok ?r" using assms(2) k v by (simp add: record_ok_def maxProtocolFieldBytes_def)
  have len: "length (Marshal ?r) \<le> 67 + length pay" using length_Marshal [OF ok] k v by simp
  then show "small_bytes (Marshal ?r)" using assms(2) by (simp add: small_bytes_def maxProtocolFieldBytes_def)
  have "length t \<le> 249" using assms(1) by (simp add: isValidTopicName_def)
  then show "request_ok (stressHeader w i, EncodeProduceRequest (one_partition 1 5000 t 0 (Marshal ?r)))"
    using len assms(2)
    by (simp add: request_ok_def header_ok_def stressHeader_def EncodeRequestHeader_def EncodeProduceRequest_def one_partition_def
        WriteArray_def EncodeTopicProduceData_def EncodePartitionProduceData_def WriteString_def WriteInt16_def WriteInt32_def
        WriteBytes_def maxProtocolFieldBytes_def maxRequestFrameBytes_def small_string_def split: if_splits)
qed

section \<open>What the broker stores\<close>

abbreviation anon :: "SASLSession option" where
  "anon \<equiv> Some NewSASLSession"

lemma stress_stored:
  assumes srv: "served b (length (snd (stressReq e t w pay i)) + n) h" and t: "isValidTopicName t"
    and op: "openable h (partitionKey t 0)" and ok: "\<not> saslBlocked h anon" "authorizeTopic h anon t ''Write''"
    and sz: "length pay + 1024 \<le> maxProtocolFieldBytes" "0 \<le> w" "w < 10 ^ 18" "i < 10 ^ 18"
  shows "\<exists>p p' h' time.
    HandleRequest b (fst (stressReq e t w pay i)) (snd (stressReq e t w pay i)) anon h =
      (Inr (EncodeProduceResponse (produced t 0 (LEO p) time)), anon, h') \<and>
    found_log b h (partitionKey t 0) p \<and> log_of h' (partitionKey t 0) = Some p' \<and>
    log_records p' = log_records p @ [(stressRecord (w_now e i) w i pay)\<lparr>Offset := LEO p\<rparr>] \<and> LEO p' = LEO p + 1 \<and>
    same_setup h h' \<and> served b n h'"
proof -
  let ?r = "stressRecord (w_now e i) w i pay" and ?q = "stressReq e t w pay i"
  note size = stress_sizes [OF t sz, of "w_now e i"]
  have one: "marshal_all [?r] = Marshal ?r" by simp
  have "1 \<le> length (snd ?q)" by (simp add: stressReq_def EncodeProduceRequest_def WriteInt16_def)
  then have "length [?r] \<le> length (snd ?q) + n" by simp
  from handleProduce_run [OF srv t op ok(2) _ this, where acks = 1 and timeout = 5000] size(1,2) obtain p p' h' time where
    run: "handleProduce b (snd ?q) anon h = (Inr (EncodeProduceResponse (produced t 0 (LEO p) time)), h')"
    and p: "found_log b h (partitionKey t 0) p" "log_of h' (partitionKey t 0) = Some p'"
      "log_records p' = log_records p @ numbered (LEO p) [?r]" "LEO p' = LEO p + of_nat (length [?r])" "same_setup h h'"
    unfolding one stressReq_def by auto
  have key: "ApiKey (fst ?q) = ApiKeyProduce" by (simp add: stressReq_def stressHeader_def)
  note hr = HandleRequest_Produce [OF ok(1) key run]
  have "length (snd ?q) < 2 ^ 31"
    using size(3) by (simp add: stressReq_def request_ok_def maxRequestFrameBytes_def)
  moreover have "session_inv NewSASLSession" by (simp add: session_inv_def NewSASLSession_def)
  ultimately have "served b n h'"
    using HandleRequest_served [OF _ _ _ hr, of n] srv by (simp add: key request_appends_def)
  with hr p show ?thesis by auto
qed

definition stressAppends :: "worker_env \<Rightarrow> string \<Rightarrow> int \<Rightarrow> bytes \<Rightarrow> nat list \<Rightarrow> nat" where
  "stressAppends e t w pay is = sum_list (map (\<lambda>i. length (snd (stressReq e t w pay i))) is)"

lemma produced_answer: "isValidTopicName t \<Longrightarrow> produce_answer (c, EncodeProduceResponse (produced t i base time))"
  using topic_small [of t] by (auto simp: produce_answer_def pres_ok_def tpr_ok_def produced_def intro!: exI)

lemma stress_all_stored:
  assumes "served b (stressAppends e t w pay is + n) h" and "isValidTopicName t" and "openable h (partitionKey t 0)"
    and "\<not> saslBlocked h anon" and "authorizeTopic h anon t ''Write''"
    and "length pay + 1024 \<le> maxProtocolFieldBytes" and "0 \<le> w" and "w < 10 ^ 18" and "\<forall>i \<in> set is. i < 10 ^ 18" and "is \<noteq> []"
  shows "\<exists>as h' p p'. serveAll (\<lambda>_. b) k (map (stressReq e t w pay) is) NewSASLSession h = (as, None, NewSASLSession, h') \<and>
    list_all produce_answer as \<and> length as = length is \<and>
    found_log b h (partitionKey t 0) p \<and> log_of h' (partitionKey t 0) = Some p' \<and>
    log_records p' = log_records p @ numbered (LEO p) (map (\<lambda>i. stressRecord (w_now e i) w i pay) is)"
  using assms
proof (induction "is" arbitrary: k h)
  case (Cons i "is")
  let ?q = "stressReq e t w pay i" and ?k = "partitionKey t 0"
  have srv: "served b (length (snd ?q) + (stressAppends e t w pay is + n)) h"
    using Cons.prems(1) by (simp add: stressAppends_def add.assoc)
  from stress_stored [OF srv Cons.prems(2-8)] Cons.prems(9) obtain p p1 h1 time where
    1: "HandleRequest b (fst ?q) (snd ?q) anon h = (Inr (EncodeProduceResponse (produced t 0 (LEO p) time)), anon, h1)"
      "found_log b h ?k p" "log_of h1 ?k = Some p1"
      "log_records p1 = log_records p @ [(stressRecord (w_now e i) w i pay)\<lparr>Offset := LEO p\<rparr>]" "LEO p1 = LEO p + 1"
      "same_setup h h1" "served b (stressAppends e t w pay is + n) h1"
    by auto
  note rules = same_setup_rules [OF 1(6)]
  have op: "openable h1 ?k" using 1(3) by (simp add: openable_def is_open_def log_of_def)
  have same: "q = p1" if "found_log b h1 ?k q" for q using that 1(3) by (simp add: found_log_def)
  obtain as h' p' where
    2: "serveAll (\<lambda>_. b) (Suc k) (map (stressReq e t w pay) is) NewSASLSession h1 = (as, None, NewSASLSession, h')"
      "list_all produce_answer as" "length as = length is" "log_of h' ?k = Some p'"
      "log_records p' = log_records p1 @ numbered (LEO p1) (map (\<lambda>i. stressRecord (w_now e i) w i pay) is)"
  proof (cases "is = []")
    case True
    with that [of "[]" h1 p1] 1(3) show thesis by simp
  next
    case False
    with Cons.IH [OF 1(7) Cons.prems(2) op, of "Suc k"] Cons.prems(4-9) rules same that show thesis by auto
  qed
  let ?a = "(CorrelationId (fst ?q), EncodeProduceResponse (produced t 0 (LEO p) time))"
  have "serveAll (\<lambda>_. b) k (map (stressReq e t w pay) (i # is)) NewSASLSession h = (?a # as, None, NewSASLSession, h')"
    using 1(1) 2(1) by simp
  then show ?case
    using 2(2-5) 1(2,4,5) produced_answer [OF Cons.prems(2)]
    by (intro exI [of _ "?a # as"] exI [of _ h'] exI [of _ p] exI [of _ p']) simp
qed simp

text \<open>Without permission every request is answered with an error code, and nothing is stored.\<close>

lemma stress_all_refused:
  assumes "isValidTopicName t" and "\<not> saslBlocked h anon" and "\<not> authorizeTopic h anon t ''Write''"
    and "length pay + 1024 \<le> maxProtocolFieldBytes" and "0 \<le> w" and "w < 10 ^ 18" and "\<forall>i \<in> set is. i < 10 ^ 18"
  shows "\<exists>as. serveAll (\<lambda>_. b) k (map (stressReq e t w pay) is) NewSASLSession h = (as, None, NewSASLSession, h) \<and>
    list_all produce_answer as \<and> length as = length is"
  using assms(7)
proof (induction "is" arbitrary: k)
  case (Cons i "is")
  let ?q = "stressReq e t w pay i"
  let ?resp = "\<lparr>pres_Topics = [\<lparr>tpr_TopicName = t, tpr_Partitions = [\<lparr>ppr_PartitionId = 0,
       ppr_ErrorCode = errCodeTopicAuthorizationFailed, ppr_BaseOffset = -1, ppr_LogAppendTime = -1\<rparr>]\<rparr>]\<rparr>"
  have sm: "small_bytes (Marshal (stressRecord (w_now e i) w i pay))"
    using Cons.prems by (intro stress_sizes(2) [OF assms(1,4-6)]) simp
  have "handleProduce b (snd ?q) anon h = (Inr (EncodeProduceResponse ?resp), h)"
    unfolding stressReq_def snd_conv by (rule handleProduce_refused [OF assms(1) sm assms(3)])
  then have hr: "HandleRequest b (fst ?q) (snd ?q) anon h = (Inr (EncodeProduceResponse ?resp), anon, h)"
    by (intro HandleRequest_Produce [OF assms(2)]) (simp_all add: stressReq_def stressHeader_def)
  have ok: "produce_answer (c, EncodeProduceResponse ?resp)" for c
    using topic_small [OF assms(1)] by (auto simp: produce_answer_def pres_ok_def tpr_ok_def intro!: exI)
  from Cons.IH [of "Suc k"] Cons.prems obtain as where
    "serveAll (\<lambda>_. b) (Suc k) (map (stressReq e t w pay) is) NewSASLSession h = (as, None, NewSASLSession, h)"
    "list_all produce_answer as" "length as = length is" by auto
  with hr ok show ?case
    by (intro exI [of _ "(CorrelationId (fst ?q), EncodeProduceResponse ?resp) # as"]) simp
qed simp

end
