(* ===== verification/Program_Properties.thy ===== *)
theory Program_Properties
  imports Process_Life Load_Generator Ui_Properties
begin

text \<open>
  Properties of whole programs: the broker from its command line (\<open>src/cmd/broker\<close>), the
  producer client (\<open>src/cmd/producer\<close>) and the load generator (\<open>src/cmd/stress_test\<close>) talking to
  it.
\<close>

section \<open>The producer client\<close>

text \<open>
  C6: The command line producer, which never logs in, connected without TLS to a broker whose
  partition is open or can be opened, with a payload that leaves a kilobyte of the field limit:
  if the broker requires a login, the producer gets no answer and reports the end of the
  stream, and the broker is unchanged. If no login is required and the rules
  allow anonymous writes to the topic, it reports success and the partition's log has grown by
  exactly one record, with the payload, the key \<open>cli-key\<close> and the client's clock; if they do
  not, it reports the broker's error code 29 and the broker is unchanged.
\<close>

theorem cli_producer_delivers:
  assumes "served e n h" and "1 \<le> n" and "isValidTopicName t" and "openable h (partitionKey t i)"
    and "length pay + 1024 \<le> maxProtocolFieldBytes" and "dial broker = Inr (brokerConn e h)"
    and "h' = brokerAfter e h (cliFrame (EncodeProduceRequest (cliRequest t i (Marshal (cliRecord now pay)))))"
  shows "if saslBlocked h (Some NewSASLSession)
    then sendRecord dial now broker t i pay = Some EOF \<and> h' = h
    else if authorizeTopic h (Some NewSASLSession) t ''Write''
    then sendRecord dial now broker t i pay = None \<and>
      (\<exists>p p'. found_log e h (partitionKey t i) p \<and> log_of h' (partitionKey t i) = Some p' \<and> log_inv p' \<and>
         log_records p' = log_records p @ [(cliRecord now pay)\<lparr>Offset := LEO p\<rparr>])
    else sendRecord dial now broker t i pay = Some (ErrText ''broker returned error code 29'') \<and> h' = h"
proof (cases "saslBlocked h (Some NewSASLSession)")
  case True
  from cli_refused [where dial = dial and broker = broker and now = now and i = i, OF assms(3,5) True assms(6)] assms(7) True
  show ?thesis by simp
next
  case login: False
  note answered = cli_answered [where dial = dial and broker = broker, OF assms(3,5) login _ _ assms(6)]
  show ?thesis
  proof (cases "authorizeTopic h (Some NewSASLSession) t ''Write''")
    case True
    note sz = cli_sizes [OF assms(3,5), where now = now]
    have one: "marshal_all [cliRecord now pay] = Marshal (cliRecord now pay)" by simp
    from handleProduce_run [OF assms(1,3,4) True, where rs = "[cliRecord now pay]" and acks = 1 and timeout = 5000] sz(1,2) assms(2) obtain p p' h1 time where
      run: "handleProduce e (EncodeProduceRequest (one_partition 1 5000 t i (Marshal (cliRecord now pay)))) (Some NewSASLSession) h =
          (Inr (EncodeProduceResponse (produced t i (LEO p) time)), h1)"
      and p: "found_log e h (partitionKey t i) p" "log_of h1 (partitionKey t i) = Some p'" "log_inv p'"
        "log_records p' = log_records p @ numbered (LEO p) [cliRecord now pay]"
      unfolding one by auto
    have ok: "pres_ok (produced t i (LEO p) time)" "cliVerdict (produced t i (LEO p) time) = None"
      using topic_small [OF assms(3)] by (simp_all add: pres_ok_def tpr_ok_def produced_def cliVerdict_def)
    from answered [OF run ok(1)] ok(2) p True assms(7) login show ?thesis by auto
  next
    case False
    note run = handleProduce_refused [OF assms(3) cli_sizes(2) [OF assms(3,5), where now = now] False,
        where e = e and acks = 1 and timeout = 5000 and i = i]
    let ?resp = "\<lparr>pres_Topics = [\<lparr>tpr_TopicName = t, tpr_Partitions = [\<lparr>ppr_PartitionId = i,
         ppr_ErrorCode = errCodeTopicAuthorizationFailed, ppr_BaseOffset = -1, ppr_LogAppendTime = -1\<rparr>]\<rparr>]\<rparr>"
    have code: "show_int 29 = ''29''" by code_simp
    have ok: "pres_ok ?resp" "cliVerdict ?resp = Some (ErrText ''broker returned error code 29'')"
      using topic_small [OF assms(3)]
      by (simp_all add: pres_ok_def tpr_ok_def cliVerdict_def errCodeTopicAuthorizationFailed_def code)
    from answered [OF run ok(1)] ok(2) False assms(7) login show ?thesis by simp
  qed
qed

theorem cli_producer_delivers_witness:
  "sendRecord (\<lambda>_. Inr (brokerConn calm_env fresh_broker)) 5 ''127.0.0.1:9092'' ''t'' 0 (bytes_of ''hi'') = None \<and>
   (\<exists>p'. log_of (brokerAfter calm_env fresh_broker
        (cliFrame (EncodeProduceRequest (cliRequest ''t'' 0 (Marshal (cliRecord 5 (bytes_of ''hi''))))))) (partitionKey ''t'' 0) = Some p' \<and>
      Value (last (log_records p')) = Some (bytes_of ''hi''))"
proof -
  have srv: "served calm_env 1 fresh_broker" by (rule fresh_served) simp
  have len: "length (bytes_of ''hi'') + 1024 \<le> maxProtocolFieldBytes" by (simp add: maxProtocolFieldBytes_def)
  from cli_producer_delivers [OF srv _ topic_t fresh_setup(3) len _ refl,
      where dial = "\<lambda>_. Inr (brokerConn calm_env fresh_broker)" and broker = "''127.0.0.1:9092''" and i = 0 and now = 5]
  show ?thesis using fresh_setup(2) by (auto simp: cliRecord_def)
qed

section \<open>The broker's command line\<close>

text \<open>
  C7: The broker process, started on a disk whose partition directories are well-formed,
  whatever its flags are: in every state that clients, the cleaner, dashboard requests and
  signals lead it to, interleaved in any way but each request, cleaning cycle and dashboard
  request running to its end (dashboard reads that overlap are excluded; see
  \<open>overlapping_reads_destroy_record\<close>), the invariant of the broker holds; only a request can make
  the process panic, shutting down never does; a process that failed to bind its address has
  served nobody; one that says goodbye has no open connection and no running cleaner; and a
  signal ends a process without open connections, keeping the broker's state.
\<close>

theorem started_broker_keeps_invariant:
  assumes "main e f = Inr bp" and "\<And>path. dir_ok 0 (s_disk e path)" and "life_step\<^sup>*\<^sup>* (launch bp) P"
  shows "server_inv (pr_server P) \<and>
    (\<forall>P'. life_step P P' \<longrightarrow> crashed (pr_server P') \<longrightarrow> conn_step (pr_server P) (pr_server P')) \<and>
    (\<forall>t. pr_phase P = Exited (Some t) \<longrightarrow> listener (pr_server P) = Unbound \<and> conns (pr_server P) = []) \<and>
    (pr_phase P = Exited None \<longrightarrow> conns (pr_server P) = [] \<and> cw_wg (pr_cleaner P) = 0) \<and>
    (alive P \<longrightarrow> pr_phase P = Waiting \<longrightarrow> conns (pr_server P) = [] \<longrightarrow>
       (\<exists>P'. life_step\<^sup>*\<^sup>* P P' \<and> pr_phase P' = Exited None \<and> srv_handler (pr_server P') = srv_handler (pr_server P)))"
proof -
  note inv = life_steps_inv [OF assms]
  have "listener (pr_server P) = Unbound \<and> conns (pr_server P) = []" if "pr_phase P = Exited (Some t)" for t
    using inv that by (auto simp: life_inv_def)
  moreover have "server_inv (pr_server P)" using inv by (simp add: life_inv_def)
  moreover have "conns (pr_server P) = [] \<and> cw_wg (pr_cleaner P) = 0" if "pr_phase P = Exited None"
    using inv that by (simp add: life_inv_def)
  ultimately show ?thesis using crash_by_request [OF _ inv] signal_exits [OF inv] by blast
qed

definition toy_crypto :: crypto where
  "toy_crypto =
     \<lparr>LoadX509KeyPair = (\<lambda>c k. Inr (bytes_of c)), GenerateKey = (\<lambda>n. Inr [of_nat n]),
      CreateCertificate = (\<lambda>t p pub priv. Inr (pub @ priv)), PublicKey = (\<lambda>priv. priv), MarshalPKCS1PrivateKey = (\<lambda>priv. priv),
      EncodeToMemory = (\<lambda>t b. bytes_of t @ b), X509KeyPair = (\<lambda>c k. Inr (c @ k))\<rparr>"

definition quiet_start :: start_env where
  "quiet_start =
     \<lparr>s_salt = (\<lambda>_. Inr [7]), s_quote = (\<lambda>s. s), s_crypto = toy_crypto, s_disk = (\<lambda>_. Map.empty), s_tlsNow1 = 0,
      s_tlsNow2 = 0, s_now1 = 0, s_now2 = 0\<rparr>"

lemma quiet_start_simps [simp]:
  "s_salt quiet_start k = Inr [7]" "s_crypto quiet_start = toy_crypto" "dir_ok 0 (s_disk quiet_start path)"
  by (simp_all add: quiet_start_def dir_ok_def)

lemma default_port: "Atoi (f_port defaultFlags) = Some 9092"
  by (simp add: defaultFlags_def) code_simp

theorem started_broker_keeps_invariant_witness:
  "\<exists>bp P. main quiet_start defaultFlags = Inr bp \<and> life_step\<^sup>*\<^sup>* (launch bp) P \<and> pr_phase P = Exited None"
proof -
  obtain bp where bp: "main quiet_start defaultFlags = Inr bp"
    using main_runs [OF default_port, where us = "[]" and rs = "[]" and e = quiet_start] by (auto simp: defaultFlags_def)
  have "alive (launch bp)" "pr_phase (launch bp) = Waiting" "conns (pr_server (launch bp)) = []"
    using bp by (auto simp: launch_def alive_def main_def assemble_def listenerTLS_def Let_def NewTCPServer_def SetTLSConfig_def
        split: option.splits sum.splits if_splits)
  with started_broker_keeps_invariant [OF bp quiet_start_simps(3) rtranclp.rtrancl_refl] bp show ?thesis by blast
qed

text \<open>
  C8: The users and rules written into the flags are those the broker starts with. For lists
  of users and rules that are written as the flags' help says, with a valid port, working
  random numbers and a TLS certificate if TLS is on, the broker starts; a listed user is known with the
  password of the last entry for the name, nobody else has an account, the rules are the
  listed ones in order, login is required exactly if the flag says so, the dashboard
  shares this state, and the listener uses TLS, 1.2 or newer, exactly if the flag says so.
\<close>

theorem startup_accounts_and_rules:
  assumes "Atoi (f_port f) = Some prt" and "list_all user_ok us" and "list_all rule_ok rs"
    and "f_saslUsers f = commaJoin (map userText us)" and "f_aclRules f = commaJoin (map ruleText rs)"
    and "\<And>k. \<exists>salt. s_salt e k = Inr salt"
    and "f_tls f \<Longrightarrow> \<exists>cfg. CreateTLSConfig (s_crypto e) (s_tlsNow1 e) (s_tlsNow2 e) (f_tlsCert f) (f_tlsKey f) = Inr cfg"
  shows "\<exists>bp h. main e f = Inr bp \<and> h = srv_handler (bp_server bp) \<and>
    saslRequired h = f_saslEnabled f \<and> rules (aclManager h) = rs \<and>
    (\<forall>u pw. map_of (rev us) u = Some pw \<longrightarrow> knows_password (saslAuth h) u pw) \<and>
    (\<forall>u. u \<notin> fst ` set us \<longrightarrow> (\<forall>pw. \<not> knows_password (saslAuth h) u pw)) \<and>
    (\<forall>ui. bp_ui bp = Some ui \<longrightarrow> ui_handler ui = h) \<and>
    (case tlsConfig (bp_server bp) of None \<Rightarrow> \<not> f_tls f | Some cfg \<Rightarrow> f_tls f \<and> MinVersion cfg = VersionTLS12)"
proof -
  from main_runs [OF assms] obtain bp where bp: "main e f = Inr bp" by blast
  let ?h = "srv_handler (bp_server bp)"
  have u: "map userOf (entriesOf (f_saslUsers f)) = us"
    using entriesOf_commaJoin [of "map userText us"] assms(2,4)
    by (simp add: list_all_iff user_ok_def map_idI userOf_text)
  have r: "map ruleOf (entriesOf (f_aclRules f)) = rs"
    using entriesOf_commaJoin [of "map ruleText rs"] assms(3,5)
    by (simp add: list_all_iff rule_ok_def map_idI ruleOf_text)
  note s = main_started [OF bp]
  have st: "saslRequired ?h = f_saslEnabled f" "rules (aclManager ?h) = rs" "accounts us NewSASLAuthenticator (saslAuth ?h)"
    using conjunct1 [OF s] u r unfolding started_def by auto
  have "knows_password (saslAuth ?h) v pw" if "map_of (rev us) v = Some pw" for v pw
    using st(3) that unfolding accounts_def by (metis option.simps(5))
  moreover have "\<not> knows_password (saslAuth ?h) v pw" if "v \<notin> fst ` set us" for v pw
  proof -
    have "map_of (rev us) v = None" using that by (simp add: map_of_eq_None_iff)
    then have "mget (credentials (saslAuth ?h)) v = None"
      using st(3) unfolding accounts_def by (metis NewSASLAuthenticator_def SASLAuthenticator.select_convs(1) map_of.simps(1) option.simps(4))
    then show ?thesis by (simp add: knows_password_def)
  qed
  moreover have "case tlsConfig (bp_server bp) of None \<Rightarrow> \<not> f_tls f | Some cfg \<Rightarrow> f_tls f \<and> MinVersion cfg = VersionTLS12"
    using main_tls [OF bp] assms(7) by (cases "f_tls f") (auto dest: CreateTLSConfig_sound)
  ultimately show ?thesis using bp st(1,2) s by blast
qed

theorem startup_accounts_and_rules_witness:
  "\<exists>bp. main quiet_start (defaultFlags\<lparr>f_saslUsers := ''al:pw'', f_saslEnabled := True, f_tls := True\<rparr>) = Inr bp \<and>
    knows_password (saslAuth (srv_handler (bp_server bp))) ''al'' ''pw'' \<and>
    \<not> knows_password (saslAuth (srv_handler (bp_server bp))) ''admin'' ''admin'' \<and> tlsConfig (bp_server bp) \<noteq> None"
proof -
  let ?f = "defaultFlags\<lparr>f_saslUsers := ''al:pw'', f_saslEnabled := True, f_tls := True\<rparr>"
  have port: "Atoi (f_port ?f) = Some 9092" using default_port by simp
  have us: "list_all user_ok [(''al'', ''pw'')]"
    by (simp add: user_ok_def clean_entry_def userText_def solid_def)
  have fl: "f_saslUsers ?f = commaJoin (map userText [(''al'', ''pw'')])" "f_aclRules ?f = commaJoin (map ruleText [])"
    by (simp_all add: userText_def defaultFlags_def)
  have "\<exists>cfg. CreateTLSConfig toy_crypto n m c k = Inr cfg" for n m c k
    by (simp add: CreateTLSConfig_def GenerateSelfSignedTLSConfig_def Let_def toy_crypto_def)
  with startup_accounts_and_rules [OF port us _ fl, of quiet_start] show ?thesis
    by (fastforce simp: quiet_start_simps split: option.splits)
qed

section \<open>The load generator\<close>

text \<open>
  C37: A worker of the load generator alone on a broker it is not logged in to. It counts all
  its messages as sent and none as failed, in two cases: if anonymous writes to the topic are
  allowed, the log has grown by exactly its records, in order; if they are not, the broker is
  unchanged. The worker never looks at the error code of an answer.
\<close>

theorem load_worker_counts:
  assumes "served b (stressAppends e t w pay [0..<n]) h" and "isValidTopicName t" and "openable h (partitionKey t 0)"
    and "\<not> saslBlocked h (Some NewSASLSession)" and "length pay + 1024 \<le> maxProtocolFieldBytes"
    and "0 \<le> w" and "w < 10 ^ 18" and "0 < n" and "n < 10 ^ 18" and "\<And>i. w_writeOk e i"
    and "brokerConn b h (workerOutput e t w pay n) = Inr input"
    and "h' = brokerAfter b h (workerOutput e t w pay n)"
  shows "sentCount (runWorker e (Some input) w n pay m) = sentCount m + of_nat n \<and>
    failedCount (runWorker e (Some input) w n pay m) = failedCount m \<and>
    (if authorizeTopic h (Some NewSASLSession) t ''Write''
     then \<exists>p p'. found_log b h (partitionKey t 0) p \<and> log_of h' (partitionKey t 0) = Some p' \<and>
       log_records p' = log_records p @ numbered (LEO p) (map (\<lambda>i. stressRecord (w_now e i) w i pay) [0..<n])
     else h' = h)"
proof -
  have lt: "\<forall>i \<in> set [0..<n]. i < 10 ^ 18" using assms(9) by auto
  have fr: "workerOutput e t w pay n = concat (map requestFrame (map (stressReq e t w pay) [0..<n]))"
    using assms(10) stressFrame_request unfolding workerOutput_def map_map
    by (intro arg_cong [where f = concat] map_cong) simp_all
  have ok: "list_all request_ok (map (stressReq e t w pay) [0..<n])"
    using stress_sizes(3) [OF assms(2,5-7)] assms(9) by (simp add: list_all_iff stressReq_def)
  obtain as h1 where
    srv: "serveAll (\<lambda>_. b) 0 (map (stressReq e t w pay) [0..<n]) NewSASLSession h = (as, None, NewSASLSession, h1)"
      "list_all produce_answer as" "length as = n"
    and res: "if authorizeTopic h (Some NewSASLSession) t ''Write''
      then \<exists>p p'. found_log b h (partitionKey t 0) p \<and> log_of h1 (partitionKey t 0) = Some p' \<and>
        log_records p' = log_records p @ numbered (LEO p) (map (\<lambda>i. stressRecord (w_now e i) w i pay) [0..<n])
      else h1 = h"
  proof (cases "authorizeTopic h (Some NewSASLSession) t ''Write''")
    case True
    from stress_all_stored [of b e t w pay "[0..<n]" 0 h 0, OF _ assms(2-4) True assms(5-7) lt] assms(1,8) obtain as h1 where
      "serveAll (\<lambda>_. b) 0 (map (stressReq e t w pay) [0..<n]) NewSASLSession h = (as, None, NewSASLSession, h1)"
      "list_all produce_answer as" "length as = n"
      "\<exists>p p'. found_log b h (partitionKey t 0) p \<and> log_of h1 (partitionKey t 0) = Some p' \<and>
        log_records p' = log_records p @ numbered (LEO p) (map (\<lambda>i. stressRecord (w_now e i) w i pay) [0..<n])"
      by auto
    with that [of as h1] True show ?thesis by presburger
  next
    case False
    with stress_all_refused [OF assms(2,4) False assms(5-7) lt, of b 0 e] that show ?thesis by auto
  qed
  note con = requests_served [OF ok srv(1)]
  have "input = concat (map responseFrame as)" using con(1) assms(11) unfolding fr by simp
  moreover have "h' = h1" using con(2) assms(12) unfolding fr by simp
  ultimately show ?thesis using runWorker_reads [OF srv(2) assms(10) srv(3), of w pay m] res by (simp only: simp_thms)
qed

definition idle_worker :: worker_env where
  "idle_worker = \<lparr>w_now = (\<lambda>_. 0), w_writeOk = (\<lambda>_. True), w_lat = (\<lambda>_. 1)\<rparr>"

theorem load_worker_counts_witness:
  "\<exists>input p'. brokerConn calm_env fresh_broker (workerOutput idle_worker ''t'' 0 [65] 2) = Inr input \<and>
    sentCount (runWorker idle_worker (Some input) 0 2 [65] noMetrics) = 2 \<and>
    log_of (brokerAfter calm_env fresh_broker (workerOutput idle_worker ''t'' 0 [65] 2)) (partitionKey ''t'' 0) = Some p' \<and>
    2 \<le> length (log_records p')"
proof -
  let ?fs = "workerOutput idle_worker ''t'' 0 [65] 2"
  have len: "length (snd (stressReq idle_worker ''t'' 0 [65] i)) < 2 ^ 31" if "i < 2" for i
    using stress_sizes(3) [OF topic_t, of "[65]" 0 i 0] that
    by (simp add: stressReq_def request_ok_def maxRequestFrameBytes_def maxProtocolFieldBytes_def idle_worker_def)
  have "stressAppends idle_worker ''t'' 0 [65] [0..<2] < 2 ^ 64"
    using len [of 0] len [of 1] by (simp add: stressAppends_def upt_rec)
  then have srv: "served calm_env (stressAppends idle_worker ''t'' 0 [65] [0..<2]) fresh_broker" by (rule fresh_served)
  obtain input where inp: "brokerConn calm_env fresh_broker ?fs = Inr input" by (simp add: brokerConn_def)
  have pay: "length [65 :: byte] + 1024 \<le> maxProtocolFieldBytes" by (simp add: maxProtocolFieldBytes_def)
  from load_worker_counts [OF srv topic_t fresh_setup(3,2) pay _ _ _ _ _ inp refl, of noMetrics]
  show ?thesis using inp by (auto simp: idle_worker_def noMetrics_def)
qed

end
