(* ===== verification/Spec2Isabelle.thy ===== *)
theory Spec2Isabelle
  imports
    Storage_Properties
    Protocol_Properties
    Coordinator_Properties
    Broker_Properties
    Concurrency_Properties
    Ui_Properties
    Json_Properties
    Program_Properties
begin

text \<open>
  A verification development for kafka-golang, a message broker that speaks the Kafka wire
  protocol (\<open>src/\<close>).

  \<^bold>\<open>The program.\<close> A TCP server reads frames, decodes a request header and dispatches to a
  handler. Produce requests append records to the log of a topic partition, Fetch requests
  stream bytes of the log back. A partition log is a list of segments on disk, each a log
  file and a sparse index. A cleaner removes old segments and compacts closed ones. Consumer
  groups, committed offsets and transactions live in in-memory coordinators. Access control
  rules decide which principal may touch which resource. A dashboard shows topics, messages,
  groups and rates over HTTP and a WebSocket. Three commands start the broker, a producer and
  a load generator. Replication and election state are packages of their own that the broker
  process does not start.

  \<^bold>\<open>The theories\<close>, prelude first:

  \<^item> \<open>Go_Base\<close>: Go's fixed-width integers as words, byte order, decimal printing and parsing,
    errors (a run-time panic is the error \<open>Panic\<close>), and the reader monad for \<open>io.Reader\<close>.
    \<open>Go_Map\<close>: Go's maps as association lists, iteration orders, keys built with
    \<open>fmt.Sprintf\<close>. \<open>Go_Text\<close>: \<open>strconv.Atoi\<close>, \<open>strings.TrimSpace\<close>, \<open>strings.SplitN\<close>.
  \<^item> \<open>Wire\<close> (\<open>protocol/header.go\<close>): primitive readers and writers, length bounds, headers,
    and the locales \<open>wire_codec\<close> (round trip) and \<open>framed_codec\<close> (round trip and rejection of
    truncated input). \<open>Messages_Data\<close> (\<open>produce.go\<close>, \<open>fetch.go\<close>, \<open>metadata.go\<close>,
    \<open>api_version.go\<close>, and the client's response decoder) and \<open>Messages_Group\<close>
    (\<open>group.go\<close>, \<open>offset.go\<close>, \<open>transaction.go\<close>, \<open>sasl.go\<close>) define every message and
    interpret the locales for them.
  \<^item> \<open>Log_Record\<close> (\<open>storage/record.go\<close>, \<open>transaction_marker.go\<close>), \<open>Log_Index\<close>
    (\<open>index.go\<close>; the locale \<open>rightmost_search\<close> for both binary searches), \<open>Log_Segment\<close>
    (\<open>segment.go\<close>, \<open>zero_copy.go\<close>), \<open>Partition_Log\<close> and \<open>Partition_Reads\<close>
    (\<open>partition_log.go\<close>), \<open>Commit_Log\<close> (the locale \<open>commit_log\<close>, the contract of a partition
    towards its clients, interpreted on \<open>PartitionLog\<close>; reopening), \<open>Cleaner\<close>
    (\<open>cleaner.go\<close> and \<open>PartitionLog.CompactSegments\<close>).
  \<^item> \<open>Offset_Manager\<close>, \<open>Group_Coordinator\<close>, \<open>Txn_Coordinator\<close> (\<open>coordinator/\<close>),
    \<open>Replication\<close> (\<open>replication/\<close>), \<open>Kraft\<close> (\<open>consensus/kraft.go\<close>), \<open>Acl\<close>
    (\<open>security/acl.go\<close>).
  \<^item> \<open>Go_Crypto\<close>: SHA-256, HMAC and base64 as the standard library computes them. \<open>Sasl\<close>
    (\<open>security/sasl.go\<close>, \<open>scram.go\<close>): users, sessions, the PLAIN and SCRAM-SHA-256
    exchanges; the locale \<open>login_guard\<close>, interpreted on a session fed with messages.
    \<open>Tls\<close> (\<open>security/tls.go\<close>): where the listener's certificate comes from.
  \<^item> \<open>Go_State\<close>: actions on a shared state that may fail, and triples \<open>holds P m Q R\<close> for them.
    \<open>Handler\<close> (\<open>server/handler.go\<close>): the broker's state and every API handler.
    \<open>Broker_Files\<close> (paths, sizes), \<open>Broker_Invariant\<close> (the invariant \<open>broker_inv\<close> through
    every handler), \<open>Broker_Access\<close> (who may change what), \<open>Broker_Data\<close> (runs of Produce
    and Fetch). \<open>Connection\<close> (\<open>server/connection.go\<close>): the loop that serves a client.
    \<open>Server\<close> (\<open>server/tcp_server.go\<close>): listener, connections and cleaner as step relations.
  \<^item> Below the granularity of a request: \<open>Log_Calls\<close> (the calls of all goroutines on one partition
    in any order), \<open>Concurrent_Produce\<close> (the loops of several Produce requests, interleaved record
    by record, and a fetch between two appends), \<open>Concurrent_Reads\<close> (overlapping calls of
    \<open>Segment.Read\<close>, interleaved access by access over the shared file handle).
  \<^item> \<open>Ui_Metrics\<close>, \<open>Ui_Websocket\<close>, \<open>Ui_Server\<close> (\<open>ui/metrics.go\<close>, \<open>websocket.go\<close>,
    \<open>server.go\<close>): counters and summaries, the WebSocket hub, the routes and their handlers.
    \<open>Go_Json\<close>: \<open>encoding/json\<close>, and a reader of JSON text after RFC 8259. \<open>Ui_Json\<close>: the structs
    with their tags, the text of every response and of a telemetry tick.
  \<^item> \<open>Startup\<close> (\<open>cmd/broker\<close>, \<open>config/config.go\<close>): from the flags to the parts of the broker;
    \<open>Process_Life\<close>: the running process, up to its end. \<open>Producer_Client\<close> (\<open>cmd/producer\<close>) and
    \<open>Load_Generator\<close> (\<open>cmd/stress_test\<close>): the clients, and both put together with the broker.
  \<^item> \<open>Storage_Properties\<close>, \<open>Protocol_Properties\<close>, \<open>Coordinator_Properties\<close>,
    \<open>Broker_Properties\<close>, \<open>Concurrency_Properties\<close>, \<open>Ui_Properties\<close>, \<open>Json_Properties\<close>,
    \<open>Program_Properties\<close>: the properties, numbered C1 and up, each with an application at a
    concrete input where it has hypotheses.

  \<^bold>\<open>State.\<close> A partition directory is a map from file names to bytes. A segment keeps what
  the Go struct keeps, and the position of its log file handle, since the code writes at
  that position and reads move it. \<open>segment_rep d s rs es\<close> says that segment \<open>s\<close> represents
  the records \<open>rs\<close> with index entries \<open>es\<close>; \<open>log_inv\<close> is the invariant of a partition and
  \<open>log_records\<close> its abstract value, the list of records on disk. Coordinators are records
  whose fields are maps. A method of the code runs under a mutex of its object, so one
  call is one step; histories are lists of calls or inductive reachability (\<open>gc_reach\<close>). The
  exception is \<open>Read\<close>, which holds only a read lock although it moves the position of the file
  handle: the sequential theories take its calls one at a time, \<open>Concurrent_Reads\<close> does not.
  The broker (\<open>Handler\<close>) holds the open partitions, the coordinators, the users and the
  access rules, and the directories of partitions that are not open. A connection holds its
  input, its output and its SASL session.

  \<^bold>\<open>Interleaving.\<close> In \<open>net_step\<close>, \<open>clean_step\<close>,
  \<open>ui_step\<close> and \<open>life_step\<close> a step serves one whole frame of one
  connection, cleans one partition, answers one dashboard request or is a step of starting and
  shutting down; the steps come in any order. Dashboard requests that overlap are therefore left
  out there. Below that, a partition is shown under any order of the calls that clients, dashboard
  and cleaner make (\<open>log_do\<close>; a cycle of the cleaner is such a sequence of calls),
  Produce requests are interleaved one append after the other (\<open>conc_step\<close>) with the
  two calls of a Fetch between any of them, and reads of a segment one file access after the other
  (\<open>read_turn\<close>).

  \<^bold>\<open>What is shown.\<close> Storage: append, read, zero-copy read, restart, recovery of
  a torn tail, compaction (every key keeps its value in the key-value table, where a null value is
  a tombstone, except that a latest value that is present but empty is lost), retention by age and
  size, and the two binary searches, against \<open>log_records\<close>. Protocol: round trips,
  rejection of truncated input, bounds and absence of panics in the decoders (\<open>make\<close>
  with a negative length panics, the guards exclude it). Coordinators: last commit wins, leaders
  are members, expiry is exact, fencing of old epochs, unique producer ids, deduplication, the
  partitions of a transaction. Replication: the high watermark, fetch positions never move back.
  Election: one vote per term under the documented use. Access control: the policy, and that every
  change a request makes is authorized, apart from those of EndTxn and InitProducerId, which
  consult no rule and whose changes are stated. SASL: logins succeed with the password (for names
  that need no \<open>saslname\<close> escape), an authenticated session was verified, the key
  derivation is that of RFC 2898, and an unauthenticated connection changes nothing. Connections:
  the loop implements its specification, answers match requests, every stream keeps the invariant.
  Data path: what was produced is fetched, also after any work of other clients, and concurrent
  batches are kept, as is what a concurrent fetch reads; a partition keeps its invariant and its
  latest values (but for the empty ones above) under any order of calls that do not overlap.
  Dashboard: it requires a login, its requests change no log if they do not overlap, the text of
  its messages page is JSON that shows the records of the log from the requested offset, none below
  the base offset, its numbers read as doubles, and a subscriber reads what is broadcast. Programs:
  the flags become users and rules, the process keeps the invariant up to its end, the producer's
  success means a stored record. Six properties show defects: a short record crashes the broker, a
  restarted SCRAM exchange takes over an identity, no heartbeat is ever accepted, the dashboard's
  lag is wrong from partition 10 on, the load generator counts refused messages as sent, and
  overlapping reads let the next append destroy a stored record.

  \<^bold>\<open>Bounds.\<close> Record sizes are limited by the 32-bit length fields (\<open>record_ok\<close>), offsets by
  64 bits and file sizes by 63 bits; hypotheses state them where an operation relies on
  them. \<open>broker_inv n\<close> reserves room for \<open>n\<close> more offsets in every partition, and
  \<open>run_appends\<close> says how many a stream of requests may need. All loops are total functions
  with a termination proof: no fuel is used.

  \<^bold>\<open>Parameters.\<close> Clocks, modification times, random bytes, the listing order of a directory,
  the text of \<open>%q\<close>, the fetch callback of the replication fetcher, which socket writes
  succeed, the calls of Go's TLS libraries, floating point positions, the texts of floating point
  numbers and of times, and the iteration orders
  of Go's maps are arguments (for a request, the record \<open>env\<close>); \<open>visits\<close> states what Go
  guarantees about an order.

  \<^bold>\<open>Not modelled.\<close> Failures of the operating system, closed file handles, data races on
  memory, and interleavings below whole requests other than those named above; the bytes of
  TLS, HTTP itself, the dashboard's static files, the digits of floating point numbers, the
  text of times, the parsing of flags by the standard library, and what is only printed.
\<close>


end
